(* ===== verification/Prelude.thy ===== *)
theory Prelude
  imports Main
begin

text \<open>
  Shared vocabulary of the development: the exceptions the code raises, the two shapes of
  result, the sequencing of state changing steps, and the list lemmas the components share.

  An Objective-C method that raises leaves the receiver as the statements before the raise
  made it. A state changing operation therefore returns either the exception \<^emph>\<open>and\<close>
  the state left behind (\<open>Inl (e, s)\<close>) or the state after it (\<open>Inr s\<close>).
  A query returns an exception or a value.
\<close>

named_theorems array_simps \<open>evaluation of the array operations inside their bounds\<close>
named_theorems inv_intros \<open>preservation of the component invariants\<close>

datatype exn =
    NSRangeException
  | NSInvalidArgumentException
  | NSInternalInconsistencyException
  | NSGenericException

type_synonym 'a res = "exn + 'a"
type_synonym 's step = "(exn \<times> 's) + 's"

fun seq :: "'s step \<Rightarrow> ('s \<Rightarrow> 's step) \<Rightarrow> 's step" where
  "seq (Inl e) f = Inl e"
| "seq (Inr s) f = f s"

text \<open>
  Some operations run a loop, or call clients, that need not return. Their result is \<open>None\<close>
  then, and the sequencing passes it on.
\<close>

type_synonym ('s, 'a) outcome = "((exn \<times> 's) + 'a) option"
type_synonym 's pstep = "('s, 's) outcome"

fun pbind :: "('s, 'a) outcome \<Rightarrow> ('a \<Rightarrow> ('s, 'b) outcome) \<Rightarrow> ('s, 'b) outcome" where
  "pbind None f = None"
| "pbind (Some (Inl e)) f = Some (Inl e)"
| "pbind (Some (Inr x)) f = f x"

lemma pbind_assoc: "pbind (pbind r f) g = pbind r (\<lambda>x. pbind (f x) g)"
  by (induction r f rule: pbind.induct) simp_all

text \<open>A query made in the state \<open>s\<close>: its exception leaves \<open>s\<close> behind.\<close>

fun attempt :: "'s \<Rightarrow> 'a res option \<Rightarrow> ('a \<Rightarrow> ('s, 'b) outcome) \<Rightarrow> ('s, 'b) outcome" where
  "attempt s None f = None"
| "attempt s (Some (Inl e)) f = Some (Inl (e, s))"
| "attempt s (Some (Inr x)) f = f x"

text \<open>Loops through these sequencings are monotone, as \<open>partial_function\<close> asks.\<close>

lemma pbind_mono [partial_function_mono]:
  assumes "mono_option B" and "\<And>y. mono_option (\<lambda>f. C y f)"
  shows "mono_option (\<lambda>f. pbind (B f) (\<lambda>y. C y f))"
proof -
  have eq: "pbind r g = Option.bind r (case_sum (\<lambda>e. Some (Inl e)) g)" for r g
    by (induction r g rule: pbind.induct) simp_all
  have "mono_option (\<lambda>f. case y of Inl e \<Rightarrow> Some (Inl e) | Inr x \<Rightarrow> C x f)" for y
    using assms(2) by (cases y) (auto intro: option.const_mono)
  then show ?thesis
    unfolding eq by (intro bind_mono assms(1))
qed

lemma attempt_mono [partial_function_mono]:
  assumes "\<And>y. mono_option (\<lambda>f. C y f)"
  shows "mono_option (\<lambda>f. attempt s r (\<lambda>y. C y f))"
proof (cases r)
  case None
  then show ?thesis by (simp add: option.const_mono)
next
  case (Some x)
  then show ?thesis using assms by (cases x) (auto intro: option.const_mono)
qed

text \<open>The state a step leaves behind, whether it raised or not.\<close>

fun final :: "'s step \<Rightarrow> 's" where
  "final (Inl (e, s)) = s"
| "final (Inr s) = s"

text \<open>A loop over an array whose body may raise: the first exception ends it.\<close>

fun for_in :: "('a \<Rightarrow> 's \<Rightarrow> 's step) \<Rightarrow> 'a list \<Rightarrow> 's \<Rightarrow> 's step" where
  "for_in f [] s = Inr s"
| "for_in f (x # xs) s = seq (f x s) (for_in f xs)"

definition returns :: "('s \<Rightarrow> bool) \<Rightarrow> 's step \<Rightarrow> bool" where
  "returns P r \<longleftrightarrow> (case r of Inl _ \<Rightarrow> False | Inr s \<Rightarrow> P s)"

lemma returns_simps [simp]:
  "returns P (Inr s) = P s"
  "returns P (Inl e) = False"
  by (simp_all add: returns_def)

lemma returns_iff: "returns P r \<longleftrightarrow> (\<exists>s. r = Inr s \<and> P s)"
  by (cases r) auto

lemma returns_mono: "returns P r \<Longrightarrow> (\<And>s. P s \<Longrightarrow> Q s) \<Longrightarrow> returns Q r"
  by (auto simp: returns_iff)

lemma returns_seq [intro]:
  "returns P r \<Longrightarrow> (\<And>s. P s \<Longrightarrow> returns Q (f s)) \<Longrightarrow> returns Q (seq r f)"
  by (cases r) auto

lemma seq_assoc: "seq (seq r f) g = seq r (\<lambda>s. seq (f s) g)"
  by (cases r) auto

lemma returns_for_in:
  assumes "P s" and "\<And>x s. x \<in> set xs \<Longrightarrow> P s \<Longrightarrow> returns P (f x s)"
  shows "returns P (for_in f xs s)"
  using assms
proof (induction xs arbitrary: s)
  case Nil
  then show ?case by simp
next
  case (Cons x xs)
  then have "returns P (f x s)" by simp
  then show ?case
    using Cons by (auto intro!: returns_seq)
qed

text \<open>A loop whose body never raises is a left fold.\<close>

lemma for_in_total: "for_in (\<lambda>x s. Inr (g x s)) xs s = Inr (fold g xs s)"
  by (induction xs arbitrary: s) simp_all

lemma for_in_append: "for_in f (xs @ ys) s = seq (for_in f xs s) (for_in f ys)"
proof (induction xs arbitrary: s)
  case Nil
  then show ?case by simp
next
  case (Cons x xs)
  then show ?case by (cases "f x s") simp_all
qed

lemma fold_invariant_set:
  "P s \<Longrightarrow> (\<And>x s. x \<in> set xs \<Longrightarrow> P s \<Longrightarrow> P (f x s)) \<Longrightarrow> P (fold f xs s)"
  by (induction xs arbitrary: s) auto

lemma take_drop_Suc: "i < length xs \<Longrightarrow> take i xs @ xs ! i # drop (Suc i) xs = xs"
  by (simp add: id_take_nth_drop [symmetric])

end
