(* ===== verification/Foundation.thy ===== *)
theory Foundation
  imports Prelude "HOL-Library.Word"
begin

text \<open>
  The part of the Foundation library the sources use: \<open>NSMutableArray\<close> with its range
  checks, \<open>NSRange\<close> and \<open>NSNotFound\<close>. An array is a list; \<open>isEqual:\<close> of the stored
  objects is equality; \<open>NSNotFound\<close> is \<open>None\<close> where the code only compares against it.
\<close>

subsection \<open>NSArray and NSMutableArray\<close>

fun indexOfObject :: "'a \<Rightarrow> 'a list \<Rightarrow> nat option" where
  "indexOfObject x [] = None"
| "indexOfObject x (y # ys) = (if y = x then Some 0 else map_option Suc (indexOfObject x ys))"

definition objectAtIndex :: "'a list \<Rightarrow> nat \<Rightarrow> 'a res" where
  "objectAtIndex xs i = (if i < length xs then Inr (xs ! i) else Inl NSRangeException)"

definition insertObject :: "'a \<Rightarrow> nat \<Rightarrow> 'a list \<Rightarrow> 'a list res" where
  "insertObject x i xs =
     (if i \<le> length xs then Inr (take i xs @ x # drop i xs) else Inl NSRangeException)"

text \<open>\<open>insertObjects:atIndexes:\<close> with the contiguous index set starting at \<open>i\<close>.\<close>

definition insertObjects :: "'a list \<Rightarrow> nat \<Rightarrow> 'a list \<Rightarrow> 'a list res" where
  "insertObjects ys i xs =
     (if i \<le> length xs then Inr (take i xs @ ys @ drop i xs) else Inl NSRangeException)"

definition removeObjectAtIndex :: "nat \<Rightarrow> 'a list \<Rightarrow> 'a list res" where
  "removeObjectAtIndex i xs =
     (if i < length xs then Inr (take i xs @ drop (Suc i) xs) else Inl NSRangeException)"

text \<open>\<open>removeObject:\<close> removes every occurrence.\<close>

definition removeObject :: "'a \<Rightarrow> 'a list \<Rightarrow> 'a list" where
  "removeObject x xs = filter (\<lambda>y. y \<noteq> x) xs"

definition lastObject :: "'a list \<Rightarrow> 'a option" where
  "lastObject xs = (if xs = [] then None else Some (last xs))"

lemma indexOfObject_None [simp]: "indexOfObject x xs = None \<longleftrightarrow> x \<notin> set xs"
  by (induction xs) auto

lemma indexOfObject_SomeD:
  "indexOfObject x xs = Some i \<Longrightarrow> i < length xs \<and> xs ! i = x \<and> x \<notin> set (take i xs)"
  by (induction xs arbitrary: i) (auto split: if_splits)

lemma indexOfObject_lt: "indexOfObject x xs = Some i \<Longrightarrow> i < length xs"
  by (simp add: indexOfObject_SomeD)

lemma indexOfObject_nth: "indexOfObject x xs = Some i \<Longrightarrow> xs ! i = x"
  by (simp add: indexOfObject_SomeD)

lemma indexOfObject_mem: "indexOfObject x xs = Some i \<Longrightarrow> x \<in> set xs"
  by (metis indexOfObject_None option.distinct(1))

lemma indexOfObject_ex: "x \<in> set xs \<Longrightarrow> \<exists>i. indexOfObject x xs = Some i"
  by (metis indexOfObject_None not_Some_eq)

lemma indexOfObject_distinct:
  "distinct xs \<Longrightarrow> i < length xs \<Longrightarrow> indexOfObject (xs ! i) xs = Some i"
proof (induction xs arbitrary: i)
  case Nil
  then show ?case by simp
next
  case (Cons a xs)
  then show ?case by (cases i) auto
qed

lemma indexOfObject_append:
  "indexOfObject x (xs @ ys) =
     (case indexOfObject x xs of
        Some i \<Rightarrow> Some i
      | None \<Rightarrow> map_option (\<lambda>i. length xs + i) (indexOfObject x ys))"
proof (induction xs)
  case Nil
  then show ?case by (cases "indexOfObject x ys") (auto simp del: indexOfObject_None)
next
  case (Cons a xs)
  then show ?case
    by (cases "indexOfObject x ys"; cases "indexOfObject x xs") (auto simp del: indexOfObject_None)
qed

lemma indexOfObject_takeWhile:
  "indexOfObject x xs = Some i \<Longrightarrow> takeWhile (\<lambda>y. y \<noteq> x) xs = take i xs"
  by (induction xs arbitrary: i) (auto split: if_splits)

lemma indexOfObject_dropWhile:
  "indexOfObject x xs = Some i \<Longrightarrow> dropWhile (\<lambda>y. y \<noteq> x) xs = drop i xs"
  by (induction xs arbitrary: i) (auto split: if_splits)

lemma takeWhile_found:
  assumes "x \<notin> set A" and "indexOfObject x items = Some i"
  shows "takeWhile (\<lambda>y. y \<noteq> x) (A @ items @ C) = A @ take i items"
proof -
  have "takeWhile (\<lambda>y. y \<noteq> x) (A @ items @ C) = A @ takeWhile (\<lambda>y. y \<noteq> x) (items @ C)"
    using assms(1) by (intro takeWhile_append2) auto
  also have "takeWhile (\<lambda>y. y \<noteq> x) (items @ C) = takeWhile (\<lambda>y. y \<noteq> x) items"
    using indexOfObject_mem[OF assms(2)] by (intro takeWhile_append1) auto
  finally show ?thesis
    using assms(2) by (simp add: indexOfObject_takeWhile)
qed

lemma dropWhile_found:
  assumes "x \<notin> set A" and "indexOfObject x items = Some i"
  shows "dropWhile (\<lambda>y. y \<noteq> x) (A @ items @ C) = drop i items @ C"
proof -
  have "dropWhile (\<lambda>y. y \<noteq> x) (A @ items @ C) = dropWhile (\<lambda>y. y \<noteq> x) (items @ C)"
    using assms(1) by (intro dropWhile_append2) auto
  also have "\<dots> = dropWhile (\<lambda>y. y \<noteq> x) items @ C"
    using indexOfObject_mem[OF assms(2)] by (intro dropWhile_append1) auto
  finally show ?thesis
    using assms(2) by (simp add: indexOfObject_dropWhile)
qed

lemma indexOfObject_remove1:
  "indexOfObject x xs = Some i \<Longrightarrow> remove1 x xs = take i xs @ drop (Suc i) xs"
  by (induction xs arbitrary: i) (auto split: if_splits)

lemma objectAtIndex_ok [array_simps]: "i < length xs \<Longrightarrow> objectAtIndex xs i = Inr (xs ! i)"
  by (simp add: objectAtIndex_def)

lemma objectAtIndex_raises [array_simps]:
  "length xs \<le> i \<Longrightarrow> objectAtIndex xs i = Inl NSRangeException"
  by (simp add: objectAtIndex_def)

lemma insertObject_ok [array_simps]:
  "i \<le> length xs \<Longrightarrow> insertObject x i xs = Inr (take i xs @ x # drop i xs)"
  by (simp add: insertObject_def)

lemma insertObjects_ok [array_simps]:
  "i \<le> length xs \<Longrightarrow> insertObjects ys i xs = Inr (take i xs @ ys @ drop i xs)"
  by (simp add: insertObjects_def)

lemma removeObjectAtIndex_ok [array_simps]:
  "i < length xs \<Longrightarrow> removeObjectAtIndex i xs = Inr (take i xs @ drop (Suc i) xs)"
  by (simp add: removeObjectAtIndex_def)

lemma set_insert_at: "set (take i xs @ x # drop i xs) = insert x (set xs)"
proof -
  have "set (take i xs @ drop i xs) = set xs" by simp
  then show ?thesis by (auto simp del: append_take_drop_id)
qed

lemma distinct_insert_at:
  "distinct (take i xs @ x # drop i xs) \<longleftrightarrow> distinct xs \<and> x \<notin> set xs"
proof -
  have "distinct (take i xs @ x # drop i xs) \<longleftrightarrow> distinct (x # (take i xs @ drop i xs))"
    by (auto simp del: append_take_drop_id)
  then show ?thesis by auto
qed

lemma distinct_remove_at: "distinct xs \<Longrightarrow> distinct (take i xs @ drop (Suc i) xs)"
  by (auto simp: set_take_disj_set_drop_if_distinct)

lemma set_remove_at:
  assumes "distinct xs" and "i < length xs"
  shows "set (take i xs @ drop (Suc i) xs) = set xs - {xs ! i}"
proof -
  have xs: "xs = take i xs @ xs ! i # drop (Suc i) xs"
    using assms(2) by (simp add: id_take_nth_drop)
  from assms(1) have "xs ! i \<notin> set (take i xs @ drop (Suc i) xs)"
    by (subst (asm) xs) auto
  moreover have "set xs = insert (xs ! i) (set (take i xs @ drop (Suc i) xs))"
    by (subst xs) auto
  ultimately show ?thesis by auto
qed

text \<open>Removing one element shifts the positions behind it by one.\<close>

lemma removeObject_at:
  assumes "distinct xs" and "indexOfObject x xs = Some i"
  shows "removeObject x xs = take i xs @ drop (Suc i) xs"
  using indexOfObject_remove1[OF assms(2)] distinct_remove1_removeAll[OF assms(1), of x]
  by (simp add: removeObject_def removeAll_filter_not_eq eq_commute)

lemma indexOfObject_split:
  assumes "distinct (pre @ x # post)"
  shows "indexOfObject x (pre @ x # post) = Some (length pre)"
  using indexOfObject_distinct[OF assms, of "length pre"] by (simp add: nth_append)

lemma indexOfObject_after_removal:
  assumes "distinct xs" and "x \<noteq> y"
    and "indexOfObject x xs = Some f" and "indexOfObject y xs = Some t"
  shows "indexOfObject y (removeObject x xs) = Some (if f < t then t - 1 else t)"
proof -
  let ?ys = "take f xs @ drop (Suc f) xs"
  let ?k = "if f < t then t - 1 else t"
  have f: "f < length xs" "xs ! f = x" and t: "t < length xs" "xs ! t = y"
    using assms(3,4) by (auto dest: indexOfObject_lt indexOfObject_nth)
  have "f \<noteq> t"
    using f t assms(2) by auto
  then have "?k < length ?ys" and "?ys ! ?k = y"
    using f t by (auto simp: nth_append min_def)
  then have "indexOfObject y ?ys = Some ?k"
    using indexOfObject_distinct[of ?ys ?k] distinct_remove_at[OF assms(1)] by metis
  then show ?thesis
    using removeObject_at[OF assms(1,3)] by simp
qed

lemma removeObject_set [simp]: "set (removeObject x xs) = set xs - {x}"
  by (auto simp: removeObject_def)

lemma removeObject_distinct [simp]: "distinct xs \<Longrightarrow> distinct (removeObject x xs)"
  by (simp add: removeObject_def)

subsection \<open>NSRange\<close>

record nsrange =
  location :: nat
  len :: nat

definition NSMakeRange :: "nat \<Rightarrow> nat \<Rightarrow> nsrange" where
  "NSMakeRange l n = \<lparr>location = l, len = n\<rparr>"

definition NSMaxRange :: "nsrange \<Rightarrow> nat" where
  "NSMaxRange r = location r + len r"

definition NSLocationInRange :: "nat \<Rightarrow> nsrange \<Rightarrow> bool" where
  "NSLocationInRange l r \<longleftrightarrow> location r \<le> l \<and> l < NSMaxRange r"

definition NSUnionRange :: "nsrange \<Rightarrow> nsrange \<Rightarrow> nsrange" where
  "NSUnionRange a b =
     (let l = min (location a) (location b)
      in NSMakeRange l (max (NSMaxRange a) (NSMaxRange b) - l))"

definition NSIntersectionRange :: "nsrange \<Rightarrow> nsrange \<Rightarrow> nsrange" where
  "NSIntersectionRange a b =
     (if NSMaxRange a < location b \<or> NSMaxRange b < location a then NSMakeRange 0 0
      else let l = max (location a) (location b)
           in NSMakeRange l (min (NSMaxRange a) (NSMaxRange b) - l))"

lemma range_sel [simp]:
  "location (NSMakeRange l n) = l"
  "len (NSMakeRange l n) = n"
  "NSMaxRange (NSMakeRange l n) = l + n"
  by (simp_all add: NSMakeRange_def NSMaxRange_def)

lemma NSMaxRange_union:
  "NSMaxRange (NSUnionRange a b) = max (NSMaxRange a) (NSMaxRange b)"
  by (auto simp: NSUnionRange_def Let_def NSMaxRange_def NSMakeRange_def)

lemma location_union [simp]: "location (NSUnionRange a b) = min (location a) (location b)"
  by (simp add: NSUnionRange_def Let_def)

text \<open>
  The range check of the base library, \<open>GS_RANGE_CHECK\<close>: the subtraction is only reached when
  it cannot wrap.
\<close>

definition range_ok :: "nsrange \<Rightarrow> nat \<Rightarrow> bool" where
  "range_ok r n \<longleftrightarrow> location r \<le> n \<and> len r \<le> n - location r"

lemma range_ok_max: "range_ok r n \<longleftrightarrow> NSMaxRange r \<le> n"
  by (auto simp: range_ok_def NSMaxRange_def)

subsection \<open>Machine integers\<close>

text \<open>
  The value an expression has after conversion to \<open>unsigned int\<close> and to \<open>NSUInteger\<close>.
\<close>

definition u32 :: "int \<Rightarrow> nat" where
  "u32 x = nat (x mod 2 ^ 32)"

definition u64 :: "int \<Rightarrow> nat" where
  "u64 x = nat (x mod 2 ^ 64)"

text \<open>Conversion to \<open>int\<close>, as the compilers define it.\<close>

definition s32 :: "int \<Rightarrow> int" where
  "s32 x = (x + 2 ^ 31) mod 2 ^ 32 - 2 ^ 31"

lemma s32_small: "- (2 ^ 31) \<le> x \<Longrightarrow> x < 2 ^ 31 \<Longrightarrow> s32 x = x"
  by (simp add: s32_def)

lemma u32_small: "0 \<le> x \<Longrightarrow> x < 2 ^ 32 \<Longrightarrow> u32 x = nat x"
  by (simp add: u32_def)

lemma u64_small: "0 \<le> x \<Longrightarrow> x < 2 ^ 64 \<Longrightarrow> u64 x = nat x"
  by (simp add: u64_def)

lemma u32_int [simp]: "n < 2 ^ 32 \<Longrightarrow> u32 (int n) = n"
  by (simp add: u32_small)

lemma u64_int [simp]: "n < 2 ^ 64 \<Longrightarrow> u64 (int n) = n"
  by (simp add: u64_small)

lemma u32_less: "u32 x < 2 ^ 32"
  by (simp add: u32_def nat_less_iff)

text \<open>The characters of \<open>NSString\<close>: UTF-16 code units.\<close>

type_synonym unichar = "16 word"

subsection \<open>NSIndexPath\<close>

text \<open>
  An index path is the list of its indexes. The documented item path of a sectioned view has
  the section at position 0 and the item at position 1.
\<close>

type_synonym index_path = "nat list"

definition indexPathForItem :: "nat \<Rightarrow> nat \<Rightarrow> index_path" where
  "indexPathForItem item sec = [sec, item]"

end
