(* ===== verification/LinearExpr.thy ===== *)
theory LinearExpr
  imports Foundation Complex_Main "HOL-Library.AList"
begin

text \<open>
  Linear expressions of the constraint solver for auto layout (\<open>Source/GSCSLinearExpression.m\<close>,
  \<open>GSCSVariable.m\<close>, \<open>GSCSFloatComparator.m\<close>). Numbers are rationals, with the rounding of the machine as
  functions applied to every result; infinities have no result. What an expression means is its value
  under an assignment to its variables.
\<close>

subsection \<open>Variables and numbers\<close>

datatype variable_type =
    GSCSVariableTypeDummy
  | GSCSVariableTypeSlack
  | GSCSVaraibleTypeVariable
  | GSCSVariableTypeObjective
  | GSCSVariableTypeExternal

text \<open>A variable is an object; its address tells it from the others. No initialiser sets its \<open>id\<close>.\<close>

datatype variable = Variable (var_type: variable_type) (var_id: nat) (address: nat)

definition new_variable :: "variable_type \<Rightarrow> nat \<Rightarrow> variable" where
  "new_variable t a = Variable t 0 a"

definition isDummy :: "variable \<Rightarrow> bool" where
  "isDummy v \<longleftrightarrow> var_type v = GSCSVariableTypeDummy"

definition isExternal :: "variable \<Rightarrow> bool" where
  "isExternal v \<longleftrightarrow> var_type v = GSCSVariableTypeExternal"

definition isPivotable :: "variable \<Rightarrow> bool" where
  "isPivotable v \<longleftrightarrow> var_type v = GSCSVariableTypeSlack"

definition isRestricted :: "variable \<Rightarrow> bool" where
  "isRestricted v \<longleftrightarrow> var_type v = GSCSVariableTypeDummy \<or> var_type v = GSCSVariableTypeSlack"

text \<open>
  Rounding to \<open>double\<close> and to \<open>float\<close>, and the order in which a set is enumerated. A set is the list of
  its members as they were added.
\<close>

record platform =
  double :: "rat \<Rightarrow> rat"
  single :: "rat \<Rightarrow> rat"
  in_order :: "variable list \<Rightarrow> variable list"

definition GSCSEpsilon :: "platform \<Rightarrow> rat" where
  "GSCSEpsilon P = single P (double P (1 / 10 ^ 8))"

definition isApproximatelyEqual :: "platform \<Rightarrow> rat \<Rightarrow> rat \<Rightarrow> bool" where
  "isApproximatelyEqual P a b \<longleftrightarrow> \<bar>double P (a - b)\<bar> \<le> GSCSEpsilon P"

definition isApproximatelyZero :: "platform \<Rightarrow> rat \<Rightarrow> bool" where
  "isApproximatelyZero P x = isApproximatelyEqual P x 0"

subsection \<open>Expressions\<close>

record expression =
  terms :: "(variable \<times> rat) list"
  term_variables :: "variable list"
  expr_constant :: rat

definition initWithConstant :: "rat \<Rightarrow> expression" where
  "initWithConstant c = \<lparr>terms = [], term_variables = [], expr_constant = c\<rparr>"

definition isTermForVariable :: "variable \<Rightarrow> expression \<Rightarrow> bool" where
  "isTermForVariable v e \<longleftrightarrow> map_of (terms e) v \<noteq> None"

definition multiplierForTerm :: "variable \<Rightarrow> expression \<Rightarrow> rat option" where
  "multiplierForTerm v e = map_of (terms e) v"

definition coefficientForTerm :: "platform \<Rightarrow> variable \<Rightarrow> expression \<Rightarrow> rat" where
  "coefficientForTerm P v e = (case multiplierForTerm v e of None \<Rightarrow> 0 | Some c \<Rightarrow> single P c)"

definition dropVariable :: "variable \<Rightarrow> expression \<Rightarrow> expression" where
  "dropVariable v e = e\<lparr>terms := AList.delete v (terms e), term_variables := removeObject v (term_variables e)\<rparr>"

definition addTerm :: "platform \<Rightarrow> variable \<Rightarrow> rat \<Rightarrow> expression \<Rightarrow> expression" where
  "addTerm P v c e =
     (if isApproximatelyZero P c then e
      else e\<lparr>terms := AList.update v (single P c) (terms e),
             term_variables := (if isTermForVariable v e then removeObject v (term_variables e)
               else term_variables e) @ [v]\<rparr>)"

definition initWithVariable :: "platform \<Rightarrow> variable \<Rightarrow> rat \<Rightarrow> rat \<Rightarrow> expression" where
  "initWithVariable P v coefficient c = (addTerm P v coefficient (initWithConstant 0))\<lparr>expr_constant := c\<rparr>"

definition initWithVariables :: "platform \<Rightarrow> variable list \<Rightarrow> expression" where
  "initWithVariables P vs = fold (\<lambda>v. addTerm P v 1) vs (initWithConstant 0)"

definition multiplyConstantAndTermsBy :: "platform \<Rightarrow> rat \<Rightarrow> expression \<Rightarrow> expression" where
  "multiplyConstantAndTermsBy P x e =
     e\<lparr>expr_constant := double P (expr_constant e * x), terms := map (\<lambda>(v, c). (v, double P (c * x))) (terms e)\<rparr>"

text \<open>The reciprocal of zero is an infinity.\<close>

definition divideConstantAndTermsBy :: "platform \<Rightarrow> rat \<Rightarrow> expression \<Rightarrow> expression option" where
  "divideConstantAndTermsBy P x e = (if x = 0 then None else Some (multiplyConstantAndTermsBy P (double P (1 / x)) e))"

definition normalize_expression :: "platform \<Rightarrow> expression \<Rightarrow> expression" where
  "normalize_expression P = multiplyConstantAndTermsBy P (- 1)"

text \<open>With a coefficient of zero the reciprocal is an infinity.\<close>

definition newSubject :: "platform \<Rightarrow> variable \<Rightarrow> expression \<Rightarrow> (rat \<times> expression) option" where
  "newSubject P subject e =
     (let c = coefficientForTerm P subject e; reciprocal = double P (1 / c)
      in if c = 0 then None
         else Some (reciprocal, dropVariable subject (multiplyConstantAndTermsBy P (- reciprocal) e)))"

definition copy_expression :: "platform \<Rightarrow> expression \<Rightarrow> expression" where
  "copy_expression P e =
     fold (\<lambda>v. addTerm P v (coefficientForTerm P v e)) (term_variables e) (initWithConstant (expr_constant e))"

definition addExpression :: "platform \<Rightarrow> expression \<Rightarrow> rat \<Rightarrow> expression \<Rightarrow> expression" where
  "addExpression P e multiplier d =
     fold (\<lambda>v. addTerm P v (double P (coefficientForTerm P v e * multiplier))) (term_variables e)
       (d\<lparr>expr_constant := double P (expr_constant d + double P (expr_constant e * multiplier))\<rparr>)"

definition isConstant :: "expression \<Rightarrow> bool" where
  "isConstant e \<longleftrightarrow> length (terms e) = 0"

definition anyPivotableVariable :: "expression \<Rightarrow> variable option res" where
  "anyPivotableVariable e =
     (if isConstant e then Inl NSInternalInconsistencyException else Inr (List.find isPivotable (term_variables e)))"

definition containsOnlyDummyVariables :: "expression \<Rightarrow> bool" where
  "containsOnlyDummyVariables e = list_all isDummy (term_variables e)"

definition externalVariables :: "platform \<Rightarrow> expression \<Rightarrow> variable list" where
  "externalVariables P e = filter isExternal (in_order P (map fst (terms e)))"

definition mostNegativePivotable :: "platform \<Rightarrow> expression \<Rightarrow> variable list" where
  "mostNegativePivotable P e =
     (let m = fold (\<lambda>v x. if isPivotable v \<and> coefficientForTerm P v e < x then coefficientForTerm P v e else x)
        (term_variables e) 0
      in filter (\<lambda>v. isPivotable v \<and> isApproximatelyEqual P (coefficientForTerm P v e) m) (term_variables e))"

subsection \<open>Well formed expressions\<close>

text \<open>The table of coefficients and the array of variables have the same variables.\<close>

definition wf_expr :: "expression \<Rightarrow> bool" where
  "wf_expr e \<longleftrightarrow> distinct (map fst (terms e)) \<and> distinct (term_variables e) \<and>
     set (map fst (terms e)) = set (term_variables e)"

definition keys :: "expression \<Rightarrow> variable set" where
  "keys e = set (term_variables e)"

definition coeff :: "expression \<Rightarrow> variable \<Rightarrow> rat" where
  "coeff e v = (case map_of (terms e) v of None \<Rightarrow> 0 | Some c \<Rightarrow> c)"

lemma finite_keys [simp]: "finite (keys e)"
  by (simp add: keys_def)

lemma keys_constant [simp]: "keys (e\<lparr>expr_constant := c\<rparr>) = keys e" "coeff (e\<lparr>expr_constant := c\<rparr>) = coeff e"
  "wf_expr (e\<lparr>expr_constant := c\<rparr>) = wf_expr e" "multiplierForTerm v (e\<lparr>expr_constant := c\<rparr>) = multiplierForTerm v e"
  "coefficientForTerm P v (e\<lparr>expr_constant := c\<rparr>) = coefficientForTerm P v e"
  by (simp_all add: keys_def coeff_def wf_expr_def fun_eq_iff multiplierForTerm_def coefficientForTerm_def)

lemma isTerm_keys: "wf_expr e \<Longrightarrow> isTermForVariable v e \<longleftrightarrow> v \<in> keys e"
  by (auto simp: isTermForVariable_def wf_expr_def keys_def map_of_eq_None_iff)

lemma multiplier_None: "wf_expr e \<Longrightarrow> multiplierForTerm v e = None \<longleftrightarrow> v \<notin> keys e"
  using isTerm_keys[of e v]
  by (cases "map_of (terms e) v") (simp_all add: isTermForVariable_def multiplierForTerm_def)

lemma multiplier_coeff: "wf_expr e \<Longrightarrow> v \<in> keys e \<Longrightarrow> multiplierForTerm v e = Some (coeff e v)"
  using multiplier_None[of e v] by (auto simp: coeff_def multiplierForTerm_def)

lemma coeff_outside: "wf_expr e \<Longrightarrow> v \<notin> keys e \<Longrightarrow> coeff e v = 0"
  using multiplier_None[of e v] by (simp add: coeff_def multiplierForTerm_def)

lemma initWithConstant_spec [simp]:
  "wf_expr (initWithConstant c)" "keys (initWithConstant c) = {}" "expr_constant (initWithConstant c) = c"
  "coeff (initWithConstant c) v = 0"
  by (simp_all add: initWithConstant_def wf_expr_def keys_def coeff_def)

lemma dropVariable_spec [simp]:
  "wf_expr e \<Longrightarrow> wf_expr (dropVariable v e)" "keys (dropVariable v e) = keys e - {v}"
  "coeff (dropVariable v e) = (coeff e)(v := 0)" "expr_constant (dropVariable v e) = expr_constant e"
  by (auto simp: dropVariable_def wf_expr_def keys_def coeff_def removeObject_def fun_eq_iff
      AList.delete_conv' AList.delete_keys distinct_removeAll)

lemma update_fst: "fst ` set (AList.update k x xs) = insert k (fst ` set xs)"
  using AList.update_conv'[of k x xs] by (metis dom_fun_upd dom_map_of_conv_image_fst option.distinct(1))

lemma addTerm_spec:
  "wf_expr e \<Longrightarrow> wf_expr (addTerm P v c e)"
  "keys (addTerm P v c e) = (if isApproximatelyZero P c then keys e else insert v (keys e))"
  "coeff (addTerm P v c e) = (if isApproximatelyZero P c then coeff e else (coeff e)(v := single P c))"
  "expr_constant (addTerm P v c e) = expr_constant e"
  by (auto simp: addTerm_def wf_expr_def keys_def coeff_def removeObject_def fun_eq_iff isTermForVariable_def
      AList.update_conv' AList.update_keys map_of_eq_None_iff update_fst)

lemma multiply_spec [simp]:
  "wf_expr e \<Longrightarrow> wf_expr (multiplyConstantAndTermsBy P x e)" "keys (multiplyConstantAndTermsBy P x e) = keys e"
  "expr_constant (multiplyConstantAndTermsBy P x e) = double P (expr_constant e * x)"
  by (auto simp: multiplyConstantAndTermsBy_def wf_expr_def keys_def comp_def case_prod_unfold)

lemma multiply_coeff:
  "wf_expr e \<Longrightarrow> v \<in> keys e \<Longrightarrow> coeff (multiplyConstantAndTermsBy P x e) v = double P (coeff e v * x)"
proof -
  have "map_of (map (\<lambda>(v, c). (v, double P (c * x))) xs) v = map_option (\<lambda>c. double P (c * x)) (map_of xs v)" for xs
    by (induction xs) auto
  then show "wf_expr e \<Longrightarrow> v \<in> keys e \<Longrightarrow> ?thesis"
    using multiplier_None[of e v] by (auto simp: multiplyConstantAndTermsBy_def coeff_def multiplierForTerm_def)
qed

lemma normalize_spec [simp]:
  "wf_expr e \<Longrightarrow> wf_expr (normalize_expression P e)" "keys (normalize_expression P e) = keys e"
  by (simp_all add: normalize_expression_def)

lemma newSubject_spec:
  assumes "newSubject P v e = Some (r, d)"
  shows "wf_expr e \<Longrightarrow> wf_expr d" and "keys d = keys e - {v}" and "wf_expr e \<Longrightarrow> v \<in> keys e"
proof -
  show "wf_expr e \<Longrightarrow> wf_expr d" "keys d = keys e - {v}"
    using assms by (auto simp: newSubject_def Let_def split: if_splits)
  show "wf_expr e \<Longrightarrow> v \<in> keys e"
    using assms multiplier_None[of e v]
    by (auto simp: newSubject_def Let_def coefficientForTerm_def split: if_splits)
qed

lemma fold_addTerm_keys:
  "keys (fold (\<lambda>v. addTerm P v (c v)) vs e) = keys e \<union> {v \<in> set vs. \<not> isApproximatelyZero P (c v)}"
  by (induction vs arbitrary: e) (auto simp: addTerm_spec)

lemma fold_addTerm_wf: "wf_expr e \<Longrightarrow> wf_expr (fold (\<lambda>v. addTerm P v (c v)) vs e)"
  by (induction vs arbitrary: e) (auto simp: addTerm_spec)

lemma fold_addTerm_constant: "expr_constant (fold (\<lambda>v. addTerm P v (c v)) vs e) = expr_constant e"
  by (induction vs arbitrary: e) (auto simp: addTerm_spec)

lemma copy_spec:
  "wf_expr (copy_expression P e)" "keys (copy_expression P e) \<subseteq> keys e"
  "expr_constant (copy_expression P e) = expr_constant e"
  by (auto simp: copy_expression_def fold_addTerm_wf fold_addTerm_keys fold_addTerm_constant keys_def[symmetric])

subsection \<open>Values\<close>

definition eval :: "(variable \<Rightarrow> rat) \<Rightarrow> expression \<Rightarrow> rat" where
  "eval \<sigma> e = expr_constant e + (\<Sum>v \<in> keys e. coeff e v * \<sigma> v)"

lemma eval_on:
  assumes "wf_expr e" and "finite S" and "keys e \<subseteq> S"
  shows "eval \<sigma> e = expr_constant e + (\<Sum>v \<in> S. coeff e v * \<sigma> v)"
proof -
  have "(\<Sum>v \<in> S. coeff e v * \<sigma> v) = (\<Sum>v \<in> keys e. coeff e v * \<sigma> v)"
    using assms coeff_outside[OF assms(1)] by (intro sum.mono_neutral_right) auto
  then show ?thesis by (simp add: eval_def)
qed

lemma eval_constant [simp]: "eval \<sigma> (initWithConstant c) = c"
  by (simp add: eval_def)

text \<open>Arithmetic without rounding.\<close>

definition exact :: "platform \<Rightarrow> bool" where
  "exact P \<longleftrightarrow> (\<forall>x. double P x = x \<and> single P x = x)"

lemma exactD [simp]: "exact P \<Longrightarrow> double P x = x" "exact P \<Longrightarrow> single P x = x"
  by (simp_all add: exact_def)

lemma coefficient_exact: "exact P \<Longrightarrow> coefficientForTerm P v e = coeff e v"
  by (simp add: coefficientForTerm_def coeff_def multiplierForTerm_def split: option.split)

text \<open>A number that is zero or large enough not to be taken for zero.\<close>

definition clear :: "platform \<Rightarrow> rat \<Rightarrow> bool" where
  "clear P x \<longleftrightarrow> x = 0 \<or> \<not> isApproximatelyZero P x"

lemma eval_drop:
  assumes "wf_expr e"
  shows "eval \<sigma> (dropVariable v e) = eval \<sigma> e - coeff e v * \<sigma> v"
proof -
  have "eval \<sigma> (dropVariable v e) = expr_constant e + (\<Sum>x \<in> insert v (keys e). ((coeff e)(v := 0)) x * \<sigma> x)"
    using eval_on[of "dropVariable v e" "insert v (keys e)" \<sigma>] assms by (simp add: insert_absorb subset_insertI2)
  also have "(\<Sum>x \<in> insert v (keys e). ((coeff e)(v := 0)) x * \<sigma> x) = (\<Sum>x \<in> keys e - {v}. coeff e x * \<sigma> x)"
    by (auto simp: sum.insert_remove intro!: sum.cong)
  finally show ?thesis
    using eval_on[OF assms, of "insert v (keys e)" \<sigma>] by (simp add: sum.insert_remove subset_insertI)
qed

lemma eval_add:
  assumes "wf_expr e" and "exact P" and "clear P c" and "c = 0 \<Longrightarrow> coeff e v = 0"
  shows "eval \<sigma> (addTerm P v c e) = eval \<sigma> e + (c - coeff e v) * \<sigma> v"
proof (cases "c = 0")
  case True
  then show ?thesis
    using assms(2,4) by (simp add: addTerm_def isApproximatelyZero_def isApproximatelyEqual_def GSCSEpsilon_def)
next
  case False
  then have spec: "keys (addTerm P v c e) = insert v (keys e)" "coeff (addTerm P v c e) = (coeff e)(v := c)"
    using assms(2,3) by (auto simp: clear_def addTerm_spec)
  have "(\<Sum>x \<in> keys e - {v}. ((coeff e)(v := c)) x * \<sigma> x) = (\<Sum>x \<in> keys e - {v}. coeff e x * \<sigma> x)"
    by (rule sum.cong) auto
  then show ?thesis
    using eval_on[OF assms(1), of "insert v (keys e)" \<sigma>]
    by (simp add: eval_def[of \<sigma> "addTerm P v c e"] spec addTerm_spec(4) sum.insert_remove subset_insertI algebra_simps)
qed

lemma eval_multiply:
  assumes "wf_expr e" and "exact P"
  shows "eval \<sigma> (multiplyConstantAndTermsBy P x e) = x * eval \<sigma> e"
  using assms by (simp add: eval_def multiply_coeff sum_distrib_left algebra_simps cong: sum.cong)

text \<open>Solving for a variable: the expression is zero where the variable has the value of the new one.\<close>

lemma newSubject_eval:
  assumes "wf_expr e" and "exact P" and "newSubject P v e = Some (r, d)"
  shows "coeff e v \<noteq> 0" and "r = 1 / coeff e v" and "eval \<sigma> e = 0 \<longleftrightarrow> \<sigma> v = eval \<sigma> d"
    and "eval \<sigma> e = x \<longleftrightarrow> \<sigma> v = eval \<sigma> d + x * r"
proof -
  have c: "coeff e v \<noteq> 0" "r = 1 / coeff e v" "d = dropVariable v (multiplyConstantAndTermsBy P (- r) e)"
    using assms(2,3) by (auto simp: newSubject_def Let_def coefficient_exact split: if_splits)
  have "v \<in> keys e" using newSubject_spec(3)[OF assms(3,1)] .
  then have d: "eval \<sigma> d = - r * eval \<sigma> e + \<sigma> v"
    using assms(1,2) c by (simp add: eval_drop eval_multiply multiply_coeff)
  have shift: "eval \<sigma> e = x \<longleftrightarrow> \<sigma> v = eval \<sigma> d + x * r" for x
  proof -
    have "\<sigma> v = eval \<sigma> d + x * r \<longleftrightarrow> r * eval \<sigma> e = r * x" unfolding d by (auto simp: algebra_simps)
    then show ?thesis using c(1,2) by simp
  qed
  from shift[of 0] show "eval \<sigma> e = 0 \<longleftrightarrow> \<sigma> v = eval \<sigma> d" by simp
  from shift show "eval \<sigma> e = x \<longleftrightarrow> \<sigma> v = eval \<sigma> d + x * r" .
qed (use assms in \<open>auto simp: newSubject_def Let_def coefficient_exact split: if_splits\<close>)

end
