(* ===== verification/Tableau.thy ===== *)
theory Tableau
  imports LinearExpr
begin

text \<open>
  The tableau of the constraint solver (\<open>Source/GSCSTableau.m\<close>). A row says what a basic variable is in
  terms of the others, a column lists the rows a variable occurs in. An expression belongs to one row, so
  changing it changes the row; a message to a row that does not exist does nothing. The table of external
  rows has the row objects of its variables and is kept as the list of these variables.
\<close>

subsection \<open>State\<close>

record tableau =
  external_parametric :: "variable list"
  rows :: "variable \<Rightarrow> expression option"
  columns :: "variable \<Rightarrow> variable list option"
  external_rows :: "variable list"
  infeasible_rows :: "variable list"
  objective :: variable

text \<open>Sets.\<close>

definition addToSet :: "'a \<Rightarrow> 'a list \<Rightarrow> 'a list" where
  "addToSet x xs = (if x \<in> set xs then xs else xs @ [x])"

lemma set_addToSet [simp]: "set (addToSet x xs) = insert x (set xs)"
  by (auto simp: addToSet_def)

lemma set_removeObject [simp]: "set (removeObject x xs) = set xs - {x}"
  by (auto simp: removeObject_def)

definition hasColumnForVariable :: "variable \<Rightarrow> tableau \<Rightarrow> bool" where
  "hasColumnForVariable v T \<longleftrightarrow> columns T v \<noteq> None"

definition columnForVariable :: "platform \<Rightarrow> variable \<Rightarrow> tableau \<Rightarrow> variable list" where
  "columnForVariable P v T = (case columns T v of None \<Rightarrow> [] | Some rs \<Rightarrow> in_order P rs)"

definition isBasicVariable :: "variable \<Rightarrow> tableau \<Rightarrow> bool" where
  "isBasicVariable v T \<longleftrightarrow> rows T v \<noteq> None"

definition set_row :: "variable \<Rightarrow> expression \<Rightarrow> tableau \<Rightarrow> tableau" where
  "set_row v e T = T\<lparr>rows := (rows T)(v \<mapsto> e)\<rparr>"

text \<open>What \<open>coefficientForTerm:\<close> and \<open>constant\<close> answer for a row, or without one.\<close>

definition row_coefficient :: "platform \<Rightarrow> variable \<Rightarrow> expression option \<Rightarrow> rat" where
  "row_coefficient P v row = (case row of None \<Rightarrow> 0 | Some e \<Rightarrow> coefficientForTerm P v e)"

definition row_constant :: "expression option \<Rightarrow> rat" where
  "row_constant row = (case row of None \<Rightarrow> 0 | Some e \<Rightarrow> expr_constant e)"

subsection \<open>Rows and columns\<close>

definition addMapping :: "variable \<Rightarrow> variable \<Rightarrow> tableau \<Rightarrow> tableau" where
  "addMapping c r T =
     T\<lparr>columns := (columns T)(c \<mapsto> addToSet r (case columns T c of None \<Rightarrow> [] | Some rs \<Rightarrow> rs))\<rparr>"

definition removeMapping :: "variable \<Rightarrow> variable \<Rightarrow> tableau \<Rightarrow> tableau" where
  "removeMapping c r T =
     (case columns T c of None \<Rightarrow> T | Some rs \<Rightarrow> T\<lparr>columns := (columns T)(c \<mapsto> removeObject r rs)\<rparr>)"

definition recordUpdatedVariable :: "variable \<Rightarrow> tableau \<Rightarrow> tableau" where
  "recordUpdatedVariable v T =
     (if isExternal v then T\<lparr>external_parametric := addToSet v (external_parametric T)\<rparr> else T)"

definition addTermVariables :: "expression \<Rightarrow> variable \<Rightarrow> tableau \<Rightarrow> tableau" where
  "addTermVariables e v T = fold (\<lambda>t T. recordUpdatedVariable t (addMapping t v T)) (term_variables e) T"

definition addRowForVariable :: "variable \<Rightarrow> expression \<Rightarrow> tableau \<Rightarrow> tableau" where
  "addRowForVariable v e T =
     (let T = set_row v e T;
          T = (if isExternal v then T\<lparr>external_rows := addToSet v (external_rows T)\<rparr> else T)
      in addTermVariables e v T)"

definition new_tableau :: "variable \<Rightarrow> tableau" where
  "new_tableau z =
     addRowForVariable z (initWithConstant 0)
       \<lparr>external_parametric = [], rows = Map.empty, columns = Map.empty, external_rows = [], infeasible_rows = [],
        objective = z\<rparr>"

definition removeRowForVariable :: "variable \<Rightarrow> tableau \<Rightarrow> tableau step" where
  "removeRowForVariable v T =
     (case rows T v of
        None \<Rightarrow> Inl (NSInvalidArgumentException, T)
      | Some e \<Rightarrow>
          let T = T\<lparr>rows := (rows T)(v := None)\<rparr>;
              T = (if isExternal v then T\<lparr>external_rows := removeObject v (external_rows T)\<rparr> else T)
          in Inr (fold (\<lambda>t. removeMapping t v) (term_variables e) T))"

definition removeTableauColumn :: "platform \<Rightarrow> variable \<Rightarrow> tableau \<Rightarrow> tableau" where
  "removeTableauColumn P v T =
     (let T = fold (\<lambda>r T. case rows T r of None \<Rightarrow> T | Some e \<Rightarrow> set_row r (dropVariable v e) T)
            (columnForVariable P v T) T;
          T = T\<lparr>columns := (columns T)(v := None)\<rparr>
      in if isExternal v then T\<lparr>external_rows := removeObject v (external_rows T)\<rparr> else T)"

subsection \<open>Substitution\<close>

definition substituteOutTermInExpression ::
    "platform \<Rightarrow> expression \<Rightarrow> variable \<Rightarrow> rat \<Rightarrow> variable \<Rightarrow> tableau \<Rightarrow> tableau" where
  "substituteOutTermInExpression P newExpression subject multiplier t T =
     (let k = coefficientForTerm P t newExpression
      in case rows T subject of
           None \<Rightarrow> addMapping t subject T
         | Some e \<Rightarrow>
             (case multiplierForTerm t e of
                Some c \<Rightarrow>
                  let n = double P (single P c + double P (multiplier * k))
                  in if isApproximatelyZero P n then removeMapping t subject (set_row subject (dropVariable t e) T)
                     else set_row subject (addTerm P t n e) T
              | None \<Rightarrow> addMapping t subject (set_row subject (addTerm P t (double P (multiplier * k)) e) T)))"

definition substituteOutTerm :: "platform \<Rightarrow> variable \<Rightarrow> expression \<Rightarrow> variable \<Rightarrow> tableau \<Rightarrow> tableau" where
  "substituteOutTerm P v newExpression subject T =
     (let m = row_coefficient P v (rows T subject);
          T = (case rows T subject of
                 None \<Rightarrow> T
               | Some e \<Rightarrow> set_row subject ((dropVariable v e)\<lparr>expr_constant :=
                   double P (double P (m * expr_constant newExpression) + expr_constant e)\<rparr>) T)
      in fold (substituteOutTermInExpression P newExpression subject m) (term_variables newExpression) T)"

definition note_infeasible :: "variable \<Rightarrow> tableau \<Rightarrow> tableau" where
  "note_infeasible v T =
     (if isRestricted v \<and> row_constant (rows T v) < 0 then T\<lparr>infeasible_rows := infeasible_rows T @ [v]\<rparr> else T)"

definition substituteOutVariable :: "platform \<Rightarrow> variable \<Rightarrow> expression \<Rightarrow> tableau \<Rightarrow> tableau" where
  "substituteOutVariable P v e T =
     (let T = fold (\<lambda>r T. note_infeasible r (substituteOutTerm P v e r T)) (columnForVariable P v T) T;
          T = (if isExternal v
               then T\<lparr>external_rows := addToSet v (external_rows T),
                      external_parametric := removeObject v (external_parametric T)\<rparr>
               else T)
      in T\<lparr>columns := (columns T)(v := None)\<rparr>)"

subsection \<open>Changing a row\<close>

text \<open>Adding to the expression of the row of \<open>subject\<close>.\<close>

definition setVariable :: "platform \<Rightarrow> variable \<Rightarrow> rat \<Rightarrow> variable \<Rightarrow> tableau \<Rightarrow> tableau" where
  "setVariable P v c subject T =
     recordUpdatedVariable v
       (case rows T subject of None \<Rightarrow> T | Some e \<Rightarrow> set_row subject (addTerm P v c e) T)"

definition addVariableToRow :: "platform \<Rightarrow> variable \<Rightarrow> rat \<Rightarrow> variable \<Rightarrow> tableau \<Rightarrow> tableau" where
  "addVariableToRow P v c subject T =
     (case rows T subject of
        Some e \<Rightarrow>
          if isTermForVariable v e
          then let n = double P (coefficientForTerm P v e + c)
               in if n = 0 \<or> isApproximatelyZero P n
                  then removeMapping v subject (set_row subject (dropVariable v e) T)
                  else setVariable P v n subject T
          else if isApproximatelyZero P c then T else addMapping v subject (setVariable P v c subject T)
      | None \<Rightarrow> if isApproximatelyZero P c then T else addMapping v subject (setVariable P v c subject T))"

definition addExpressionToRow :: "platform \<Rightarrow> expression \<Rightarrow> rat \<Rightarrow> variable \<Rightarrow> tableau \<Rightarrow> tableau" where
  "addExpressionToRow P newExpression n subject T =
     (let T = (case rows T subject of
                 None \<Rightarrow> T
               | Some e \<Rightarrow> set_row subject (e\<lparr>expr_constant :=
                   double P (expr_constant e + double P (n * expr_constant newExpression))\<rparr>) T)
      in fold (\<lambda>t T. recordUpdatedVariable t
             (addVariableToRow P t (double P (coefficientForTerm P t newExpression * n)) subject T))
           (term_variables newExpression) T)"

subsection \<open>Pivoting\<close>

text \<open>The expression is no longer in the tableau when its subject changes.\<close>

definition changeSubject :: "platform \<Rightarrow> expression \<Rightarrow> variable \<Rightarrow> variable \<Rightarrow> expression option" where
  "changeSubject P e existingSubject subject =
     map_option (\<lambda>(r, e). addTerm P existingSubject r e) (newSubject P subject e)"

definition pivot :: "platform \<Rightarrow> variable \<Rightarrow> variable \<Rightarrow> tableau \<Rightarrow> tableau pstep" where
  "pivot P entryVariable exitVariable T =
     (case removeRowForVariable exitVariable T of
        Inl x \<Rightarrow> Some (Inl x)
      | Inr T1 \<Rightarrow>
          (case Option.bind (rows T exitVariable) (\<lambda>e. changeSubject P e exitVariable entryVariable) of
             None \<Rightarrow> None
           | Some e \<Rightarrow>
               let T2 = substituteOutVariable P entryVariable e (recordUpdatedVariable exitVariable T1);
                   T3 = (if isExternal entryVariable
                         then T2\<lparr>external_parametric := removeObject entryVariable (external_parametric T2)\<rparr> else T2)
               in Some (Inr (addRowForVariable entryVariable e T3))))"

subsection \<open>Choosing the exit variable\<close>

definition DBL_MAX :: rat where
  "DBL_MAX = 2 ^ 1024 - 2 ^ 971"

definition shouldPreferPivotableVariable :: "variable \<Rightarrow> variable option \<Rightarrow> bool" where
  "shouldPreferPivotableVariable lhs rhs \<longleftrightarrow> var_id lhs < (case rhs of None \<Rightarrow> 0 | Some v \<Rightarrow> var_id v)"

definition better_exit :: "platform \<Rightarrow> variable \<Rightarrow> tableau \<Rightarrow> variable \<Rightarrow> rat \<times> variable option \<Rightarrow> rat \<times> variable option" where
  "better_exit P entryVariable T v = (\<lambda>(minRatio, exitVariable).
     if isPivotable v
     then let c = row_coefficient P entryVariable (rows T v);
              r = double P (- row_constant (rows T v) / c)
          in if c < 0 \<and> (r < minRatio \<or>
                 isApproximatelyEqual P r minRatio \<and> shouldPreferPivotableVariable v exitVariable)
             then (r, Some v) else (minRatio, exitVariable)
     else (minRatio, exitVariable))"

definition findPivotableExitVariable :: "platform \<Rightarrow> variable \<Rightarrow> tableau \<Rightarrow> variable option" where
  "findPivotableExitVariable P entryVariable T =
     snd (fold (better_exit P entryVariable T) (columnForVariable P entryVariable T) (DBL_MAX, None))"

subsection \<open>Checks\<close>

definition containsExternalParametricVariableForEveryExternalTerm :: "tableau \<Rightarrow> bool" where
  "containsExternalParametricVariableForEveryExternalTerm T \<longleftrightarrow>
     (\<forall>r e. rows T r = Some e \<longrightarrow>
        list_all (\<lambda>v. isExternal v \<longrightarrow> v \<in> set (external_parametric T)) (term_variables e))"

definition containsExternalRowForEachExternalRowVariable :: "tableau \<Rightarrow> bool" where
  "containsExternalRowForEachExternalRowVariable T \<longleftrightarrow>
     (\<forall>r. rows T r \<noteq> None \<and> isExternal r \<longrightarrow> r \<in> set (external_rows T))"

end
