(* ===== verification/TableauRows.thy ===== *)
theory TableauRows
  imports Tableau
begin

text \<open>
  What the operations of the tableau do to its rows, columns and tables: their frame, the columns a
  row has, and the value of a row after a variable in it is replaced by an expression.
\<close>

subsection \<open>Columns\<close>

definition in_column :: "tableau \<Rightarrow> variable \<Rightarrow> variable \<Rightarrow> bool" where
  "in_column T t r \<longleftrightarrow> (case columns T t of None \<Rightarrow> False | Some rs \<Rightarrow> r \<in> set rs)"

text \<open>A set is enumerated without repetitions.\<close>

definition lawful :: "platform \<Rightarrow> bool" where
  "lawful P \<longleftrightarrow> (\<forall>xs. distinct (in_order P xs) \<and> set (in_order P xs) = set xs)"

lemma columnForVariable_set:
  "lawful P \<Longrightarrow> r \<in> set (columnForVariable P v T) \<longleftrightarrow> in_column T v r"
  by (auto simp: columnForVariable_def in_column_def lawful_def split: option.split)

lemma columnForVariable_distinct: "lawful P \<Longrightarrow> distinct (columnForVariable P v T)"
  by (auto simp: columnForVariable_def lawful_def split: option.split)

lemma set_row_sel [simp]:
  "rows (set_row v e T) = (rows T)(v \<mapsto> e)" "columns (set_row v e T) = columns T"
  "external_parametric (set_row v e T) = external_parametric T" "external_rows (set_row v e T) = external_rows T"
  "objective (set_row v e T) = objective T" "in_column (set_row v e T) t r = in_column T t r"
  by (simp_all add: set_row_def in_column_def)

lemma in_column_fields [simp]:
  "in_column (T\<lparr>external_rows := x\<rparr>) t r = in_column T t r" "in_column (T\<lparr>external_parametric := x\<rparr>) t r = in_column T t r"
  "in_column (T\<lparr>infeasible_rows := x\<rparr>) t r = in_column T t r" "in_column (T\<lparr>rows := f\<rparr>) t r = in_column T t r"
  by (simp_all add: in_column_def)

lemma addMapping_sel [simp]:
  "rows (addMapping c r T) = rows T" "external_parametric (addMapping c r T) = external_parametric T"
  "external_rows (addMapping c r T) = external_rows T" "objective (addMapping c r T) = objective T"
  "in_column (addMapping c r T) t q \<longleftrightarrow> in_column T t q \<or> t = c \<and> q = r"
  by (auto simp: addMapping_def in_column_def split: option.split)

lemma removeMapping_sel [simp]:
  "rows (removeMapping c r T) = rows T" "external_parametric (removeMapping c r T) = external_parametric T"
  "external_rows (removeMapping c r T) = external_rows T" "objective (removeMapping c r T) = objective T"
  "in_column (removeMapping c r T) t q \<longleftrightarrow> in_column T t q \<and> \<not> (t = c \<and> q = r)"
  by (auto simp: removeMapping_def in_column_def split: option.split)

lemma recordUpdated_sel [simp]:
  "rows (recordUpdatedVariable v T) = rows T" "external_rows (recordUpdatedVariable v T) = external_rows T"
  "objective (recordUpdatedVariable v T) = objective T" "columns (recordUpdatedVariable v T) = columns T"
  "in_column (recordUpdatedVariable v T) t r = in_column T t r"
  "set (external_parametric (recordUpdatedVariable v T)) =
     set (external_parametric T) \<union> (if isExternal v then {v} else {})"
  by (auto simp: recordUpdatedVariable_def in_column_def)

lemma addTermVariables_sel:
  "rows (addTermVariables e v T) = rows T" "external_rows (addTermVariables e v T) = external_rows T"
  "objective (addTermVariables e v T) = objective T"
  "in_column (addTermVariables e v T) t r \<longleftrightarrow> in_column T t r \<or> t \<in> keys e \<and> r = v"
  "set (external_parametric (addTermVariables e v T)) = set (external_parametric T) \<union> {t \<in> keys e. isExternal t}"
proof -
  let ?f = "\<lambda>t T. recordUpdatedVariable t (addMapping t v T)"
  have "rows (fold ?f ts T) = rows T \<and> external_rows (fold ?f ts T) = external_rows T \<and>
      objective (fold ?f ts T) = objective T \<and>
      (\<forall>t r. in_column (fold ?f ts T) t r \<longleftrightarrow> in_column T t r \<or> t \<in> set ts \<and> r = v) \<and>
      set (external_parametric (fold ?f ts T)) = set (external_parametric T) \<union> {t \<in> set ts. isExternal t}" for ts
    by (induction ts arbitrary: T) auto
  then show "rows (addTermVariables e v T) = rows T" "external_rows (addTermVariables e v T) = external_rows T"
      "objective (addTermVariables e v T) = objective T"
      "in_column (addTermVariables e v T) t r \<longleftrightarrow> in_column T t r \<or> t \<in> keys e \<and> r = v"
      "set (external_parametric (addTermVariables e v T)) = set (external_parametric T) \<union> {t \<in> keys e. isExternal t}"
    by (simp_all add: addTermVariables_def keys_def)
qed

lemma addRow_sel [simp]:
  "rows (addRowForVariable v e T) = (rows T)(v \<mapsto> e)"
  "set (external_rows (addRowForVariable v e T)) = set (external_rows T) \<union> (if isExternal v then {v} else {})"
  "objective (addRowForVariable v e T) = objective T"
  "in_column (addRowForVariable v e T) t r \<longleftrightarrow> in_column T t r \<or> t \<in> keys e \<and> r = v"
  "set (external_parametric (addRowForVariable v e T)) = set (external_parametric T) \<union> {t \<in> keys e. isExternal t}"
  by (auto simp: addRowForVariable_def addTermVariables_sel Let_def)

lemma removeRow_spec:
  assumes "rows T v = Some e"
  obtains T' where "removeRowForVariable v T = Inr T'" and "rows T' = (rows T)(v := None)"
    and "\<And>t r. in_column T' t r \<longleftrightarrow> in_column T t r \<and> \<not> (t \<in> keys e \<and> r = v)"
    and "external_parametric T' = external_parametric T" and "objective T' = objective T"
    and "set (external_rows T') = set (external_rows T) - (if isExternal v then {v} else {})"
proof -
  have loop: "rows (fold (\<lambda>t. removeMapping t v) ts T) = rows T \<and>
      (\<forall>t r. in_column (fold (\<lambda>t. removeMapping t v) ts T) t r \<longleftrightarrow> in_column T t r \<and> \<not> (t \<in> set ts \<and> r = v)) \<and>
      external_parametric (fold (\<lambda>t. removeMapping t v) ts T) = external_parametric T \<and>
      objective (fold (\<lambda>t. removeMapping t v) ts T) = objective T \<and>
      external_rows (fold (\<lambda>t. removeMapping t v) ts T) = external_rows T" for ts T
    by (induction ts arbitrary: T) auto
  let ?T = "T\<lparr>rows := (rows T)(v := None)\<rparr>"
  let ?T2 = "if isExternal v then ?T\<lparr>external_rows := removeObject v (external_rows ?T)\<rparr> else ?T"
  have "removeRowForVariable v T = Inr (fold (\<lambda>t. removeMapping t v) (term_variables e) ?T2)"
    using assms by (simp add: removeRowForVariable_def Let_def)
  then show ?thesis
    by (rule that) (simp_all add: loop keys_def)
qed

subsection \<open>Substitution in one row\<close>

text \<open>Only the row of \<open>r\<close>, with its entries in the columns, is another.\<close>

definition same_but_row :: "variable \<Rightarrow> tableau \<Rightarrow> tableau \<Rightarrow> bool" where
  "same_but_row r T T' \<longleftrightarrow> external_parametric T' = external_parametric T \<and> external_rows T' = external_rows T \<and>
     objective T' = objective T \<and>
     (\<forall>q. q \<noteq> r \<longrightarrow> rows T' q = rows T q \<and> (\<forall>t. in_column T' t q = in_column T t q))"

lemma same_but_row_refl [simp]: "same_but_row r T T"
  by (simp add: same_but_row_def)

lemma same_but_row_trans: "same_but_row r T T' \<Longrightarrow> same_but_row r T' T'' \<Longrightarrow> same_but_row r T T''"
  by (simp add: same_but_row_def)

lemma substTerm_frame: "same_but_row r T (substituteOutTermInExpression P d r m t T)"
  by (auto simp: same_but_row_def substituteOutTermInExpression_def Let_def split: option.split)

lemma substTerms_frame: "same_but_row r T (fold (substituteOutTermInExpression P d r m) ts T)"
  by (induction ts arbitrary: T) (auto intro: same_but_row_trans substTerm_frame)

lemma substTerms_none:
  "rows T r = None \<Longrightarrow> rows (fold (substituteOutTermInExpression P d r m) ts T) r = None"
  by (induction ts arbitrary: T) (auto simp: substituteOutTermInExpression_def)

text \<open>The row of \<open>r\<close> is in the columns of all its variables.\<close>

definition indexed :: "tableau \<Rightarrow> variable \<Rightarrow> expression \<Rightarrow> bool" where
  "indexed T r e \<longleftrightarrow> wf_expr e \<and> (\<forall>t \<in> keys e. in_column T t r)"

lemma substTerm_some:
  assumes "rows T r = Some e" and "indexed T r e"
  shows "\<exists>e'. rows (substituteOutTermInExpression P d r m t T) r = Some e' \<and>
    indexed (substituteOutTermInExpression P d r m t T) r e' \<and> keys e' \<subseteq> insert t (keys e)"
proof -
  have wf: "wf_expr e" using assms(2) by (simp add: indexed_def)
  show ?thesis
    using assms multiplier_None[OF wf, of t]
    by (auto simp: substituteOutTermInExpression_def Let_def indexed_def addTerm_spec(1,2) split: option.split)
qed

lemma substTerms_some:
  assumes "rows T r = Some e" and "indexed T r e"
  shows "\<exists>e'. rows (fold (substituteOutTermInExpression P d r m) ts T) r = Some e' \<and>
    indexed (fold (substituteOutTermInExpression P d r m) ts T) r e' \<and> keys e' \<subseteq> set ts \<union> keys e"
  using assms
proof (induction ts arbitrary: T e)
  case (Cons t ts)
  obtain e' where e': "rows (substituteOutTermInExpression P d r m t T) r = Some e'"
      "indexed (substituteOutTermInExpression P d r m t T) r e'" "keys e' \<subseteq> insert t (keys e)"
    using substTerm_some[OF Cons.prems, of P d m t] by blast
  from Cons.IH[OF e'(1,2)] e'(3) show ?case by (fastforce simp del: fun_upd_apply)
qed simp

text \<open>The value of the row, where no coefficient is lost.\<close>

lemma substTerm_exact:
  assumes "rows T r = Some e" and "wf_expr e" and "exact P" and "clear P (coeff e t + m * coeff d t)"
  shows "\<exists>e'. rows (substituteOutTermInExpression P d r m t T) r = Some e' \<and> wf_expr e' \<and>
    eval \<sigma> e' = eval \<sigma> e + m * coeff d t * \<sigma> t \<and> (\<forall>q. q \<noteq> t \<longrightarrow> coeff e' q = coeff e q) \<and>
    (m = 0 \<longrightarrow> keys e' \<subseteq> keys e) \<and> expr_constant e' = expr_constant e"
proof (cases "t \<in> keys e")
  case True
  let ?n = "coeff e t + m * coeff d t"
  have step: "substituteOutTermInExpression P d r m t T =
      (if isApproximatelyZero P ?n then removeMapping t r (set_row r (dropVariable t e) T)
       else set_row r (addTerm P t ?n e) T)"
    using assms(1-3) True by (simp add: substituteOutTermInExpression_def multiplier_coeff coefficient_exact)
  show ?thesis
  proof (cases "isApproximatelyZero P ?n")
    case True
    then have "?n = 0" using assms(4) by (simp add: clear_def)
    then have "m * coeff d t = - coeff e t" by simp
    then show ?thesis using True assms(2) by (simp add: step eval_drop)
  next
    case False
    then have "eval \<sigma> (addTerm P t ?n e) = eval \<sigma> e + (?n - coeff e t) * \<sigma> t"
      using assms(2-4) by (intro eval_add) (auto simp: clear_def isApproximatelyZero_def isApproximatelyEqual_def GSCSEpsilon_def)
    then show ?thesis using False \<open>t \<in> keys e\<close> assms(2,3) by (simp add: step addTerm_spec insert_absorb)
  qed
next
  case False
  then have zero: "coeff e t = 0" by (rule coeff_outside[OF assms(2)])
  have step: "substituteOutTermInExpression P d r m t T = addMapping t r (set_row r (addTerm P t (m * coeff d t) e) T)"
    using assms(1,3) multiplier_None[OF assms(2), of t] False
    by (simp add: substituteOutTermInExpression_def Let_def coefficient_exact)
  have "eval \<sigma> (addTerm P t (m * coeff d t) e) = eval \<sigma> e + (m * coeff d t - coeff e t) * \<sigma> t"
    using assms(2-4) zero by (intro eval_add) auto
  moreover have "m = 0 \<Longrightarrow> isApproximatelyZero P (m * coeff d t)"
    using assms(3) by (simp add: isApproximatelyZero_def isApproximatelyEqual_def GSCSEpsilon_def)
  ultimately show ?thesis using zero assms(2,3) by (auto simp: step addTerm_spec)
qed

lemma substTerms_exact:
  assumes "rows T r = Some e" and "wf_expr e" and "exact P" and "distinct ts"
    and "\<forall>t \<in> set ts. clear P (coeff e t + m * coeff d t)"
  shows "\<exists>e'. rows (fold (substituteOutTermInExpression P d r m) ts T) r = Some e' \<and>
    eval \<sigma> e' = eval \<sigma> e + (\<Sum>t \<in> set ts. m * coeff d t * \<sigma> t) \<and> (m = 0 \<longrightarrow> keys e' \<subseteq> keys e) \<and>
    expr_constant e' = expr_constant e"
  using assms(1,2,4,5)
proof (induction ts arbitrary: T e)
  case (Cons t ts)
  obtain e' where e': "rows (substituteOutTermInExpression P d r m t T) r = Some e'" "wf_expr e'"
      "eval \<sigma> e' = eval \<sigma> e + m * coeff d t * \<sigma> t" "\<And>q. q \<noteq> t \<Longrightarrow> coeff e' q = coeff e q"
      "m = 0 \<Longrightarrow> keys e' \<subseteq> keys e" "expr_constant e' = expr_constant e"
    using substTerm_exact[OF Cons.prems(1,2) assms(3), of t m d \<sigma>] Cons.prems(4) by auto
  have "\<forall>q \<in> set ts. clear P (coeff e' q + m * coeff d q)"
  proof
    fix q assume q: "q \<in> set ts"
    then have "coeff e' q = coeff e q" using Cons.prems(3) by (intro e'(4)) auto
    then show "clear P (coeff e' q + m * coeff d q)" using Cons.prems(4) q by simp
  qed
  from Cons.IH[OF e'(1,2) _ this] Cons.prems(3) e'(3,5,6) show ?case by fastforce
qed simp

subsection \<open>Substitution in all rows\<close>

lemma substOut_frame: "same_but_row r T (substituteOutTerm P v d r T)"
proof -
  have "same_but_row r T (case rows T r of None \<Rightarrow> T | Some e \<Rightarrow> set_row r (f e) T)" for f
    by (auto simp: same_but_row_def split: option.split)
  then show ?thesis
    unfolding substituteOutTerm_def Let_def by (rule same_but_row_trans[OF _ substTerms_frame])
qed

lemma substOut_none: "rows T r = None \<Longrightarrow> rows (substituteOutTerm P v d r T) r = None"
  by (simp add: substituteOutTerm_def substTerms_none)

text \<open>The row after \<open>v\<close> was replaced by \<open>d\<close>.\<close>

lemma substOut_some:
  assumes "rows T r = Some e" and "indexed T r e"
  shows "\<exists>e'. rows (substituteOutTerm P v d r T) r = Some e' \<and> indexed (substituteOutTerm P v d r T) r e' \<and>
    keys e' \<subseteq> keys d \<union> (keys e - {v})"
proof -
  let ?e = "(dropVariable v e)\<lparr>expr_constant :=
      double P (double P (coefficientForTerm P v e * expr_constant d) + expr_constant e)\<rparr>"
  have "indexed (set_row r ?e T) r ?e" using assms(2) by (simp add: indexed_def)
  from substTerms_some[of "set_row r ?e T" r ?e, OF _ this, of P d "coefficientForTerm P v e" "term_variables d"] assms(1)
  show ?thesis by (simp add: substituteOutTerm_def Let_def row_coefficient_def keys_def[symmetric])
qed

definition clear_in :: "platform \<Rightarrow> variable \<Rightarrow> expression \<Rightarrow> expression \<Rightarrow> bool" where
  "clear_in P v d e \<longleftrightarrow> (\<forall>t \<in> keys d. clear P (coeff e t + coeff e v * coeff d t))"

lemma substOut_exact:
  assumes "rows T r = Some e" and "wf_expr e" and "exact P" and "wf_expr d" and "v \<notin> keys d" and "clear_in P v d e"
  shows "\<exists>e'. rows (substituteOutTerm P v d r T) r = Some e' \<and>
    eval \<sigma> e' = eval \<sigma> e - coeff e v * \<sigma> v + coeff e v * eval \<sigma> d \<and> (v \<notin> keys e \<longrightarrow> keys e' \<subseteq> keys e) \<and>
    expr_constant e' = expr_constant e + coeff e v * expr_constant d"
proof -
  let ?e = "(dropVariable v e)\<lparr>expr_constant := coeff e v * expr_constant d + expr_constant e\<rparr>"
  have eval: "eval \<sigma> (x\<lparr>expr_constant := c\<rparr>) = eval \<sigma> x - expr_constant x + c" for x c by (simp add: eval_def)
  have "\<forall>t \<in> set (term_variables d). clear P (coeff ?e t + coeff e v * coeff d t)"
    using assms(5,6) by (auto simp: clear_in_def keys_def)
  from substTerms_exact[of "set_row r ?e T" r ?e, OF _ _ assms(3) _ this, of \<sigma>] assms(1-4)
  obtain e' where e': "rows (substituteOutTerm P v d r T) r = Some e'"
      "eval \<sigma> e' = eval \<sigma> ?e + (\<Sum>t \<in> keys d. coeff e v * coeff d t * \<sigma> t)"
      "coeff e v = 0 \<longrightarrow> keys e' \<subseteq> keys ?e" "expr_constant e' = expr_constant ?e"
    by (auto simp: substituteOutTerm_def Let_def row_coefficient_def coefficient_exact keys_def[symmetric] wf_expr_def[of d])
  have "(\<Sum>t \<in> keys d. coeff e v * coeff d t * \<sigma> t) = coeff e v * (eval \<sigma> d - expr_constant d)"
    by (simp add: eval_def sum_distrib_left algebra_simps)
  then have "eval \<sigma> e' = eval \<sigma> e - coeff e v * \<sigma> v + coeff e v * eval \<sigma> d"
    using assms(2) e'(2) by (simp add: eval eval_drop algebra_simps)
  moreover have "v \<notin> keys e \<Longrightarrow> coeff e v = 0" by (rule coeff_outside[OF assms(2)])
  ultimately show ?thesis using e'(1,3,4) by auto
qed

end
