(* ===== verification/TableauPivot.thy ===== *)
theory TableauPivot
  imports TableauRows
begin

text \<open>
  Consistent tableaus and pivots (\<open>Source/GSCSTableau.m\<close>): a pivot keeps the tableau consistent whatever the
  rounding, and keeps its solutions where no coefficient is lost.
\<close>

subsection \<open>Substitution in all rows\<close>

lemma note_infeasible_sel [simp]:
  "rows (note_infeasible v T) = rows T" "external_parametric (note_infeasible v T) = external_parametric T"
  "external_rows (note_infeasible v T) = external_rows T" "objective (note_infeasible v T) = objective T"
  "in_column (note_infeasible v T) t r = in_column T t r"
  by (simp_all add: note_infeasible_def)

definition substitute_rows :: "platform \<Rightarrow> variable \<Rightarrow> expression \<Rightarrow> variable list \<Rightarrow> tableau \<Rightarrow> tableau" where
  "substitute_rows P v d = fold (\<lambda>r T. note_infeasible r (substituteOutTerm P v d r T))"

lemma substitute_rows_frame:
  assumes "r \<notin> set rs"
  shows "rows (substitute_rows P v d rs T) r = rows T r" "in_column (substitute_rows P v d rs T) t r = in_column T t r"
proof -
  have "rows (substitute_rows P v d rs T) r = rows T r \<and>
      in_column (substitute_rows P v d rs T) t r = in_column T t r"
    using assms
  proof (induction rs arbitrary: T)
    case (Cons q rs)
    then show ?case using substOut_frame[of q T P v d] by (simp add: substitute_rows_def same_but_row_def)
  qed (simp add: substitute_rows_def)
  then show "rows (substitute_rows P v d rs T) r = rows T r"
      "in_column (substitute_rows P v d rs T) t r = in_column T t r" by blast+
qed

lemma substitute_rows_sel:
  "external_parametric (substitute_rows P v d rs T) = external_parametric T"
  "external_rows (substitute_rows P v d rs T) = external_rows T" "objective (substitute_rows P v d rs T) = objective T"
proof -
  have "external_parametric (substitute_rows P v d rs T) = external_parametric T \<and>
      external_rows (substitute_rows P v d rs T) = external_rows T \<and>
      objective (substitute_rows P v d rs T) = objective T"
  proof (induction rs arbitrary: T)
    case (Cons q rs)
    then show ?case using substOut_frame[of q T P v d] by (simp add: substitute_rows_def same_but_row_def)
  qed (simp add: substitute_rows_def)
  then show "external_parametric (substitute_rows P v d rs T) = external_parametric T"
      "external_rows (substitute_rows P v d rs T) = external_rows T"
      "objective (substitute_rows P v d rs T) = objective T" by blast+
qed

text \<open>A visited row was substituted in as it was before.\<close>

lemma substitute_rows_at:
  assumes "distinct rs" and "r \<in> set rs"
  obtains T1 where "rows T1 r = rows T r" and "\<And>t. in_column T1 t r = in_column T t r"
    and "rows (substitute_rows P v d rs T) r = rows (substituteOutTerm P v d r T1) r"
    and "\<And>t. in_column (substitute_rows P v d rs T) t r = in_column (substituteOutTerm P v d r T1) t r"
proof -
  obtain xs ys where rs: "rs = xs @ r # ys" by (meson assms(2) split_list)
  let ?T = "substitute_rows P v d xs T"
  have split: "substitute_rows P v d rs T =
      substitute_rows P v d ys (note_infeasible r (substituteOutTerm P v d r ?T))"
    by (simp add: substitute_rows_def rs)
  have "r \<notin> set xs" "r \<notin> set ys" using assms(1) rs by auto
  then show ?thesis
    using substitute_rows_frame[of r xs P v d T] substitute_rows_frame[of r ys P v d]
    by (intro that[of ?T]) (simp_all add: split)
qed

lemma substituteOutVariable_rows:
  "rows (substituteOutVariable P v d T) = rows (substitute_rows P v d (columnForVariable P v T) T)"
  "in_column (substituteOutVariable P v d T) t r \<longleftrightarrow>
     t \<noteq> v \<and> in_column (substitute_rows P v d (columnForVariable P v T) T) t r"
  "set (external_parametric (substituteOutVariable P v d T)) = set (external_parametric T) - (if isExternal v then {v} else {})"
  "set (external_rows (substituteOutVariable P v d T)) = set (external_rows T) \<union> (if isExternal v then {v} else {})"
  "objective (substituteOutVariable P v d T) = objective T"
  by (auto simp: substituteOutVariable_def Let_def substitute_rows_def[symmetric] substitute_rows_sel in_column_def)

lemma substituteOut_none:
  assumes "lawful P" and "rows T r = None"
  shows "rows (substituteOutVariable P v d T) r = None"
proof (cases "r \<in> set (columnForVariable P v T)")
  case True
  show ?thesis
    by (rule substitute_rows_at[OF columnForVariable_distinct[OF assms(1)] True, of T P v d])
      (simp add: substituteOutVariable_rows substOut_none assms(2))
qed (simp add: substituteOutVariable_rows substitute_rows_frame assms(2))

lemma substituteOut_some:
  assumes "lawful P" and "rows T r = Some e" and "indexed T r e"
  obtains e' where "rows (substituteOutVariable P v d T) r = Some e'" and "wf_expr e'"
    and "keys e' \<subseteq> keys d \<union> (keys e - {v})"
    and "\<And>t. t \<in> keys e' \<Longrightarrow> t \<noteq> v \<Longrightarrow> in_column (substituteOutVariable P v d T) t r"
    and "v \<notin> keys e \<and> \<not> in_column T v r \<Longrightarrow> e' = e"
proof (cases "r \<in> set (columnForVariable P v T)")
  case True
  then obtain T1 where T1: "rows T1 r = rows T r" "\<And>t. in_column T1 t r = in_column T t r"
      "rows (substitute_rows P v d (columnForVariable P v T) T) r = rows (substituteOutTerm P v d r T1) r"
      "\<And>t. in_column (substitute_rows P v d (columnForVariable P v T) T) t r = in_column (substituteOutTerm P v d r T1) t r"
    by (rule substitute_rows_at[OF columnForVariable_distinct[OF assms(1)]]) blast
  have "rows T1 r = Some e" "indexed T1 r e" using T1(1,2) assms(2,3) by (simp_all add: indexed_def)
  from substOut_some[OF this, of P v d] obtain e' where "rows (substituteOutTerm P v d r T1) r = Some e'"
      "indexed (substituteOutTerm P v d r T1) r e'" "keys e' \<subseteq> keys d \<union> (keys e - {v})" by blast
  then show ?thesis
    using T1(3,4) True assms(1) by (intro that[of e']) (auto simp: substituteOutVariable_rows indexed_def columnForVariable_set)
next
  case False
  then have "v \<notin> keys e" using assms(1,3) by (auto simp: columnForVariable_set indexed_def)
  then show ?thesis
    using False assms(2,3)
    by (intro that[of e]) (auto simp: substituteOutVariable_rows substitute_rows_frame indexed_def)
qed

lemma substituteOut_exact:
  assumes "lawful P" and "rows T r = Some e" and "indexed T r e"
    and "exact P" and "wf_expr d" and "v \<notin> keys d" and "clear_in P v d e"
  shows "\<exists>e'. rows (substituteOutVariable P v d T) r = Some e' \<and>
    eval \<sigma> e' = eval \<sigma> e - coeff e v * \<sigma> v + coeff e v * eval \<sigma> d \<and> (v \<notin> keys e \<longrightarrow> keys e' \<subseteq> keys e) \<and>
    expr_constant e' = expr_constant e + coeff e v * expr_constant d"
proof (cases "r \<in> set (columnForVariable P v T)")
  case True
  then obtain T1 where T1: "rows T1 r = rows T r" "\<And>t. in_column T1 t r = in_column T t r"
      "rows (substitute_rows P v d (columnForVariable P v T) T) r = rows (substituteOutTerm P v d r T1) r"
    by (rule substitute_rows_at[OF columnForVariable_distinct[OF assms(1)]]) blast
  have wf: "wf_expr e" using assms(3) by (simp add: indexed_def)
  show ?thesis
    using substOut_exact[OF _ wf assms(4-7), of T1 r \<sigma>] T1(1,3) assms(2) by (simp add: substituteOutVariable_rows)
next
  case False
  then have "v \<notin> keys e" using assms(1,3) by (auto simp: columnForVariable_set indexed_def)
  moreover from this have "coeff e v = 0" using assms(3) coeff_outside by (auto simp: indexed_def)
  ultimately show ?thesis using False assms(2) by (simp add: substituteOutVariable_rows substitute_rows_frame)
qed

subsection \<open>Consistent tableaus\<close>

text \<open>
  Every row is well formed and in the columns of its variables, none of which is basic; the two tables of
  external variables have the external variables of the rows.
\<close>

definition row_ok :: "tableau \<Rightarrow> variable \<Rightarrow> expression \<Rightarrow> bool" where
  "row_ok T r e \<longleftrightarrow> indexed T r e \<and> (\<forall>t \<in> keys e. rows T t = None \<and> (isExternal t \<longrightarrow> t \<in> set (external_parametric T))) \<and>
     (isExternal r \<longrightarrow> r \<in> set (external_rows T))"

definition tableau_ok :: "tableau \<Rightarrow> bool" where
  "tableau_ok T \<longleftrightarrow> (\<forall>r e. rows T r = Some e \<longrightarrow> row_ok T r e)"

lemma tableau_okD:
  assumes "tableau_ok T" and "rows T r = Some e"
  shows "indexed T r e" and "wf_expr e" and "t \<in> keys e \<Longrightarrow> rows T t = None"
    and "t \<in> keys e \<Longrightarrow> in_column T t r"
    and "t \<in> keys e \<Longrightarrow> isExternal t \<Longrightarrow> t \<in> set (external_parametric T)"
    and "isExternal r \<Longrightarrow> r \<in> set (external_rows T)"
  using assms by (auto simp: tableau_ok_def row_ok_def indexed_def)

lemma new_tableau_ok: "tableau_ok (new_tableau z)"
  by (auto simp: tableau_ok_def row_ok_def indexed_def new_tableau_def)

text \<open>The checks of the code hold.\<close>

lemma tableau_ok_checks:
  assumes "tableau_ok T"
  shows "containsExternalParametricVariableForEveryExternalTerm T" "containsExternalRowForEachExternalRowVariable T"
  using tableau_okD(5,6)[OF assms]
  by (auto simp: containsExternalParametricVariableForEveryExternalTerm_def list_all_iff keys_def
      containsExternalRowForEachExternalRowVariable_def)

lemma removeRow_ok:
  assumes "tableau_ok T" and "removeRowForVariable v T = Inr T'"
  shows "tableau_ok T'"
proof -
  obtain e where "rows T v = Some e"
    using assms(2) by (auto simp: removeRowForVariable_def split: option.splits)
  then obtain T'' where T'': "removeRowForVariable v T = Inr T''" "rows T'' = (rows T)(v := None)"
      "\<And>t r. in_column T'' t r \<longleftrightarrow> in_column T t r \<and> \<not> (t \<in> keys e \<and> r = v)"
      "external_parametric T'' = external_parametric T"
      "set (external_rows T'') = set (external_rows T) - (if isExternal v then {v} else {})"
    by (rule removeRow_spec) blast
  show ?thesis
    using tableau_okD[OF assms(1)] T'' assms(2) by (auto simp: tableau_ok_def row_ok_def indexed_def split: if_splits)
qed

text \<open>A row for a new basic variable, after it was replaced in the others.\<close>

lemma new_row_ok:
  assumes ok: "tableau_ok T" and law: "lawful P" and d: "wf_expr d" "v \<notin> keys d" "\<forall>t \<in> keys d. rows T t = None"
    and v: "rows T v = None"
  shows "tableau_ok (addRowForVariable v d (substituteOutVariable P v d T))"
  unfolding tableau_ok_def
proof (intro allI impI)
  let ?S = "substituteOutVariable P v d T"
  fix r e'
  assume r: "rows (addRowForVariable v d ?S) r = Some e'"
  show "row_ok (addRowForVariable v d ?S) r e'"
  proof (cases "r = v")
    case True
    then show ?thesis
      using r d substituteOut_none[OF law, of T _ v d] by (auto simp: row_ok_def indexed_def)
  next
    case False
    then have at: "rows ?S r = Some e'" using r by simp
    then obtain e where e: "rows T r = Some e" using substituteOut_none[OF law, of T r v d] by (cases "rows T r") auto
    obtain e1 where e1: "rows ?S r = Some e1" "wf_expr e1" "keys e1 \<subseteq> keys d \<union> (keys e - {v})"
        "\<And>t. t \<in> keys e1 \<Longrightarrow> t \<noteq> v \<Longrightarrow> in_column ?S t r" "v \<notin> keys e \<and> \<not> in_column T v r \<Longrightarrow> e1 = e"
      by (rule substituteOut_some[OF law e tableau_okD(1)[OF ok e]]) blast
    have "e' = e1" using at e1(1) by simp
    moreover have "rows (addRowForVariable v d ?S) t = None \<and> in_column (addRowForVariable v d ?S) t r \<and>
        (isExternal t \<longrightarrow> t \<in> set (external_parametric (addRowForVariable v d ?S)))" if t: "t \<in> keys e1" for t
    proof -
      have "t \<noteq> v" using t e1(3) d(2) by auto
      moreover have "rows T t = None" using t e1(3) d(3) tableau_okD(3)[OF ok e] by auto
      moreover have "isExternal t \<Longrightarrow> t \<in> keys d \<or> t \<in> set (external_parametric T)"
        using t e1(3) tableau_okD(5)[OF ok e] by auto
      ultimately show ?thesis
        using e1(4)[OF t] substituteOut_none[OF law, of T t v d] by (auto simp: substituteOutVariable_rows(3))
    qed
    moreover have "isExternal r \<Longrightarrow> r \<in> set (external_rows (addRowForVariable v d ?S))"
      using tableau_okD(6)[OF ok e] by (auto simp: substituteOutVariable_rows(4))
    ultimately show ?thesis using e1(2) by (simp add: row_ok_def indexed_def)
  qed
qed

text \<open>A row for a variable that is in no row.\<close>

lemma add_row_ok:
  assumes "tableau_ok T" and "wf_expr d" and "v \<notin> keys d" and "\<forall>t \<in> keys d. rows T t = None"
    and "\<forall>r e. rows T r = Some e \<longrightarrow> v \<notin> keys e"
  shows "tableau_ok (addRowForVariable v d T)"
  using assms tableau_okD[OF assms(1)] unfolding tableau_ok_def row_ok_def indexed_def by auto

subsection \<open>Solutions\<close>

definition solves :: "(variable \<Rightarrow> rat) \<Rightarrow> tableau \<Rightarrow> bool" where
  "solves \<sigma> T \<longleftrightarrow> (\<forall>r e. rows T r = Some e \<longrightarrow> \<sigma> r = eval \<sigma> e)"

text \<open>Adding the row \<open>v = d\<close>, with \<open>v\<close> replaced in the others, adds this equation.\<close>

definition clear_rows :: "platform \<Rightarrow> variable \<Rightarrow> expression \<Rightarrow> tableau \<Rightarrow> bool" where
  "clear_rows P v d T \<longleftrightarrow> (\<forall>r e. rows T r = Some e \<longrightarrow> clear_in P v d e)"

lemma new_row_solutions:
  assumes ok: "tableau_ok T" and law: "lawful P" and "exact P" and d: "wf_expr d" "v \<notin> keys d"
    and v: "rows T v = None" and clear: "clear_rows P v d T"
  shows "solves \<sigma> (addRowForVariable v d (substituteOutVariable P v d T)) \<longleftrightarrow> solves \<sigma> T \<and> \<sigma> v = eval \<sigma> d"
proof -
  let ?S = "substituteOutVariable P v d T"
  have row: "\<exists>e'. rows ?S r = Some e' \<and> (\<sigma> v = eval \<sigma> d \<longrightarrow> eval \<sigma> e' = eval \<sigma> e)" if "rows T r = Some e" for r e
    using substituteOut_exact[OF law that tableau_okD(1)[OF ok that] assms(3) d, of \<sigma>] clear that
    by (auto simp: clear_rows_def)
  have origin: "\<exists>e. rows T r = Some e" if "rows ?S r = Some e'" for r e'
    using substituteOut_none[OF law, of T r v d] that by (cases "rows T r") auto
  show ?thesis
  proof
    assume new: "solves \<sigma> (addRowForVariable v d ?S)"
    then have "\<sigma> v = eval \<sigma> d" by (simp add: solves_def)
    moreover have "\<sigma> r = eval \<sigma> e" if e: "rows T r = Some e" for r e
    proof -
      have "r \<noteq> v" using e v by auto
      then show ?thesis using row[OF e] new calculation by (fastforce simp: solves_def)
    qed
    ultimately show "solves \<sigma> T \<and> \<sigma> v = eval \<sigma> d" by (simp add: solves_def)
  next
    assume old: "solves \<sigma> T \<and> \<sigma> v = eval \<sigma> d"
    have "\<sigma> r = eval \<sigma> e'" if "rows ?S r = Some e'" for r e'
      using origin[OF that] row old that by (fastforce simp: solves_def)
    then show "solves \<sigma> (addRowForVariable v d ?S)" using old by (auto simp: solves_def)
  qed
qed

subsection \<open>Pivots\<close>

text \<open>The expression of the entry variable, and when no coefficient is lost.\<close>

definition pivot_clear :: "platform \<Rightarrow> variable \<Rightarrow> variable \<Rightarrow> tableau \<Rightarrow> bool" where
  "pivot_clear P entryVariable exitVariable T \<longleftrightarrow>
     (case Option.bind (rows T exitVariable) (\<lambda>e. newSubject P entryVariable e) of
        None \<Rightarrow> True
      | Some (r, e) \<Rightarrow> clear P r \<and>
          (\<forall>q d. q \<noteq> exitVariable \<longrightarrow> rows T q = Some d \<longrightarrow>
             clear_in P entryVariable (addTerm P exitVariable r e) d))"

text \<open>A pivot that returns, in parts.\<close>

lemma pivot_parts:
  assumes "pivot P v x T = Some (Inr T')" and "tableau_ok T"
  obtains e r d T1 where "rows T x = Some e" and "newSubject P v e = Some (r, d)"
    and "removeRowForVariable x T = Inr T1"
    and "rows T' = rows (addRowForVariable v (addTerm P x r d)
      (substituteOutVariable P v (addTerm P x r d) (recordUpdatedVariable x T1)))"
    and "tableau_ok (recordUpdatedVariable x T1)" and "rows T1 = (rows T)(x := None)"
    and "\<And>t q. in_column T1 t q \<longleftrightarrow> in_column T t q \<and> \<not> (t \<in> keys e \<and> q = x)"
    and "T' = addRowForVariable v (addTerm P x r d)
      (substituteOutVariable P v (addTerm P x r d) (recordUpdatedVariable x T1)) \<or>
      isExternal v"
    and "\<And>S. S = substituteOutVariable P v (addTerm P x r d) (recordUpdatedVariable x T1) \<Longrightarrow>
      T' = addRowForVariable v (addTerm P x r d)
        (if isExternal v then S\<lparr>external_parametric := removeObject v (external_parametric S)\<rparr> else S)"
proof -
  obtain e where e: "rows T x = Some e"
    using assms(1) by (cases "rows T x") (auto simp: pivot_def removeRowForVariable_def)
  then obtain T1 where T1: "removeRowForVariable x T = Inr T1" "rows T1 = (rows T)(x := None)"
      "\<And>t q. in_column T1 t q \<longleftrightarrow> in_column T t q \<and> \<not> (t \<in> keys e \<and> q = x)"
    by (rule removeRow_spec) blast
  obtain r d where d: "newSubject P v e = Some (r, d)"
      and T': "\<And>S. S = substituteOutVariable P v (addTerm P x r d) (recordUpdatedVariable x T1) \<Longrightarrow>
      T' = addRowForVariable v (addTerm P x r d)
        (if isExternal v then S\<lparr>external_parametric := removeObject v (external_parametric S)\<rparr> else S)"
    using assms(1) T1(1) e by (auto simp: pivot_def changeSubject_def Let_def split: option.splits)
  have "tableau_ok (recordUpdatedVariable x T1)"
    using removeRow_ok[OF assms(2) T1(1)] unfolding tableau_ok_def row_ok_def indexed_def by simp
  then show ?thesis
    using e d T1 T' by (intro that) (auto split: if_splits)
qed

lemma pivot_ok:
  assumes ok: "tableau_ok T" and law: "lawful P" and pivot: "pivot P v x T = Some (Inr T')"
  shows "tableau_ok T'"
proof -
  obtain e r d T1 where parts: "rows T x = Some e" "newSubject P v e = Some (r, d)"
      "tableau_ok (recordUpdatedVariable x T1)" "rows T1 = (rows T)(x := None)"
      and T': "\<And>S. S = substituteOutVariable P v (addTerm P x r d) (recordUpdatedVariable x T1) \<Longrightarrow>
      T' = addRowForVariable v (addTerm P x r d)
        (if isExternal v then S\<lparr>external_parametric := removeObject v (external_parametric S)\<rparr> else S)"
    by (rule pivot_parts[OF pivot ok]) blast
  let ?d = "addTerm P x r d" and ?T = "recordUpdatedVariable x T1"
  let ?S = "substituteOutVariable P v ?d ?T"
  have d: "wf_expr d" "keys d = keys e - {v}" "v \<in> keys e"
    using newSubject_spec[OF parts(2)] tableau_okD(2)[OF ok parts(1)] by blast+
  have "x \<notin> keys e" using tableau_okD(3)[OF ok parts(1)] parts(1) by auto
  then have "v \<noteq> x" using d(3) by blast
  have "keys ?d \<subseteq> insert x (keys d)" by (auto simp: addTerm_spec)
  then have keys: "v \<notin> keys ?d" "\<forall>t \<in> keys ?d. rows ?T t = None"
    using d(2) \<open>v \<noteq> x\<close> parts(4) tableau_okD(3)[OF ok parts(1)] by auto
  have "rows ?T v = None" using parts(4) tableau_okD(3)[OF ok parts(1) d(3)] by simp
  then have new: "tableau_ok (addRowForVariable v ?d ?S)"
    using keys d(1) by (intro new_row_ok[OF parts(3) law]) (simp_all add: addTerm_spec)
  have "set (external_parametric (if isExternal v then ?S\<lparr>external_parametric := removeObject v (external_parametric ?S)\<rparr> else ?S)) =
      set (external_parametric ?S)"
    by (auto simp: substituteOutVariable_rows(3))
  then have "rows T' = rows (addRowForVariable v ?d ?S)" "\<And>t q. in_column T' t q = in_column (addRowForVariable v ?d ?S) t q"
      "set (external_rows T') = set (external_rows (addRowForVariable v ?d ?S))"
      "set (external_parametric T') = set (external_parametric (addRowForVariable v ?d ?S))"
    unfolding T'[OF refl] by (simp_all split: if_split)
  then show ?thesis using new by (simp add: tableau_ok_def row_ok_def indexed_def)
qed

lemma pivot_solutions:
  assumes ok: "tableau_ok T" and law: "lawful P" "exact P" and pivot: "pivot P v x T = Some (Inr T')"
    and clear: "pivot_clear P v x T"
  shows "solves \<sigma> T' \<longleftrightarrow> solves \<sigma> T"
proof -
  obtain e r d T1 where parts: "rows T x = Some e" "newSubject P v e = Some (r, d)"
      "rows T' = rows (addRowForVariable v (addTerm P x r d)
      (substituteOutVariable P v (addTerm P x r d) (recordUpdatedVariable x T1)))"
      "tableau_ok (recordUpdatedVariable x T1)" "rows T1 = (rows T)(x := None)"
    by (rule pivot_parts[OF pivot ok]) blast
  let ?d = "addTerm P x r d" and ?T = "recordUpdatedVariable x T1"
  have wf: "wf_expr e" by (rule tableau_okD(2)[OF ok parts(1)])
  have d: "wf_expr d" "keys d = keys e - {v}" "v \<in> keys e"
    using newSubject_spec[OF parts(2)] wf by blast+
  have x: "x \<notin> keys e" using tableau_okD(3)[OF ok parts(1)] parts(1) by auto
  then have "v \<noteq> x" "coeff d x = 0" using d coeff_outside[OF d(1)] by auto
  have "clear P r" "r \<noteq> 0"
    using clear parts(1,2) newSubject_eval(1,2)[OF wf law(2) parts(2)] by (simp_all add: pivot_clear_def)
  then have val: "eval \<sigma> ?d = eval \<sigma> d + r * \<sigma> x"
    using eval_add[OF d(1) law(2), of r x \<sigma>] \<open>coeff d x = 0\<close> by simp
  have "v \<notin> keys ?d" using d(2) \<open>v \<noteq> x\<close> by (auto simp: addTerm_spec)
  moreover have "rows ?T v = None" using parts(5) tableau_okD(3)[OF ok parts(1) d(3)] by simp
  moreover have "clear_rows P v ?d ?T" using clear parts(1,2,5) by (simp add: clear_rows_def pivot_clear_def)
  ultimately have "solves \<sigma> (addRowForVariable v ?d (substituteOutVariable P v ?d ?T)) \<longleftrightarrow>
      solves \<sigma> ?T \<and> \<sigma> v = eval \<sigma> ?d"
    using d(1) by (intro new_row_solutions[OF parts(4) law]) (simp_all add: addTerm_spec)
  also have "\<sigma> v = eval \<sigma> ?d \<longleftrightarrow> \<sigma> x = eval \<sigma> e"
    using newSubject_eval(4)[OF wf law(2) parts(2), of \<sigma> "\<sigma> x"] by (auto simp: val mult.commute)
  also have "solves \<sigma> ?T \<and> \<sigma> x = eval \<sigma> e \<longleftrightarrow> solves \<sigma> T"
    using parts(1,5) by (auto simp: solves_def split: if_splits) (metis option.inject)
  finally show ?thesis using parts(3) by (simp add: solves_def)
qed

end
