(* ===== verification/Constraints.thy ===== *)
theory Constraints
  imports TableauPivot
begin

text \<open>
  Constraints and their strengths (\<open>Source/GSCSConstraint.m\<close>, \<open>GSCSStrength.m\<close>). A constraint is an expression
  that shall be zero, or at least zero for an inequality.
\<close>

datatype constraint_type =
    GSCSConstraintTypeEdit
  | GSCSConstraintTypeStay
  | GSCSConstraintTypeLinear
  | GSCSConstraintTypeLinearInequity

datatype constraint_operator =
    GSCSConstraintOperatorEqual
  | GSCSConstraintOperationGreaterThanOrEqual
  | GSCSConstraintOperatorLessThanOrEqual

record constraint =
  constraint_type :: constraint_type
  strength :: rat
  constraint_expression :: expression
  constraint_variable :: "variable option"
  constraint_address :: nat

definition GSCSStrengthRequired :: rat where "GSCSStrengthRequired = 1000"
definition GSCSStrengthStrong :: rat where "GSCSStrengthStrong = 750"
definition GSCSStrengthMedium :: rat where "GSCSStrengthMedium = 500"
definition GSCSStrengthWeak :: rat where "GSCSStrengthWeak = 250"

definition isRequired :: "platform \<Rightarrow> constraint \<Rightarrow> bool" where
  "isRequired P c = isApproximatelyEqual P (strength c) GSCSStrengthRequired"

definition isInequality :: "constraint \<Rightarrow> bool" where
  "isInequality c \<longleftrightarrow> constraint_type c = GSCSConstraintTypeLinearInequity"

definition isEditConstraint :: "constraint \<Rightarrow> bool" where
  "isEditConstraint c \<longleftrightarrow> constraint_type c = GSCSConstraintTypeEdit"

text \<open>The address of the new object is an argument.\<close>

definition linear :: "nat \<Rightarrow> expression \<Rightarrow> constraint" where
  "linear a e = \<lparr>constraint_type = GSCSConstraintTypeLinear, strength = GSCSStrengthRequired,
     constraint_expression = e, constraint_variable = None, constraint_address = a\<rparr>"

definition linearInequity :: "nat \<Rightarrow> expression \<Rightarrow> constraint" where
  "linearInequity a e = (linear a e)\<lparr>constraint_type := GSCSConstraintTypeLinearInequity\<rparr>"

definition initEditConstraint :: "platform \<Rightarrow> nat \<Rightarrow> variable \<Rightarrow> rat \<Rightarrow> rat \<Rightarrow> constraint" where
  "initEditConstraint P a v x s =
     \<lparr>constraint_type = GSCSConstraintTypeEdit, strength = s, constraint_expression = initWithVariable P v (- 1) x,
      constraint_variable = Some v, constraint_address = a\<rparr>"

definition initStayConstraint :: "platform \<Rightarrow> nat \<Rightarrow> variable \<Rightarrow> rat \<Rightarrow> rat \<Rightarrow> constraint" where
  "initStayConstraint P a v x s = (initEditConstraint P a v x s)\<lparr>constraint_type := GSCSConstraintTypeStay\<rparr>"

definition leftVariableRightVariable :: "platform \<Rightarrow> nat \<Rightarrow> variable \<Rightarrow> constraint_operator \<Rightarrow> variable \<Rightarrow> constraint" where
  "leftVariableRightVariable P a lhs oper rhs =
     (case oper of
        GSCSConstraintOperatorEqual \<Rightarrow> linear a (addTerm P rhs (- 1) (initWithVariable P lhs 1 0))
      | GSCSConstraintOperationGreaterThanOrEqual \<Rightarrow>
          linearInequity a (addTerm P lhs 1 (multiplyConstantAndTermsBy P (- 1) (initWithVariable P rhs 1 0)))
      | GSCSConstraintOperatorLessThanOrEqual \<Rightarrow>
          linearInequity a (addTerm P lhs (- 1) (initWithVariable P rhs 1 0)))"

definition leftVariableRightConstant :: "platform \<Rightarrow> nat \<Rightarrow> variable \<Rightarrow> constraint_operator \<Rightarrow> rat \<Rightarrow> constraint" where
  "leftVariableRightConstant P a lhs oper rhs =
     (case oper of
        GSCSConstraintOperatorEqual \<Rightarrow> linear a ((addTerm P lhs 1 (initWithConstant 0))\<lparr>expr_constant := - rhs\<rparr>)
      | GSCSConstraintOperationGreaterThanOrEqual \<Rightarrow>
          linearInequity a (addTerm P lhs 1 (multiplyConstantAndTermsBy P (- 1) (initWithConstant rhs)))
      | GSCSConstraintOperatorLessThanOrEqual \<Rightarrow>
          linearInequity a (addTerm P lhs (- 1) (initWithConstant rhs)))"

definition leftConstantRightVariable :: "platform \<Rightarrow> nat \<Rightarrow> rat \<Rightarrow> constraint_operator \<Rightarrow> variable \<Rightarrow> constraint" where
  "leftConstantRightVariable P a lhs oper rhs =
     (case oper of
        GSCSConstraintOperatorEqual \<Rightarrow> linear a (addTerm P rhs (- 1) (initWithConstant lhs))
      | GSCSConstraintOperationGreaterThanOrEqual \<Rightarrow> linearInequity a (addTerm P rhs (- 1) (initWithConstant lhs))
      | GSCSConstraintOperatorLessThanOrEqual \<Rightarrow>
          linearInequity a (addTerm P rhs 1 (multiplyConstantAndTermsBy P (- 1) (initWithConstant lhs))))"

definition leftExpressionRightExpression ::
    "platform \<Rightarrow> nat \<Rightarrow> expression \<Rightarrow> constraint_operator \<Rightarrow> expression \<Rightarrow> constraint" where
  "leftExpressionRightExpression P a lhs oper rhs =
     (let e = copy_expression P rhs
      in case oper of
           GSCSConstraintOperatorEqual \<Rightarrow> linear a (addExpression P lhs (- 1) e)
         | GSCSConstraintOperationGreaterThanOrEqual \<Rightarrow>
             linearInequity a (addExpression P lhs 1 (multiplyConstantAndTermsBy P (- 1) e))
         | GSCSConstraintOperatorLessThanOrEqual \<Rightarrow> linearInequity a (addExpression P lhs (- 1) e))"

definition leftVariableRightExpression ::
    "platform \<Rightarrow> nat \<Rightarrow> variable \<Rightarrow> constraint_operator \<Rightarrow> expression \<Rightarrow> constraint" where
  "leftVariableRightExpression P a lhs = leftExpressionRightExpression P a (initWithVariable P lhs 1 0)"

definition leftExpressionRightVariable ::
    "platform \<Rightarrow> nat \<Rightarrow> expression \<Rightarrow> constraint_operator \<Rightarrow> variable \<Rightarrow> constraint" where
  "leftExpressionRightVariable P a lhs oper rhs =
     leftExpressionRightExpression P a lhs oper (initWithVariable P rhs 1 0)"

definition leftExpressionRightConstant ::
    "platform \<Rightarrow> nat \<Rightarrow> expression \<Rightarrow> constraint_operator \<Rightarrow> rat \<Rightarrow> constraint" where
  "leftExpressionRightConstant P a lhs oper rhs =
     leftExpressionRightExpression P a lhs oper (initWithConstant rhs)"

definition equalsConstant :: "platform \<Rightarrow> nat \<Rightarrow> variable \<Rightarrow> rat \<Rightarrow> constraint" where
  "equalsConstant P a lhs rhs = linear a (initWithVariable P lhs 1 (- rhs))"

definition editConstraintWithVariable :: "platform \<Rightarrow> nat \<Rightarrow> variable \<Rightarrow> rat \<Rightarrow> constraint" where
  "editConstraintWithVariable P a v x = initEditConstraint P a v x GSCSStrengthStrong"

definition setStrength :: "rat \<Rightarrow> constraint \<Rightarrow> constraint" where
  "setStrength s c = c\<lparr>strength := s\<rparr>"

text \<open>What an assignment has to satisfy.\<close>

definition satisfied :: "(variable \<Rightarrow> rat) \<Rightarrow> constraint \<Rightarrow> bool" where
  "satisfied \<sigma> c \<longleftrightarrow>
     (if isInequality c then 0 \<le> eval \<sigma> (constraint_expression c) else eval \<sigma> (constraint_expression c) = 0)"

fun compares :: "constraint_operator \<Rightarrow> rat \<Rightarrow> rat \<Rightarrow> bool" where
  "compares GSCSConstraintOperatorEqual x y \<longleftrightarrow> x = y"
| "compares GSCSConstraintOperationGreaterThanOrEqual x y \<longleftrightarrow> y \<le> x"
| "compares GSCSConstraintOperatorLessThanOrEqual x y \<longleftrightarrow> x \<le> y"

end
