(* ===== verification/Solver.thy ===== *)
theory Solver
  imports Constraints
begin

text \<open>
  The constraint solver (\<open>Source/GSCassowarySolver.m\<close>, \<open>GSCSEditVariableManager.m\<close>, \<open>GSCSEditInfo.m\<close>,
  \<open>GSCSSolution.m\<close>): adding and removing constraints, the primal and the dual simplex loop, and suggested
  values of edit variables. The loops need not return.
\<close>

subsection \<open>State\<close>

record edit_info =
  edit_constraint :: nat
  edit_variable :: variable
  plus_variable :: variable
  minus_variable :: "variable option"
  previous_constant :: rat

text \<open>The tables of markers and error variables have constraints, by address, as keys.\<close>

record solver =
  tab :: tableau
  edit_infos :: "edit_info list"
  marker_variables :: "nat \<Rightarrow> variable option"
  error_variables :: "nat \<Rightarrow> variable list option"
  external_variables :: "variable list"
  artificial_counter :: int
  slack_counter :: int
  dummy_counter :: int
  variable_value :: "variable \<Rightarrow> rat"
  next_address :: nat

definition new_solver :: "nat \<Rightarrow> solver" where
  "new_solver a =
     \<lparr>tab = new_tableau (new_variable GSCSVariableTypeObjective a), edit_infos = [], marker_variables = Map.empty,
      error_variables = Map.empty, external_variables = [], artificial_counter = 0, slack_counter = 0,
      dummy_counter = 0, variable_value = (\<lambda>_. 0), next_address = a + 1\<rparr>"

definition allocate :: "variable_type \<Rightarrow> solver \<Rightarrow> variable \<times> solver" where
  "allocate t S = (new_variable t (next_address S), S\<lparr>next_address := next_address S + 1\<rparr>)"

definition with_tab :: "tableau pstep \<Rightarrow> solver \<Rightarrow> solver pstep" where
  "with_tab r S =
     (case r of
        None \<Rightarrow> None
      | Some (Inl (x, T)) \<Rightarrow> Some (Inl (x, S\<lparr>tab := T\<rparr>))
      | Some (Inr T) \<Rightarrow> Some (Inr (S\<lparr>tab := T\<rparr>)))"

subsection \<open>The expression of a constraint\<close>

text \<open>\<open>addVariable:coefficient:toExpression:\<close> and \<open>addExpression:multiplier:toExpression:\<close> of the solver.\<close>

definition accumulate :: "platform \<Rightarrow> variable \<Rightarrow> rat \<Rightarrow> expression \<Rightarrow> expression" where
  "accumulate P v c e =
     (let updated = double P ((if isTermForVariable v e then coefficientForTerm P v e else 0) + c)
      in if isApproximatelyZero P updated then dropVariable v e else addTerm P v updated e)"

definition accumulateExpression :: "platform \<Rightarrow> expression \<Rightarrow> rat \<Rightarrow> expression \<Rightarrow> expression" where
  "accumulateExpression P source multiplier d =
     fold (\<lambda>v. accumulate P v (double P (multiplier * coefficientForTerm P v source))) (term_variables source)
       (d\<lparr>expr_constant := double P (expr_constant d + double P (multiplier * expr_constant source))\<rparr>)"

definition addErrorVariable :: "platform \<Rightarrow> variable \<Rightarrow> rat \<Rightarrow> solver \<Rightarrow> solver" where
  "addErrorVariable P v s S = S\<lparr>tab := addVariableToRow P v s (objective (tab S)) (tab S)\<rparr>"

text \<open>A term of the constraint: its variable, or the row of its variable.\<close>

definition addConstraintTerm :: "platform \<Rightarrow> expression \<Rightarrow> variable \<Rightarrow> expression \<times> solver \<Rightarrow> expression \<times> solver" where
  "addConstraintTerm P c v = (\<lambda>(e, S).
     let k = coefficientForTerm P v c
     in case rows (tab S) v of
          None \<Rightarrow> (accumulate P v k e,
            if isExternal v then S\<lparr>external_variables := addToSet v (external_variables S)\<rparr> else S)
        | Some row \<Rightarrow> (accumulateExpression P row k e, S))"

definition next_slack :: "solver \<Rightarrow> variable \<times> solver" where
  "next_slack S = allocate GSCSVariableTypeSlack (S\<lparr>slack_counter := slack_counter S + 1\<rparr>)"

definition expressionForNewConstraint ::
    "platform \<Rightarrow> constraint \<Rightarrow> solver \<Rightarrow> (expression \<times> variable \<times> variable list option) \<times> solver" where
  "expressionForNewConstraint P c S =
     (let ce = constraint_expression c;
          (e, S) = fold (addConstraintTerm P ce) (term_variables ce) (initWithConstant (expr_constant ce), S);
          (e, marker, errors, S) =
            (if isInequality c
             then let (slack, S) = next_slack S;
                      e = accumulate P slack (- 1) e
                  in if isRequired P c then (e, slack, None, S)
                     else let (eMinus, S) = next_slack S
                          in (accumulate P eMinus 1 e, slack, Some [eMinus], addErrorVariable P eMinus (strength c) S)
             else if isRequired P c
             then let (dummy, S) = allocate GSCSVariableTypeDummy (S\<lparr>dummy_counter := dummy_counter S + 1\<rparr>)
                  in (accumulate P dummy 1 e, dummy, None, S)
             else let (ePlus, S) = next_slack S;
                      (eMinus, S) = next_slack S
                  in (accumulate P eMinus 1 (accumulate P ePlus (- 1) e), ePlus, Some [ePlus, eMinus],
                      addErrorVariable P eMinus (strength c) (addErrorVariable P ePlus (strength c) S)))
      in ((if expr_constant e < 0 then normalize_expression P e else e, marker, errors), S))"

subsection \<open>Adding the expression\<close>

definition unused :: "variable \<Rightarrow> tableau \<Rightarrow> bool" where
  "unused v T \<longleftrightarrow>
     (case columns T v of
        None \<Rightarrow> True
      | Some rs \<Rightarrow> length rs = 0 \<or> length rs = 1 \<and> objective T \<in> set rs)"

fun choose_subject :: "platform \<Rightarrow> tableau \<Rightarrow> expression \<Rightarrow> variable list \<Rightarrow> variable option \<Rightarrow> bool \<Rightarrow> bool \<Rightarrow> variable option" where
  "choose_subject P T e [] subject unrestricted restricted = subject"
| "choose_subject P T e (v # vs) subject unrestricted restricted =
     (if unrestricted
      then if \<not> isRestricted v \<and> \<not> hasColumnForVariable v T then Some v
           else choose_subject P T e vs subject unrestricted restricted
      else if isRestricted v
      then if \<not> restricted \<and> \<not> isDummy v \<and> coefficientForTerm P v e < 0 \<and> unused v T
           then choose_subject P T e vs (Some v) False True
           else choose_subject P T e vs subject False restricted
      else choose_subject P T e vs (Some v) True restricted)"

text \<open>The loop over dummies, \<open>None\<close> at another variable.\<close>

fun choose_dummy :: "platform \<Rightarrow> tableau \<Rightarrow> expression \<Rightarrow> variable list \<Rightarrow> variable option \<Rightarrow> rat \<Rightarrow> (variable option \<times> rat) option" where
  "choose_dummy P T e [] subject c = Some (subject, c)"
| "choose_dummy P T e (v # vs) subject c =
     (if \<not> isDummy v then None
      else if \<not> hasColumnForVariable v T then choose_dummy P T e vs (Some v) (coefficientForTerm P v e)
      else choose_dummy P T e vs subject c)"

definition chooseSubject :: "platform \<Rightarrow> tableau \<Rightarrow> expression \<Rightarrow> variable option \<times> expression" where
  "chooseSubject P T e =
     (case choose_subject P T e (term_variables e) None False False of
        Some v \<Rightarrow> (Some v, e)
      | None \<Rightarrow>
          (case choose_dummy P T e (term_variables e) None 0 of
             None \<Rightarrow> (None, e)
           | Some (subject, c) \<Rightarrow>
               if \<not> isApproximatelyZero P (expr_constant e) then (None, e)
               else (subject, if 0 < c then normalize_expression P e else e)))"

text \<open>The row for a subject: \<open>newSubject:\<close>, substitution where the subject has a column, and the row.\<close>

definition addSubject :: "platform \<Rightarrow> variable \<Rightarrow> expression \<Rightarrow> tableau \<Rightarrow> tableau option" where
  "addSubject P subject e T =
     map_option (\<lambda>(r, d). addRowForVariable subject d
         (if hasColumnForVariable subject T then substituteOutVariable P subject d T else T))
       (newSubject P subject e)"

subsection \<open>The primal loop\<close>

definition entry_variable :: "platform \<Rightarrow> expression option \<Rightarrow> variable option" where
  "entry_variable P row =
     (case row of
        None \<Rightarrow> None
      | Some e \<Rightarrow>
          snd (fold (\<lambda>v (mostNegative, entry).
              if isPivotable v \<and> coefficientForTerm P v e < mostNegative then (coefficientForTerm P v e, Some v)
              else (mostNegative, entry))
            (term_variables e) (- double P (1 / 10 ^ 8), None)))"

partial_function (option) optimize :: "platform \<Rightarrow> variable \<Rightarrow> tableau \<Rightarrow> tableau pstep" where
  "optimize P z T =
     (case entry_variable P (rows T z) of
        None \<Rightarrow> Some (Inr T)
      | Some entry \<Rightarrow>
          (case findPivotableExitVariable P entry T of
             None \<Rightarrow> Some (Inl (NSInternalInconsistencyException, T))
           | Some exit \<Rightarrow> pbind (pivot P entry exit T) (optimize P z)))"

definition addWithArtificialVariable :: "platform \<Rightarrow> expression \<Rightarrow> solver \<Rightarrow> solver pstep" where
  "addWithArtificialVariable P e S =
     (let (artificial, S) = allocate GSCSVariableTypeSlack (S\<lparr>artificial_counter := artificial_counter S + 1\<rparr>);
          (az, S) = allocate GSCSVariableTypeObjective S;
          T = addRowForVariable artificial e (addRowForVariable az (copy_expression P e) (tab S))
      in with_tab (pbind (optimize P az T) (\<lambda>T.
           if \<not> isApproximatelyZero P (row_constant (rows T az))
           then pbind (Some (removeRowForVariable az T)) (\<lambda>T.
                  Some (Inl (NSInvalidArgumentException, removeTableauColumn P artificial T)))
           else
             let finish = (\<lambda>T. pbind (Some (removeRowForVariable az T)) (\<lambda>T. Some (Inr (removeTableauColumn P artificial T))))
             in case rows T artificial of
                  None \<Rightarrow> finish T
                | Some row \<Rightarrow>
                    if isConstant row
                    then pbind (Some (removeRowForVariable artificial T)) (\<lambda>T. Some (removeRowForVariable az T))
                    else (case anyPivotableVariable row of
                            Inl x \<Rightarrow> Some (Inl (x, T))
                          | Inr None \<Rightarrow> None
                          | Inr (Some v) \<Rightarrow> pbind (pivot P v artificial T) finish))) S)"

subsection \<open>Adding constraints\<close>

definition registerEditInfo :: "constraint \<Rightarrow> variable \<Rightarrow> variable list option \<Rightarrow> solver \<Rightarrow> solver" where
  "registerEditInfo c marker errors S =
     (case constraint_variable c of
        None \<Rightarrow> S
      | Some v \<Rightarrow>
          if list_ex (\<lambda>i. edit_constraint i = constraint_address c) (edit_infos S) then S
          else
            let minusVariable = lastObject (filter (\<lambda>x. x \<noteq> marker) (case errors of None \<Rightarrow> [] | Some xs \<Rightarrow> xs))
            in S\<lparr>edit_infos := edit_infos S @
                 [\<lparr>edit_constraint = constraint_address c, edit_variable = v, plus_variable = marker,
                   minus_variable = minusVariable, previous_constant = variable_value S v\<rparr>]\<rparr>)"

definition addConstraintToTableau :: "platform \<Rightarrow> constraint \<Rightarrow> solver \<Rightarrow> solver pstep" where
  "addConstraintToTableau P c S =
     (let ((e, marker, errors), S) = expressionForNewConstraint P c S;
          (subject, e) = chooseSubject P (tab S) e
      in pbind (case subject of
                  None \<Rightarrow> addWithArtificialVariable P e S
                | Some v \<Rightarrow> map_option (\<lambda>T. Inr (S\<lparr>tab := T\<rparr>)) (addSubject P v e (tab S))) (\<lambda>S.
         let S = S\<lparr>marker_variables := (marker_variables S)(constraint_address c \<mapsto> marker)\<rparr>;
             S = (case errors of
                    None \<Rightarrow> S
                  | Some xs \<Rightarrow> S\<lparr>error_variables := (error_variables S)(constraint_address c \<mapsto> xs)\<rparr>)
         in Some (Inr (if isEditConstraint c then registerEditInfo c marker errors S else S))))"

definition setExternalVariables :: "solver \<Rightarrow> solver" where
  "setExternalVariables S =
     S\<lparr>variable_value := (\<lambda>v. if v \<in> set (external_variables S) then row_constant (rows (tab S) v)
       else variable_value S v)\<rparr>"

definition resolve :: "platform \<Rightarrow> solver \<Rightarrow> solver pstep" where
  "resolve P S =
     pbind (with_tab (optimize P (objective (tab S)) (tab S)) S) (\<lambda>S. Some (Inr (setExternalVariables S)))"

definition addConstraint :: "platform \<Rightarrow> constraint \<Rightarrow> solver \<Rightarrow> solver pstep" where
  "addConstraint P c S = pbind (addConstraintToTableau P c S) (resolve P)"

text \<open>A loop over an array with a body that need not return.\<close>

fun for_all :: "('a \<Rightarrow> 's \<Rightarrow> 's pstep) \<Rightarrow> 'a list \<Rightarrow> 's \<Rightarrow> 's pstep" where
  "for_all f [] s = Some (Inr s)"
| "for_all f (x # xs) s = pbind (f x s) (for_all f xs)"

definition addConstraints :: "platform \<Rightarrow> constraint list \<Rightarrow> solver \<Rightarrow> solver pstep" where
  "addConstraints P cs S =
     (if cs = [] then Some (Inr S) else pbind (for_all (addConstraintToTableau P) cs S) (resolve P))"

subsection \<open>Removing constraints\<close>

text \<open>Quotients, which may be infinite, and their order.\<close>

datatype quotient = Quotient rat | PlusInfinity | MinusInfinity | NotANumber

definition divide_by :: "platform \<Rightarrow> rat \<Rightarrow> rat \<Rightarrow> quotient" where
  "divide_by P a b =
     (if b \<noteq> 0 then Quotient (double P (a / b)) else if 0 < a then PlusInfinity
      else if a < 0 then MinusInfinity else NotANumber)"

fun below :: "quotient \<Rightarrow> quotient \<Rightarrow> bool" where
  "below (Quotient a) (Quotient b) \<longleftrightarrow> a < b"
| "below (Quotient a) PlusInfinity \<longleftrightarrow> True"
| "below MinusInfinity (Quotient b) \<longleftrightarrow> True"
| "below MinusInfinity PlusInfinity \<longleftrightarrow> True"
| "below _ _ \<longleftrightarrow> False"

definition smallest_ratio :: "(variable \<Rightarrow> quotient option) \<Rightarrow> variable list \<Rightarrow> variable option" where
  "smallest_ratio ratio vs =
     map_option fst (fold (\<lambda>v best.
       case ratio v of
         None \<Rightarrow> best
       | Some r \<Rightarrow> (case best of
           None \<Rightarrow> Some (v, r)
         | Some (_, s) \<Rightarrow> if below r s then Some (v, r) else best)) vs None)"

definition exitVariableForMarker :: "platform \<Rightarrow> variable \<Rightarrow> tableau \<Rightarrow> variable option" where
  "exitVariableForMarker P marker T =
     (let column = columnForVariable P marker T;
          c = (\<lambda>v. row_coefficient P marker (rows T v));
          k = (\<lambda>v. row_constant (rows T v));
          first = smallest_ratio (\<lambda>v. if isRestricted v \<and> c v < 0 then Some (divide_by P (- k v) (c v)) else None) column;
          second = smallest_ratio (\<lambda>v. if isRestricted v then Some (divide_by P (k v) (c v)) else None) column
      in case first of
           Some v \<Rightarrow> Some v
         | None \<Rightarrow> (case second of
             Some v \<Rightarrow> Some v
           | None \<Rightarrow> lastObject (filter (\<lambda>v. v \<noteq> objective T) column)))"

definition takeOutError :: "platform \<Rightarrow> rat \<Rightarrow> variable \<Rightarrow> tableau \<Rightarrow> tableau" where
  "takeOutError P weight v T =
     (case rows T v of
        None \<Rightarrow> addVariableToRow P v (- weight) (objective T) T
      | Some row \<Rightarrow> addExpressionToRow P row (- weight) (objective T) T)"

definition removeConstraintFromTableau :: "platform \<Rightarrow> constraint \<Rightarrow> solver \<Rightarrow> solver pstep" where
  "removeConstraintFromTableau P c S =
     (case marker_variables S (constraint_address c) of
        None \<Rightarrow> Some (Inl (NSInvalidArgumentException, S))
      | Some marker \<Rightarrow>
          let errors = error_variables S (constraint_address c);
              vs = (case errors of None \<Rightarrow> [] | Some xs \<Rightarrow> xs);
              S = S\<lparr>tab := fold (takeOutError P (strength c)) vs (tab S),
                     marker_variables := (marker_variables S)(constraint_address c := None)\<rparr>;
              pivoted = (case rows (tab S) marker of
                 Some _ \<Rightarrow> Some (Inr (tab S))
               | None \<Rightarrow> (case exitVariableForMarker P marker (tab S) of
                   None \<Rightarrow> Some (Inr (tab S))
                 | Some x \<Rightarrow> pivot P marker x (tab S)))
          in pbind (with_tab (pbind pivoted (\<lambda>T.
               Some (seq (if rows T marker \<noteq> None then removeRowForVariable marker T else Inr T) (\<lambda>T.
                 let T = (if hasColumnForVariable marker T then removeTableauColumn P marker T else T)
                 in Inr (fold (\<lambda>v T. if v \<noteq> marker then removeTableauColumn P v T else T) vs T))))) S) (\<lambda>S.
             Some (Inr (if errors = None then S
               else S\<lparr>error_variables := (error_variables S)(constraint_address c := None)\<rparr>))))"

definition removeConstraint :: "platform \<Rightarrow> constraint \<Rightarrow> solver \<Rightarrow> solver pstep" where
  "removeConstraint P c S = pbind (removeConstraintFromTableau P c S) (resolve P)"

definition removeConstraints :: "platform \<Rightarrow> constraint list \<Rightarrow> solver \<Rightarrow> solver pstep" where
  "removeConstraints P cs S =
     (if cs = [] then Some (Inr S) else pbind (for_all (removeConstraintFromTableau P) cs S) (resolve P))"

subsection \<open>Suggested values\<close>

definition editInfoForVariable :: "variable \<Rightarrow> solver \<Rightarrow> edit_info option" where
  "editInfoForVariable v S = lastObject (filter (\<lambda>i. edit_variable i = v) (edit_infos S))"

definition addEditVariable :: "platform \<Rightarrow> variable \<Rightarrow> rat \<Rightarrow> solver \<Rightarrow> solver pstep" where
  "addEditVariable P v s S =
     addConstraint P (initEditConstraint P (next_address S) v (variable_value S v) s)
       (S\<lparr>next_address := next_address S + 1\<rparr>)"

text \<open>A row whose constant changes by \<open>delta\<close>; a restricted one may become infeasible.\<close>

definition shift_row :: "platform \<Rightarrow> bool \<Rightarrow> rat \<Rightarrow> variable \<Rightarrow> tableau \<Rightarrow> tableau" where
  "shift_row P restricted delta v T =
     (case rows T v of
        None \<Rightarrow> T
      | Some e \<Rightarrow>
          let x = double P (expr_constant e + delta); T = set_row v (e\<lparr>expr_constant := x\<rparr>) T
          in if restricted \<and> x < 0 then T\<lparr>infeasible_rows := infeasible_rows T @ [v]\<rparr> else T)"

definition deltaEditConstant :: "platform \<Rightarrow> rat \<Rightarrow> variable \<Rightarrow> variable option \<Rightarrow> tableau \<Rightarrow> tableau" where
  "deltaEditConstant P delta plusVariable minusVariable T =
     (if rows T plusVariable \<noteq> None then shift_row P True delta plusVariable T
      else case minusVariable of
        Some v \<Rightarrow>
          if rows T v \<noteq> None then shift_row P True (- delta) v T
          else fold (\<lambda>v T. shift_row P (isRestricted v) (double P (row_coefficient P plusVariable (rows T v) * delta)) v T)
                 (columnForVariable P plusVariable T) T
      | None \<Rightarrow> fold (\<lambda>v T. shift_row P (isRestricted v) (double P (row_coefficient P plusVariable (rows T v) * delta)) v T)
                 (columnForVariable P plusVariable T) T)"

definition dual_entry :: "platform \<Rightarrow> expression option \<Rightarrow> expression \<Rightarrow> variable option" where
  "dual_entry P objectiveRow e =
     snd (fold (\<lambda>v (minRatio, entry).
         let c = coefficientForTerm P v e; ratio = double P (row_coefficient P v objectiveRow / c)
         in if 0 < c \<and> isPivotable v \<and> ratio < minRatio then (ratio, Some v) else (minRatio, entry))
       (term_variables e) (DBL_MAX, None))"

partial_function (option) dualOptimize :: "platform \<Rightarrow> tableau \<Rightarrow> tableau pstep" where
  "dualOptimize P T =
     (case infeasible_rows T of
        [] \<Rightarrow> Some (Inr T)
      | x # xs \<Rightarrow>
          let T = T\<lparr>infeasible_rows := xs\<rparr>
          in case rows T x of
               None \<Rightarrow> dualOptimize P T
             | Some e \<Rightarrow>
                 if 0 \<le> expr_constant e then dualOptimize P T
                 else case dual_entry P (rows T (objective T)) e of
                        None \<Rightarrow> Some (Inl (NSInternalInconsistencyException, T))
                      | Some v \<Rightarrow> pbind (pivot P v x T) (dualOptimize P))"

text \<open>The last edit information of a variable gets another constant.\<close>

fun set_last_constant :: "variable \<Rightarrow> rat \<Rightarrow> edit_info list \<Rightarrow> edit_info list" where
  "set_last_constant v x [] = []"
| "set_last_constant v x (i # is) =
     (if edit_variable i = v \<and> \<not> list_ex (\<lambda>j. edit_variable j = v) is then i\<lparr>previous_constant := x\<rparr> # is
      else i # set_last_constant v x is)"

definition suggestEditVariable :: "platform \<Rightarrow> variable \<Rightarrow> rat \<Rightarrow> solver \<Rightarrow> solver pstep" where
  "suggestEditVariable P v x S =
     pbind (if editInfoForVariable v S = None then addEditVariable P v GSCSStrengthStrong S else Some (Inr S)) (\<lambda>S.
       let S = (case editInfoForVariable v S of
                  None \<Rightarrow> S
                | Some i \<Rightarrow>
                    let delta = double P (x - previous_constant i)
                    in S\<lparr>edit_infos := set_last_constant v x (edit_infos S),
                         tab := deltaEditConstant P (- delta) (plus_variable i) (minus_variable i) (tab S)\<rparr>)
       in pbind (with_tab (dualOptimize P (tab S)) S) (\<lambda>S.
            let S = setExternalVariables S
            in Some (Inr (S\<lparr>tab := (tab S)\<lparr>infeasible_rows := []\<rparr>\<rparr>))))"

text \<open>The solution has the values as floats.\<close>

definition solve :: "platform \<Rightarrow> solver \<Rightarrow> (variable \<Rightarrow> rat option) \<times> solver" where
  "solve P S =
     (let S = setExternalVariables S
      in ((\<lambda>v. if v \<in> set (external_variables S) then Some (single P (variable_value S v)) else None), S))"

end
