(* ===== verification/SolverInv.thy ===== *)
theory SolverInv
  imports Solver
begin

text \<open>
  All calls of the constraint solver keep its tableau consistent (\<open>Source/GSCassowarySolver.m\<close>), with any
  rounding and any order of enumeration, whether they return or raise.
\<close>

subsection \<open>Tableaus over addresses_below variables\<close>

definition addresses_below :: "nat \<Rightarrow> variable set \<Rightarrow> bool" where
  "addresses_below n V \<longleftrightarrow> (\<forall>v \<in> V. address v < n)"

definition sound :: "nat \<Rightarrow> tableau \<Rightarrow> bool" where
  "sound n T \<longleftrightarrow> tableau_ok T \<and> (\<forall>r e. rows T r = Some e \<longrightarrow> address r < n \<and> addresses_below n (keys e))"

lemma soundD:
  assumes "sound n T"
  shows "tableau_ok T" and "rows T r = Some e \<Longrightarrow> address r < n" and "rows T r = Some e \<Longrightarrow> addresses_below n (keys e)"
  using assms by (auto simp: sound_def)

lemma addresses_below_sub: "addresses_below n V \<Longrightarrow> W \<subseteq> V \<Longrightarrow> addresses_below n W"
  by (auto simp: addresses_below_def)

lemma sound_mono: "sound n T \<Longrightarrow> n \<le> k \<Longrightarrow> sound k T"
  by (fastforce simp: sound_def addresses_below_def)

text \<open>An expression over addresses_below variables that are not basic.\<close>

definition free_expr :: "nat \<Rightarrow> tableau \<Rightarrow> expression \<Rightarrow> bool" where
  "free_expr n T e \<longleftrightarrow> wf_expr e \<and> (\<forall>t \<in> keys e. rows T t = None) \<and> addresses_below n (keys e)"

lemma row_free: "sound n T \<Longrightarrow> rows T r = Some e \<Longrightarrow> free_expr n T e"
  using tableau_okD(2,3)[of T r e] soundD(1,3)[of n T] by (auto simp: free_expr_def)

lemma free_sub: "free_expr n T e \<Longrightarrow> wf_expr d \<Longrightarrow> keys d \<subseteq> keys e \<Longrightarrow> free_expr n T d"
  by (auto simp: free_expr_def addresses_below_def)

lemma sound_new_row:
  assumes sound: "sound n T" and law: "lawful P" and d: "free_expr n T d" "v \<notin> keys d" and v: "rows T v = None" "address v < n"
  shows "sound n (addRowForVariable v d (substituteOutVariable P v d T))"
proof -
  let ?S = "substituteOutVariable P v d T"
  note ok = soundD(1)[OF sound]
  have "address r < n \<and> addresses_below n (keys e')" if "rows (addRowForVariable v d ?S) r = Some e'" for r e'
  proof (cases "r = v")
    case True
    then show ?thesis using that d v by (auto simp: free_expr_def)
  next
    case False
    then have at: "rows ?S r = Some e'" using that by simp
    then obtain e where e: "rows T r = Some e" using substituteOut_none[OF law, of T r v d] by (cases "rows T r") auto
    obtain e1 where "rows ?S r = Some e1" "keys e1 \<subseteq> keys d \<union> (keys e - {v})"
      by (rule substituteOut_some[OF law e tableau_okD(1)[OF ok e]]) blast
    then show ?thesis
      using at d(1) soundD(2,3)[OF sound e] by (auto simp: free_expr_def addresses_below_def)
  qed
  moreover have "tableau_ok (addRowForVariable v d ?S)"
    using d v by (intro new_row_ok[OF ok law]) (simp_all add: free_expr_def)
  ultimately show ?thesis by (simp add: sound_def)
qed

lemma sound_add_row:
  assumes "sound n T" and "free_expr n T d" and "v \<notin> keys d" and "address v < n"
    and "\<forall>r e. rows T r = Some e \<longrightarrow> v \<notin> keys e"
  shows "sound n (addRowForVariable v d T)"
  using add_row_ok[OF soundD(1)[OF assms(1)], of d v] assms by (auto simp: sound_def free_expr_def)

lemma sound_remove_row:
  assumes "sound n T" and "removeRowForVariable v T = Inr T'"
  shows "sound n T'"
proof -
  obtain e where "rows T v = Some e" using assms(2) by (auto simp: removeRowForVariable_def split: option.splits)
  then obtain T'' where "removeRowForVariable v T = Inr T''" "rows T'' = (rows T)(v := None)"
    by (rule removeRow_spec) blast
  then show ?thesis
    using assms removeRow_ok[OF soundD(1)[OF assms(1)] assms(2)] by (auto simp: sound_def split: if_splits)
qed

lemma sound_fields:
  "sound n (T\<lparr>infeasible_rows := xs\<rparr>) = sound n T"
  by (simp add: sound_def tableau_ok_def row_ok_def indexed_def)

lemma sound_pivot:
  assumes sound: "sound n T" and law: "lawful P" and pivot: "pivot P v x T = Some (Inr T')"
  shows "sound n T'"
proof -
  note ok = soundD(1)[OF sound]
  obtain e r d T1 where parts: "rows T x = Some e" "newSubject P v e = Some (r, d)" "removeRowForVariable x T = Inr T1"
      "rows T' = rows (addRowForVariable v (addTerm P x r d)
      (substituteOutVariable P v (addTerm P x r d) (recordUpdatedVariable x T1)))"
      "tableau_ok (recordUpdatedVariable x T1)" "rows T1 = (rows T)(x := None)"
    by (rule pivot_parts[OF pivot ok]) blast
  let ?T = "recordUpdatedVariable x T1" and ?d = "addTerm P x r d"
  have "sound n ?T"
    using parts(5,6) soundD(2,3)[OF sound] by (auto simp: sound_def split: if_splits)
  moreover have d: "wf_expr d" "keys d = keys e - {v}" "v \<in> keys e"
    using newSubject_spec[OF parts(2)] tableau_okD(2)[OF ok parts(1)] by blast+
  moreover have "x \<notin> keys e" using tableau_okD(3)[OF ok parts(1)] parts(1) by auto
  ultimately have "sound n (addRowForVariable v ?d (substituteOutVariable P v ?d ?T))"
    using row_free[OF sound parts(1)] soundD(2)[OF sound parts(1)] parts(6)
    by (intro sound_new_row law) (auto simp: free_expr_def addresses_below_def addTerm_spec)
  then show ?thesis using parts(4) pivot_ok[OF ok law pivot] by (simp add: sound_def)
qed

lemma sound_removeColumn:
  assumes sound: "sound n T" and law: "lawful P" and v: "\<not> isExternal v"
  shows "sound n (removeTableauColumn P v T)"
proof -
  let ?f = "\<lambda>r T. case rows T r of None \<Rightarrow> T | Some e \<Rightarrow> set_row r (dropVariable v e) T"
  let ?T = "fold ?f (columnForVariable P v T) T"
  have loop: "external_parametric (fold ?f rs T) = external_parametric T \<and> external_rows (fold ?f rs T) = external_rows T \<and>
      columns (fold ?f rs T) = columns T \<and>
      (distinct rs \<longrightarrow> (\<forall>r. rows (fold ?f rs T) r = (if r \<in> set rs then map_option (dropVariable v) (rows T r) else rows T r)))"
    for rs T
    by (induction rs arbitrary: T) (auto simp: fun_eq_iff split: option.split)
  have T': "rows (removeTableauColumn P v T) r = (if in_column T v r then map_option (dropVariable v) (rows T r) else rows T r)"
    "in_column (removeTableauColumn P v T) t r \<longleftrightarrow> t \<noteq> v \<and> in_column T t r"
    "external_parametric (removeTableauColumn P v T) = external_parametric T" "external_rows (removeTableauColumn P v T) = external_rows T"
    for r t
    using loop[of "columnForVariable P v T" T] v columnForVariable_distinct[OF law] columnForVariable_set[OF law]
    by (auto simp: removeTableauColumn_def Let_def in_column_def)
  have "row_ok (removeTableauColumn P v T) r e' \<and> address r < n \<and> addresses_below n (keys e')"
    if "rows (removeTableauColumn P v T) r = Some e'" for r e'
  proof -
    have "map_option (\<lambda>e. if in_column T v r then dropVariable v e else e) (rows T r) = Some e'"
      using that by (auto simp: T' option.map_ident split: if_splits)
    then obtain e where e: "rows T r = Some e" "e' = (if in_column T v r then dropVariable v e else e)" by auto
    have none: "rows T t = None \<Longrightarrow> rows (removeTableauColumn P v T) t = None" for t by (simp add: T')
    show ?thesis
      using tableau_okD[OF soundD(1)[OF sound] e(1)] soundD(2,3)[OF sound e(1)] none
      by (auto simp: row_ok_def indexed_def T' e(2) addresses_below_def split: if_splits)
  qed
  then show ?thesis by (simp add: sound_def tableau_ok_def)
qed

subsection \<open>Changing one row\<close>

lemma sound_change:
  assumes sound: "sound n T" and s: "rows T s = Some e" and S: "rows S = (rows T)(s \<mapsto> d)" and d: "free_expr n T d"
    and new: "\<And>t. t \<in> keys d \<Longrightarrow> in_column S t s \<and> (isExternal t \<longrightarrow> t \<in> set (external_parametric S))"
    and more: "set (external_parametric T) \<subseteq> set (external_parametric S)" "set (external_rows T) \<subseteq> set (external_rows S)"
    and old: "\<And>r t. r \<noteq> s \<Longrightarrow> in_column T t r \<Longrightarrow> in_column S t r"
  shows "sound n S"
proof -
  have none: "rows T t = None \<Longrightarrow> rows S t = None" for t using s S by (cases "t = s") auto
  have "row_ok S r f \<and> address r < n \<and> addresses_below n (keys f)" if "rows S r = Some f" for r f
  proof (cases "r = s")
    case True
    then show ?thesis
      using that S d new none more(2) tableau_okD(6)[OF soundD(1)[OF sound] s] soundD(2)[OF sound s]
      by (auto simp: row_ok_def indexed_def free_expr_def)
  next
    case False
    then have r: "rows T r = Some f" using that S by simp
    show ?thesis
      using tableau_okD[OF soundD(1)[OF sound] r] soundD(2,3)[OF sound r] none more old[OF False]
      by (auto simp: row_ok_def indexed_def)
  qed
  then show ?thesis by (simp add: sound_def tableau_ok_def)
qed

lemma sound_record: "sound n T \<Longrightarrow> sound n (recordUpdatedVariable v T)"
  by (auto simp: sound_def tableau_ok_def row_ok_def indexed_def)

lemma sound_addMapping: "sound n T \<Longrightarrow> sound n (addMapping c r T)"
  by (auto simp: sound_def tableau_ok_def row_ok_def indexed_def)

lemma sound_constant:
  assumes "sound n T" and "rows T s = Some e"
  shows "sound n (set_row s (e\<lparr>expr_constant := x\<rparr>) T)"
  by (rule sound_change[OF assms])
    (use tableau_okD[OF soundD(1)[OF assms(1)] assms(2)] row_free[OF assms] in \<open>auto simp: free_expr_def\<close>)

text \<open>The rows keep their variables; only \<open>v\<close> may be new in them.\<close>

lemma sound_addVariable:
  assumes sound: "sound n T" and v: "rows T v = None" "address v < n"
  shows "sound n (addVariableToRow P v c s T) \<and> (\<forall>r. rows (addVariableToRow P v c s T) r = None \<longleftrightarrow> rows T r = None)"
proof (cases "rows T s")
  case None
  then show ?thesis
    using sound by (auto simp: addVariableToRow_def setVariable_def intro: sound_record sound_addMapping)
next
  case (Some e)
  note ok = tableau_okD[OF soundD(1)[OF sound] Some] and free = row_free[OF sound Some]
  have drop: "sound n (removeMapping v s (set_row s (dropVariable v e) T))"
    by (rule sound_change[OF sound Some]) (use ok free in \<open>auto simp: free_expr_def addresses_below_def\<close>)
  have free': "free_expr n T (addTerm P v x e)" for x
    using free v by (auto simp: free_expr_def addresses_below_def addTerm_spec)
  have add: "sound n (addMapping v s (setVariable P v x s T))" for x
    by (rule sound_change[OF sound Some _ free'[of x]]) (use ok in \<open>auto simp: setVariable_def Some addTerm_spec split: if_splits\<close>)
  have set: "sound n (setVariable P v x s T)" if "v \<in> keys e" for x
    by (rule sound_change[OF sound Some _ free'[of x]])
      (use ok that in \<open>auto simp: setVariable_def Some addTerm_spec split: if_splits\<close>)
  show ?thesis
    using sound drop add set isTerm_keys[OF ok(2), of v]
    by (auto simp: addVariableToRow_def Let_def Some setVariable_def split: if_splits)
qed

lemma sound_addExpression:
  assumes sound: "sound n T" and d: "free_expr n T d"
  shows "sound n (addExpressionToRow P d x s T) \<and> (\<forall>r. rows (addExpressionToRow P d x s T) r = None \<longleftrightarrow> rows T r = None)"
proof -
  let ?T = "case rows T s of None \<Rightarrow> T
    | Some e \<Rightarrow> set_row s (e\<lparr>expr_constant := double P (expr_constant e + double P (x * expr_constant d))\<rparr>) T"
  let ?f = "\<lambda>t T. recordUpdatedVariable t (addVariableToRow P t (double P (coefficientForTerm P t d * x)) s T)"
  have loop: "sound n (fold ?f ts T) \<and> (\<forall>r. rows (fold ?f ts T) r = None \<longleftrightarrow> rows T r = None)"
    if "sound n T" "\<forall>t \<in> set ts. rows T t = None \<and> address t < n" for ts T
    using that
  proof (induction ts arbitrary: T)
    case (Cons t ts)
    let ?T = "addVariableToRow P t (double P (coefficientForTerm P t d * x)) s T"
    have "sound n ?T \<and> (\<forall>r. rows ?T r = None \<longleftrightarrow> rows T r = None)"
      using Cons.prems by (intro sound_addVariable) auto
    then show ?case using Cons.IH[of "?f t T"] Cons.prems(2) sound_record by simp
  qed simp
  have "sound n ?T \<and> (\<forall>r. rows ?T r = None \<longleftrightarrow> rows T r = None)"
    using sound sound_constant[OF sound, of s] by (auto split: option.split)
  then show ?thesis
    using loop[of ?T "term_variables d"] d unfolding addExpressionToRow_def Let_def
    by (simp add: free_expr_def addresses_below_def keys_def)
qed

lemma sound_shift: "sound n T \<Longrightarrow> sound n (shift_row P b x v T)"
  by (auto simp: shift_row_def Let_def sound_fields sound_constant split: option.split)

lemma sound_delta: "sound n T \<Longrightarrow> sound n (deltaEditConstant P x p q T)"
proof -
  assume "sound n T"
  moreover have "sound n (fold (\<lambda>v T. shift_row P (b v) (f v T) v T) vs T)" if "sound n T" for b f vs T
    using that by (induction vs arbitrary: T) (auto intro: sound_shift)
  ultimately show ?thesis by (auto simp: deltaEditConstant_def intro: sound_shift split: option.split)
qed

subsection \<open>The loops\<close>

definition leaves :: "('s \<Rightarrow> bool) \<Rightarrow> 's pstep \<Rightarrow> bool" where
  "leaves Q r \<longleftrightarrow> (case r of None \<Rightarrow> True | Some s \<Rightarrow> Q (final s))"

lemma leaves_simps [simp]:
  "leaves Q None" "leaves Q (Some (Inr s)) = Q s" "leaves Q (Some (Inl (x, s))) = Q s"
  by (simp_all add: leaves_def)

lemma leavesD: "leaves Q r \<Longrightarrow> r = Some s \<Longrightarrow> Q (final s)"
  by (simp add: leaves_def)

lemma leaves_bind: "leaves Q r \<Longrightarrow> (\<And>s. r = Some (Inr s) \<Longrightarrow> Q s \<Longrightarrow> leaves Q (f s)) \<Longrightarrow> leaves Q (pbind r f)"
  by (induction r f rule: pbind.induct) (auto simp: leaves_def)

lemma leaves_pivot:
  assumes "sound n T" and "lawful P"
  shows "leaves (sound n) (pivot P v x T)"
proof (cases "removeRowForVariable x T")
  case (Inl a)
  then have "a = (NSInvalidArgumentException, T)"
    by (auto simp: removeRowForVariable_def Let_def split: option.splits)
  then show ?thesis using Inl assms(1) by (simp add: pivot_def)
next
  case (Inr T1)
  show ?thesis
  proof (cases "pivot P v x T")
    case (Some s)
    then obtain T' where "pivot P v x T = Some (Inr T')"
      using Inr by (auto simp: pivot_def Let_def split: option.splits)
    then show ?thesis using sound_pivot[OF assms] by simp
  qed simp
qed

lemma leaves_removeRow: "sound n T \<Longrightarrow> leaves (sound n) (Some (removeRowForVariable v T))"
proof (cases "removeRowForVariable v T")
  case (Inl a)
  moreover assume "sound n T"
  ultimately show ?thesis by (auto simp: removeRowForVariable_def Let_def split: option.splits)
qed (auto intro: sound_remove_row)


lemma optimize_sound:
  assumes "optimize P z T = Some s"
  shows "lawful P \<and> sound n T \<longrightarrow> sound n (final s)"
proof -
  let ?Q = "\<lambda>((P, z), T) s. lawful P \<and> sound n T \<longrightarrow> sound n (final s)"
  have "?Q ((P, z), T) s"
  proof (rule optimize.raw_induct[OF _ assms])
    fix f P z T s
    assume IH: "\<And>P z T s. f P z T = Some s \<Longrightarrow> ?Q ((P, z), T) s"
      and body: "(case entry_variable P (rows T z) of None \<Rightarrow> Some (Inr T)
        | Some entry \<Rightarrow> (case findPivotableExitVariable P entry T of
            None \<Rightarrow> Some (Inl (NSInternalInconsistencyException, T))
          | Some exit \<Rightarrow> pbind (pivot P entry exit T) (f P z))) = Some s"
    have "lawful P \<and> sound n T \<longrightarrow> sound n (final s)"
    proof
      assume ok: "lawful P \<and> sound n T"
      have "leaves (sound n) (f P z T')" if "sound n T'" for T'
        using IH ok that by (cases "f P z T'") (auto simp: leaves_def)
      then have "leaves (sound n) (pbind (pivot P v x T) (f P z))" for v x
        using ok by (intro leaves_bind leaves_pivot) auto
      note pivoted = leavesD[OF this]
      show "sound n (final s)"
        using body ok by (auto intro: pivoted split: option.splits)
    qed
    then show "?Q ((P, z), T) s" by simp
  qed
  then show ?thesis by simp
qed

lemma leaves_optimize: "lawful P \<Longrightarrow> sound n T \<Longrightarrow> leaves (sound n) (optimize P z T)"
  using optimize_sound[of P z T] by (cases "optimize P z T") (auto simp: leaves_def)

lemma dual_sound:
  assumes "dualOptimize P T = Some s"
  shows "lawful P \<and> sound n T \<longrightarrow> sound n (final s)"
proof -
  let ?Q = "\<lambda>(P, T) s. lawful P \<and> sound n T \<longrightarrow> sound n (final s)"
  have "?Q (P, T) s"
  proof (rule dualOptimize.raw_induct[OF _ assms])
    fix f P T s
    assume IH: "\<And>P T s. f P T = Some s \<Longrightarrow> ?Q (P, T) s"
      and body: "(case infeasible_rows T of
          [] \<Rightarrow> Some (Inr T)
        | x # xs \<Rightarrow>
            let T = T\<lparr>infeasible_rows := xs\<rparr>
            in case rows T x of
                 None \<Rightarrow> f P T
               | Some e \<Rightarrow>
                   if 0 \<le> expr_constant e then f P T
                   else case dual_entry P (rows T (objective T)) e of
                          None \<Rightarrow> Some (Inl (NSInternalInconsistencyException, T))
                        | Some v \<Rightarrow> pbind (pivot P v x T) (f P)) = Some s"
    have "lawful P \<and> sound n T \<longrightarrow> sound n (final s)"
    proof
      assume ok: "lawful P \<and> sound n T"
      have loop: "leaves (sound n) (f P T')" if "sound n T'" for T'
        using IH ok that by (cases "f P T'") (auto simp: leaves_def)
      have "leaves (sound n) (pbind (pivot P v x (T\<lparr>infeasible_rows := xs\<rparr>)) (f P))" for v x xs
        using ok loop by (intro leaves_bind leaves_pivot) (auto simp: sound_fields)
      note pivoted = leavesD[OF this]
      have "leaves (sound n) (f P (T\<lparr>infeasible_rows := xs\<rparr>))" for xs
        using ok loop by (simp add: sound_fields)
      note again = leavesD[OF this]
      show "sound n (final s)"
        using body ok
        by (auto simp: Let_def sound_fields intro: again pivoted split: option.splits list.splits if_splits)
    qed
    then show "?Q (P, T) s" by simp
  qed
  then show ?thesis by simp
qed

lemma leaves_dual: "lawful P \<Longrightarrow> sound n T \<Longrightarrow> leaves (sound n) (dualOptimize P T)"
  using dual_sound[of P T] by (cases "dualOptimize P T") (auto simp: leaves_def)

subsection \<open>The expression of a constraint\<close>

lemma accumulate_spec:
  "wf_expr e \<Longrightarrow> wf_expr (accumulate P v c e)" "keys (accumulate P v c e) \<subseteq> insert v (keys e)"
  "v \<in> keys e \<or> t \<noteq> v \<Longrightarrow> t \<in> keys (accumulate P v c e) \<Longrightarrow> t \<in> keys e"
  by (auto simp: accumulate_def Let_def addTerm_spec split: if_splits)

lemma accumulateExpression_spec:
  "wf_expr d \<Longrightarrow> wf_expr (accumulateExpression P e m d)" "keys (accumulateExpression P e m d) \<subseteq> keys e \<union> keys d"
proof -
  have "wf_expr d \<Longrightarrow> wf_expr (fold (\<lambda>v. accumulate P v (f v)) vs d)" for f vs d
    by (induction vs arbitrary: d) (auto simp: accumulate_spec)
  then show "wf_expr d \<Longrightarrow> wf_expr (accumulateExpression P e m d)" by (simp add: accumulateExpression_def)
  have "keys (fold (\<lambda>v. accumulate P v (f v)) vs d) \<subseteq> set vs \<union> keys d" for f vs d
  proof (induction vs arbitrary: d)
    case (Cons v vs)
    then show ?case using accumulate_spec(2)[of P v "f v" d] by fastforce
  qed simp
  then show "keys (accumulateExpression P e m d) \<subseteq> keys e \<union> keys d"
    by (fastforce simp: accumulateExpression_def keys_def[of e])
qed

lemma free_accumulate:
  "free_expr n T e \<Longrightarrow> rows T v = None \<Longrightarrow> address v < n \<Longrightarrow> free_expr n T (accumulate P v c e)"
  using accumulate_spec(1,2)[where e = e and P = P and v = v and c = c] by (auto simp: free_expr_def addresses_below_def)

lemma free_accumulateExpression:
  "free_expr n T d \<Longrightarrow> free_expr n T e \<Longrightarrow> free_expr n T (accumulateExpression P e m d)"
  using accumulateExpression_spec[where d = d and P = P and e = e and m = m] by (auto simp: free_expr_def addresses_below_def)

text \<open>The tableau of \<open>S'\<close> has the same basic variables, and there may be more variables.\<close>

definition grown :: "solver \<Rightarrow> solver \<Rightarrow> bool" where
  "grown S S' \<longleftrightarrow> next_address S \<le> next_address S' \<and> sound (next_address S') (tab S') \<and>
     marker_variables S' = marker_variables S \<and> error_variables S' = error_variables S \<and>
     (\<forall>r. rows (tab S') r = None \<longleftrightarrow> rows (tab S) r = None)"

lemma grown_trans: "grown S S' \<Longrightarrow> grown S' S'' \<Longrightarrow> grown S S''"
  by (simp add: grown_def)

lemma grown_free: "grown S S' \<Longrightarrow> free_expr (next_address S) (tab S) e \<Longrightarrow> free_expr (next_address S') (tab S') e"
  by (fastforce simp: grown_def free_expr_def addresses_below_def)

text \<open>The new variable is not basic and not external.\<close>

definition new_in :: "solver \<Rightarrow> variable \<Rightarrow> bool" where
  "new_in S v \<longleftrightarrow> address v < next_address S \<and> \<not> isExternal v \<and> rows (tab S) v = None"

lemma grown_new: "grown S S' \<Longrightarrow> new_in S v \<Longrightarrow> new_in S' v"
  by (auto simp: grown_def new_in_def)

lemma allocate_grown:
  assumes "sound (next_address S) (tab S)" and "allocate t S = (v, S')" and "t \<noteq> GSCSVariableTypeExternal"
  shows "grown S S'" "new_in S' v" "var_type v = t" "tab S' = tab S"
proof -
  have "rows (tab S) v = None"
    using assms(1,2) soundD(2)[OF assms(1), of v] by (cases "rows (tab S) v") (auto simp: allocate_def new_variable_def)
  then show "grown S S'" "new_in S' v" "var_type v = t" "tab S' = tab S"
    using assms sound_mono[OF assms(1)]
    by (auto simp: allocate_def grown_def new_in_def new_variable_def isExternal_def)
qed

lemma next_slack_grown:
  assumes "sound (next_address S) (tab S)" and "next_slack S = (v, S')"
  shows "grown S S'" "new_in S' v" "tab S' = tab S" "isPivotable v"
proof -
  let ?S = "S\<lparr>slack_counter := slack_counter S + 1\<rparr>"
  have "allocate GSCSVariableTypeSlack ?S = (v, S')" "sound (next_address ?S) (tab ?S)"
    using assms by (simp_all add: next_slack_def)
  note new = allocate_grown[OF this(2,1)]
  show "grown S S'" "new_in S' v" "tab S' = tab S" "isPivotable v"
    using new by (simp_all add: grown_def isPivotable_def)
qed

lemma addError_grown:
  assumes "sound (next_address S) (tab S)" and "new_in S v"
  shows "grown S (addErrorVariable P v s S)" "next_address (addErrorVariable P v s S) = next_address S"
  using sound_addVariable[OF assms(1), of v P s "objective (tab S)"] assms(2)
  by (simp_all add: grown_def addErrorVariable_def new_in_def)

definition constraint_ok :: "solver \<Rightarrow> constraint \<Rightarrow> bool" where
  "constraint_ok S c \<longleftrightarrow> wf_expr (constraint_expression c) \<and> addresses_below (next_address S) (keys (constraint_expression c))"

text \<open>The terms of the constraint leave a free expression and change only the set of external variables.\<close>

lemma terms_free:
  assumes "sound (next_address S) (tab S)" and "free_expr (next_address S) (tab S) e"
    and "\<forall>v \<in> set vs. address v < next_address S" and "fold (addConstraintTerm P c) vs (e, S) = (e', S')"
  shows "free_expr (next_address S') (tab S') e' \<and> (\<exists>xs. S' = S\<lparr>external_variables := xs\<rparr>)"
  using assms
proof (induction vs arbitrary: e S)
  case Nil
  then show ?case by (auto intro: exI[of _ "external_variables S'"])
next
  case (Cons v vs)
  obtain e1 S1 where step: "addConstraintTerm P c v (e, S) = (e1, S1)" by fastforce
  have S1: "\<exists>xs. S1 = S\<lparr>external_variables := xs\<rparr>"
    using step by (auto simp: addConstraintTerm_def Let_def split: option.splits if_splits
        intro: exI[of _ "external_variables S"])
  have "free_expr (next_address S1) (tab S1) e1"
    using step Cons.prems row_free[OF Cons.prems(1)]
    by (auto simp: addConstraintTerm_def Let_def split: option.splits if_splits
        intro!: free_accumulate free_accumulateExpression)
  moreover have "sound (next_address S1) (tab S1)" "\<forall>v \<in> set vs. address v < next_address S1"
    using S1 Cons.prems(1,3) by auto
  moreover have "fold (addConstraintTerm P c) vs (e1, S1) = (e', S')" using Cons.prems(4) step by simp
  ultimately have "free_expr (next_address S') (tab S') e' \<and> (\<exists>xs. S' = S1\<lparr>external_variables := xs\<rparr>)"
    by (intro Cons.IH)
  then show ?case using S1 by auto
qed

definition marker_ok :: "solver \<Rightarrow> variable \<Rightarrow> bool" where
  "marker_ok S v \<longleftrightarrow> address v < next_address S \<and> \<not> isExternal v"

definition solver_ok :: "solver \<Rightarrow> bool" where
  "solver_ok S \<longleftrightarrow> sound (next_address S) (tab S) \<and>
     (\<forall>c v. marker_variables S c = Some v \<longrightarrow> marker_ok S v) \<and>
     (\<forall>c vs. error_variables S c = Some vs \<longrightarrow> (\<forall>v \<in> set vs. marker_ok S v))"

lemma grown_ok: "grown S S' \<Longrightarrow> solver_ok S \<Longrightarrow> solver_ok S'"
  by (fastforce simp: grown_def solver_ok_def marker_ok_def)

lemma new_marker: "new_in S v \<Longrightarrow> marker_ok S v"
  by (simp add: new_in_def marker_ok_def)

lemma free_normalize: "free_expr n T e \<Longrightarrow> free_expr n T (normalize_expression P e)"
  by (simp add: free_expr_def)

lemma expression_spec:
  assumes ok: "solver_ok S" and c: "constraint_ok S c" and result: "expressionForNewConstraint P c S = ((e, marker, errors), S')"
  shows "solver_ok S'" and "next_address S \<le> next_address S'" and "free_expr (next_address S') (tab S') e"
    and "marker_ok S' marker" and "errors = Some vs \<Longrightarrow> \<forall>v \<in> set vs. marker_ok S' v"
proof -
  let ?ce = "constraint_expression c"
  obtain e1 S1 where loop: "fold (addConstraintTerm P ?ce) (term_variables ?ce) (initWithConstant (expr_constant ?ce), S) = (e1, S1)"
    by fastforce
  note sound = ok[unfolded solver_ok_def, THEN conjunct1]
  have e1: "free_expr (next_address S1) (tab S1) e1 \<and> (\<exists>xs. S1 = S\<lparr>external_variables := xs\<rparr>)"
    using terms_free[OF sound _ _ loop] c by (simp add: free_expr_def constraint_ok_def addresses_below_def keys_def[of ?ce])
  then have S1: "grown S S1" using sound by (auto simp: grown_def)
  have sound_of: "grown S R \<Longrightarrow> sound (next_address R) (tab R)" for R by (simp add: grown_def)
  have acc: "free_expr (next_address R) (tab R) (accumulate P v x f)"
    if "free_expr (next_address R) (tab R) f" "new_in R v" for R v x f
    using that by (intro free_accumulate) (simp_all add: new_in_def)
  have error: "grown S (addErrorVariable P v x R) \<and> (\<forall>u. new_in R u \<longrightarrow> new_in (addErrorVariable P v x R) u) \<and>
      (\<forall>f. free_expr (next_address R) (tab R) f \<longrightarrow>
        free_expr (next_address (addErrorVariable P v x R)) (tab (addErrorVariable P v x R)) f)"
    if "grown S R" "new_in R v" for R v x
    using addError_grown(1)[OF sound_of[OF that(1)] that(2), of P x] that grown_trans grown_free grown_new by blast
  have more: "grown S R' \<and> new_in R' v \<and> (\<forall>u. new_in R u \<longrightarrow> new_in R' u) \<and>
      (\<forall>f. free_expr (next_address R) (tab R) f \<longrightarrow> free_expr (next_address R') (tab R') f)"
    if "grown S R" "next_slack R = (v, R')" for R R' v
    using next_slack_grown[OF sound_of[OF that(1)] that(2)] that(1) grown_trans grown_free grown_new by blast
  have dummy: "grown S R' \<and> new_in R' v \<and>
      (\<forall>f. free_expr (next_address R) (tab R) f \<longrightarrow> free_expr (next_address R') (tab R') f)"
    if R: "grown S R" "allocate GSCSVariableTypeDummy (R\<lparr>dummy_counter := dummy_counter R + 1\<rparr>) = (v, R')" for R R' v
  proof -
    let ?R = "R\<lparr>dummy_counter := dummy_counter R + 1\<rparr>"
    have "grown S ?R" using R(1) by (simp add: grown_def)
    from allocate_grown[OF sound_of[OF this] R(2)] this show ?thesis
      using grown_trans grown_free[of ?R R'] by fastforce
  qed
  have result: "grown S S' \<and> free_expr (next_address S') (tab S') e \<and> new_in S' marker \<and>
      (\<forall>vs. errors = Some vs \<longrightarrow> (\<forall>v \<in> set vs. new_in S' v))"
  proof (cases "isInequality c")
    case True
    obtain slack S2 where S2: "next_slack S1 = (slack, S2)" by fastforce
    note two = more[OF S1 S2]
    show ?thesis
    proof (cases "isRequired P c")
      case True
      then show ?thesis
        using result loop S2 two e1 \<open>isInequality c\<close>
        by (auto simp: expressionForNewConstraint_def Let_def intro!: acc free_normalize)
    next
      case False
      obtain eMinus S3 where S3: "next_slack S2 = (eMinus, S3)" by fastforce
      note three = more[OF conjunct1[OF two] S3]
      then show ?thesis
        using result loop S2 S3 two e1 False \<open>isInequality c\<close> error[of S3 eMinus "strength c"]
        by (auto simp: expressionForNewConstraint_def Let_def intro!: acc free_normalize)
    qed
  next
    case False
    show ?thesis
    proof (cases "isRequired P c")
      case True
      obtain d S2 where S2: "allocate GSCSVariableTypeDummy (S1\<lparr>dummy_counter := dummy_counter S1 + 1\<rparr>) = (d, S2)" by fastforce
      note two = dummy[OF S1 S2]
      then show ?thesis
        using result loop S2 e1 True False
        by (auto simp: expressionForNewConstraint_def Let_def intro!: acc free_normalize)
    next
      case weak: False
      obtain ePlus S2 where S2: "next_slack S1 = (ePlus, S2)" by fastforce
      note two = more[OF S1 S2]
      obtain eMinus S3 where S3: "next_slack S2 = (eMinus, S3)" by fastforce
      note three = more[OF conjunct1[OF two] S3]
      let ?S4 = "addErrorVariable P ePlus (strength c) S3"
      have four: "grown S ?S4 \<and> (\<forall>u. new_in S3 u \<longrightarrow> new_in ?S4 u) \<and>
          (\<forall>f. free_expr (next_address S3) (tab S3) f \<longrightarrow> free_expr (next_address ?S4) (tab ?S4) f)"
        using error[of S3 ePlus "strength c"] two three by blast
      moreover have "new_in ?S4 ePlus" "new_in ?S4 eMinus" using four two three by blast+
      moreover note five = error[of ?S4 eMinus "strength c"]
      ultimately show ?thesis
        using result loop S2 S3 two three e1 False weak
        by (auto simp: expressionForNewConstraint_def Let_def intro!: acc free_normalize)
    qed
  qed
  show "solver_ok S'" "next_address S \<le> next_address S'" "free_expr (next_address S') (tab S') e" "marker_ok S' marker"
    using result grown_ok[OF _ ok] new_marker by (auto simp: grown_def)
  show "errors = Some vs \<Longrightarrow> \<forall>v \<in> set vs. marker_ok S' v"
    using result new_marker by blast
qed

subsection \<open>The calls\<close>

lemma choose_subject_in:
  "choose_subject P T e vs subject b1 b2 = Some v \<Longrightarrow> v \<in> set vs \<or> subject = Some v"
  by (induction P T e vs subject b1 b2 rule: choose_subject.induct) (auto split: if_splits)

lemma choose_dummy_in:
  "choose_dummy P T e vs subject c = Some (Some v, k) \<Longrightarrow> v \<in> set vs \<or> subject = Some v"
  by (induction P T e vs subject c rule: choose_dummy.induct) (auto split: if_splits)

lemma chooseSubject_spec:
  assumes "chooseSubject P T e = (subject, e')" and "free_expr n T e"
  shows "free_expr n T e'" and "keys e' = keys e" and "subject = Some v \<Longrightarrow> v \<in> keys e"
  using assms choose_subject_in[of P T e "term_variables e" None False False]
    choose_dummy_in[of P T e "term_variables e" None 0]
  by (auto simp: chooseSubject_def keys_def[of e, symmetric] free_normalize split: option.splits if_splits)

lemma addSubject_sound:
  assumes sound: "sound n T" and law: "lawful P" and e: "free_expr n T e" and add: "addSubject P v e T = Some T'"
  shows "sound n T'"
proof -
  obtain r d where d: "newSubject P v e = Some (r, d)"
      "T' = addRowForVariable v d (if hasColumnForVariable v T then substituteOutVariable P v d T else T)"
    using add by (auto simp: addSubject_def)
  note spec = newSubject_spec[OF d(1)]
  have v: "v \<in> keys e" using spec(3) e by (simp add: free_expr_def)
  have free: "free_expr n T d" "v \<notin> keys d" "rows T v = None" "address v < n"
    using spec(1,2) e v by (auto simp: free_expr_def addresses_below_def)
  show ?thesis
  proof (cases "hasColumnForVariable v T")
    case True
    then show ?thesis using sound_new_row[OF sound law free] d(2) by simp
  next
    case False
    have "v \<notin> keys f" if "rows T r = Some f" for r f
      using tableau_okD(4)[OF soundD(1)[OF sound] that, of v] False
      by (auto simp: hasColumnForVariable_def in_column_def)
    then show ?thesis using sound_add_row[OF sound free(1,2,4)] False d(2) by simp
  qed
qed

definition keeps :: "solver \<Rightarrow> solver \<Rightarrow> bool" where
  "keeps S S' \<longleftrightarrow> solver_ok S' \<and> next_address S \<le> next_address S'"

lemma keeps_trans: "keeps S S' \<Longrightarrow> keeps S' S'' \<Longrightarrow> keeps S S''"
  by (simp add: keeps_def)

lemma leaves_mono: "leaves Q r \<Longrightarrow> (\<And>s. Q s \<Longrightarrow> R s) \<Longrightarrow> leaves R r"
  by (auto simp: leaves_def split: option.splits)

lemma leaves_keeps_bind:
  "leaves (keeps S) r \<Longrightarrow> (\<And>S'. keeps S S' \<Longrightarrow> leaves (keeps S') (f S')) \<Longrightarrow> leaves (keeps S) (pbind r f)"
  by (rule leaves_bind) (auto intro: leaves_mono keeps_trans)

lemma solver_ok_tab: "solver_ok S \<Longrightarrow> sound (next_address S) T \<Longrightarrow> solver_ok (S\<lparr>tab := T\<rparr>)"
  by (fastforce simp: solver_ok_def marker_ok_def)

lemma solver_ok_sound: "solver_ok S \<Longrightarrow> sound (next_address S) (tab S)"
  by (simp add: solver_ok_def)

lemma leaves_with_tab:
  "solver_ok S \<Longrightarrow> leaves (sound (next_address S)) r \<Longrightarrow> leaves (keeps S) (with_tab r S)"
  by (auto simp: with_tab_def keeps_def solver_ok_tab leaves_def split: option.splits sum.splits)

lemma solver_ok_values: "solver_ok (S\<lparr>variable_value := f\<rparr>) = solver_ok S" "solver_ok (S\<lparr>edit_infos := xs\<rparr>) = solver_ok S"
  "solver_ok (S\<lparr>artificial_counter := n\<rparr>) = solver_ok S"
  by (simp_all add: solver_ok_def marker_ok_def)

lemma leaves_artificial:
  assumes ok: "solver_ok S" and law: "lawful P" and e: "free_expr (next_address S) (tab S) e"
  shows "leaves (keeps S) (addWithArtificialVariable P e S)"
proof -
  let ?S = "S\<lparr>artificial_counter := artificial_counter S + 1\<rparr>"
  obtain a S1 where S1: "allocate GSCSVariableTypeSlack ?S = (a, S1)" by fastforce
  obtain z S2 where S2: "allocate GSCSVariableTypeObjective S1 = (z, S2)" by fastforce
  have n: "next_address S2 = next_address S + 2" "tab S2 = tab S" "address a = next_address S" "\<not> isExternal a"
      "address z = next_address S + 1"
    using S1 S2 by (auto simp: allocate_def new_variable_def isExternal_def)
  have ok2: "solver_ok S2"
    using S1 S2 ok sound_mono[OF solver_ok_sound[OF ok], of "next_address S + 2"]
    by (fastforce simp: allocate_def solver_ok_def marker_ok_def)
  let ?T1 = "addRowForVariable z (copy_expression P e) (tab S)"
  let ?T = "addRowForVariable a e ?T1"
  have sound: "sound (next_address S + 2) (tab S)" by (rule sound_mono[OF solver_ok_sound[OF ok]]) simp
  have below: "\<forall>r f. rows (tab S) r = Some f \<longrightarrow> z \<notin> keys f \<and> a \<notin> keys f"
    using soundD(3)[OF solver_ok_sound[OF ok]] n(3,5) by (fastforce simp: addresses_below_def)
  have keys: "z \<notin> keys e" "a \<notin> keys e" "free_expr (next_address S + 2) (tab S) e"
    using e n(3,5) by (fastforce simp: free_expr_def addresses_below_def)+
  have copy: "wf_expr (copy_expression P e)" "keys (copy_expression P e) \<subseteq> keys e" by (rule copy_spec)+
  have one: "sound (next_address S + 2) ?T1"
    using keys copy below n(5) by (intro sound_add_row[OF sound]) (auto intro: free_sub)
  have "free_expr (next_address S + 2) ?T1 e" using keys by (auto simp: free_expr_def)
  moreover have "\<forall>r f. rows ?T1 r = Some f \<longrightarrow> a \<notin> keys f" using below keys copy by auto
  ultimately have two: "sound (next_address S2) ?T"
    using keys n by (intro sound_add_row[OF one, folded n(1)]) auto
  have column: "sound (next_address S2) T \<Longrightarrow> sound (next_address S2) (removeTableauColumn P a T)" for T
    by (rule sound_removeColumn[OF _ law n(4)])
  have finish: "leaves (sound (next_address S2)) (pbind (Some (removeRowForVariable z T)) (\<lambda>T. Some (Inr (removeTableauColumn P a T))))"
      "leaves (sound (next_address S2)) (pbind (Some (removeRowForVariable z T))
        (\<lambda>T. Some (Inl (NSInvalidArgumentException, removeTableauColumn P a T))))"
      "leaves (sound (next_address S2)) (pbind (Some (removeRowForVariable a T)) (\<lambda>T. Some (removeRowForVariable z T)))"
    if "sound (next_address S2) T" for T
    using that column by (auto intro!: leaves_bind[OF leaves_removeRow] leaves_removeRow)
  have "leaves (keeps S2) (addWithArtificialVariable P e S)"
    unfolding addWithArtificialVariable_def Let_def S1 S2 prod.case n(2)
    using finish
    by (intro leaves_with_tab[OF ok2] leaves_bind[OF leaves_optimize[OF law two]])
      (auto split: option.splits sum.splits intro!: leaves_bind[OF leaves_pivot[OF _ law]])
  then show ?thesis by (rule leaves_mono) (use n(1) in \<open>auto simp: keeps_def\<close>)
qed

lemma leaves_addToTableau:
  assumes ok: "solver_ok S" and law: "lawful P" and c: "constraint_ok S c"
  shows "leaves (keeps S) (addConstraintToTableau P c S)"
proof -
  obtain e marker errors S1 where S1: "expressionForNewConstraint P c S = ((e, marker, errors), S1)"
    by (metis surj_pair)
  note spec = expression_spec[OF ok c S1]
  obtain subject e' where subject: "chooseSubject P (tab S1) e = (subject, e')" by fastforce
  note free = chooseSubject_spec(1)[OF subject spec(3)]
  have added: "leaves (keeps S1) (case subject of
      None \<Rightarrow> addWithArtificialVariable P e' S1
    | Some v \<Rightarrow> map_option (\<lambda>T. Inr (S1\<lparr>tab := T\<rparr>)) (addSubject P v e' (tab S1)))"
    using leaves_artificial[OF spec(1) law free] addSubject_sound[OF solver_ok_sound[OF spec(1)] law free]
    by (cases subject) (auto simp: leaves_def keeps_def intro!: solver_ok_tab spec(1) split: option.split)
  have registered: "keeps S1 S2 \<Longrightarrow> leaves (keeps S1) (
      let S = S2\<lparr>marker_variables := (marker_variables S2)(constraint_address c \<mapsto> marker)\<rparr>;
          S = (case errors of
                 None \<Rightarrow> S
               | Some xs \<Rightarrow> S\<lparr>error_variables := (error_variables S)(constraint_address c \<mapsto> xs)\<rparr>)
      in Some (Inr (if isEditConstraint c then registerEditInfo c marker errors S else S)))" for S2
  proof -
    assume S2: "keeps S1 S2"
    let ?R = "S2\<lparr>marker_variables := (marker_variables S2)(constraint_address c \<mapsto> marker)\<rparr>"
    let ?Q = "case errors of None \<Rightarrow> ?R | Some xs \<Rightarrow> ?R\<lparr>error_variables := (error_variables ?R)(constraint_address c \<mapsto> xs)\<rparr>"
    have "keeps S1 ?Q"
      using S2 spec(4,5) by (cases errors) (fastforce simp: keeps_def solver_ok_def marker_ok_def)+
    moreover have "keeps S1 (registerEditInfo c marker errors T) = keeps S1 T" for T
      by (auto simp: registerEditInfo_def keeps_def solver_ok_values Let_def split: option.split)
    ultimately show ?thesis by (simp add: Let_def)
  qed
  have "leaves (keeps S1) (addConstraintToTableau P c S)"
    unfolding addConstraintToTableau_def S1 subject Let_def prod.case
    by (rule leaves_bind[OF added registered[unfolded Let_def]])
  then show ?thesis by (rule leaves_mono) (use spec(2) in \<open>auto simp: keeps_def\<close>)
qed

lemma leaves_resolve:
  assumes "solver_ok S" and "lawful P"
  shows "leaves (keeps S) (resolve P S)"
  unfolding resolve_def
proof (rule leaves_keeps_bind)
  show "leaves (keeps S) (with_tab (optimize P (objective (tab S)) (tab S)) S)"
    using assms by (intro leaves_with_tab leaves_optimize solver_ok_sound)
qed (simp add: keeps_def setExternalVariables_def solver_ok_values)

lemma constraint_ok_keeps: "constraint_ok S c \<Longrightarrow> keeps S S' \<Longrightarrow> constraint_ok S' c"
  by (fastforce simp: constraint_ok_def keeps_def addresses_below_def)

lemma leaves_for_all:
  assumes "\<And>x S. x \<in> set xs \<Longrightarrow> Q x S \<Longrightarrow> solver_ok S \<Longrightarrow> leaves (keeps S) (f x S)"
    and "\<And>x S S'. Q x S \<Longrightarrow> keeps S S' \<Longrightarrow> Q x S'"
  shows "solver_ok S \<Longrightarrow> \<forall>x \<in> set xs. Q x S \<Longrightarrow> leaves (keeps S) (for_all f xs S)"
  using assms(1)
proof (induction xs arbitrary: S)
  case (Cons x xs)
  show ?case
    unfolding for_all.simps
  proof (rule leaves_keeps_bind)
    show "leaves (keeps S) (f x S)" using Cons.prems by auto
    fix S' assume "keeps S S'"
    then show "leaves (keeps S') (for_all f xs S')"
      using Cons.prems assms(2) by (intro Cons.IH) (auto simp: keeps_def)
  qed
qed (simp add: keeps_def)

lemma leaves_removeFromTableau:
  assumes ok: "solver_ok S" and law: "lawful P"
  shows "leaves (keeps S) (removeConstraintFromTableau P c S)"
proof (cases "marker_variables S (constraint_address c)")
  case None
  then show ?thesis using ok by (simp add: removeConstraintFromTableau_def keeps_def)
next
  case (Some marker)
  let ?n = "next_address S" and ?vs = "case error_variables S (constraint_address c) of None \<Rightarrow> [] | Some xs \<Rightarrow> xs"
  have marker: "\<not> isExternal marker" using ok Some by (auto simp: solver_ok_def marker_ok_def)
  have vs: "\<forall>v \<in> set ?vs. address v < ?n \<and> \<not> isExternal v"
    using ok by (cases "error_variables S (constraint_address c)") (auto simp: solver_ok_def marker_ok_def)
  have "sound ?n (takeOutError P w v T)" if "sound ?n T" "address v < ?n" for w v T
    using that sound_addVariable[OF that(1) _ that(2)] sound_addExpression[OF that(1)] row_free[OF that(1)]
    by (auto simp: takeOutError_def split: option.split)
  then have errors: "sound ?n (fold (takeOutError P w) us T)" if "sound ?n T" "\<forall>v \<in> set us. address v < ?n" for w us T
    using that by (induction us arbitrary: T) auto
  let ?S = "S\<lparr>tab := fold (takeOutError P (strength c)) ?vs (tab S),
      marker_variables := (marker_variables S)(constraint_address c := None)\<rparr>"
  have tab: "sound ?n (tab ?S)" using errors[OF solver_ok_sound[OF ok]] vs by simp
  have S: "solver_ok ?S" using ok tab by (fastforce simp: solver_ok_def marker_ok_def split: if_splits)
  have columns: "sound ?n T \<Longrightarrow> \<forall>v \<in> set us. \<not> isExternal v \<Longrightarrow>
      sound ?n (fold (\<lambda>v T. if v \<noteq> marker then removeTableauColumn P v T else T) us T)" for us T
    by (induction us arbitrary: T) (auto intro: sound_removeColumn law)
  have rest: "leaves (sound ?n) (Some (seq (if rows T marker \<noteq> None then removeRowForVariable marker T else Inr T) (\<lambda>T.
      let T = (if hasColumnForVariable marker T then removeTableauColumn P marker T else T)
      in Inr (fold (\<lambda>v T. if v \<noteq> marker then removeTableauColumn P v T else T) ?vs T))))" if T: "sound ?n T" for T
  proof -
    have "removeRowForVariable marker T = Inr T' \<Longrightarrow> sound ?n T'" for T' by (rule sound_remove_row[OF T])
    moreover have "sound ?n T' \<Longrightarrow> sound ?n (fold (\<lambda>v T. if v \<noteq> marker then removeTableauColumn P v T else T) ?vs
        (if hasColumnForVariable marker T' then removeTableauColumn P marker T' else T'))" for T'
      using columns[of _ ?vs] vs sound_removeColumn[OF _ law marker] by auto
    ultimately show ?thesis
      using T by (cases "removeRowForVariable marker T")
        (auto simp: Let_def removeRowForVariable_def[of marker T] split: option.splits)
  qed
  have pivoted: "leaves (sound ?n) (case rows (tab ?S) marker of
      Some _ \<Rightarrow> Some (Inr (tab ?S))
    | None \<Rightarrow> (case exitVariableForMarker P marker (tab ?S) of
        None \<Rightarrow> Some (Inr (tab ?S))
      | Some x \<Rightarrow> pivot P marker x (tab ?S)))"
    using tab leaves_pivot[OF tab law] by (auto split: option.split)
  have "leaves (keeps ?S) (removeConstraintFromTableau P c S)"
    unfolding removeConstraintFromTableau_def Some option.case Let_def
  proof (rule leaves_bind)
    show "leaves (keeps ?S) (with_tab (pbind (case rows (tab ?S) marker of
          Some _ \<Rightarrow> Some (Inr (tab ?S))
        | None \<Rightarrow> (case exitVariableForMarker P marker (tab ?S) of
            None \<Rightarrow> Some (Inr (tab ?S))
          | Some x \<Rightarrow> pivot P marker x (tab ?S))) (\<lambda>T.
          Some (seq (if rows T marker \<noteq> None then removeRowForVariable marker T else Inr T) (\<lambda>T.
            Inr (fold (\<lambda>v T. if v \<noteq> marker then removeTableauColumn P v T else T) ?vs
              (if hasColumnForVariable marker T then removeTableauColumn P marker T else T)))))) ?S)"
      by (rule leaves_with_tab[OF S]) (use pivoted rest in \<open>auto simp: Let_def intro!: leaves_bind\<close>)
  qed (auto simp: keeps_def solver_ok_def marker_ok_def split: if_splits)
  then show ?thesis by (rule leaves_mono) (simp add: keeps_def)
qed

subsection \<open>Reachable solvers\<close>

text \<open>Calls of the client, which also makes external variables.\<close>

datatype solver_call =
    NewVariable rat
  | AddConstraint constraint
  | AddConstraints "constraint list"
  | RemoveConstraint constraint
  | RemoveConstraints "constraint list"
  | SuggestEditVariable variable rat
  | Solve

fun perform_call :: "platform \<Rightarrow> solver_call \<Rightarrow> solver \<Rightarrow> solver pstep" where
  "perform_call P (NewVariable x) S =
     (let (v, S) = allocate GSCSVariableTypeExternal S in Some (Inr (S\<lparr>variable_value := (variable_value S)(v := x)\<rparr>)))"
| "perform_call P (AddConstraint c) S = addConstraint P c S"
| "perform_call P (AddConstraints cs) S = addConstraints P cs S"
| "perform_call P (RemoveConstraint c) S = removeConstraint P c S"
| "perform_call P (RemoveConstraints cs) S = removeConstraints P cs S"
| "perform_call P (SuggestEditVariable v x) S = suggestEditVariable P v x S"
| "perform_call P Solve S = Some (Inr (snd (solve P S)))"

fun call_fits :: "solver \<Rightarrow> solver_call \<Rightarrow> bool" where
  "call_fits S (AddConstraint c) \<longleftrightarrow> constraint_ok S c"
| "call_fits S (AddConstraints cs) \<longleftrightarrow> list_all (constraint_ok S) cs"
| "call_fits S (SuggestEditVariable v x) \<longleftrightarrow> address v < next_address S"
| "call_fits S _ \<longleftrightarrow> True"

inductive solver_reaches :: "platform \<Rightarrow> solver \<Rightarrow> bool" for P where
  created: "solver_reaches P (new_solver a)"
| called: "solver_reaches P S \<Longrightarrow> call_fits S c \<Longrightarrow> perform_call P c S = Some r \<Longrightarrow> solver_reaches P (final r)"

lemma new_solver_ok: "solver_ok (new_solver a)"
proof -
  have "tableau_ok (new_tableau z)" for z by (rule new_tableau_ok)
  then show ?thesis
    by (auto simp: solver_ok_def new_solver_def sound_def new_tableau_def new_variable_def addresses_below_def split: if_splits)
qed

lemma leaves_add:
  "solver_ok S \<Longrightarrow> lawful P \<Longrightarrow> constraint_ok S c \<Longrightarrow> leaves (keeps S) (addConstraint P c S)"
  unfolding addConstraint_def
  by (rule leaves_keeps_bind[OF leaves_addToTableau]) (auto intro: leaves_resolve simp: keeps_def)

lemma edit_fits: "address v < next_address S \<Longrightarrow>
    constraint_ok (S\<lparr>next_address := n\<rparr>) (initEditConstraint P a v x s)" if "next_address S \<le> n"
  using that
  by (auto simp: constraint_ok_def initEditConstraint_def initWithVariable_def addTerm_spec addresses_below_def)

lemma leaves_suggest:
  assumes ok: "solver_ok S" and law: "lawful P" and v: "address v < next_address S"
  shows "leaves (keeps S) (suggestEditVariable P v x S)"
  unfolding suggestEditVariable_def
proof (rule leaves_keeps_bind)
  let ?S = "S\<lparr>next_address := next_address S + 1\<rparr>"
  have S: "solver_ok ?S"
    using ok sound_mono[of "next_address S" "tab S"] by (fastforce simp: solver_ok_def marker_ok_def)
  have "leaves (keeps ?S) (addEditVariable P v GSCSStrengthStrong S)"
    unfolding addEditVariable_def by (rule leaves_add[OF S law edit_fits[OF _ v]]) simp
  then have "leaves (keeps S) (addEditVariable P v GSCSStrengthStrong S)"
    by (rule leaves_mono) (simp add: keeps_def)
  then show "leaves (keeps S) (if editInfoForVariable v S = None then addEditVariable P v GSCSStrengthStrong S else Some (Inr S))"
    using ok by (simp add: keeps_def)
  fix R assume "keeps S R"
  then have R: "solver_ok R" by (simp add: keeps_def)
  let ?R = "case editInfoForVariable v R of
      None \<Rightarrow> R
    | Some i \<Rightarrow> R\<lparr>edit_infos := set_last_constant v x (edit_infos R),
        tab := deltaEditConstant P (- double P (x - previous_constant i)) (plus_variable i) (minus_variable i) (tab R)\<rparr>"
  have ok': "solver_ok ?R" and n: "next_address ?R = next_address R"
    using R sound_delta[OF solver_ok_sound[OF R]] by (fastforce simp: solver_ok_def marker_ok_def split: option.split)+
  have "leaves (keeps ?R) (pbind (with_tab (dualOptimize P (tab ?R)) ?R) (\<lambda>S.
      Some (Inr ((setExternalVariables S)\<lparr>tab := (tab (setExternalVariables S))\<lparr>infeasible_rows := []\<rparr>\<rparr>))))"
  proof (rule leaves_bind[OF leaves_with_tab[OF ok' leaves_dual[OF law solver_ok_sound[OF ok']]]])
    fix Q assume "keeps ?R Q"
    then have "solver_ok (setExternalVariables Q)" "next_address ?R \<le> next_address Q"
      by (simp_all add: keeps_def setExternalVariables_def solver_ok_values)
    moreover from this(1) have "sound (next_address Q) ((tab (setExternalVariables Q))\<lparr>infeasible_rows := []\<rparr>)"
      using solver_ok_sound[of "setExternalVariables Q"] by (simp add: sound_fields setExternalVariables_def)
    ultimately show "leaves (keeps ?R) (Some (Inr ((setExternalVariables Q)\<lparr>tab := (tab (setExternalVariables Q))\<lparr>infeasible_rows := []\<rparr>\<rparr>)))"
      using solver_ok_tab[of "setExternalVariables Q"] by (simp add: keeps_def setExternalVariables_def)
  qed
  then show "leaves (keeps R) (
      let S = (case editInfoForVariable v R of
                 None \<Rightarrow> R
               | Some i \<Rightarrow>
                   let delta = double P (x - previous_constant i)
                   in R\<lparr>edit_infos := set_last_constant v x (edit_infos R),
                        tab := deltaEditConstant P (- delta) (plus_variable i) (minus_variable i) (tab R)\<rparr>)
      in pbind (with_tab (dualOptimize P (tab S)) S) (\<lambda>S.
           let S = setExternalVariables S
           in Some (Inr (S\<lparr>tab := (tab S)\<lparr>infeasible_rows := []\<rparr>\<rparr>))))"
    unfolding Let_def by (rule leaves_mono) (simp add: keeps_def n)
qed

lemma leaves_call:
  assumes "solver_ok S" and "lawful P" and "call_fits S c"
  shows "leaves solver_ok (perform_call P c S)"
proof -
  have all: "leaves (keeps S) (for_all (addConstraintToTableau P) cs S)" if "\<forall>c \<in> set cs. constraint_ok S c" for cs
    by (rule leaves_for_all[where Q = "\<lambda>c S. constraint_ok S c"])
      (use assms that in \<open>auto intro: leaves_addToTableau constraint_ok_keeps\<close>)
  have none: "leaves (keeps S) (for_all (removeConstraintFromTableau P) cs S)" for cs
    by (rule leaves_for_all[where Q = "\<lambda>_ _. True"]) (use assms in \<open>auto intro: leaves_removeFromTableau\<close>)
  have resolved: "leaves (keeps S) r \<Longrightarrow> leaves (keeps S) (pbind r (resolve P))" for r
    by (rule leaves_keeps_bind) (auto intro: leaves_resolve assms(2) simp: keeps_def)
  have "leaves (keeps S) (perform_call P c S)"
  proof (cases c)
    case (NewVariable x)
    have "solver_ok (snd (allocate GSCSVariableTypeExternal S))"
      using assms(1) sound_mono[of "next_address S" "tab S"]
      by (fastforce simp: solver_ok_def marker_ok_def allocate_def)
    then show ?thesis by (auto simp: NewVariable keeps_def allocate_def Let_def solver_ok_values)
  next
    case (AddConstraints cs)
    then show ?thesis using assms all resolved by (auto simp: addConstraints_def keeps_def list_all_iff)
  next
    case (RemoveConstraints cs)
    then show ?thesis using assms none resolved by (auto simp: removeConstraints_def keeps_def)
  next
    case Solve
    then show ?thesis using assms(1) by (simp add: solve_def Let_def keeps_def setExternalVariables_def solver_ok_values)
  qed (use assms in \<open>auto simp: removeConstraint_def intro: leaves_add leaves_suggest resolved leaves_removeFromTableau\<close>)
  then show ?thesis by (rule leaves_mono) (simp add: keeps_def)
qed

lemma reached_ok: "solver_reaches P S \<Longrightarrow> lawful P \<Longrightarrow> solver_ok S"
proof (induction rule: solver_reaches.induct)
  case (called S c r)
  then show ?case using leaves_call[of S P c] by (auto dest: leavesD)
qed (rule new_solver_ok)

end
