(* ===== verification/SolverOptimize.thy ===== *)
theory SolverOptimize
  imports SolverInv
begin

text \<open>
  The primal simplex loop (\<open>optimize:\<close> of \<open>Source/GSCassowarySolver.m\<close>): the ratio test keeps the tableau
  feasible, and a loop that ends has found a minimum of its objective, which the values of the external
  variables then show.
\<close>

subsection \<open>The ratio test\<close>

text \<open>No initialiser sets the \<open>id\<close> of a variable.\<close>

definition vars_in :: "variable set \<Rightarrow> tableau \<Rightarrow> bool" where
  "vars_in V T \<longleftrightarrow> (\<forall>r e. rows T r = Some e \<longrightarrow> r \<in> V \<and> keys e \<subseteq> V)"

definition no_id :: "variable set" where
  "no_id = {v. var_id v = 0}"

text \<open>A row that limits the entry variable, and its limit.\<close>

definition limits :: "variable \<Rightarrow> tableau \<Rightarrow> variable \<Rightarrow> expression \<Rightarrow> bool" where
  "limits v T x e \<longleftrightarrow> rows T x = Some e \<and> isPivotable x \<and> coeff e v < 0"

definition limit :: "variable \<Rightarrow> expression \<Rightarrow> rat" where
  "limit v e = - expr_constant e / coeff e v"

lemma better_exit_cases:
  assumes "exact P" and "vars_in no_id T" and "exit = None \<or> (\<exists>x. exit = Some x \<and> var_id x = 0)"
  shows "better_exit P v T y (m, exit) =
    (case rows T y of
       None \<Rightarrow> (m, exit)
     | Some e \<Rightarrow> if limits v T y e \<and> limit v e < m then (limit v e, Some y) else (m, exit))"
proof (cases "rows T y")
  case (Some e)
  then have "var_id y = 0" using assms(2) by (auto simp: vars_in_def no_id_def)
  then have "\<not> shouldPreferPivotableVariable y exit"
    using assms(3) by (auto simp: shouldPreferPivotableVariable_def)
  then show ?thesis
    using assms(1) Some
    by (auto simp: better_exit_def limits_def limit_def row_coefficient_def row_constant_def coefficient_exact)
qed (simp add: better_exit_def row_coefficient_def)

lemma better_exit_fold:
  assumes "exact P" and "vars_in no_id T"
    and "exit = None \<or> (\<exists>x e. exit = Some x \<and> x \<in> D \<and> limits v T x e \<and> m = limit v e)"
    and "\<forall>y \<in> D. \<forall>e. limits v T y e \<longrightarrow> m \<le> limit v e"
    and "fold (better_exit P v T) ys (m, exit) = (m', exit')"
  shows "(exit' = None \<or> (\<exists>x e. exit' = Some x \<and> x \<in> D \<union> set ys \<and> limits v T x e \<and> m' = limit v e)) \<and>
    (\<forall>y \<in> D \<union> set ys. \<forall>e. limits v T y e \<longrightarrow> m' \<le> limit v e)"
  using assms(3-)
proof (induction ys arbitrary: m exit D)
  case (Cons y ys)
  have "exit = None \<or> (\<exists>x. exit = Some x \<and> var_id x = 0)"
    using Cons.prems(1) assms(2) by (auto simp: limits_def vars_in_def no_id_def)
  note step = better_exit_cases[OF assms(1,2) this, of v y m]
  obtain m1 exit1 where turned: "better_exit P v T y (m, exit) = (m1, exit1)" by fastforce
  have "(exit1 = None \<or> (\<exists>x e. exit1 = Some x \<and> x \<in> insert y D \<and> limits v T x e \<and> m1 = limit v e)) \<and>
      (\<forall>z \<in> insert y D. \<forall>e. limits v T z e \<longrightarrow> m1 \<le> limit v e)"
    using Cons.prems(1,2) turned unfolding step
    by (fastforce simp: limits_def split: option.splits if_splits)
  moreover have "fold (better_exit P v T) ys (m1, exit1) = (m', exit')" using Cons.prems(3) turned by simp
  ultimately show ?case using Cons.IH[of exit1 "insert y D" m1] by simp
qed simp

lemma exit_spec:
  assumes "lawful P" and "exact P" and "vars_in no_id T" and "tableau_ok T"
    and "findPivotableExitVariable P v T = Some x"
  obtains e where "limits v T x e" and "\<And>y f. limits v T y f \<Longrightarrow> limit v e \<le> limit v f"
proof -
  obtain m exit where fold: "fold (better_exit P v T) (columnForVariable P v T) (DBL_MAX, None) = (m, exit)" by fastforce
  then have exit: "exit = Some x" using assms(5) by (simp add: findPivotableExitVariable_def)
  from better_exit_fold[OF assms(2,3) _ _ fold, of "{}"] exit
  obtain e where e: "limits v T x e" "m = limit v e"
      "\<forall>y \<in> set (columnForVariable P v T). \<forall>f. limits v T y f \<longrightarrow> m \<le> limit v f" by auto
  have "limit v e \<le> limit v f" if f: "limits v T y f" for y f
  proof -
    have "v \<in> keys f"
      using f tableau_okD(2)[OF assms(4)] coeff_outside[of f v] by (fastforce simp: limits_def)
    then have "in_column T v y" using f tableau_okD(4)[OF assms(4)] by (auto simp: limits_def)
    then show ?thesis using e(2,3) f columnForVariable_set[OF assms(1)] by blast
  qed
  then show ?thesis using e(1) that by blast
qed

subsection \<open>Feasible tableaus\<close>

definition feasible :: "tableau \<Rightarrow> bool" where
  "feasible T \<longleftrightarrow> (\<forall>r e. rows T r = Some e \<longrightarrow> isPivotable r \<longrightarrow> 0 \<le> expr_constant e)"

text \<open>The rows after a pivot.\<close>

lemma pivot_rows:
  assumes ok: "tableau_ok T" and law: "lawful P" "exact P" and pivot: "pivot P v x T = Some (Inr T')"
    and clear: "pivot_clear P v x T" and e: "rows T x = Some e"
  obtains d where "rows T' v = Some d" and "keys d \<subseteq> insert x (keys e)" and "v \<in> keys e" and "coeff e v \<noteq> 0"
    and "expr_constant d = - expr_constant e / coeff e v"
    and "\<And>r f'. r \<noteq> v \<Longrightarrow> rows T' r = Some f' \<Longrightarrow>
      \<exists>f. rows T r = Some f \<and> keys f' \<subseteq> insert x (keys e) \<union> keys f \<and>
        expr_constant f' = expr_constant f + coeff f v * expr_constant d"
proof -
  obtain e' r d T1 where "rows T x = Some e'" "newSubject P v e' = Some (r, d)"
      "rows T' = rows (addRowForVariable v (addTerm P x r d)
      (substituteOutVariable P v (addTerm P x r d) (recordUpdatedVariable x T1)))"
      "tableau_ok (recordUpdatedVariable x T1)" "rows T1 = (rows T)(x := None)"
    by (rule pivot_parts[OF pivot ok]) blast
  then have parts: "newSubject P v e = Some (r, d)"
      "rows T' = rows (addRowForVariable v (addTerm P x r d)
      (substituteOutVariable P v (addTerm P x r d) (recordUpdatedVariable x T1)))"
      "tableau_ok (recordUpdatedVariable x T1)" "rows T1 = (rows T)(x := None)" using e by auto
  let ?d = "addTerm P x r d" and ?T = "recordUpdatedVariable x T1"
  have wf: "wf_expr e" by (rule tableau_okD(2)[OF ok e])
  have d: "wf_expr d" "keys d = keys e - {v}" "v \<in> keys e"
    using newSubject_spec[OF parts(1)] wf by blast+
  have "v \<noteq> x" using tableau_okD(3)[OF ok e d(3)] e by auto
  then have v: "v \<notin> keys ?d" using d(2) by (auto simp: addTerm_spec)
  have c: "coeff e v \<noteq> 0" "r = 1 / coeff e v" using newSubject_eval(1,2)[OF wf law(2) parts(1)] by blast+
  have keys: "keys ?d \<subseteq> insert x (keys e)" using d(2) by (auto simp: addTerm_spec)
  have const: "expr_constant ?d = - expr_constant e / coeff e v"
    using parts(1) law(2) c by (auto simp: newSubject_def Let_def addTerm_spec coefficient_exact)
  have others: "\<exists>f. rows T q = Some f \<and> keys f' \<subseteq> insert x (keys e) \<union> keys f \<and>
      expr_constant f' = expr_constant f + coeff f v * expr_constant ?d"
    if q: "q \<noteq> v" "rows T' q = Some f'" for q f'
  proof -
    have at: "rows (substituteOutVariable P v ?d ?T) q = Some f'" using q parts(2) by simp
    then obtain f where f: "rows ?T q = Some f"
      using substituteOut_none[OF law(1), of ?T q v ?d] by (cases "rows ?T q") auto
    then have "q \<noteq> x" "rows T q = Some f" using parts(4) by (auto split: if_splits)
    then have "clear_in P v ?d f" using clear e parts(1) by (simp add: pivot_clear_def)
    from substituteOut_exact[OF law(1) f tableau_okD(1)[OF parts(3) f] law(2) _ v this] d(1)
    have "expr_constant f' = expr_constant f + coeff f v * expr_constant ?d" using at by (auto simp: addTerm_spec)
    moreover obtain f1 where "rows (substituteOutVariable P v ?d ?T) q = Some f1" "keys f1 \<subseteq> keys ?d \<union> (keys f - {v})"
      by (rule substituteOut_some[OF law(1) f tableau_okD(1)[OF parts(3) f]]) blast
    ultimately show ?thesis using \<open>rows T q = Some f\<close> at keys by auto
  qed
  show ?thesis by (rule that[OF _ keys d(3) c(1) const others]) (use parts(2) in simp)
qed

lemma pivot_feasible:
  assumes ok: "tableau_ok T" and law: "lawful P" "exact P" and ids: "vars_in no_id T" and feasible: "feasible T"
    and exit: "findPivotableExitVariable P v T = Some x"
    and pivot: "pivot P v x T = Some (Inr T')" and clear: "pivot_clear P v x T"
  shows "feasible T' \<and> vars_in no_id T'"
proof -
  obtain e where e: "limits v T x e" "\<And>y f. limits v T y f \<Longrightarrow> limit v e \<le> limit v f"
    by (rule exit_spec[OF law ids ok exit]) blast
  then have x: "rows T x = Some e" "isPivotable x" "coeff e v < 0" by (simp_all add: limits_def)
  obtain d where d: "rows T' v = Some d" "keys d \<subseteq> insert x (keys e)" "v \<in> keys e" "expr_constant d = limit v e"
    and others: "\<And>r f'. r \<noteq> v \<Longrightarrow> rows T' r = Some f' \<Longrightarrow>
      \<exists>f. rows T r = Some f \<and> keys f' \<subseteq> insert x (keys e) \<union> keys f \<and>
        expr_constant f' = expr_constant f + coeff f v * expr_constant d"
    by (rule pivot_rows[OF ok law pivot clear x(1)]) (auto simp: limit_def)
  have "0 \<le> expr_constant e" using feasible x by (simp add: feasible_def)
  then have positive: "0 \<le> limit v e" using x(3) by (simp add: limit_def divide_nonneg_neg)
  have "0 \<le> expr_constant f'" if f': "rows T' r = Some f'" "isPivotable r" for r f'
  proof (cases "r = v")
    case True
    then show ?thesis using f' d(1,4) positive by simp
  next
    case False
    then obtain f where f: "rows T r = Some f" "expr_constant f' = expr_constant f + coeff f v * limit v e"
      using others[OF False f'(1)] d(4) by auto
    have nonneg: "0 \<le> expr_constant f" using feasible f(1) f'(2) by (simp add: feasible_def)
    show ?thesis
    proof (cases "coeff f v < 0")
      case True
      then have "limit v e \<le> limit v f" using f(1) f'(2) by (intro e(2)) (auto simp: limits_def)
      then have "coeff f v * limit v f \<le> coeff f v * limit v e" using True by (intro mult_left_mono_neg) auto
      then show ?thesis using True f(2) by (simp add: limit_def)
    next
      case False
      then show ?thesis using f(2) nonneg positive by simp
    qed
  qed
  moreover have "r \<in> no_id \<and> keys f' \<subseteq> no_id" if new: "rows T' r = Some f'" for r f'
  proof (cases "r = v")
    case True
    then show ?thesis using new d(1-3) ids x(1) by (auto simp: vars_in_def)
  next
    case False
    then obtain f where f: "rows T r = Some f" "keys f' \<subseteq> insert x (keys e) \<union> keys f"
      using others[OF False new] by blast
    have "x \<in> no_id \<and> keys e \<subseteq> no_id" "r \<in> no_id \<and> keys f \<subseteq> no_id"
      using ids x(1) f(1) unfolding vars_in_def by blast+
    then show ?thesis using f(2) by blast
  qed
  ultimately show ?thesis by (simp add: feasible_def vars_in_def)
qed

subsection \<open>The loop\<close>

text \<open>The pivots of a loop that ends, where no coefficient is lost.\<close>

inductive clear_pivots :: "platform \<Rightarrow> variable \<Rightarrow> tableau \<Rightarrow> tableau \<Rightarrow> bool" for P z where
  stop: "entry_variable P (rows T z) = None \<Longrightarrow> clear_pivots P z T T"
| turn: "entry_variable P (rows T z) = Some v \<Longrightarrow> findPivotableExitVariable P v T = Some x \<Longrightarrow>
    pivot_clear P v x T \<Longrightarrow> pivot P v x T = Some (Inr T1) \<Longrightarrow> clear_pivots P z T1 T' \<Longrightarrow> clear_pivots P z T T'"

lemma optimize_pivots:
  assumes "clear_pivots P z T T'" and "lawful P" "exact P" and "tableau_ok T" and "feasible T" and "vars_in no_id T"
  shows "optimize P z T = Some (Inr T') \<and> tableau_ok T' \<and> feasible T' \<and> entry_variable P (rows T' z) = None \<and>
    (\<forall>\<sigma>. solves \<sigma> T' \<longleftrightarrow> solves \<sigma> T)"
  using assms
proof (induction rule: clear_pivots.induct)
  case (stop T)
  then show ?case by (simp add: optimize.simps[of P z T])
next
  case (turn T v x T1 T')
  have "tableau_ok T1" by (rule pivot_ok[OF turn.prems(3,1) turn.hyps(4)])
  moreover have "feasible T1 \<and> vars_in no_id T1"
    by (rule pivot_feasible[OF turn.prems(3,1,2,5,4) turn.hyps(2,4,3)])
  moreover have "solves \<sigma> T1 \<longleftrightarrow> solves \<sigma> T" for \<sigma>
    by (rule pivot_solutions[OF turn.prems(3,1,2) turn.hyps(4,3)])
  ultimately show ?case
    using turn by (simp add: optimize.simps[of P z T])
qed

subsection \<open>Minima\<close>

lemma entry_none:
  assumes "entry_variable P (Some e) = None" and "exact P" and "t \<in> keys e" and "isPivotable t"
  shows "- (1 / 10 ^ 8) \<le> coeff e t"
proof -
  let ?f = "\<lambda>v (m, entry). if isPivotable v \<and> coefficientForTerm P v e < m then (coefficientForTerm P v e, Some v)
    else (m, entry)"
  have some: "snd (fold ?f vs (m, Some u)) \<noteq> None" for vs m u
    by (induction vs arbitrary: m u) auto
  have "snd (fold ?f vs (m, None)) = None \<Longrightarrow> \<forall>v \<in> set vs. isPivotable v \<longrightarrow> m \<le> coefficientForTerm P v e" for vs m
  proof (induction vs arbitrary: m)
    case (Cons v vs)
    then show ?case using some[of vs "coefficientForTerm P v e" v] by (auto split: if_splits)
  qed simp
  from this[of "term_variables e" "- (1 / 10 ^ 8)"] assms show ?thesis
    by (simp add: entry_variable_def coefficient_exact keys_def)
qed

lemma objective_bound:
  assumes "entry_variable P (rows T z) = None" and "exact P" and "rows T z = Some e" and "solves \<sigma> T"
    and "\<forall>t \<in> keys e. isPivotable t \<and> 0 \<le> \<sigma> t \<or> \<sigma> t = 0"
  shows "expr_constant e \<le> \<sigma> z + (\<Sum>t \<in> keys e. \<sigma> t) / 10 ^ 8"
proof -
  have "(\<Sum>t \<in> keys e. - \<sigma> t / 10 ^ 8) \<le> (\<Sum>t \<in> keys e. coeff e t * \<sigma> t)"
  proof (rule sum_mono)
    fix t assume t: "t \<in> keys e"
    show "- \<sigma> t / 10 ^ 8 \<le> coeff e t * \<sigma> t"
    proof (cases "\<sigma> t = 0")
      case False
      then have "isPivotable t" "0 \<le> \<sigma> t" using assms(5) t by auto
      then have "- (1 / 10 ^ 8) * \<sigma> t \<le> coeff e t * \<sigma> t"
        using entry_none[OF _ assms(2) t] assms(1,3) by (intro mult_right_mono) auto
      then show ?thesis by simp
    qed simp
  qed
  moreover have "\<sigma> z = expr_constant e + (\<Sum>t \<in> keys e. coeff e t * \<sigma> t)"
    using assms(3,4) by (simp add: solves_def eval_def)
  ultimately show ?thesis by (simp add: sum_negf sum_divide_distrib)
qed

text \<open>The constants of the rows are a solution, with zero for the other variables.\<close>

definition basic_solution :: "tableau \<Rightarrow> variable \<Rightarrow> rat" where
  "basic_solution T v = row_constant (rows T v)"

lemma basic_solves: "tableau_ok T \<Longrightarrow> solves (basic_solution T) T"
  using tableau_okD(3)[of T] by (auto simp: solves_def eval_def basic_solution_def row_constant_def intro!: sum.neutral)

lemma resolve_spec:
  assumes pivots: "clear_pivots P (objective (tab S)) (tab S) T'" and law: "lawful P" "exact P"
    and ok: "solver_ok S" and feasible: "feasible (tab S)" and ids: "vars_in no_id (tab S)"
    and row: "rows T' (objective (tab S)) = Some e"
  shows "\<exists>S' \<sigma>. resolve P S = Some (Inr S') \<and> (\<forall>v \<in> set (external_variables S). variable_value S' v = \<sigma> v) \<and>
    solves \<sigma> (tab S) \<and> (\<forall>v. isPivotable v \<longrightarrow> 0 \<le> \<sigma> v) \<and>
    (\<forall>\<tau>. solves \<tau> (tab S) \<longrightarrow> (\<forall>t \<in> keys e. isPivotable t \<and> 0 \<le> \<tau> t \<or> \<tau> t = 0) \<longrightarrow>
      \<sigma> (objective (tab S)) \<le> \<tau> (objective (tab S)) + (\<Sum>t \<in> keys e. \<tau> t) / 10 ^ 8)"
proof -
  let ?z = "objective (tab S)" and ?\<sigma> = "basic_solution T'"
  note loop = optimize_pivots[OF pivots law soundD(1)[OF solver_ok_sound[OF ok]] feasible ids]
  have "resolve P S = Some (Inr (setExternalVariables (S\<lparr>tab := T'\<rparr>)))"
    using loop by (simp add: resolve_def with_tab_def)
  moreover have "\<forall>v \<in> set (external_variables S). variable_value (setExternalVariables (S\<lparr>tab := T'\<rparr>)) v = ?\<sigma> v"
    by (simp add: setExternalVariables_def basic_solution_def)
  moreover have "solves ?\<sigma> (tab S)" using loop basic_solves by blast
  moreover have "0 \<le> ?\<sigma> v" if "isPivotable v" for v
    using loop that by (auto simp: feasible_def basic_solution_def row_constant_def split: option.split)
  moreover have "?\<sigma> ?z \<le> \<tau> ?z + (\<Sum>t \<in> keys e. \<tau> t) / 10 ^ 8"
    if "solves \<tau> (tab S)" "\<forall>t \<in> keys e. isPivotable t \<and> 0 \<le> \<tau> t \<or> \<tau> t = 0" for \<tau>
    using objective_bound[OF _ law(2) row _ that(2)] loop that(1) row by (simp add: basic_solution_def row_constant_def)
  ultimately show ?thesis by blast
qed

end
