(* ===== verification/SolverAdd.thy ===== *)
theory SolverAdd
  imports SolverOptimize
begin

text \<open>
  What adding a required constraint does to the solutions of the tableau (\<open>addConstraintToTableau:\<close> of
  \<open>Source/GSCassowarySolver.m\<close>), and what the constraints of \<open>Source/GSCSConstraint.m\<close> mean, in arithmetic
  without rounding. Expressions with integer coefficients lose none of them.
\<close>

subsection \<open>Integer coefficients\<close>

definition integral :: "expression \<Rightarrow> bool" where
  "integral e \<longleftrightarrow> (\<forall>v. coeff e v \<in> \<int>)"

definition integral_rows :: "tableau \<Rightarrow> bool" where
  "integral_rows T \<longleftrightarrow> (\<forall>r e. rows T r = Some e \<longrightarrow> integral e)"

lemma clear_int: "exact P \<Longrightarrow> x \<in> \<int> \<Longrightarrow> clear P x"
  by (auto simp: clear_def isApproximatelyZero_def isApproximatelyEqual_def GSCSEpsilon_def elim!: Ints_cases)

lemma integral_constant: "integral (e\<lparr>expr_constant := c\<rparr>) = integral e" "integral (initWithConstant c)"
  by (simp_all add: integral_def)

lemma integral_multiply: "wf_expr e \<Longrightarrow> exact P \<Longrightarrow> integral e \<Longrightarrow> x \<in> \<int> \<Longrightarrow> integral (multiplyConstantAndTermsBy P x e)"
  unfolding integral_def
proof
  fix v
  assume "wf_expr e" "exact P" "\<forall>v. coeff e v \<in> \<int>" "x \<in> \<int>"
  then show "coeff (multiplyConstantAndTermsBy P x e) v \<in> \<int>"
    by (cases "v \<in> keys e") (simp_all add: multiply_coeff coeff_outside)
qed

lemma accumulate_exact:
  assumes "wf_expr e" and "exact P" and "integral e" and "c \<in> \<int>"
  shows "eval \<sigma> (accumulate P v c e) = eval \<sigma> e + c * \<sigma> v" and "integral (accumulate P v c e)"
    and "expr_constant (accumulate P v c e) = expr_constant e"
proof -
  let ?n = "coeff e v + c"
  have n: "double P ((if isTermForVariable v e then coefficientForTerm P v e else 0) + c) = ?n"
    using assms(1,2) by (simp add: coefficient_exact isTerm_keys coeff_outside)
  have int: "?n \<in> \<int>" using assms(3,4) by (simp add: integral_def)
  then have clear: "clear P ?n" by (rule clear_int[OF assms(2)])
  show "eval \<sigma> (accumulate P v c e) = eval \<sigma> e + c * \<sigma> v"
  proof (cases "isApproximatelyZero P ?n")
    case True
    then have "c = - coeff e v" using clear by (simp add: clear_def add_eq_0_iff)
    then show ?thesis using True assms(1) unfolding accumulate_def n by (simp add: eval_drop)
  next
    case False
    then have "?n \<noteq> 0" by (auto simp: isApproximatelyZero_def isApproximatelyEqual_def GSCSEpsilon_def assms(2))
    then show ?thesis
      using False eval_add[OF assms(1,2) clear, where v = v and \<sigma> = \<sigma>] unfolding accumulate_def n by (simp add: algebra_simps)
  qed
  show "integral (accumulate P v c e)"
    using assms int unfolding accumulate_def n by (simp add: integral_def addTerm_spec Let_def)
  show "expr_constant (accumulate P v c e) = expr_constant e"
    unfolding accumulate_def n by (simp add: addTerm_spec Let_def)
qed

lemma accumulates_exact:
  assumes "wf_expr d" and "exact P" and "integral d" and "\<forall>v. f v \<in> \<int>"
  shows "eval \<sigma> (fold (\<lambda>v. accumulate P v (f v)) vs d) = eval \<sigma> d + (\<Sum>v \<leftarrow> vs. f v * \<sigma> v) \<and>
    integral (fold (\<lambda>v. accumulate P v (f v)) vs d)"
  using assms(1,3)
proof (induction vs arbitrary: d)
  case (Cons v vs)
  have "f v \<in> \<int>" using assms(4) by blast
  note one = accumulate_exact[OF Cons.prems(1) assms(2) Cons.prems(2) this, where v = v]
  show ?case using Cons.IH[OF accumulate_spec(1)[OF Cons.prems(1)] one(2)] one(1)[of \<sigma>] by simp
qed simp

lemma sum_terms: "wf_expr e \<Longrightarrow> (\<Sum>v \<leftarrow> term_variables e. coeff e v * \<sigma> v) = eval \<sigma> e - expr_constant e"
  by (simp add: eval_def keys_def wf_expr_def sum_list_distinct_conv_sum_set)

lemma accumulateExpression_exact:
  assumes "wf_expr d" and "wf_expr e" and "exact P" and "integral d" and "integral e" and "m \<in> \<int>"
  shows "eval \<sigma> (accumulateExpression P e m d) = eval \<sigma> d + m * eval \<sigma> e"
    and "integral (accumulateExpression P e m d)"
proof -
  let ?d = "d\<lparr>expr_constant := expr_constant d + m * expr_constant e\<rparr>"
  have shift: "accumulateExpression P e m d = fold (\<lambda>v. accumulate P v (m * coeff e v)) (term_variables e) ?d"
    using assms(3) by (simp add: accumulateExpression_def coefficient_exact)
  have "(\<Sum>v \<leftarrow> term_variables e. m * coeff e v * \<sigma> v) = m * (eval \<sigma> e - expr_constant e)"
    using sum_terms[OF assms(2), of \<sigma>] by (simp add: sum_list_const_mult mult.assoc)
  moreover have "eval \<sigma> ?d = eval \<sigma> d + m * expr_constant e" by (simp add: eval_def)
  moreover note accumulates_exact[of ?d P "\<lambda>v. m * coeff e v" \<sigma> "term_variables e"]
  ultimately show "eval \<sigma> (accumulateExpression P e m d) = eval \<sigma> d + m * eval \<sigma> e"
    and "integral (accumulateExpression P e m d)"
    using assms unfolding shift by (simp_all add: integral_def algebra_simps)
qed

subsection \<open>The expression of a required constraint\<close>

lemma terms_exact:
  assumes law: "exact P" and T: "tableau_ok (tab S)" "integral_rows (tab S)" and ce: "integral ce"
    and \<sigma>: "solves \<sigma> (tab S)"
    and "fold (addConstraintTerm P ce) vs (e, S) = (e', S')" and "wf_expr e" "integral e"
  shows "eval \<sigma> e' = eval \<sigma> e + (\<Sum>v \<leftarrow> vs. coeff ce v * \<sigma> v) \<and> wf_expr e' \<and> integral e'"
  using assms(2-)
proof (induction vs arbitrary: e S)
  case (Cons v vs)
  obtain e1 S1 where step: "addConstraintTerm P ce v (e, S) = (e1, S1)" by fastforce
  have tab: "tab S1 = tab S" using step by (auto simp: addConstraintTerm_def Let_def split: option.splits if_splits)
  have int: "coeff ce v \<in> \<int>" using ce by (simp add: integral_def)
  have one: "eval \<sigma> e1 = eval \<sigma> e + coeff ce v * \<sigma> v \<and> wf_expr e1 \<and> integral e1"
  proof (cases "rows (tab S) v")
    case None
    then show ?thesis
      using step law Cons.prems accumulate_exact(1,2)[OF Cons.prems(6) law Cons.prems(7) int]
      by (auto simp: addConstraintTerm_def Let_def coefficient_exact accumulate_spec(1))
  next
    case (Some row)
    have "integral row" "\<sigma> v = eval \<sigma> row" using Some Cons.prems(2,4) by (auto simp: integral_rows_def solves_def)
    then show ?thesis
      using step law Some Cons.prems accumulateExpression_exact[OF Cons.prems(6) tableau_okD(2)[OF Cons.prems(1) Some] law Cons.prems(7) _ int]
      by (auto simp: addConstraintTerm_def Let_def coefficient_exact accumulateExpression_spec(1))
  qed
  have "fold (addConstraintTerm P ce) vs (e1, S1) = (e', S')" using Cons.prems(5) step by simp
  then show ?case using Cons.IH[of S1 e1] Cons.prems(1-4) one tab by simp
qed simp

lemma eval_normalize: "wf_expr e \<Longrightarrow> exact P \<Longrightarrow> eval \<sigma> (normalize_expression P e) = - eval \<sigma> e"
  by (simp add: normalize_expression_def eval_multiply)

lemma integral_normalize: "wf_expr e \<Longrightarrow> exact P \<Longrightarrow> integral e \<Longrightarrow> integral (normalize_expression P e)"
  by (simp add: normalize_expression_def integral_multiply)

lemma required_expression:
  assumes law: "exact P" and ok: "solver_ok S" and c: "constraint_ok S c" "isRequired P c"
    and int: "integral_rows (tab S)" "integral (constraint_expression c)"
    and result: "expressionForNewConstraint P c S = ((e, marker, errors), S')"
  shows "tab S' = tab S" and "marker = new_variable (if isInequality c then GSCSVariableTypeSlack else GSCSVariableTypeDummy) (next_address S)"
    and "solves \<sigma> (tab S) \<Longrightarrow> wf_expr e \<and> integral e \<and>
      (eval \<sigma> e = 0 \<longleftrightarrow> \<sigma> marker = (if isInequality c then 1 else - 1) * eval \<sigma> (constraint_expression c))"
proof -
  let ?ce = "constraint_expression c"
  obtain e1 S1 where loop: "fold (addConstraintTerm P ?ce) (term_variables ?ce) (initWithConstant (expr_constant ?ce), S) = (e1, S1)"
    by fastforce
  have wf: "wf_expr ?ce" using c(1) by (simp add: constraint_ok_def)
  have "\<exists>xs. S1 = S\<lparr>external_variables := xs\<rparr>"
    using terms_free[OF solver_ok_sound[OF ok] _ _ loop] c(1)
    by (simp add: free_expr_def constraint_ok_def addresses_below_def keys_def[of ?ce])
  then have S1: "tab S1 = tab S" "next_address S1 = next_address S" by auto
  let ?k = "if isInequality c then - 1 else 1 :: rat"
  have e: "e = (let f = accumulate P marker ?k e1 in if expr_constant f < 0 then normalize_expression P f else f)"
      and S': "tab S' = tab S1" and marker: "marker = new_variable
        (if isInequality c then GSCSVariableTypeSlack else GSCSVariableTypeDummy) (next_address S)"
    using result loop c(2) S1
    by (auto simp: expressionForNewConstraint_def Let_def next_slack_def allocate_def split: if_splits)
  show "tab S' = tab S" using S' S1 by simp
  show "marker = new_variable (if isInequality c then GSCSVariableTypeSlack else GSCSVariableTypeDummy) (next_address S)"
    by (rule marker)
  assume \<sigma>: "solves \<sigma> (tab S)"
  have e1: "eval \<sigma> e1 = eval \<sigma> ?ce" "wf_expr e1" "integral e1"
    using terms_exact[OF law soundD(1)[OF solver_ok_sound[OF ok]] int \<sigma> loop] sum_terms[OF wf, of \<sigma>]
    by (simp_all add: integral_constant)
  have "?k \<in> \<int>" by simp
  from accumulate_exact(1,2)[OF e1(2) law e1(3) this] accumulate_spec(1)[OF e1(2)]
  have f: "eval \<sigma> (accumulate P marker ?k e1) = eval \<sigma> ?ce + ?k * \<sigma> marker" "integral (accumulate P marker ?k e1)"
      "wf_expr (accumulate P marker ?k e1)"
    by (simp_all add: e1(1))
  have "eval \<sigma> e = 0 \<longleftrightarrow> eval \<sigma> ?ce + ?k * \<sigma> marker = 0"
    using f(3) law f(1)[symmetric] by (simp only: e Let_def eval_normalize neg_equal_0_iff_equal split: if_split) simp
  moreover have "eval \<sigma> ?ce + ?k * \<sigma> marker = 0 \<longleftrightarrow> \<sigma> marker = (if isInequality c then 1 else - 1) * eval \<sigma> ?ce"
    by auto
  ultimately show "wf_expr e \<and> integral e \<and>
      (eval \<sigma> e = 0 \<longleftrightarrow> \<sigma> marker = (if isInequality c then 1 else - 1) * eval \<sigma> (constraint_expression c))"
    using f law by (auto simp: e Let_def integral_normalize)
qed

subsection \<open>The row of the subject\<close>

lemma chooseSubject_exact:
  assumes "chooseSubject P T e = (subject, e')" and "wf_expr e" and "exact P" and "integral e"
  shows "wf_expr e' \<and> integral e' \<and> (eval \<sigma> e' = 0 \<longleftrightarrow> eval \<sigma> e = 0)"
  using assms by (auto simp: chooseSubject_def eval_normalize integral_normalize split: option.splits if_splits)

lemma new_subject_integral:
  assumes "newSubject P v e = Some (r, d)" and "wf_expr e" and "exact P" and "integral e"
    and "coeff e v = 1 \<or> coeff e v = - 1"
  shows "integral d"
proof -
  have "r = 1 / coeff e v" by (rule newSubject_eval(2)[OF assms(2,3,1)])
  then have "- r \<in> \<int>" using assms(5) by auto
  then have "integral (multiplyConstantAndTermsBy P (- r) e)" by (rule integral_multiply[OF assms(2,3,4)])
  moreover have "d = dropVariable v (multiplyConstantAndTermsBy P (- r) e)"
    using assms(1,3) by (auto simp: newSubject_def Let_def split: if_splits)
  ultimately show ?thesis by (simp add: integral_def)
qed

lemma addSubject_solutions:
  assumes law: "lawful P" "exact P" and T: "tableau_ok T" "integral_rows T"
    and e: "wf_expr e" "integral e" "\<forall>t \<in> keys e. rows T t = None" and unit: "coeff e v = 1 \<or> coeff e v = - 1"
    and add: "addSubject P v e T = Some T'"
  shows "solves \<sigma> T' \<longleftrightarrow> solves \<sigma> T \<and> eval \<sigma> e = 0"
proof -
  obtain r d where d: "newSubject P v e = Some (r, d)"
      "T' = addRowForVariable v d (if hasColumnForVariable v T then substituteOutVariable P v d T else T)"
    using add by (auto simp: addSubject_def)
  note spec = newSubject_spec[OF d(1)]
  have wf: "wf_expr d" "v \<notin> keys d" "rows T v = None" using spec e by auto
  have int: "integral d" by (rule new_subject_integral[OF d(1) e(1) law(2) e(2) unit])
  have root: "eval \<sigma> e = 0 \<longleftrightarrow> \<sigma> v = eval \<sigma> d" by (rule newSubject_eval(3)[OF e(1) law(2) d(1)])
  show ?thesis
  proof (cases "hasColumnForVariable v T")
    case True
    have "clear_rows P v d T"
      using T(2) int clear_int[OF law(2)] by (auto simp: clear_rows_def clear_in_def integral_rows_def integral_def)
    then show ?thesis using new_row_solutions[OF T(1) law wf] True d(2) root by simp
  next
    case False
    then show ?thesis using d(2) wf(3) root by (auto simp: solves_def)
  qed
qed

lemma addToTableau_tab:
  assumes "addConstraintToTableau P c S = Some (Inr S')"
    and "expressionForNewConstraint P c S = ((e, marker, errors), S1)" and "chooseSubject P (tab S1) e = (Some v, e')"
  shows "addSubject P v e' (tab S1) = Some (tab S')" and "marker_variables S' (constraint_address c) = Some marker"
proof -
  obtain T where T: "addSubject P v e' (tab S1) = Some T"
    using assms by (cases "addSubject P v e' (tab S1)") (auto simp: addConstraintToTableau_def Let_def)
  have "S' = (let R = S1\<lparr>tab := T, marker_variables := (marker_variables S1)(constraint_address c \<mapsto> marker)\<rparr>;
      R = (case errors of
             None \<Rightarrow> R
           | Some xs \<Rightarrow> R\<lparr>error_variables := (error_variables R)(constraint_address c \<mapsto> xs)\<rparr>)
      in if isEditConstraint c then registerEditInfo c marker errors R else R)"
    using assms T by (cases errors; cases "isEditConstraint c") (simp_all add: addConstraintToTableau_def Let_def)
  then have "tab S' = T \<and> marker_variables S' (constraint_address c) = Some marker"
    by (auto simp: Let_def registerEditInfo_def split: option.split)
  then show "addSubject P v e' (tab S1) = Some (tab S')" "marker_variables S' (constraint_address c) = Some marker"
    using T by simp_all
qed

subsection \<open>Adding a required constraint\<close>

lemma solves_agree:
  assumes "\<forall>r e. rows T r = Some e \<longrightarrow> r \<in> V \<and> keys e \<subseteq> V" and "\<forall>v \<in> V. \<tau> v = \<sigma> v"
  shows "solves \<tau> T \<longleftrightarrow> solves \<sigma> T"
proof -
  have "eval \<tau> e = eval \<sigma> e \<and> \<tau> r = \<sigma> r" if row: "rows T r = Some e" for r e
  proof -
    have "r \<in> V" "keys e \<subseteq> V" using assms(1) row by simp_all
    then have "(\<Sum>v \<in> keys e. coeff e v * \<tau> v) = (\<Sum>v \<in> keys e. coeff e v * \<sigma> v)"
      using assms(2) by (intro sum.cong) auto
    then show ?thesis using assms(2) \<open>r \<in> V\<close> by (simp add: eval_def)
  qed
  then show ?thesis by (auto simp: solves_def)
qed

lemma required_solutions:
  assumes law: "lawful P" "exact P" and ok: "solver_ok S" and c: "constraint_ok S c" "isRequired P c"
    and int: "integral_rows (tab S)" "integral (constraint_expression c)"
    and expression: "expressionForNewConstraint P c S = ((e, marker, errors), S1)"
    and subject: "chooseSubject P (tab S1) e = (Some v, e')" and unit: "coeff e' v = 1 \<or> coeff e' v = - 1"
    and add: "addConstraintToTableau P c S = Some (Inr S')"
  shows "(\<exists>x. (if isInequality c then 0 \<le> x else x = 0) \<and> solves (\<sigma>(marker := x)) (tab S')) \<longleftrightarrow>
    solves \<sigma> (tab S) \<and> satisfied \<sigma> c"
proof -
  let ?ce = "constraint_expression c" and ?k = "if isInequality c then 1 else - 1 :: rat"
  note req = required_expression[OF law(2) ok c int expression]
  have T: "tableau_ok (tab S)" by (rule soundD(1)[OF solver_ok_sound[OF ok]])
  have free: "\<forall>t \<in> keys e'. rows (tab S) t = None"
    using chooseSubject_spec(1)[OF subject expression_spec(3)[OF ok c(1) expression]] req(1) by (simp add: free_expr_def)
  have new: "address marker = next_address S" using req(2) by (simp add: new_variable_def)
  have e: "wf_expr e" "integral e" using req(3)[OF basic_solves[OF T]] by simp_all
  have e': "wf_expr e'" "integral e'" using chooseSubject_exact[OF subject e(1) law(2) e(2)] by simp_all
  have root: "eval \<tau> e' = 0 \<longleftrightarrow> eval \<tau> e = 0" for \<tau>
    using chooseSubject_exact[OF subject e(1) law(2) e(2), of \<tau>] by simp
  have row: "addSubject P v e' (tab S) = Some (tab S')" using addToTableau_tab(1)[OF add expression subject] req(1) by simp
  have all: "solves \<tau> (tab S') \<longleftrightarrow> solves \<tau> (tab S) \<and> \<tau> marker = ?k * eval \<tau> ?ce" for \<tau>
    using addSubject_solutions[OF law T int(1) e' free unit row, of \<tau>] root[of \<tau>] req(3)[of \<tau>]
    by (cases "solves \<tau> (tab S)") simp_all
  have old: "solves (\<sigma>(marker := x)) (tab S) \<longleftrightarrow> solves \<sigma> (tab S)" for x
    using soundD(2,3)[OF solver_ok_sound[OF ok]] new
    by (intro solves_agree[where V = "{u. address u < next_address S}"]) (auto simp: addresses_below_def)
  have "marker \<notin> keys ?ce" using c(1) new by (auto simp: constraint_ok_def addresses_below_def)
  then have "eval (\<sigma>(marker := x)) ?ce = eval \<sigma> ?ce" for x
    unfolding eval_def by (auto intro!: sum.cong)
  then show ?thesis unfolding all old by (auto simp: satisfied_def)
qed

subsection \<open>What constraints mean\<close>

lemma eval_addTerms:
  assumes "exact P" and "\<forall>v. f v \<in> \<int>" and "distinct vs" and "wf_expr d" and "set vs \<inter> keys d = {}"
  shows "eval \<sigma> (fold (\<lambda>v. addTerm P v (f v)) vs d) = eval \<sigma> d + (\<Sum>v \<leftarrow> vs. f v * \<sigma> v)"
  using assms(3-)
proof (induction vs arbitrary: d)
  case (Cons v vs)
  have "coeff d v = 0" using Cons.prems by (intro coeff_outside) auto
  moreover have "clear P (f v)" using assms(1,2) by (intro clear_int) auto
  ultimately have "eval \<sigma> (addTerm P v (f v) d) = eval \<sigma> d + f v * \<sigma> v"
    using eval_add[OF Cons.prems(2) assms(1), where v = v and \<sigma> = \<sigma>] by simp
  moreover have "set vs \<inter> keys (addTerm P v (f v) d) = {}" using Cons.prems by (auto simp: addTerm_spec(2))
  ultimately show ?case using Cons.IH[of "addTerm P v (f v) d"] Cons.prems by (simp add: addTerm_spec(1))
qed simp

lemma copy_eval:
  assumes "exact P" and "wf_expr e" and "integral e"
  shows "eval \<sigma> (copy_expression P e) = eval \<sigma> e"
  using eval_addTerms[of P "coeff e" "term_variables e" "initWithConstant (expr_constant e)" \<sigma>]
    sum_terms[OF assms(2), of \<sigma>] assms
  by (simp add: copy_expression_def coefficient_exact integral_def wf_expr_def[of e])

lemma addExpression_eval:
  assumes "exact P" and "wf_expr e" and "integral e" and "m \<in> \<int>" and "wf_expr d" and "keys e \<inter> keys d = {}"
  shows "eval \<sigma> (addExpression P e m d) = eval \<sigma> d + m * eval \<sigma> e"
proof -
  let ?d = "d\<lparr>expr_constant := expr_constant d + expr_constant e * m\<rparr>"
  have "(\<Sum>v \<leftarrow> term_variables e. coeff e v * m * \<sigma> v) = m * (eval \<sigma> e - expr_constant e)"
    using sum_terms[OF assms(2), of \<sigma>] sum_list_const_mult[of m "\<lambda>v. coeff e v * \<sigma> v" "term_variables e"]
    by (simp add: ac_simps)
  moreover have "eval \<sigma> ?d = eval \<sigma> d + expr_constant e * m" by (simp add: eval_def)
  moreover have "wf_expr ?d" "keys ?d = keys d" using assms(5) by simp_all
  ultimately show ?thesis
    using eval_addTerms[of P "\<lambda>v. coeff e v * m" "term_variables e" ?d \<sigma>] assms
    by (simp add: addExpression_def coefficient_exact integral_def wf_expr_def[of e] keys_def[of e] algebra_simps)
qed

lemma eval_unit: "exact P \<Longrightarrow> wf_expr e \<Longrightarrow> v \<notin> keys e \<Longrightarrow> eval \<sigma> (addTerm P v 1 e) = eval \<sigma> e + \<sigma> v"
  "exact P \<Longrightarrow> wf_expr e \<Longrightarrow> v \<notin> keys e \<Longrightarrow> eval \<sigma> (addTerm P v (- 1) e) = eval \<sigma> e - \<sigma> v"
  using eval_add[of e P 1 v \<sigma>] eval_add[of e P "- 1" v \<sigma>] by (simp_all add: coeff_outside clear_int)

lemma variable_spec:
  assumes "exact P"
  shows "wf_expr (initWithVariable P v 1 0)" "keys (initWithVariable P v 1 0) = {v}" "eval \<sigma> (initWithVariable P v 1 0) = \<sigma> v"
proof -
  have clear: "\<not> isApproximatelyZero P 1" using clear_int[OF assms, of 1] by (simp add: clear_def)
  show "wf_expr (initWithVariable P v 1 0)" "keys (initWithVariable P v 1 0) = {v}" "eval \<sigma> (initWithVariable P v 1 0) = \<sigma> v"
    using clear assms by (simp_all add: initWithVariable_def addTerm_spec eval_def)
qed

lemma eval_new_constant: "eval \<sigma> (e\<lparr>expr_constant := c\<rparr>) = eval \<sigma> e - expr_constant e + c"
  by (simp add: eval_def)

lemma variable_constant_meaning:
  assumes "exact P"
  shows "satisfied \<sigma> (leftVariableRightConstant P a x oper k) = compares oper (\<sigma> x) k"
    and "satisfied \<sigma> (leftConstantRightVariable P a k oper x) = compares oper k (\<sigma> x)"
  using assms
  by (cases oper; auto simp: leftVariableRightConstant_def leftConstantRightVariable_def satisfied_def linear_def
      linearInequity_def isInequality_def eval_new_constant eval_unit eval_multiply addTerm_spec)+

lemma variables_meaning:
  assumes "exact P" and "x \<noteq> y"
  shows "satisfied \<sigma> (leftVariableRightVariable P a x oper y) = compares oper (\<sigma> x) (\<sigma> y)"
  using assms variable_spec[OF assms(1)]
  by (cases oper) (auto simp: leftVariableRightVariable_def satisfied_def linear_def linearInequity_def isInequality_def
      eval_unit eval_multiply)

lemma expressions_meaning:
  assumes "exact P" and "wf_expr l" "integral l" and "wf_expr r" "integral r" and "keys l \<inter> keys r = {}"
  shows "satisfied \<sigma> (leftExpressionRightExpression P a l oper r) = compares oper (eval \<sigma> l) (eval \<sigma> r)"
proof -
  have copy: "wf_expr (copy_expression P r)" "keys l \<inter> keys (copy_expression P r) = {}"
    using copy_spec(1,2)[where P = P and e = r] assms(6) by auto
  show ?thesis
    using assms copy
    by (cases oper) (auto simp: leftExpressionRightExpression_def satisfied_def linear_def linearInequity_def isInequality_def
        Let_def addExpression_eval eval_multiply copy_eval)
qed

text \<open>With the same variable on both sides the second coefficient replaces the first.\<close>

lemma same_variable_meaning:
  assumes "exact P"
  shows "satisfied \<sigma> (leftVariableRightVariable P a x GSCSConstraintOperatorLessThanOrEqual x) \<longleftrightarrow> \<sigma> x \<le> 0"
proof -
  have "clear P (- 1)" using clear_int[OF assms, of "- 1"] by simp
  moreover have "coeff (initWithVariable P x 1 0) x = 1"
    using clear_int[OF assms, of 1] assms by (simp add: initWithVariable_def addTerm_spec clear_def)
  ultimately have "eval \<sigma> (addTerm P x (- 1) (initWithVariable P x 1 0)) = - \<sigma> x"
    using eval_add[OF variable_spec(1)[OF assms] assms, of "- 1" x x \<sigma>] variable_spec(3)[OF assms, of \<sigma> x] by simp
  then show ?thesis
    by (simp add: leftVariableRightVariable_def satisfied_def linear_def linearInequity_def isInequality_def)
qed

end
