(* ===== verification/SolverEdit.thy ===== *)
theory SolverEdit
  imports SolverAdd
begin

text \<open>
  What a suggested value does to the solutions of the tableau (\<open>deltaEditConstant:plusVariable:minusVariable:\<close> of
  \<open>Source/GSCassowarySolver.m\<close>), in arithmetic without rounding.
\<close>

subsection \<open>Shifted rows\<close>

definition shifted :: "rat \<Rightarrow> expression \<Rightarrow> expression" where
  "shifted d e = e\<lparr>expr_constant := expr_constant e + d\<rparr>"

lemma shifted_spec [simp]: "keys (shifted d e) = keys e" "coeff (shifted d e) = coeff e" "shifted 0 e = e"
  "eval \<sigma> (shifted d e) = eval \<sigma> e + d"
  by (simp_all add: shifted_def eval_def)

lemma shift_row_rows:
  "exact P \<Longrightarrow> rows (shift_row P b d v T) = (rows T)(v := map_option (shifted d) (rows T v))"
  by (auto simp: shift_row_def Let_def shifted_def fun_eq_iff split: option.split)

lemma eval_other: "v \<notin> keys e \<Longrightarrow> eval (\<sigma>(v := x)) e = eval \<sigma> e"
  by (auto simp: eval_def intro!: sum.cong)

lemma eval_moved: "wf_expr e \<Longrightarrow> eval (\<sigma>(v := \<sigma> v + d)) e = eval \<sigma> e + coeff e v * d"
proof -
  assume wf: "wf_expr e"
  have "(\<Sum>t \<in> insert v (keys e). coeff e t * (\<sigma>(v := \<sigma> v + d)) t) =
      (\<Sum>t \<in> insert v (keys e). coeff e t * \<sigma> t) + coeff e v * d"
    by (simp add: sum.insert_remove algebra_simps)
  then show ?thesis using eval_on[OF wf, of "insert v (keys e)"] by (simp add: subset_insertI)
qed

text \<open>A basic variable gets another constant: it is \<open>d\<close> more than before.\<close>

lemma shift_basic:
  assumes "exact P" and "tableau_ok T" and "rows T v = Some e"
  shows "solves \<sigma> (shift_row P b d v T) \<longleftrightarrow> solves (\<sigma>(v := \<sigma> v - d)) T"
proof -
  have out: "v \<notin> keys f" if "rows T r = Some f" for r f
    using tableau_okD(3)[OF assms(2) that] assms(3) by auto
  have "solves \<sigma> (shift_row P b d v T) \<longleftrightarrow>
      (\<forall>r f. rows T r = Some f \<longrightarrow> \<sigma> r = eval \<sigma> (if r = v then shifted d f else f))"
    by (auto simp: solves_def shift_row_rows[OF assms(1)])
  also have "\<dots> \<longleftrightarrow> solves (\<sigma>(v := \<sigma> v - d)) T"
    using out by (auto simp: solves_def eval_other algebra_simps)
  finally show ?thesis .
qed

text \<open>The rows of the column of a parametric variable get another constant: the variable is \<open>d\<close> less.\<close>

definition shift_column :: "platform \<Rightarrow> rat \<Rightarrow> variable \<Rightarrow> tableau \<Rightarrow> tableau" where
  "shift_column P d p T =
     fold (\<lambda>v T. shift_row P (isRestricted v) (double P (row_coefficient P p (rows T v) * d)) v T) (columnForVariable P p T) T"

lemma shift_rows:
  assumes "exact P" and "distinct vs"
  shows "rows (fold (\<lambda>v T. shift_row P (isRestricted v) (double P (row_coefficient P p (rows T v) * d)) v T) vs T) r =
    (if r \<in> set vs then map_option (\<lambda>e. shifted (coeff e p * d) e) (rows T r) else rows T r)"
  using assms(2)
proof (induction vs arbitrary: T)
  case (Cons v vs)
  have "row_coefficient P p (rows T v) = (case rows T v of None \<Rightarrow> 0 | Some e \<Rightarrow> coeff e p)"
    by (simp add: row_coefficient_def coefficient_exact[OF assms(1)] split: option.split)
  then show ?case
    using Cons assms(1) by (auto simp: shift_row_rows split: option.split)
qed simp

lemma shift_parametric:
  assumes "exact P" and "lawful P" and "tableau_ok T" and "rows T p = None"
  shows "solves \<sigma> (shift_column P d p T) \<longleftrightarrow> solves (\<sigma>(p := \<sigma> p + d)) T"
proof -
  have row: "rows (shift_column P d p T) r = map_option (\<lambda>e. shifted (coeff e p * d) e) (rows T r)" for r
  proof (cases "r \<in> set (columnForVariable P p T)")
    case False
    have "coeff e p = 0" if e: "rows T r = Some e" for e
      using False columnForVariable_set[OF assms(2)] tableau_okD(2,4)[OF assms(3) e] coeff_outside[of e p] by blast
    then show ?thesis
      using False shift_rows[OF assms(1) columnForVariable_distinct[OF assms(2)]]
      by (cases "rows T r") (simp_all add: shift_column_def)
  qed (simp add: shift_column_def shift_rows[OF assms(1) columnForVariable_distinct[OF assms(2)]])
  have "eval \<sigma> (shifted (coeff e p * d) e) = eval (\<sigma>(p := \<sigma> p + d)) e" if "rows T r = Some e" for r e
    using eval_moved[OF tableau_okD(2)[OF assms(3) that]] by simp
  moreover have "r \<noteq> p" if "rows T r = Some e" for r e using assms(4) that by auto
  ultimately show ?thesis by (fastforce simp: solves_def row)
qed

subsection \<open>The target of an edit constraint\<close>

text \<open>
  The edit constraint of \<open>v\<close> says that \<open>v\<close> is the target with the error variables added. The change has to
  move the target by \<open>d\<close>; where an error variable is basic it moves it the other way.
\<close>

definition edits :: "tableau \<Rightarrow> variable \<Rightarrow> variable \<Rightarrow> variable \<Rightarrow> rat \<Rightarrow> bool" where
  "edits T v p m x \<longleftrightarrow> (\<forall>\<sigma>. solves \<sigma> T \<longrightarrow> \<sigma> v = x - \<sigma> p + \<sigma> m)"

lemma delta_target:
  assumes law: "exact P" "lawful P" and ok: "tableau_ok T" and edits: "edits T v p m x"
    and distinct: "v \<noteq> p" "v \<noteq> m" "p \<noteq> m"
  shows "edits (deltaEditConstant P (- d) p (Some m) T) v p m
    (if rows T p \<noteq> None \<or> rows T m \<noteq> None then x - d else x + d)"
proof (cases "rows T p")
  case (Some e)
  then show ?thesis
    using edits distinct shift_basic[OF law(1) ok Some, of _ True "- d"]
    by (auto simp: edits_def deltaEditConstant_def)
next
  case p: None
  show ?thesis
  proof (cases "rows T m")
    case (Some e)
    then show ?thesis
      using p edits distinct shift_basic[OF law(1) ok Some, of _ True d]
      by (auto simp: edits_def deltaEditConstant_def)
  next
    case None
    then have "deltaEditConstant P (- d) p (Some m) T = shift_column P (- d) p T"
      using p by (simp add: deltaEditConstant_def shift_column_def)
    then show ?thesis
      using p None edits distinct shift_parametric[OF law ok p, of _ "- d"] by (auto simp: edits_def)
  qed
qed

end
