(* ===== verification/SolverProps.thy ===== *)
theory SolverProps
  imports SolverEdit
begin

text \<open>
  The properties of the constraint solver, and small solvers on which they are applied.
\<close>

subsection \<open>Examples\<close>

text \<open>Arithmetic without rounding, and sets in the order of their members.\<close>

definition plain_platform :: platform where
  "plain_platform = \<lparr>double = (\<lambda>x. x), single = (\<lambda>x. x), in_order = remdups\<rparr>"

lemma plain_laws: "exact plain_platform" "lawful plain_platform"
  by (simp_all add: exact_def lawful_def plain_platform_def)

definition width_variable :: variable where
  "width_variable = new_variable GSCSVariableTypeExternal 0"

definition slack :: "nat \<Rightarrow> variable" where
  "slack a = new_variable GSCSVariableTypeSlack a"

text \<open>\<open>width_variable\<close> is at least 10; the solver with this constraint.\<close>

definition at_least_ten :: constraint where
  "at_least_ten = leftVariableRightConstant plain_platform 0 width_variable GSCSConstraintOperationGreaterThanOrEqual 10"

definition ten_solver :: solver where
  "ten_solver =
     \<lparr>tab = \<lparr>external_parametric = [],
        rows = [new_variable GSCSVariableTypeObjective 1 \<mapsto> initWithConstant 0,
          width_variable \<mapsto> \<lparr>terms = [(slack 2, 1)], term_variables = [slack 2], expr_constant = 10\<rparr>],
        columns = [slack 2 \<mapsto> [width_variable]], external_rows = [width_variable], infeasible_rows = [],
        objective = new_variable GSCSVariableTypeObjective 1\<rparr>,
      edit_infos = [], marker_variables = [0 \<mapsto> slack 2], error_variables = Map.empty, external_variables = [width_variable],
      artificial_counter = 0, slack_counter = 1, dummy_counter = 0, variable_value = (\<lambda>_. 0), next_address = 3\<rparr>"

text \<open>Further, \<open>width_variable\<close> is at most 30 and its slack is in the objective.\<close>

definition wide_solver :: solver where
  "wide_solver = ten_solver\<lparr>tab := \<lparr>external_parametric = [],
     rows = [new_variable GSCSVariableTypeObjective 1 \<mapsto>
         \<lparr>terms = [(slack 2, - 750)], term_variables = [slack 2], expr_constant = 0\<rparr>,
       width_variable \<mapsto> \<lparr>terms = [(slack 2, 1)], term_variables = [slack 2], expr_constant = 10\<rparr>,
       slack 3 \<mapsto> \<lparr>terms = [(slack 2, - 1)], term_variables = [slack 2], expr_constant = 20\<rparr>],
     columns = [slack 2 \<mapsto> [new_variable GSCSVariableTypeObjective 1, width_variable, slack 3]],
     external_rows = [width_variable], infeasible_rows = [], objective = new_variable GSCSVariableTypeObjective 1\<rparr>,
     next_address := 4\<rparr>"

definition wide_pivoted :: tableau where
  "wide_pivoted = \<lparr>external_parametric = [],
     rows = [new_variable GSCSVariableTypeObjective 1 \<mapsto>
         \<lparr>terms = [(slack 3, 750)], term_variables = [slack 3], expr_constant = - 15000\<rparr>,
       width_variable \<mapsto> \<lparr>terms = [(slack 3, - 1)], term_variables = [slack 3], expr_constant = 30\<rparr>,
       slack 2 \<mapsto> \<lparr>terms = [(slack 3, - 1)], term_variables = [slack 3], expr_constant = 20\<rparr>],
     columns = [slack 3 \<mapsto> [new_variable GSCSVariableTypeObjective 1, width_variable, slack 2]],
     external_rows = [width_variable], infeasible_rows = [], objective = new_variable GSCSVariableTypeObjective 1\<rparr>"

text \<open>The definitions that a step is evaluated with.\<close>

lemmas expression_steps = initWithConstant_def isTermForVariable_def multiplierForTerm_def coefficientForTerm_def
  dropVariable_def addTerm_def initWithVariable_def multiplyConstantAndTermsBy_def normalize_expression_def newSubject_def
  copy_expression_def isConstant_def isApproximatelyEqual_def isApproximatelyZero_def GSCSEpsilon_def removeObject_def
  isDummy_def isExternal_def isPivotable_def isRestricted_def new_variable_def

lemmas tableau_steps = addToSet_def hasColumnForVariable_def columnForVariable_def isBasicVariable_def set_row_def
  row_coefficient_def row_constant_def addMapping_def removeMapping_def recordUpdatedVariable_def addTermVariables_def
  addRowForVariable_def new_tableau_def removeRowForVariable_def substituteOutTermInExpression_def substituteOutTerm_def
  note_infeasible_def substituteOutVariable_def setVariable_def addVariableToRow_def changeSubject_def
  pivot_def shouldPreferPivotableVariable_def better_exit_def findPivotableExitVariable_def

lemmas solver_steps = new_solver_def allocate_def with_tab_def accumulate_def addErrorVariable_def addConstraintTerm_def
  next_slack_def expressionForNewConstraint_def unused_def chooseSubject_def addSubject_def entry_variable_def
  addConstraintToTableau_def isInequality_def isRequired_def isEditConstraint_def GSCSStrengthRequired_def

lemmas example_steps = plain_platform_def width_variable_def slack_def ten_solver_def wide_solver_def Let_def

lemma at_least_ten_is: "at_least_ten =
  \<lparr>constraint_type = GSCSConstraintTypeLinearInequity, strength = 1000,
   constraint_expression = \<lparr>terms = [(width_variable, 1)], term_variables = [width_variable], expr_constant = - 10\<rparr>,
   constraint_variable = None, constraint_address = 0\<rparr>"
  by (simp add: at_least_ten_def leftVariableRightConstant_def linearInequity_def linear_def GSCSStrengthRequired_def
      expression_steps plain_platform_def)

lemma add_ten: "addConstraintToTableau plain_platform at_least_ten (new_solver 1) = Some (Inr ten_solver)"
  by (simp add: at_least_ten_is expression_steps tableau_steps solver_steps example_steps fun_eq_iff)

lemma ten_expression: "expressionForNewConstraint plain_platform at_least_ten (new_solver 1) =
  ((\<lparr>terms = [(width_variable, - 1), (slack 2, 1)], term_variables = [width_variable, slack 2], expr_constant = 10\<rparr>, slack 2, None),
   (new_solver 1)\<lparr>external_variables := [width_variable], slack_counter := 1, next_address := 3\<rparr>)"
  by (simp add: at_least_ten_is expression_steps tableau_steps solver_steps example_steps)

lemma ten_subject: "chooseSubject plain_platform (tab ((new_solver 1)\<lparr>external_variables := xs, slack_counter := k, next_address := n\<rparr>))
    \<lparr>terms = [(width_variable, - 1), (slack 2, 1)], term_variables = [width_variable, slack 2], expr_constant = 10\<rparr> =
  (Some width_variable, \<lparr>terms = [(width_variable, - 1), (slack 2, 1)], term_variables = [width_variable, slack 2], expr_constant = 10\<rparr>)"
  by (simp add: expression_steps tableau_steps solver_steps example_steps)

lemma ten_resolved: "resolve plain_platform ten_solver = Some (Inr (setExternalVariables ten_solver))"
  by (simp add: resolve_def optimize.simps expression_steps entry_variable_def with_tab_def example_steps)

lemma DBL_MAX_large: "x \<le> 1000 \<Longrightarrow> x < DBL_MAX"
  by (simp add: DBL_MAX_def)

lemma wide_pivot: "pivot plain_platform (slack 2) (slack 3) (tab wide_solver) = Some (Inr wide_pivoted)"
  by (simp add: expression_steps tableau_steps example_steps wide_pivoted_def fun_eq_iff)

lemma wide_exit: "findPivotableExitVariable plain_platform (slack 2) (tab wide_solver) = Some (slack 3)"
  by (simp add: expression_steps tableau_steps example_steps DBL_MAX_large)

lemma wide_clear: "pivot_clear plain_platform (slack 2) (slack 3) (tab wide_solver)"
  by (auto simp: pivot_clear_def clear_in_def clear_def keys_def coeff_def expression_steps example_steps)

lemma wide_entry: "entry_variable plain_platform (rows (tab wide_solver) (objective (tab wide_solver))) = Some (slack 2)"
    "entry_variable plain_platform (rows wide_pivoted (objective (tab wide_solver))) = None"
  by (simp_all add: entry_variable_def expression_steps example_steps wide_pivoted_def)

lemma wide_ok: "solver_ok wide_solver" "feasible (tab wide_solver)" "vars_in no_id (tab wide_solver)"
proof -
  have "tableau_ok (tab wide_solver)"
    by (auto simp: tableau_ok_def row_ok_def indexed_def in_column_def wf_expr_def keys_def isExternal_def new_variable_def
        initWithConstant_def example_steps split: if_splits)
  then show "solver_ok wide_solver"
    by (auto simp: solver_ok_def sound_def addresses_below_def marker_ok_def keys_def isExternal_def new_variable_def
        initWithConstant_def example_steps split: if_splits)
  show "feasible (tab wide_solver)" "vars_in no_id (tab wide_solver)"
    by (auto simp: feasible_def vars_in_def no_id_def keys_def isPivotable_def new_variable_def example_steps split: if_splits)
qed

subsection \<open>Properties\<close>

text \<open>C8: Whatever constraints and suggestions a client adds to a new solver and removes again, and whether the
  calls return or raise, the rows of the tableau are over parametric variables only, the columns list the rows a
  variable is in, and the two checks of the code on the external variables hold.\<close>

theorem solver_keeps_tableau:
  assumes "solver_reaches P S" and "lawful P"
  shows "tableau_ok (tab S) \<and> containsExternalParametricVariableForEveryExternalTerm (tab S) \<and>
    containsExternalRowForEachExternalRowVariable (tab S)"
  using tableau_ok_checks soundD(1)[OF solver_ok_sound[OF reached_ok[OF assms]]] by blast

theorem solver_keeps_tableau_witness:
  "\<exists>S. addConstraint plain_platform at_least_ten (new_solver 1) = Some (Inr S) \<and> tableau_ok (tab S) \<and>
    containsExternalParametricVariableForEveryExternalTerm (tab S) \<and>
    containsExternalRowForEachExternalRowVariable (tab S)"
proof -
  let ?S = "setExternalVariables ten_solver"
  have call: "addConstraint plain_platform at_least_ten (new_solver 1) = Some (Inr ?S)"
    unfolding addConstraint_def add_ten by (simp add: ten_resolved)
  have "call_fits (new_solver 1) (AddConstraint at_least_ten)"
    by (simp add: at_least_ten_is constraint_ok_def wf_expr_def keys_def addresses_below_def new_solver_def width_variable_def
        new_variable_def)
  from solver_reaches.called[OF solver_reaches.created this, of plain_platform] call
  have "solver_reaches plain_platform ?S" by fastforce
  from solver_keeps_tableau[OF this plain_laws(2)] call show ?thesis by blast
qed

text \<open>C11: Without rounding, and as long as no coefficient is so near to zero that it is dropped, a pivot
  that returns keeps the solutions of the equations of the tableau: the same assignments to the variables
  satisfy its rows before and after.\<close>

theorem pivot_keeps_solutions:
  assumes "tableau_ok T" and "lawful P" and "exact P" and "pivot P v x T = Some (Inr T')" and "pivot_clear P v x T"
  shows "solves \<sigma> T' \<longleftrightarrow> solves \<sigma> T"
  by (rule pivot_solutions[OF assms])

theorem pivot_keeps_solutions_witness:
  "pivot plain_platform (slack 2) (slack 3) (tab wide_solver) = Some (Inr wide_pivoted) \<and>
    (\<forall>\<sigma>. solves \<sigma> wide_pivoted \<longleftrightarrow> solves \<sigma> (tab wide_solver))"
  using pivot_keeps_solutions[OF soundD(1)[OF solver_ok_sound[OF wide_ok(1)]] plain_laws(2,1) wide_pivot wide_clear] wide_pivot
  by blast

text \<open>C10: Adding a required constraint to the tableau adds exactly this constraint, where the code finds a
  subject for its expression with coefficient 1 or -1 and so needs no artificial variable, all coefficients are
  integers and nothing is rounded: an assignment solves the old rows and satisfies the constraint if and only if it
  solves the new rows with some value of the new marker variable, which is at least zero for the slack of
  an inequality and zero for the dummy of an equation.\<close>

theorem required_constraint_added:
  assumes "lawful P" and "exact P" and "solver_ok S" and "constraint_ok S c" and "isRequired P c"
    and "integral_rows (tab S)" and "integral (constraint_expression c)"
    and "expressionForNewConstraint P c S = ((e, marker, errors), S1)"
    and "chooseSubject P (tab S1) e = (Some v, e')" and "coeff e' v = 1 \<or> coeff e' v = - 1"
    and "addConstraintToTableau P c S = Some (Inr S')"
  shows "(\<exists>x. (if isInequality c then 0 \<le> x else x = 0) \<and> solves (\<sigma>(marker := x)) (tab S')) \<longleftrightarrow>
    solves \<sigma> (tab S) \<and> satisfied \<sigma> c"
  by (rule required_solutions[OF assms])

theorem required_constraint_added_witness:
  "addConstraintToTableau plain_platform at_least_ten (new_solver 1) = Some (Inr ten_solver) \<and>
    (\<forall>\<sigma>. (\<exists>x. 0 \<le> x \<and> solves (\<sigma>(slack 2 := x)) (tab ten_solver)) \<longleftrightarrow>
      solves \<sigma> (tab (new_solver 1)) \<and> satisfied \<sigma> at_least_ten)"
proof -
  have "constraint_ok (new_solver 1) at_least_ten"
    by (simp add: at_least_ten_is constraint_ok_def wf_expr_def keys_def addresses_below_def new_solver_def width_variable_def
        new_variable_def)
  moreover have "isRequired plain_platform at_least_ten" "isInequality at_least_ten"
    by (simp_all add: at_least_ten_is isRequired_def isInequality_def isApproximatelyEqual_def GSCSEpsilon_def
        GSCSStrengthRequired_def plain_platform_def)
  moreover have "integral_rows (tab (new_solver 1))" "integral (constraint_expression at_least_ten)"
    by (auto simp: integral_rows_def integral_def coeff_def at_least_ten_is new_solver_def tableau_steps initWithConstant_def
        isExternal_def new_variable_def split: if_splits)
  moreover have "coeff \<lparr>terms = [(width_variable, - 1), (slack 2, 1)], term_variables = [width_variable, slack 2], expr_constant = 10\<rparr> width_variable = - 1"
    by (simp add: coeff_def)
  ultimately have "(\<exists>x. 0 \<le> x \<and> solves (\<sigma>(slack 2 := x)) (tab ten_solver)) \<longleftrightarrow>
      solves \<sigma> (tab (new_solver 1)) \<and> satisfied \<sigma> at_least_ten" for \<sigma>
    using required_constraint_added[OF plain_laws(2,1) new_solver_ok _ _ _ _ ten_expression ten_subject _ add_ten, of \<sigma>] by simp
  then show ?thesis using add_ten by blast
qed



text \<open>C40: Suggesting a value for an edit variable moves the target of its edit constraint by the change only
  while both error variables of the constraint are parametric. When one of them is basic the target is moved
  by the change in the wrong direction.\<close>

theorem suggestion_moves_target:
  assumes "exact P" and "lawful P" and "tableau_ok T" and "edits T v p m x" and "v \<noteq> p" and "v \<noteq> m" and "p \<noteq> m"
  shows "edits (deltaEditConstant P (- d) p (Some m) T) v p m
    (if rows T p \<noteq> None \<or> rows T m \<noteq> None then x - d else x + d)"
  by (rule delta_target[OF assms])

text \<open>The tableau with the edit constraint for \<open>width_variable\<close>, now 10, whose first error variable is basic.\<close>

definition edit_tableau :: tableau where
  "edit_tableau = \<lparr>external_parametric = [],
     rows = [width_variable \<mapsto> \<lparr>terms = [(slack 2, 1)], term_variables = [slack 2], expr_constant = 10\<rparr>,
       slack 4 \<mapsto> \<lparr>terms = [(slack 5, 1), (slack 2, - 1)], term_variables = [slack 2, slack 5], expr_constant = 0\<rparr>],
     columns = [slack 2 \<mapsto> [width_variable, slack 4], slack 5 \<mapsto> [slack 4]],
     external_rows = [width_variable], infeasible_rows = [], objective = new_variable GSCSVariableTypeObjective 1\<rparr>"

theorem suggestion_moves_target_witness:
  "edits edit_tableau width_variable (slack 4) (slack 5) 10 \<and>
    edits (deltaEditConstant plain_platform (- 5) (slack 4) (Some (slack 5)) edit_tableau) width_variable (slack 4) (slack 5) 5"
proof -
  have apart: "width_variable \<noteq> slack n" "slack n = slack k \<longleftrightarrow> n = k" for n k
    by (simp_all add: width_variable_def slack_def new_variable_def)
  have "tableau_ok edit_tableau"
    by (auto simp: tableau_ok_def row_ok_def indexed_def in_column_def wf_expr_def keys_def isExternal_def edit_tableau_def
        apart not_sym[OF apart(1)] slack_def new_variable_def width_variable_def split: if_splits)
  moreover have edits: "edits edit_tableau width_variable (slack 4) (slack 5) 10"
    by (auto simp: edits_def solves_def eval_def keys_def coeff_def edit_tableau_def apart not_sym[OF apart(1)] split: if_splits)
  moreover have "rows edit_tableau (slack 4) \<noteq> None" by (simp add: edit_tableau_def apart)
  ultimately show ?thesis
    using suggestion_moves_target[OF plain_laws, of edit_tableau width_variable "slack 4" "slack 5" 10 5] apart by auto
qed

end
