(* ===== verification/CEnum.thy ===== *)
theory CEnum
  imports Main "HOL-Library.Word"
begin

text \<open>
  The enumerations of the headers. An enumerator without a value has the value after the one before
  it, and 0 when it is the first; one with a value may name the enumerators declared above it. All
  enumerators of a program share one name space. Shifts that do not fit an \<open>int\<close> have no value.
\<close>

unbundle bit_operations_syntax

datatype cexp = Lit int | Name string | Shl cexp cexp | BitOr cexp cexp

type_synonym enum_decl = "(string \<times> cexp option) list"
type_synonym enumerators = "(string \<times> int) list"

fun ceval :: "enumerators \<Rightarrow> cexp \<Rightarrow> int option" where
  "ceval env (Lit k) = Some k"
| "ceval env (Name x) = map_of env x"
| "ceval env (Shl a b) =
     (case (ceval env a, ceval env b) of
        (Some x, Some k) \<Rightarrow>
          if 0 \<le> x \<and> 0 \<le> k \<and> k < 32 \<and> x * 2 ^ nat k < 2 ^ 31 then Some (x * 2 ^ nat k) else None
      | _ \<Rightarrow> None)"
| "ceval env (BitOr a b) =
     (case (ceval env a, ceval env b) of
        (Some x, Some y) \<Rightarrow> Some (x OR y)
      | _ \<Rightarrow> None)"

text \<open>The enumerators of one declaration, given those above it and the next implicit value.\<close>

fun enumerate_from :: "int \<Rightarrow> enumerators \<Rightarrow> enum_decl \<Rightarrow> enumerators option" where
  "enumerate_from k env [] = Some env"
| "enumerate_from k env ((x, None) # D) = enumerate_from (k + 1) ((x, k) # env) D"
| "enumerate_from k env ((x, Some e) # D) =
     (case ceval env e of
        None \<Rightarrow> None
      | Some v \<Rightarrow> enumerate_from (v + 1) ((x, v) # env) D)"

fun declare_enums :: "enumerators \<Rightarrow> enum_decl list \<Rightarrow> enumerators option" where
  "declare_enums env [] = Some env"
| "declare_enums env (D # Ds) =
     (case enumerate_from 0 env D of
        None \<Rightarrow> None
      | Some env' \<Rightarrow> declare_enums env' Ds)"

definition enumerators_of :: "enum_decl list \<Rightarrow> enumerators" where
  "enumerators_of Ds = (case declare_enums [] Ds of None \<Rightarrow> [] | Some env \<Rightarrow> rev env)"

text \<open>The value of an enumerator, in the integer type it is used at.\<close>

definition enumerator :: "enumerators \<Rightarrow> string \<Rightarrow> 'a :: len word" where
  "enumerator env x = (case map_of env x of None \<Rightarrow> 0 | Some v \<Rightarrow> word_of_int v)"

text \<open>Declarations that have values keep every enumerator they were given, in its place.\<close>

lemma enumerate_from_names:
  "enumerate_from k env D = Some env' \<Longrightarrow> map fst env' = rev (map fst D) @ map fst env"
  by (induction k env D rule: enumerate_from.induct) (auto split: option.splits)

lemma declare_enums_names:
  "declare_enums env Ds = Some env' \<Longrightarrow> map fst env' = rev (map fst (concat Ds)) @ map fst env"
  by (induction env Ds arbitrary: env' rule: declare_enums.induct)
    (auto split: option.splits dest!: enumerate_from_names)

end
