(* ===== verification/Events.thy ===== *)
theory Events
  imports Prelude CEnum "HOL-Library.Monad_Syntax"
begin

text \<open>
  The events of \<open>Headers/AppKit/NSEvent.h\<close> and \<open>Source/NSEvent.m\<close>: the types and masks as the header
  declares them, the creation of events, their accessors and their archive.
\<close>

definition NSEventType_enum :: enum_decl where
  "NSEventType_enum = [
     (''NSLeftMouseDown'', Some (Lit 1)), (''NSLeftMouseUp'', None), (''NSRightMouseDown'', None),
     (''NSRightMouseUp'', None), (''NSMouseMoved'', None), (''NSLeftMouseDragged'', None),
     (''NSRightMouseDragged'', None), (''NSMouseEntered'', None), (''NSMouseExited'', None),
     (''NSKeyDown'', None), (''NSKeyUp'', None), (''NSFlagsChanged'', None),
     (''NSAppKitDefined'', None), (''NSSystemDefined'', None), (''NSApplicationDefined'', None),
     (''NSPeriodic'', None), (''NSCursorUpdate'', None), (''NSScrollWheel'', Some (Lit 22)),
     (''NSTabletPoint'', None), (''NSTabletProximity'', None), (''NSOtherMouseDown'', Some (Lit 25)),
     (''NSOtherMouseUp'', None), (''NSOtherMouseDragged'', None),
     (''NSEventTypeLeftMouseDown'', Some (Lit 1)), (''NSEventTypeLeftMouseUp'', Some (Lit 2)),
     (''NSEventTypeRightMouseDown'', Some (Lit 3)), (''NSEventTypeRightMouseUp'', Some (Lit 4)),
     (''NSEventTypeMouseMoved'', Some (Lit 5)), (''NSEventTypeLeftMouseDragged'', Some (Lit 6)),
     (''NSEventTypeRightMouseDragged'', Some (Lit 7)), (''NSEventTypeMouseEntered'', Some (Lit 8)),
     (''NSEventTypeMouseExited'', Some (Lit 9)), (''NSEventTypeKeyDown'', Some (Lit 10)),
     (''NSEventTypeKeyUp'', Some (Lit 11)), (''NSEventTypeFlagsChanged'', Some (Lit 12)),
     (''NSEventTypeAppKitDefined'', Some (Lit 13)), (''NSEventTypeSystemDefined'', Some (Lit 14)),
     (''NSEventTypeApplicationDefined'', Some (Lit 15)), (''NSEventTypePeriodic'', Some (Lit 16)),
     (''NSEventTypeCursorUpdate'', Some (Lit 17)), (''NSEventTypeRotate'', Some (Lit 18)),
     (''NSEventTypeBeginGesture'', Some (Lit 19)), (''NSEventTypeEndGesture'', Some (Lit 20)),
     (''NSEventTypeScrollWheel'', Some (Lit 22)), (''NSEventTypeTabletPoint'', Some (Lit 23)),
     (''NSEventTypeTabletProximity'', Some (Lit 24)), (''NSEventTypeOtherMouseDown'', Some (Lit 25)),
     (''NSEventTypeOtherMouseUp'', Some (Lit 26)), (''NSEventTypeOtherMouseDragged'', Some (Lit 27)),
     (''NSEventTypeGesture'', Some (Lit 29)), (''NSEventTypeMagnify'', Some (Lit 30)),
     (''NSEventTypeSwipe'', Some (Lit 31)), (''NSEventTypeSmartMagnify'', Some (Lit 32)),
     (''NSEventTypeQuickLook'', Some (Lit 33)), (''NSEventTypePressure'', Some (Lit 34)),
     (''NSEventTypeDirectTouch'', Some (Lit 37)), (''NSEventTypeChangeMode'', Some (Lit 38))]"

definition NSEventMask_enum :: enum_decl where
  "NSEventMask_enum = [
     (''NSLeftMouseDownMask'', Some (Shl (Lit 1) (Name ''NSLeftMouseDown''))),
     (''NSLeftMouseUpMask'', Some (Shl (Lit 1) (Name ''NSLeftMouseUp''))),
     (''NSRightMouseDownMask'', Some (Shl (Lit 1) (Name ''NSRightMouseDown''))),
     (''NSRightMouseUpMask'', Some (Shl (Lit 1) (Name ''NSRightMouseUp''))),
     (''NSMouseMovedMask'', Some (Shl (Lit 1) (Name ''NSMouseMoved''))),
     (''NSLeftMouseDraggedMask'', Some (Shl (Lit 1) (Name ''NSLeftMouseDragged''))),
     (''NSRightMouseDraggedMask'', Some (Shl (Lit 1) (Name ''NSRightMouseDragged''))),
     (''NSMouseEnteredMask'', Some (Shl (Lit 1) (Name ''NSMouseEntered''))),
     (''NSMouseExitedMask'', Some (Shl (Lit 1) (Name ''NSMouseExited''))),
     (''NSKeyDownMask'', Some (Shl (Lit 1) (Name ''NSKeyDown''))),
     (''NSKeyUpMask'', Some (Shl (Lit 1) (Name ''NSKeyUp''))),
     (''NSFlagsChangedMask'', Some (Shl (Lit 1) (Name ''NSFlagsChanged''))),
     (''NSAppKitDefinedMask'', Some (Shl (Lit 1) (Name ''NSAppKitDefined''))),
     (''NSSystemDefinedMask'', Some (Shl (Lit 1) (Name ''NSSystemDefined''))),
     (''NSApplicationDefinedMask'', Some (Shl (Lit 1) (Name ''NSApplicationDefined''))),
     (''NSPeriodicMask'', Some (Shl (Lit 1) (Name ''NSPeriodic''))),
     (''NSCursorUpdateMask'', Some (Shl (Lit 1) (Name ''NSCursorUpdate''))),
     (''NSScrollWheelMask'', Some (Shl (Lit 1) (Name ''NSScrollWheel''))),
     (''NSTabletPointMask'', Some (Shl (Lit 1) (Name ''NSTabletPoint''))),
     (''NSTabletProximityMask'', Some (Shl (Lit 1) (Name ''NSTabletProximity''))),
     (''NSOtherMouseDownMask'', Some (Shl (Lit 1) (Name ''NSOtherMouseDown''))),
     (''NSOtherMouseUpMask'', Some (Shl (Lit 1) (Name ''NSOtherMouseUp''))),
     (''NSOtherMouseDraggedMask'', Some (Shl (Lit 1) (Name ''NSOtherMouseDragged''))),
     (''NSAnyEventMask'', Some (Lit 4294967295)),
     (''GSKeyEventMask'', Some (BitOr (BitOr (Name ''NSKeyDownMask'') (Name ''NSKeyUpMask'')) (Name ''NSFlagsChangedMask''))),
     (''GSMouseEventMask'', Some (BitOr (BitOr (BitOr (BitOr (BitOr (BitOr (BitOr (BitOr (BitOr (BitOr (BitOr (BitOr (Name ''NSLeftMouseDownMask'') (Name ''NSLeftMouseUpMask'')) (Name ''NSLeftMouseDraggedMask'')) (Name ''NSRightMouseDownMask'')) (Name ''NSRightMouseUpMask'')) (Name ''NSRightMouseDraggedMask'')) (Name ''NSOtherMouseDownMask'')) (Name ''NSOtherMouseUpMask'')) (Name ''NSOtherMouseDraggedMask'')) (Name ''NSMouseMovedMask'')) (Name ''NSScrollWheelMask'')) (Name ''NSTabletPointMask'')) (Name ''NSTabletProximityMask''))),
     (''GSMouseMovedEventMask'', Some (BitOr (BitOr (BitOr (BitOr (Name ''NSMouseMovedMask'') (Name ''NSScrollWheelMask'')) (Name ''NSLeftMouseDraggedMask'')) (Name ''NSRightMouseDraggedMask'')) (Name ''NSOtherMouseDraggedMask''))),
     (''GSEnterExitEventMask'', Some (BitOr (BitOr (Name ''NSMouseEnteredMask'') (Name ''NSMouseExitedMask'')) (Name ''NSCursorUpdateMask''))),
     (''GSOtherEventMask'', Some (BitOr (BitOr (BitOr (Name ''NSAppKitDefinedMask'') (Name ''NSSystemDefinedMask'')) (Name ''NSApplicationDefinedMask'')) (Name ''NSPeriodicMask''))),
     (''GSTrackingLoopMask'', Some (BitOr (BitOr (BitOr (BitOr (BitOr (Name ''NSLeftMouseDownMask'') (Name ''NSLeftMouseUpMask'')) (Name ''NSLeftMouseDraggedMask'')) (Name ''NSMouseMovedMask'')) (Name ''NSRightMouseUpMask'')) (Name ''NSOtherMouseUpMask'')))]"

definition NSEventModifierFlags_enum :: enum_decl where
  "NSEventModifierFlags_enum = [
     (''NSDeviceIndependentModifierFlagsMask'', Some (Lit 4294901760)),
     (''NSAlphaShiftKeyMask'', Some (Shl (Lit 1) (Lit 16))),
     (''NSShiftKeyMask'', Some (Shl (Lit 2) (Lit 16))),
     (''NSControlKeyMask'', Some (Shl (Lit 4) (Lit 16))),
     (''NSAlternateKeyMask'', Some (Shl (Lit 8) (Lit 16))),
     (''NSCommandKeyMask'', Some (Shl (Lit 16) (Lit 16))),
     (''NSNumericPadKeyMask'', Some (Shl (Lit 32) (Lit 16))),
     (''NSHelpKeyMask'', Some (Shl (Lit 64) (Lit 16))),
     (''NSFunctionKeyMask'', Some (Shl (Lit 128) (Lit 16))),
     (''NSEventModifierFlagCapsLock'', Some (Name ''NSAlphaShiftKeyMask'')),
     (''NSEventModifierFlagShift'', Some (Name ''NSShiftKeyMask'')),
     (''NSEventModifierFlagControl'', Some (Name ''NSControlKeyMask'')),
     (''NSEventModifierFlagOption'', Some (Name ''NSAlternateKeyMask'')),
     (''NSEventModifierFlagCommand'', Some (Name ''NSCommandKeyMask'')),
     (''NSEventModifierFlagNumericPad'', Some (Name ''NSNumericPadKeyMask'')),
     (''NSEventModifierFlagFunction'', Some (Name ''NSFunctionKeyMask'')),
     (''NSEventModifierFlagDeviceIndependentFlagsMask'', Some (Name ''NSDeviceIndependentModifierFlagsMask''))]"

definition NSPointingDeviceType_enum :: enum_decl where
  "NSPointingDeviceType_enum = [
     (''NSUnknownPointingDevice'', None), (''NSPenPointingDevice'', None),
     (''NSCursorPointingDevice'', None), (''NSEraserPointingDevice'', None)]"

definition NSEventButtonMask_enum :: enum_decl where
  "NSEventButtonMask_enum = [
     (''NSPenTipMask'', Some (Lit 1)), (''NSPenLowerSideMask'', Some (Lit 2)),
     (''NSPenUpperSideMask'', Some (Lit 4))]"

definition NSEventSubtype_enum :: enum_decl where
  "NSEventSubtype_enum = [
     (''NSMouseEventSubtype'', None), (''NSTabletPointEventSubtype'', None),
     (''NSTabletProximityEventSubtype'', None)]"

definition NSAppKitEventSubtype_enum :: enum_decl where
  "NSAppKitEventSubtype_enum = [
     (''NSWindowExposedEventType'', Some (Lit 0)), (''NSApplicationActivatedEventType'', Some (Lit 1)),
     (''NSApplicationDeactivatedEventType'', Some (Lit 2)), (''NSWindowMovedEventType'', Some (Lit 4)),
     (''NSScreenChangedEventType'', Some (Lit 8)), (''NSAWTEventType'', Some (Lit 16))]"

definition NSSystemEventSubtype_enum :: enum_decl where
  "NSSystemEventSubtype_enum = [
     (''NSPowerOffEventType'', Some (Lit 1))]"

definition NSEventPhase_enum :: enum_decl where
  "NSEventPhase_enum = [
     (''NSEventPhaseNone'', Some (Lit 0)), (''NSEventPhaseBegan'', Some (Lit 1)),
     (''NSEventPhaseStationary'', Some (Lit 2)), (''NSEventPhaseChanged'', Some (Lit 4)),
     (''NSEventPhaseEnded'', Some (Lit 8)), (''NSEventPhaseCancelled'', Some (Lit 16)),
     (''NSEventPhaseMayBegin'', Some (Lit 32))]"

definition NSEventGestureAxis_enum :: enum_decl where
  "NSEventGestureAxis_enum = [
     (''NSEventGestureAxisNone'', Some (Lit 0)), (''NSEventGestureAxisHorizontal'', None),
     (''NSEventGestureAxisVertical'', None)]"

definition NSEventSwipeTrackingOptions_enum :: enum_decl where
  "NSEventSwipeTrackingOptions_enum = [
     (''NSEventSwipeTrackingLockDirection'', Some (Lit 1)),
     (''NSEventSwipeTrackingClampGestureAmount'', Some (Lit 2))]"

definition GSAppKitSubtype_enum :: enum_decl where
  "GSAppKitSubtype_enum = [
     (''GSAppKitWindowMoved'', Some (Lit 1)), (''GSAppKitWindowResized'', None),
     (''GSAppKitWindowClose'', None), (''GSAppKitWindowMiniaturize'', None),
     (''GSAppKitWindowFocusIn'', None), (''GSAppKitWindowFocusOut'', None),
     (''GSAppKitWindowLeave'', None), (''GSAppKitWindowEnter'', None),
     (''GSAppKitDraggingEnter'', None), (''GSAppKitDraggingUpdate'', None),
     (''GSAppKitDraggingStatus'', None), (''GSAppKitDraggingExit'', None),
     (''GSAppKitDraggingDrop'', None), (''GSAppKitDraggingFinished'', None),
     (''GSAppKitRegionExposed'', None), (''GSAppKitWindowDeminiaturize'', None),
     (''GSAppKitAppHide'', None)]"

definition function_keys :: enum_decl where
  "function_keys = [
     (''NSUpArrowFunctionKey'', Some (Lit 63232)), (''NSDownArrowFunctionKey'', Some (Lit 63233)),
     (''NSLeftArrowFunctionKey'', Some (Lit 63234)), (''NSRightArrowFunctionKey'', Some (Lit 63235)),
     (''NSF1FunctionKey'', Some (Lit 63236)), (''NSF2FunctionKey'', Some (Lit 63237)),
     (''NSF3FunctionKey'', Some (Lit 63238)), (''NSF4FunctionKey'', Some (Lit 63239)),
     (''NSF5FunctionKey'', Some (Lit 63240)), (''NSF6FunctionKey'', Some (Lit 63241)),
     (''NSF7FunctionKey'', Some (Lit 63242)), (''NSF8FunctionKey'', Some (Lit 63243)),
     (''NSF9FunctionKey'', Some (Lit 63244)), (''NSF10FunctionKey'', Some (Lit 63245)),
     (''NSF11FunctionKey'', Some (Lit 63246)), (''NSF12FunctionKey'', Some (Lit 63247)),
     (''NSF13FunctionKey'', Some (Lit 63248)), (''NSF14FunctionKey'', Some (Lit 63249)),
     (''NSF15FunctionKey'', Some (Lit 63250)), (''NSF16FunctionKey'', Some (Lit 63251)),
     (''NSF17FunctionKey'', Some (Lit 63252)), (''NSF18FunctionKey'', Some (Lit 63253)),
     (''NSF19FunctionKey'', Some (Lit 63254)), (''NSF20FunctionKey'', Some (Lit 63255)),
     (''NSF21FunctionKey'', Some (Lit 63256)), (''NSF22FunctionKey'', Some (Lit 63257)),
     (''NSF23FunctionKey'', Some (Lit 63258)), (''NSF24FunctionKey'', Some (Lit 63259)),
     (''NSF25FunctionKey'', Some (Lit 63260)), (''NSF26FunctionKey'', Some (Lit 63261)),
     (''NSF27FunctionKey'', Some (Lit 63262)), (''NSF28FunctionKey'', Some (Lit 63263)),
     (''NSF29FunctionKey'', Some (Lit 63264)), (''NSF30FunctionKey'', Some (Lit 63265)),
     (''NSF31FunctionKey'', Some (Lit 63266)), (''NSF32FunctionKey'', Some (Lit 63267)),
     (''NSF33FunctionKey'', Some (Lit 63268)), (''NSF34FunctionKey'', Some (Lit 63269)),
     (''NSF35FunctionKey'', Some (Lit 63270)), (''NSInsertFunctionKey'', Some (Lit 63271)),
     (''NSDeleteFunctionKey'', Some (Lit 63272)), (''NSHomeFunctionKey'', Some (Lit 63273)),
     (''NSBeginFunctionKey'', Some (Lit 63274)), (''NSEndFunctionKey'', Some (Lit 63275)),
     (''NSPageUpFunctionKey'', Some (Lit 63276)), (''NSPageDownFunctionKey'', Some (Lit 63277)),
     (''NSPrintScreenFunctionKey'', Some (Lit 63278)), (''NSScrollLockFunctionKey'', Some (Lit 63279)),
     (''NSPauseFunctionKey'', Some (Lit 63280)), (''NSSysReqFunctionKey'', Some (Lit 63281)),
     (''NSBreakFunctionKey'', Some (Lit 63282)), (''NSResetFunctionKey'', Some (Lit 63283)),
     (''NSStopFunctionKey'', Some (Lit 63284)), (''NSMenuFunctionKey'', Some (Lit 63285)),
     (''NSUserFunctionKey'', Some (Lit 63286)), (''NSSystemFunctionKey'', Some (Lit 63287)),
     (''NSPrintFunctionKey'', Some (Lit 63288)), (''NSClearLineFunctionKey'', Some (Lit 63289)),
     (''NSClearDisplayFunctionKey'', Some (Lit 63290)),
     (''NSInsertLineFunctionKey'', Some (Lit 63291)), (''NSDeleteLineFunctionKey'', Some (Lit 63292)),
     (''NSInsertCharFunctionKey'', Some (Lit 63293)), (''NSDeleteCharFunctionKey'', Some (Lit 63294)),
     (''NSPrevFunctionKey'', Some (Lit 63295)), (''NSNextFunctionKey'', Some (Lit 63296)),
     (''NSSelectFunctionKey'', Some (Lit 63297)), (''NSExecuteFunctionKey'', Some (Lit 63298)),
     (''NSUndoFunctionKey'', Some (Lit 63299)), (''NSRedoFunctionKey'', Some (Lit 63300)),
     (''NSFindFunctionKey'', Some (Lit 63301)), (''NSHelpFunctionKey'', Some (Lit 63302)),
     (''NSModeSwitchFunctionKey'', Some (Lit 63303))]"

text \<open>The enumerators the code below uses, with the values the declarations give them.\<close>

definition event_enumerators :: enumerators where
  "event_enumerators =
     enumerators_of [NSEventType_enum, NSEventMask_enum, NSEventModifierFlags_enum, NSEventSubtype_enum]"

lemma event_enumerators_eq:
  "event_enumerators = [
   (''NSLeftMouseDown'', 1), (''NSLeftMouseUp'', 2), (''NSRightMouseDown'', 3),
   (''NSRightMouseUp'', 4), (''NSMouseMoved'', 5), (''NSLeftMouseDragged'', 6),
   (''NSRightMouseDragged'', 7), (''NSMouseEntered'', 8), (''NSMouseExited'', 9), (''NSKeyDown'', 10),
   (''NSKeyUp'', 11), (''NSFlagsChanged'', 12), (''NSAppKitDefined'', 13), (''NSSystemDefined'', 14),
   (''NSApplicationDefined'', 15), (''NSPeriodic'', 16), (''NSCursorUpdate'', 17),
   (''NSScrollWheel'', 22), (''NSTabletPoint'', 23), (''NSTabletProximity'', 24),
   (''NSOtherMouseDown'', 25), (''NSOtherMouseUp'', 26), (''NSOtherMouseDragged'', 27),
   (''NSEventTypeLeftMouseDown'', 1), (''NSEventTypeLeftMouseUp'', 2),
   (''NSEventTypeRightMouseDown'', 3), (''NSEventTypeRightMouseUp'', 4),
   (''NSEventTypeMouseMoved'', 5), (''NSEventTypeLeftMouseDragged'', 6),
   (''NSEventTypeRightMouseDragged'', 7), (''NSEventTypeMouseEntered'', 8),
   (''NSEventTypeMouseExited'', 9), (''NSEventTypeKeyDown'', 10), (''NSEventTypeKeyUp'', 11),
   (''NSEventTypeFlagsChanged'', 12), (''NSEventTypeAppKitDefined'', 13),
   (''NSEventTypeSystemDefined'', 14), (''NSEventTypeApplicationDefined'', 15),
   (''NSEventTypePeriodic'', 16), (''NSEventTypeCursorUpdate'', 17), (''NSEventTypeRotate'', 18),
   (''NSEventTypeBeginGesture'', 19), (''NSEventTypeEndGesture'', 20),
   (''NSEventTypeScrollWheel'', 22), (''NSEventTypeTabletPoint'', 23),
   (''NSEventTypeTabletProximity'', 24), (''NSEventTypeOtherMouseDown'', 25),
   (''NSEventTypeOtherMouseUp'', 26), (''NSEventTypeOtherMouseDragged'', 27),
   (''NSEventTypeGesture'', 29), (''NSEventTypeMagnify'', 30), (''NSEventTypeSwipe'', 31),
   (''NSEventTypeSmartMagnify'', 32), (''NSEventTypeQuickLook'', 33), (''NSEventTypePressure'', 34),
   (''NSEventTypeDirectTouch'', 37), (''NSEventTypeChangeMode'', 38), (''NSLeftMouseDownMask'', 2),
   (''NSLeftMouseUpMask'', 4), (''NSRightMouseDownMask'', 8), (''NSRightMouseUpMask'', 16),
   (''NSMouseMovedMask'', 32), (''NSLeftMouseDraggedMask'', 64), (''NSRightMouseDraggedMask'', 128),
   (''NSMouseEnteredMask'', 256), (''NSMouseExitedMask'', 512), (''NSKeyDownMask'', 1024),
   (''NSKeyUpMask'', 2048), (''NSFlagsChangedMask'', 4096), (''NSAppKitDefinedMask'', 8192),
   (''NSSystemDefinedMask'', 16384), (''NSApplicationDefinedMask'', 32768),
   (''NSPeriodicMask'', 65536), (''NSCursorUpdateMask'', 131072), (''NSScrollWheelMask'', 4194304),
   (''NSTabletPointMask'', 8388608), (''NSTabletProximityMask'', 16777216),
   (''NSOtherMouseDownMask'', 33554432), (''NSOtherMouseUpMask'', 67108864),
   (''NSOtherMouseDraggedMask'', 134217728), (''NSAnyEventMask'', 4294967295),
   (''GSKeyEventMask'', 7168), (''GSMouseEventMask'', 264241406),
   (''GSMouseMovedEventMask'', 138412256), (''GSEnterExitEventMask'', 131840),
   (''GSOtherEventMask'', 122880), (''GSTrackingLoopMask'', 67108982),
   (''NSDeviceIndependentModifierFlagsMask'', 4294901760), (''NSAlphaShiftKeyMask'', 65536),
   (''NSShiftKeyMask'', 131072), (''NSControlKeyMask'', 262144), (''NSAlternateKeyMask'', 524288),
   (''NSCommandKeyMask'', 1048576), (''NSNumericPadKeyMask'', 2097152), (''NSHelpKeyMask'', 4194304),
   (''NSFunctionKeyMask'', 8388608), (''NSEventModifierFlagCapsLock'', 65536),
   (''NSEventModifierFlagShift'', 131072), (''NSEventModifierFlagControl'', 262144),
   (''NSEventModifierFlagOption'', 524288), (''NSEventModifierFlagCommand'', 1048576),
   (''NSEventModifierFlagNumericPad'', 2097152), (''NSEventModifierFlagFunction'', 8388608),
   (''NSEventModifierFlagDeviceIndependentFlagsMask'', 4294901760), (''NSMouseEventSubtype'', 0),
   (''NSTabletPointEventSubtype'', 1), (''NSTabletProximityEventSubtype'', 2)]"
  by code_simp

definition NSLeftMouseDown :: "64 word" where "NSLeftMouseDown = enumerator event_enumerators ''NSLeftMouseDown''"
definition NSLeftMouseUp :: "64 word" where "NSLeftMouseUp = enumerator event_enumerators ''NSLeftMouseUp''"
definition NSRightMouseDown :: "64 word" where "NSRightMouseDown = enumerator event_enumerators ''NSRightMouseDown''"
definition NSRightMouseUp :: "64 word" where "NSRightMouseUp = enumerator event_enumerators ''NSRightMouseUp''"
definition NSMouseMoved :: "64 word" where "NSMouseMoved = enumerator event_enumerators ''NSMouseMoved''"
definition NSLeftMouseDragged :: "64 word" where "NSLeftMouseDragged = enumerator event_enumerators ''NSLeftMouseDragged''"
definition NSRightMouseDragged :: "64 word" where "NSRightMouseDragged = enumerator event_enumerators ''NSRightMouseDragged''"
definition NSMouseEntered :: "64 word" where "NSMouseEntered = enumerator event_enumerators ''NSMouseEntered''"
definition NSMouseExited :: "64 word" where "NSMouseExited = enumerator event_enumerators ''NSMouseExited''"
definition NSKeyDown :: "64 word" where "NSKeyDown = enumerator event_enumerators ''NSKeyDown''"
definition NSKeyUp :: "64 word" where "NSKeyUp = enumerator event_enumerators ''NSKeyUp''"
definition NSFlagsChanged :: "64 word" where "NSFlagsChanged = enumerator event_enumerators ''NSFlagsChanged''"
definition NSAppKitDefined :: "64 word" where "NSAppKitDefined = enumerator event_enumerators ''NSAppKitDefined''"
definition NSSystemDefined :: "64 word" where "NSSystemDefined = enumerator event_enumerators ''NSSystemDefined''"
definition NSApplicationDefined :: "64 word" where "NSApplicationDefined = enumerator event_enumerators ''NSApplicationDefined''"
definition NSPeriodic :: "64 word" where "NSPeriodic = enumerator event_enumerators ''NSPeriodic''"
definition NSCursorUpdate :: "64 word" where "NSCursorUpdate = enumerator event_enumerators ''NSCursorUpdate''"
definition NSScrollWheel :: "64 word" where "NSScrollWheel = enumerator event_enumerators ''NSScrollWheel''"
definition NSTabletPoint :: "64 word" where "NSTabletPoint = enumerator event_enumerators ''NSTabletPoint''"
definition NSTabletProximity :: "64 word" where "NSTabletProximity = enumerator event_enumerators ''NSTabletProximity''"
definition NSOtherMouseDown :: "64 word" where "NSOtherMouseDown = enumerator event_enumerators ''NSOtherMouseDown''"
definition NSOtherMouseUp :: "64 word" where "NSOtherMouseUp = enumerator event_enumerators ''NSOtherMouseUp''"
definition NSOtherMouseDragged :: "64 word" where "NSOtherMouseDragged = enumerator event_enumerators ''NSOtherMouseDragged''"
definition NSAnyEventMask :: "64 word" where "NSAnyEventMask = enumerator event_enumerators ''NSAnyEventMask''"
definition GSKeyEventMask :: "64 word" where "GSKeyEventMask = enumerator event_enumerators ''GSKeyEventMask''"
definition GSMouseEventMask :: "64 word" where "GSMouseEventMask = enumerator event_enumerators ''GSMouseEventMask''"
definition GSMouseMovedEventMask :: "64 word" where "GSMouseMovedEventMask = enumerator event_enumerators ''GSMouseMovedEventMask''"
definition GSEnterExitEventMask :: "64 word" where "GSEnterExitEventMask = enumerator event_enumerators ''GSEnterExitEventMask''"
definition GSOtherEventMask :: "64 word" where "GSOtherEventMask = enumerator event_enumerators ''GSOtherEventMask''"
definition GSTrackingLoopMask :: "64 word" where "GSTrackingLoopMask = enumerator event_enumerators ''GSTrackingLoopMask''"
definition NSAlphaShiftKeyMask :: "64 word" where "NSAlphaShiftKeyMask = enumerator event_enumerators ''NSAlphaShiftKeyMask''"
definition NSShiftKeyMask :: "64 word" where "NSShiftKeyMask = enumerator event_enumerators ''NSShiftKeyMask''"
definition NSControlKeyMask :: "64 word" where "NSControlKeyMask = enumerator event_enumerators ''NSControlKeyMask''"
definition NSAlternateKeyMask :: "64 word" where "NSAlternateKeyMask = enumerator event_enumerators ''NSAlternateKeyMask''"
definition NSCommandKeyMask :: "64 word" where "NSCommandKeyMask = enumerator event_enumerators ''NSCommandKeyMask''"
definition NSNumericPadKeyMask :: "64 word" where "NSNumericPadKeyMask = enumerator event_enumerators ''NSNumericPadKeyMask''"
definition NSHelpKeyMask :: "64 word" where "NSHelpKeyMask = enumerator event_enumerators ''NSHelpKeyMask''"
definition NSFunctionKeyMask :: "64 word" where "NSFunctionKeyMask = enumerator event_enumerators ''NSFunctionKeyMask''"
definition NSMouseEventSubtype :: "16 word" where "NSMouseEventSubtype = enumerator event_enumerators ''NSMouseEventSubtype''"
definition NSTabletPointEventSubtype :: "16 word" where "NSTabletPointEventSubtype = enumerator event_enumerators ''NSTabletPointEventSubtype''"
definition NSTabletProximityEventSubtype :: "16 word" where "NSTabletProximityEventSubtype = enumerator event_enumerators ''NSTabletProximityEventSubtype''"

lemma NSLeftMouseDown_value [simp]: "NSLeftMouseDown = 1"
  unfolding NSLeftMouseDown_def event_enumerators_eq enumerator_def by code_simp

lemma NSLeftMouseUp_value [simp]: "NSLeftMouseUp = 2"
  unfolding NSLeftMouseUp_def event_enumerators_eq enumerator_def by code_simp

lemma NSRightMouseDown_value [simp]: "NSRightMouseDown = 3"
  unfolding NSRightMouseDown_def event_enumerators_eq enumerator_def by code_simp

lemma NSRightMouseUp_value [simp]: "NSRightMouseUp = 4"
  unfolding NSRightMouseUp_def event_enumerators_eq enumerator_def by code_simp

lemma NSMouseMoved_value [simp]: "NSMouseMoved = 5"
  unfolding NSMouseMoved_def event_enumerators_eq enumerator_def by code_simp

lemma NSLeftMouseDragged_value [simp]: "NSLeftMouseDragged = 6"
  unfolding NSLeftMouseDragged_def event_enumerators_eq enumerator_def by code_simp

lemma NSRightMouseDragged_value [simp]: "NSRightMouseDragged = 7"
  unfolding NSRightMouseDragged_def event_enumerators_eq enumerator_def by code_simp

lemma NSMouseEntered_value [simp]: "NSMouseEntered = 8"
  unfolding NSMouseEntered_def event_enumerators_eq enumerator_def by code_simp

lemma NSMouseExited_value [simp]: "NSMouseExited = 9"
  unfolding NSMouseExited_def event_enumerators_eq enumerator_def by code_simp

lemma NSKeyDown_value [simp]: "NSKeyDown = 10"
  unfolding NSKeyDown_def event_enumerators_eq enumerator_def by code_simp

lemma NSKeyUp_value [simp]: "NSKeyUp = 11"
  unfolding NSKeyUp_def event_enumerators_eq enumerator_def by code_simp

lemma NSFlagsChanged_value [simp]: "NSFlagsChanged = 12"
  unfolding NSFlagsChanged_def event_enumerators_eq enumerator_def by code_simp

lemma NSAppKitDefined_value [simp]: "NSAppKitDefined = 13"
  unfolding NSAppKitDefined_def event_enumerators_eq enumerator_def by code_simp

lemma NSSystemDefined_value [simp]: "NSSystemDefined = 14"
  unfolding NSSystemDefined_def event_enumerators_eq enumerator_def by code_simp

lemma NSApplicationDefined_value [simp]: "NSApplicationDefined = 15"
  unfolding NSApplicationDefined_def event_enumerators_eq enumerator_def by code_simp

lemma NSPeriodic_value [simp]: "NSPeriodic = 16"
  unfolding NSPeriodic_def event_enumerators_eq enumerator_def by code_simp

lemma NSCursorUpdate_value [simp]: "NSCursorUpdate = 17"
  unfolding NSCursorUpdate_def event_enumerators_eq enumerator_def by code_simp

lemma NSScrollWheel_value [simp]: "NSScrollWheel = 22"
  unfolding NSScrollWheel_def event_enumerators_eq enumerator_def by code_simp

lemma NSTabletPoint_value [simp]: "NSTabletPoint = 23"
  unfolding NSTabletPoint_def event_enumerators_eq enumerator_def by code_simp

lemma NSTabletProximity_value [simp]: "NSTabletProximity = 24"
  unfolding NSTabletProximity_def event_enumerators_eq enumerator_def by code_simp

lemma NSOtherMouseDown_value [simp]: "NSOtherMouseDown = 25"
  unfolding NSOtherMouseDown_def event_enumerators_eq enumerator_def by code_simp

lemma NSOtherMouseUp_value [simp]: "NSOtherMouseUp = 26"
  unfolding NSOtherMouseUp_def event_enumerators_eq enumerator_def by code_simp

lemma NSOtherMouseDragged_value [simp]: "NSOtherMouseDragged = 27"
  unfolding NSOtherMouseDragged_def event_enumerators_eq enumerator_def by code_simp

lemma NSAnyEventMask_value [simp]: "NSAnyEventMask = 4294967295"
  unfolding NSAnyEventMask_def event_enumerators_eq enumerator_def by code_simp

lemma GSKeyEventMask_value [simp]: "GSKeyEventMask = 7168"
  unfolding GSKeyEventMask_def event_enumerators_eq enumerator_def by code_simp

lemma GSMouseEventMask_value [simp]: "GSMouseEventMask = 264241406"
  unfolding GSMouseEventMask_def event_enumerators_eq enumerator_def by code_simp

lemma GSMouseMovedEventMask_value [simp]: "GSMouseMovedEventMask = 138412256"
  unfolding GSMouseMovedEventMask_def event_enumerators_eq enumerator_def by code_simp

lemma GSEnterExitEventMask_value [simp]: "GSEnterExitEventMask = 131840"
  unfolding GSEnterExitEventMask_def event_enumerators_eq enumerator_def by code_simp

lemma GSOtherEventMask_value [simp]: "GSOtherEventMask = 122880"
  unfolding GSOtherEventMask_def event_enumerators_eq enumerator_def by code_simp

lemma GSTrackingLoopMask_value [simp]: "GSTrackingLoopMask = 67108982"
  unfolding GSTrackingLoopMask_def event_enumerators_eq enumerator_def by code_simp

lemma NSAlphaShiftKeyMask_value [simp]: "NSAlphaShiftKeyMask = 65536"
  unfolding NSAlphaShiftKeyMask_def event_enumerators_eq enumerator_def by code_simp

lemma NSShiftKeyMask_value [simp]: "NSShiftKeyMask = 131072"
  unfolding NSShiftKeyMask_def event_enumerators_eq enumerator_def by code_simp

lemma NSControlKeyMask_value [simp]: "NSControlKeyMask = 262144"
  unfolding NSControlKeyMask_def event_enumerators_eq enumerator_def by code_simp

lemma NSAlternateKeyMask_value [simp]: "NSAlternateKeyMask = 524288"
  unfolding NSAlternateKeyMask_def event_enumerators_eq enumerator_def by code_simp

lemma NSCommandKeyMask_value [simp]: "NSCommandKeyMask = 1048576"
  unfolding NSCommandKeyMask_def event_enumerators_eq enumerator_def by code_simp

lemma NSNumericPadKeyMask_value [simp]: "NSNumericPadKeyMask = 2097152"
  unfolding NSNumericPadKeyMask_def event_enumerators_eq enumerator_def by code_simp

lemma NSHelpKeyMask_value [simp]: "NSHelpKeyMask = 4194304"
  unfolding NSHelpKeyMask_def event_enumerators_eq enumerator_def by code_simp

lemma NSFunctionKeyMask_value [simp]: "NSFunctionKeyMask = 8388608"
  unfolding NSFunctionKeyMask_def event_enumerators_eq enumerator_def by code_simp

lemma NSMouseEventSubtype_value [simp]: "NSMouseEventSubtype = 0"
  unfolding NSMouseEventSubtype_def event_enumerators_eq enumerator_def by code_simp

lemma NSTabletPointEventSubtype_value [simp]: "NSTabletPointEventSubtype = 1"
  unfolding NSTabletPointEventSubtype_def event_enumerators_eq enumerator_def by code_simp

lemma NSTabletProximityEventSubtype_value [simp]: "NSTabletProximityEventSubtype = 2"
  unfolding NSTabletProximityEventSubtype_def event_enumerators_eq enumerator_def by code_simp

subsection \<open>Masks of types\<close>

text \<open>
  The shift of \<open>NSEventMaskFromType\<close> is one of \<open>int\<close>, converted to 64 bits afterwards. Shifting by 31
  sets the sign, as the compilers document; shifting by 32 or more is undefined, \<open>None\<close> here.
\<close>

definition NSEventMaskFromType :: "64 word \<Rightarrow> 64 word option" where
  "NSEventMaskFromType type =
     (if type < 32 then Some (scast (push_bit (unat type) (1 :: 32 word))) else None)"

text \<open>The test \<open>NSEventMaskFromType(type) & grp\<close>, which guards most methods.\<close>

definition in_group :: "64 word \<Rightarrow> 64 word \<Rightarrow> bool option" where
  "in_group type grp = map_option (\<lambda>m. m AND grp \<noteq> 0) (NSEventMaskFromType type)"

definition key_types :: "64 word list" where
  "key_types = [NSKeyDown, NSKeyUp, NSFlagsChanged]"

definition moved_types :: "64 word list" where
  "moved_types =
     [NSScrollWheel, NSMouseMoved, NSLeftMouseDragged, NSOtherMouseDragged, NSRightMouseDragged]"

definition button_types :: "64 word list" where
  "button_types =
     [NSLeftMouseDown, NSLeftMouseUp, NSOtherMouseDown, NSOtherMouseUp, NSRightMouseDown, NSRightMouseUp]"

definition tablet_types :: "64 word list" where
  "tablet_types = [NSTabletPoint, NSTabletProximity]"

definition tracking_types :: "64 word list" where
  "tracking_types = [NSMouseEntered, NSMouseExited, NSCursorUpdate]"

definition other_types :: "64 word list" where
  "other_types = [NSPeriodic, NSAppKitDefined, NSSystemDefined, NSApplicationDefined]"

lemmas type_lists =
  key_types_def moved_types_def button_types_def tablet_types_def tracking_types_def other_types_def

lemma small_types:
  assumes "t < (32 :: 64 word)"
  obtains n where "t = of_nat n" and "n < 32"
proof -
  have "unat t < 32" using assms by (simp add: word_less_nat_alt)
  then show ?thesis using that[of "unat t"] by simp
qed

lemma shift_bit:
  assumes "n < 32"
  shows "bit (scast (push_bit n (1 :: 32 word)) :: 64 word) m \<longleftrightarrow> m < 64 \<and> (m = n \<or> n = 31 \<and> 31 \<le> m)"
  using assms by (auto simp: bit_simps)

text \<open>No group but the one of all events has a bit above the 28 event types.\<close>

lemma in_group_bit:
  assumes "t < 32" and "drop_bit 31 grp = 0"
  shows "in_group t grp = Some (bit grp (unat t))"
proof -
  have n: "unat t < 32" using assms(1) by (simp add: word_less_nat_alt)
  have high: "\<not> bit grp m" if "31 \<le> m" for m
    using arg_cong[OF assms(2), of "\<lambda>w. bit w (m - 31)"] that by (simp add: bit_simps)
  define m :: "64 word" where "m = scast (push_bit (unat t) (1 :: 32 word))"
  have mb: "bit m k \<longleftrightarrow> k < 64 \<and> (k = unat t \<or> unat t = 31 \<and> 31 \<le> k)" for k
    unfolding m_def by (rule shift_bit[OF n])
  have "m AND grp \<noteq> 0 \<longleftrightarrow> bit grp (unat t)"
  proof
    assume "m AND grp \<noteq> 0"
    then obtain k where "bit (m AND grp) k" by (metis bit_eqI bit_0_eq bot_apply bot_bool_def)
    then show "bit grp (unat t)" using high[of k] by (auto simp: bit_and_iff mb)
  next
    assume "bit grp (unat t)"
    then have "bit (m AND grp) (unat t)" using n by (simp add: bit_and_iff mb)
    then show "m AND grp \<noteq> 0" by auto
  qed
  then show ?thesis using assms(1) by (simp only: in_group_def NSEventMaskFromType_def m_def if_True option.map)
qed

lemma word_of_small_nat: "n < 32 \<Longrightarrow> unat (of_nat n :: 64 word) = n"
  by (simp add: unat_of_nat)

lemma below_32: "n < (32 :: nat) \<Longrightarrow> n \<in> set [0..<32]"
  by simp

lemma groups_on_numbers:
  "list_all (\<lambda>n.
     bit GSKeyEventMask n = (of_nat n \<in> set key_types) \<and>
     bit GSMouseEventMask n = (of_nat n \<in> set (moved_types @ button_types @ tablet_types)) \<and>
     bit GSMouseMovedEventMask n = (of_nat n \<in> set moved_types) \<and>
     bit GSEnterExitEventMask n = (of_nat n \<in> set tracking_types) \<and>
     bit GSOtherEventMask n = (of_nat n \<in> set other_types)) [0..<32]"
  by (simp add: upt_rec type_lists)

lemma in_groups:
  assumes "t < 32"
  shows "in_group t GSKeyEventMask = Some (t \<in> set key_types)"
    and "in_group t GSMouseEventMask = Some (t \<in> set (moved_types @ button_types @ tablet_types))"
    and "in_group t GSMouseMovedEventMask = Some (t \<in> set moved_types)"
    and "in_group t GSEnterExitEventMask = Some (t \<in> set tracking_types)"
    and "in_group t GSOtherEventMask = Some (t \<in> set other_types)"
proof -
  obtain n where t: "t = of_nat n" and n: "n < 32" using assms by (rule small_types)
  note bits = groups_on_numbers[unfolded list_all_iff, rule_format, OF below_32[OF n]]
  show "in_group t GSKeyEventMask = Some (t \<in> set key_types)"
    using bits by (subst in_group_bit[OF assms]) (simp_all add: t word_of_small_nat[OF n])
  show "in_group t GSMouseEventMask = Some (t \<in> set (moved_types @ button_types @ tablet_types))"
    using bits by (subst in_group_bit[OF assms]) (simp_all add: t word_of_small_nat[OF n])
  show "in_group t GSMouseMovedEventMask = Some (t \<in> set moved_types)"
    using bits by (subst in_group_bit[OF assms]) (simp_all add: t word_of_small_nat[OF n])
  show "in_group t GSEnterExitEventMask = Some (t \<in> set tracking_types)"
    using bits by (subst in_group_bit[OF assms]) (simp_all add: t word_of_small_nat[OF n])
  show "in_group t GSOtherEventMask = Some (t \<in> set other_types)"
    using bits by (subst in_group_bit[OF assms]) (simp_all add: t word_of_small_nat[OF n])
qed

subsection \<open>The event object\<close>

text \<open>
  The union \<open>_MB_event_data\<close> as the seven machine words it occupies with 64 bit pointers on a little
  endian machine. Its structures overlay each other: \<open>mouse.event_num\<close> and \<open>tracking.event_num\<close> are the
  first word, \<open>key.repeat\<close> its lowest byte and \<open>misc.sub_type\<close> its lowest half word.
\<close>

record event_data =
  word0 :: "64 word"
  word1 :: "64 word"
  word2 :: "64 word"
  word3 :: "64 word"
  word4 :: "64 word"
  word5 :: "64 word"
  word6 :: "64 word"

text \<open>Positions are points, times a linear order. Objects are pointers; floats are their bit patterns.\<close>

record ('p, 't) event =
  event_type :: "64 word"
  location_point :: 'p
  modifier_flags :: "64 word"
  event_time :: 't
  window_num :: "64 word"
  event_context :: "64 word"
  event_data :: event_data

text \<open>Stores of 32, 16 and 8 bits into a word: the other bytes stay.\<close>

definition store32 :: "32 word \<Rightarrow> 64 word \<Rightarrow> 64 word" where
  "store32 x w = (w AND NOT (mask 32)) OR ucast x"

definition store16 :: "16 word \<Rightarrow> 64 word \<Rightarrow> 64 word" where
  "store16 x w = (w AND NOT (mask 16)) OR ucast x"

definition store8 :: "8 word \<Rightarrow> 64 word \<Rightarrow> 64 word" where
  "store8 x w = (w AND NOT (mask 8)) OR ucast x"

definition zero_data :: event_data where
  "zero_data = \<lparr>word0 = 0, word1 = 0, word2 = 0, word3 = 0, word4 = 0, word5 = 0, word6 = 0\<rparr>"

text \<open>\<open>NSAllocateObject\<close> clears the object.\<close>

definition allocated :: "('p::zero, 't::zero) event" where
  "allocated = \<lparr>event_type = 0, location_point = 0, modifier_flags = 0, event_time = 0,
     window_num = 0, event_context = 0, event_data = zero_data\<rparr>"

text \<open>The result of a method that first tests a type: undefined, an exception, or a value.\<close>

definition tested :: "bool option \<Rightarrow> exn \<Rightarrow> 'a \<Rightarrow> 'a res option" where
  "tested test x v =
     (case test of None \<Rightarrow> None | Some ok \<Rightarrow> Some (if ok then Inr v else Inl x))"

lemma tested_simps [simp]:
  "tested (Some True) x v = Some (Inr v)"
  "tested (Some False) x v = Some (Inl x)"
  "tested None x v = None"
  by (simp_all add: tested_def)

definition enterExitEventWithType ::
  "64 word \<Rightarrow> 'p \<Rightarrow> 64 word \<Rightarrow> 't \<Rightarrow> 64 word \<Rightarrow> 64 word \<Rightarrow> 64 word \<Rightarrow> 64 word \<Rightarrow> 64 word \<Rightarrow>
     ('p, 't) event res" where
  "enterExitEventWithType type loc flags time win ctxt eventNum trackingNum userData =
     (if type \<noteq> NSCursorUpdate \<and> type \<noteq> NSMouseEntered \<and> type \<noteq> NSMouseExited
      then Inl NSInvalidArgumentException
      else Inr \<lparr>event_type = type, location_point = loc, modifier_flags = flags, event_time = time,
        window_num = win, event_context = ctxt,
        event_data = zero_data\<lparr>word0 := eventNum, word1 := trackingNum, word2 := userData\<rparr>\<rparr>)"

definition keyEventWithType ::
  "64 word \<Rightarrow> 'p \<Rightarrow> 64 word \<Rightarrow> 't \<Rightarrow> 64 word \<Rightarrow> 64 word \<Rightarrow> 64 word \<Rightarrow> 64 word \<Rightarrow> 8 word \<Rightarrow> 16 word \<Rightarrow>
     ('p, 't) event res option" where
  "keyEventWithType type loc flags time win ctxt keys ukeys repeatKey code =
     tested (in_group type GSKeyEventMask) NSInvalidArgumentException
       \<lparr>event_type = type, location_point = loc, modifier_flags = flags, event_time = time,
        window_num = win, event_context = ctxt,
        event_data = zero_data\<lparr>word0 := store8 repeatKey 0, word1 := keys, word2 := ukeys,
          word3 := store16 code 0\<rparr>\<rparr>"

definition mouseEventWithType ::
  "64 word \<Rightarrow> 'p \<Rightarrow> 64 word \<Rightarrow> 't \<Rightarrow> 64 word \<Rightarrow> 64 word \<Rightarrow> 64 word \<Rightarrow> 64 word \<Rightarrow> 32 word \<Rightarrow>
     ('p, 't) event res option" where
  "mouseEventWithType type loc flags time win ctxt eventNum clickNum pressureValue =
     tested (in_group type GSMouseEventMask) NSInvalidArgumentException
       \<lparr>event_type = type, location_point = loc, modifier_flags = flags, event_time = time,
        window_num = win, event_context = ctxt,
        event_data = zero_data\<lparr>word0 := eventNum, word1 := clickNum,
          word3 := store32 pressureValue 0\<rparr>\<rparr>"

definition mouseEventWithButton ::
  "64 word \<Rightarrow> 'p \<Rightarrow> 64 word \<Rightarrow> 't \<Rightarrow> 64 word \<Rightarrow> 64 word \<Rightarrow> 64 word \<Rightarrow> 64 word \<Rightarrow> 32 word \<Rightarrow>
     64 word \<Rightarrow> 64 word \<Rightarrow> 64 word \<Rightarrow> 64 word \<Rightarrow> ('p, 't) event res option" where
  "mouseEventWithButton type loc flags time win ctxt eventNum clickNum pressureValue
      buttonNum dX dY dZ =
     tested (in_group type GSMouseEventMask) NSInvalidArgumentException
       \<lparr>event_type = type, location_point = loc, modifier_flags = flags, event_time = time,
        window_num = win, event_context = ctxt,
        event_data = zero_data\<lparr>word0 := eventNum, word1 := clickNum, word2 := buttonNum,
          word3 := store32 pressureValue 0, word4 := dX, word5 := dY, word6 := dZ\<rparr>\<rparr>"

definition otherEventWithType ::
  "64 word \<Rightarrow> 'p \<Rightarrow> 64 word \<Rightarrow> 't \<Rightarrow> 64 word \<Rightarrow> 64 word \<Rightarrow> 16 word \<Rightarrow> 64 word \<Rightarrow> 64 word \<Rightarrow>
     ('p, 't) event res option" where
  "otherEventWithType type loc flags time win ctxt subType d1 d2 =
     tested (in_group type GSOtherEventMask) NSInvalidArgumentException
       \<lparr>event_type = type, location_point = loc, modifier_flags = flags, event_time = time,
        window_num = win, event_context = ctxt,
        event_data = zero_data\<lparr>word0 := store16 subType 0, word1 := d1, word2 := d2\<rparr>\<rparr>"

subsection \<open>Accessors\<close>

definition buttonNumber :: "('p, 't) event \<Rightarrow> 64 word res option" where
  "buttonNumber e = tested (in_group (event_type e) GSMouseEventMask)
     NSInternalInconsistencyException (word2 (event_data e))"

definition characters :: "('p, 't) event \<Rightarrow> 64 word res" where
  "characters e =
     (if event_type e \<noteq> NSKeyUp \<and> event_type e \<noteq> NSKeyDown
      then Inl NSInternalInconsistencyException else Inr (word1 (event_data e)))"

definition charactersIgnoringModifiers :: "('p, 't) event \<Rightarrow> 64 word res" where
  "charactersIgnoringModifiers e =
     (if event_type e \<noteq> NSKeyUp \<and> event_type e \<noteq> NSKeyDown
      then Inl NSInternalInconsistencyException else Inr (word2 (event_data e)))"

definition clickCount :: "('p, 't) event \<Rightarrow> 64 word res option" where
  "clickCount e = tested (in_group (event_type e) GSMouseEventMask)
     NSInternalInconsistencyException (word1 (event_data e))"

definition data1 :: "('p, 't) event \<Rightarrow> 64 word res" where
  "data1 e =
     (if event_type e < NSAppKitDefined \<or> event_type e > NSPeriodic
      then Inl NSInternalInconsistencyException else Inr (word1 (event_data e)))"

definition data2 :: "('p, 't) event \<Rightarrow> 64 word res" where
  "data2 e =
     (if event_type e < NSAppKitDefined \<or> event_type e > NSPeriodic
      then Inl NSInternalInconsistencyException else Inr (word2 (event_data e)))"

definition deltaX :: "('p, 't) event \<Rightarrow> 64 word option" where
  "deltaX e = map_option (\<lambda>m. if m then word4 (event_data e) else 0)
     (in_group (event_type e) GSMouseMovedEventMask)"

definition deltaY :: "('p, 't) event \<Rightarrow> 64 word option" where
  "deltaY e = map_option (\<lambda>m. if m then word5 (event_data e) else 0)
     (in_group (event_type e) GSMouseMovedEventMask)"

definition deltaZ :: "('p, 't) event \<Rightarrow> 64 word option" where
  "deltaZ e = map_option (\<lambda>m. if m then word6 (event_data e) else 0)
     (in_group (event_type e) GSMouseMovedEventMask)"

text \<open>\<open>eventNumber\<close> reads the member of the structure the type selects; both are the first word.\<close>

definition eventNumber :: "('p, 't) event \<Rightarrow> 64 word res option" where
  "eventNumber e =
     (case in_group (event_type e) GSMouseEventMask of
        None \<Rightarrow> None
      | Some mouse \<Rightarrow>
          tested (map_option (\<lambda>t. mouse \<or> t) (in_group (event_type e) GSEnterExitEventMask))
            NSInternalInconsistencyException (word0 (event_data e)))"

definition isARepeat :: "('p, 't) event \<Rightarrow> 8 word res" where
  "isARepeat e =
     (if event_type e \<noteq> NSKeyUp \<and> event_type e \<noteq> NSKeyDown
      then Inl NSInternalInconsistencyException else Inr (ucast (word0 (event_data e))))"

definition keyCode :: "('p, 't) event \<Rightarrow> 16 word res option" where
  "keyCode e = tested (in_group (event_type e) GSKeyEventMask)
     NSInternalInconsistencyException (ucast (word3 (event_data e)))"

definition pressure :: "('p, 't) event \<Rightarrow> 32 word res option" where
  "pressure e = tested (in_group (event_type e) GSMouseEventMask)
     NSInternalInconsistencyException (ucast (word3 (event_data e)))"

definition subtype :: "('p, 't) event \<Rightarrow> 16 word res option" where
  "subtype e =
     (case in_group (event_type e) GSOtherEventMask of
        None \<Rightarrow> None
      | Some True \<Rightarrow> Some (Inr (ucast (word0 (event_data e))))
      | Some False \<Rightarrow>
          tested (in_group (event_type e) GSMouseEventMask) NSInternalInconsistencyException
            (if event_type e = NSTabletPoint then NSTabletPointEventSubtype
             else if event_type e = NSTabletProximity then NSTabletProximityEventSubtype
             else NSMouseEventSubtype))"

definition trackingNumber :: "('p, 't) event \<Rightarrow> 64 word res" where
  "trackingNumber e =
     (if event_type e \<noteq> NSMouseEntered \<and> event_type e \<noteq> NSMouseExited \<and> event_type e \<noteq> NSCursorUpdate
      then Inl NSInternalInconsistencyException else Inr (word1 (event_data e)))"

definition userData :: "('p, 't) event \<Rightarrow> 64 word res" where
  "userData e =
     (if event_type e \<noteq> NSMouseEntered \<and> event_type e \<noteq> NSMouseExited \<and> event_type e \<noteq> NSCursorUpdate
      then Inl NSInternalInconsistencyException else Inr (word2 (event_data e)))"

subsection \<open>The archive of an event\<close>

text \<open>What one call writes to an archive: a value with its type encoding, a point or an object.\<close>

datatype ('p, 't) item =
    ILong "64 word" | IPoint 'p | ITime 't | IInt "32 word" | IFloat "32 word"
  | IShort "16 word" | IUShort "16 word" | IBool "8 word" | IObject "64 word"

text \<open>The switch of \<open>encodeWithCoder:\<close> over the type of the event. A \<open>CGFloat\<close> is encoded as a
  \<open>float\<close> and an \<open>NSInteger\<close> as an \<open>int\<close>: the first four bytes in memory are written.\<close>

definition encode_data :: "64 word \<Rightarrow> event_data \<Rightarrow> ('p, 't) item list" where
  "encode_data type d =
     (if type \<in> set button_types \<or> type \<in> set moved_types then
        [IInt (ucast (word0 d)), IInt (ucast (word1 d)), IFloat (ucast (word3 d)), IInt (ucast (word2 d)),
         IFloat (ucast (word4 d)), IFloat (ucast (word5 d)), IFloat (ucast (word6 d))]
      else if type \<in> set tracking_types then [IInt (ucast (word0 d)), IInt (ucast (word1 d))]
      else if type \<in> set key_types then
        [IBool (ucast (word0 d)), IObject (word1 d), IObject (word2 d), IUShort (ucast (word3 d))]
      else if type \<in> set other_types then
        [IShort (ucast (word0 d)), IInt (ucast (word1 d)), IInt (ucast (word2 d))]
      else [])"

definition encodeWithCoder :: "bool \<Rightarrow> ('p, 't) event \<Rightarrow> ('p, 't) item list" where
  "encodeWithCoder keyed e =
     (if keyed then []
      else [ILong (event_type e), IPoint (location_point e), ILong (modifier_flags e),
            ITime (event_time e), ILong (window_num e)] @ encode_data (event_type e) (event_data e))"

text \<open>The types of archives of version 1.\<close>

definition version1_types :: "(32 word \<times> 64 word) list" where
  "version1_types =
     [(0, NSLeftMouseDown), (1, NSLeftMouseUp), (2, NSOtherMouseDown), (3, NSOtherMouseUp),
      (4, NSRightMouseDown), (5, NSRightMouseUp), (6, NSMouseMoved), (7, NSLeftMouseDragged),
      (8, NSOtherMouseDragged), (9, NSRightMouseDragged), (10, NSMouseEntered), (11, NSMouseExited),
      (12, NSKeyDown), (13, NSKeyUp), (14, NSFlagsChanged), (15, NSAppKitDefined),
      (16, NSSystemDefined), (17, NSApplicationDefined), (18, NSPeriodic), (19, NSCursorUpdate),
      (20, NSScrollWheel)]"

definition converted_type :: "int \<Rightarrow> 64 word \<Rightarrow> 64 word" where
  "converted_type version type =
     (if version = 1
      then (case map_of version1_types (ucast type) of None \<Rightarrow> type | Some t \<Rightarrow> t)
      else type)"

text \<open>The calls that read the next item of an archive. \<open>None\<close>: it is not of the kind asked for.\<close>

fun next_long :: "('p, 't) item list \<Rightarrow> (64 word \<times> ('p, 't) item list) option" where
  "next_long (ILong x # rest) = Some (x, rest)"
| "next_long _ = None"

fun next_point :: "('p, 't) item list \<Rightarrow> ('p \<times> ('p, 't) item list) option" where
  "next_point (IPoint x # rest) = Some (x, rest)"
| "next_point _ = None"

fun next_time :: "('p, 't) item list \<Rightarrow> ('t \<times> ('p, 't) item list) option" where
  "next_time (ITime x # rest) = Some (x, rest)"
| "next_time _ = None"

fun next_int :: "('p, 't) item list \<Rightarrow> (32 word \<times> ('p, 't) item list) option" where
  "next_int (IInt x # rest) = Some (x, rest)"
| "next_int _ = None"

fun next_float :: "('p, 't) item list \<Rightarrow> (32 word \<times> ('p, 't) item list) option" where
  "next_float (IFloat x # rest) = Some (x, rest)"
| "next_float _ = None"

fun next_short :: "('p, 't) item list \<Rightarrow> (16 word \<times> ('p, 't) item list) option" where
  "next_short (IShort x # rest) = Some (x, rest)"
| "next_short _ = None"

fun next_ushort :: "('p, 't) item list \<Rightarrow> (16 word \<times> ('p, 't) item list) option" where
  "next_ushort (IUShort x # rest) = Some (x, rest)"
| "next_ushort _ = None"

fun next_bool :: "('p, 't) item list \<Rightarrow> (8 word \<times> ('p, 't) item list) option" where
  "next_bool (IBool x # rest) = Some (x, rest)"
| "next_bool _ = None"

fun next_object :: "('p, 't) item list \<Rightarrow> (64 word \<times> ('p, 't) item list) option" where
  "next_object (IObject x # rest) = Some (x, rest)"
| "next_object _ = None"

text \<open>Reading the items back into the words of a cleared event. The archive decodes an object to the
  pointer of a new one.\<close>

definition decode_mouse :: "('p, 't) item list \<Rightarrow> event_data \<Rightarrow> event_data option" where
  "decode_mouse items d = do {
     (n, items) \<leftarrow> next_int items;
     (c, items) \<leftarrow> next_int items;
     (p, items) \<leftarrow> next_float items;
     (b, items) \<leftarrow> next_int items;
     (x, items) \<leftarrow> next_float items;
     (y, items) \<leftarrow> next_float items;
     (z, items) \<leftarrow> next_float items;
     Some (d\<lparr>word0 := store32 n (word0 d), word1 := store32 c (word1 d), word2 := store32 b (word2 d),
             word3 := store32 p (word3 d), word4 := store32 x (word4 d), word5 := store32 y (word5 d),
             word6 := store32 z (word6 d)\<rparr>)
   }"

definition decode_tracking :: "('p, 't) item list \<Rightarrow> event_data \<Rightarrow> event_data option" where
  "decode_tracking items d = do {
     (n, items) \<leftarrow> next_int items;
     (k, items) \<leftarrow> next_int items;
     Some (d\<lparr>word0 := store32 n (word0 d), word1 := store32 k (word1 d)\<rparr>)
   }"

definition decode_key :: "(64 word \<Rightarrow> 64 word) \<Rightarrow> ('p, 't) item list \<Rightarrow> event_data \<Rightarrow> event_data option" where
  "decode_key obj items d = do {
     (r, items) \<leftarrow> next_bool items;
     (k, items) \<leftarrow> next_object items;
     (u, items) \<leftarrow> next_object items;
     (c, items) \<leftarrow> next_ushort items;
     Some (d\<lparr>word0 := store8 r (word0 d), word1 := obj k, word2 := obj u,
             word3 := store16 c (word3 d)\<rparr>)
   }"

definition decode_other :: "('p, 't) item list \<Rightarrow> event_data \<Rightarrow> event_data option" where
  "decode_other items d = do {
     (s, items) \<leftarrow> next_short items;
     (x, items) \<leftarrow> next_int items;
     (y, items) \<leftarrow> next_int items;
     Some (d\<lparr>word0 := store16 s (word0 d), word1 := store32 x (word1 d),
             word2 := store32 y (word2 d)\<rparr>)
   }"

definition decode_data ::
  "int \<Rightarrow> (64 word \<Rightarrow> 64 word) \<Rightarrow> 64 word \<Rightarrow> ('p, 't) item list \<Rightarrow> event_data option" where
  "decode_data version obj type items =
     (if version = 2 \<and> type = NSFlagsChanged then decode_other items zero_data
      else if type \<in> set button_types \<or> type \<in> set moved_types then decode_mouse items zero_data
      else if type \<in> set tracking_types then decode_tracking items zero_data
      else if type \<in> set key_types then decode_key obj items zero_data
      else if type \<in> set other_types then decode_other items zero_data
      else Some zero_data)"

definition initWithCoder ::
  "bool \<Rightarrow> int \<Rightarrow> (64 word \<Rightarrow> 64 word) \<Rightarrow> ('p::zero, 't::zero) item list \<Rightarrow> ('p, 't) event option" where
  "initWithCoder keyed version obj items =
     (if keyed then Some allocated
      else do {
        (type, items) \<leftarrow> next_long items;
        (p, items) \<leftarrow> next_point items;
        (flags, items) \<leftarrow> next_long items;
        (t, items) \<leftarrow> next_time items;
        (win, items) \<leftarrow> next_long items;
        let type = converted_type version type;
        d \<leftarrow> decode_data version obj type items;
        Some \<lparr>event_type = type, location_point = p, modifier_flags = flags, event_time = t,
              window_num = win, event_context = 0, event_data = d\<rparr>
      })"

subsection \<open>What the methods promise\<close>

lemma store_zero [simp]:
  "store32 x 0 = ucast x" "store16 y 0 = ucast y" "store8 z 0 = ucast z"
  by (simp_all add: store32_def store16_def store8_def)

lemma narrow [simp]:
  "(ucast (ucast (x :: 8 word) :: 64 word) :: 8 word) = x"
  "(ucast (ucast (y :: 16 word) :: 64 word) :: 16 word) = y"
  "(ucast (ucast (z :: 32 word) :: 64 word) :: 32 word) = z"
  by (rule bit_word_eqI; auto simp: bit_simps)+

lemma cut_32 [simp]: "(ucast (ucast (w :: 64 word) :: 32 word) :: 64 word) = take_bit 32 w"
  by (rule bit_word_eqI) (auto simp: bit_simps)

lemma cut_16 [simp]: "(ucast (ucast (w :: 64 word) :: 16 word) :: 64 word) = take_bit 16 w"
  by (rule bit_word_eqI) (auto simp: bit_simps)

lemma cut_8 [simp]: "(ucast (ucast (w :: 64 word) :: 8 word) :: 64 word) = take_bit 8 w"
  by (rule bit_word_eqI) (auto simp: bit_simps)

text \<open>The event types by the names the header declares first.\<close>

definition named_types :: "string list" where
  "named_types = filter (\<lambda>x. take 11 x \<noteq> ''NSEventType'') (map fst NSEventType_enum)"

lemma named_types_eq:
  "named_types = [''NSLeftMouseDown'', ''NSLeftMouseUp'', ''NSRightMouseDown'', ''NSRightMouseUp'',
     ''NSMouseMoved'', ''NSLeftMouseDragged'', ''NSRightMouseDragged'', ''NSMouseEntered'',
     ''NSMouseExited'', ''NSKeyDown'', ''NSKeyUp'', ''NSFlagsChanged'', ''NSAppKitDefined'',
     ''NSSystemDefined'', ''NSApplicationDefined'', ''NSPeriodic'', ''NSCursorUpdate'',
     ''NSScrollWheel'', ''NSTabletPoint'', ''NSTabletProximity'', ''NSOtherMouseDown'',
     ''NSOtherMouseUp'', ''NSOtherMouseDragged'']"
  unfolding named_types_def by code_simp

lemma set_named_types:
  "enumerator event_enumerators ` set named_types =
     set (key_types @ moved_types @ button_types @ tablet_types @ tracking_types @ other_types)"
  unfolding named_types_eq type_lists
  by (auto simp: NSLeftMouseDown_def[symmetric] NSLeftMouseUp_def[symmetric] NSRightMouseDown_def[symmetric]
     NSRightMouseUp_def[symmetric] NSMouseMoved_def[symmetric] NSLeftMouseDragged_def[symmetric]
     NSRightMouseDragged_def[symmetric] NSMouseEntered_def[symmetric] NSMouseExited_def[symmetric]
     NSKeyDown_def[symmetric] NSKeyUp_def[symmetric] NSFlagsChanged_def[symmetric]
     NSAppKitDefined_def[symmetric] NSSystemDefined_def[symmetric]
     NSApplicationDefined_def[symmetric] NSPeriodic_def[symmetric] NSCursorUpdate_def[symmetric]
     NSScrollWheel_def[symmetric] NSTabletPoint_def[symmetric] NSTabletProximity_def[symmetric]
     NSOtherMouseDown_def[symmetric] NSOtherMouseUp_def[symmetric]
     NSOtherMouseDragged_def[symmetric])

lemma named_values:
  "map (map_of event_enumerators) named_types = map Some
    [1, 2, 3, 4, 5, 6, 7, 8, 9, 10, 11, 12, 13, 14, 15, 16, 17, 22, 23, 24, 25, 26, 27]"
  unfolding named_types_eq event_enumerators_eq by code_simp

lemma named_mask_values:
  "map (\<lambda>x. map_of event_enumerators (x @ ''Mask'')) named_types = map Some
    [2, 4, 8, 16, 32, 64, 128, 256, 512, 1024, 2048, 4096, 8192, 16384, 32768, 65536, 131072,
     4194304, 8388608, 16777216, 33554432, 67108864, 134217728]"
  unfolding named_types_eq event_enumerators_eq by code_simp

lemma newer_values:
  "map (\<lambda>x. map_of event_enumerators (''NSEventType'' @ drop 2 x)) named_types =
   map (map_of event_enumerators) named_types"
  unfolding named_types_eq event_enumerators_eq by code_simp

lemma list_all_zip:
  "list_all (\<lambda>x. Q (f x) (g x)) xs \<longleftrightarrow> list_all (\<lambda>(a, b). Q a b) (zip (map f xs) (map g xs))"
  by (induction xs) simp_all

lemma named_masks:
  "list_all (\<lambda>x.
      NSEventMaskFromType (enumerator event_enumerators x) =
        Some (enumerator event_enumerators (x @ ''Mask''))) named_types"
proof -
  let ?w = "\<lambda>v. case v of None \<Rightarrow> 0 | Some k \<Rightarrow> (word_of_int k :: 64 word)"
  have "list_all (\<lambda>x. NSEventMaskFromType (?w (map_of event_enumerators x)) =
      Some (?w (map_of event_enumerators (x @ ''Mask'')))) named_types"
    by (subst list_all_zip[of "\<lambda>a b. NSEventMaskFromType (?w a) = Some (?w b)"])
      (simp add: named_values named_mask_values NSEventMaskFromType_def)
  then show ?thesis by (simp only: enumerator_def)
qed

lemma newer_names:
  "list_all (\<lambda>x. enumerator event_enumerators (''NSEventType'' @ drop 2 x) =
      (enumerator event_enumerators x :: 64 word)) named_types"
  using newer_values by (simp add: list_all_iff enumerator_def)

text \<open>Every event mask is the mask of the event type it is named after, the newer name of a type has
  its value, and the groups split the types: a type the header declares belongs to exactly one of the
  key, mouse, tracking and other groups, any other type below 32 to none.\<close>

lemma event_groups:
  assumes "t < 32"
  shows "list_all (\<lambda>x.
      NSEventMaskFromType (enumerator event_enumerators x) =
        Some (enumerator event_enumerators (x @ ''Mask''))) named_types \<and>
    list_all (\<lambda>x. enumerator event_enumerators (''NSEventType'' @ drop 2 x) =
      (enumerator event_enumerators x :: 64 word)) named_types \<and>
    (in_group t GSMouseMovedEventMask = Some True \<longrightarrow> in_group t GSMouseEventMask = Some True) \<and>
    length (filter (\<lambda>g. in_group t g = Some True)
        [GSKeyEventMask, GSMouseEventMask, GSEnterExitEventMask, GSOtherEventMask]) =
      (if t \<in> enumerator event_enumerators ` set named_types then 1 else 0)"
proof (intro conjI)
  show "list_all (\<lambda>x.
      NSEventMaskFromType (enumerator event_enumerators x) =
        Some (enumerator event_enumerators (x @ ''Mask''))) named_types"
    by (rule named_masks)
  show "list_all (\<lambda>x. enumerator event_enumerators (''NSEventType'' @ drop 2 x) =
      (enumerator event_enumerators x :: 64 word)) named_types"
    by (rule newer_names)
  show "in_group t GSMouseMovedEventMask = Some True \<longrightarrow> in_group t GSMouseEventMask = Some True"
    unfolding in_groups[OF assms] by simp
  show "length (filter (\<lambda>g. in_group t g = Some True)
        [GSKeyEventMask, GSMouseEventMask, GSEnterExitEventMask, GSOtherEventMask]) =
      (if t \<in> enumerator event_enumerators ` set named_types then 1 else 0)"
    unfolding filter.simps in_groups[OF assms] set_named_types
    by (auto simp: type_lists)
qed

lemma event_groups_example:
  "length (filter (\<lambda>g. in_group 17 g = Some True)
     [GSKeyEventMask, GSMouseEventMask, GSEnterExitEventMask, GSOtherEventMask]) = 1"
proof -
  have "(17 :: 64 word) < 32" by simp
  from event_groups[THEN conjunct2, THEN conjunct2, THEN conjunct2, OF this] show ?thesis
    by (simp add: set_named_types type_lists)
qed

text \<open>The methods that are not for the events of a group raise.\<close>

definition no_mouse :: "('p, 't) event \<Rightarrow> bool" where
  "no_mouse e \<longleftrightarrow>
     buttonNumber e = Some (Inl NSInternalInconsistencyException) \<and>
     clickCount e = Some (Inl NSInternalInconsistencyException) \<and>
     pressure e = Some (Inl NSInternalInconsistencyException) \<and>
     deltaX e = Some 0 \<and> deltaY e = Some 0 \<and> deltaZ e = Some 0"

definition no_key :: "('p, 't) event \<Rightarrow> bool" where
  "no_key e \<longleftrightarrow>
     characters e = Inl NSInternalInconsistencyException \<and>
     charactersIgnoringModifiers e = Inl NSInternalInconsistencyException \<and>
     isARepeat e = Inl NSInternalInconsistencyException"

definition no_tracking :: "('p, 't) event \<Rightarrow> bool" where
  "no_tracking e \<longleftrightarrow>
     trackingNumber e = Inl NSInternalInconsistencyException \<and>
     userData e = Inl NSInternalInconsistencyException"

definition no_data :: "('p, 't) event \<Rightarrow> bool" where
  "no_data e \<longleftrightarrow>
     data1 e = Inl NSInternalInconsistencyException \<and> data2 e = Inl NSInternalInconsistencyException"

lemmas accessor_defs =
  buttonNumber_def characters_def charactersIgnoringModifiers_def clickCount_def data1_def data2_def
  deltaX_def deltaY_def deltaZ_def eventNumber_def isARepeat_def keyCode_def pressure_def subtype_def
  trackingNumber_def userData_def

lemmas raising_defs = no_mouse_def no_key_def no_tracking_def no_data_def

lemma key_event_accessors:
  assumes "t \<in> set key_types"
    and "keyEventWithType t loc flags time win ctxt keys ukeys rep code = Some (Inr e)"
  shows "keyCode e = Some (Inr code)" and "no_mouse e" and "no_tracking e" and "no_data e"
    and "eventNumber e = Some (Inl NSInternalInconsistencyException)"
    and "if t = NSFlagsChanged then no_key e
         else characters e = Inr keys \<and> charactersIgnoringModifiers e = Inr ukeys \<and> isARepeat e = Inr rep"
proof -
  have t: "t < 32" using assms(1) by (auto simp: type_lists)
  have e: "e = \<lparr>event_type = t, location_point = loc, modifier_flags = flags, event_time = time,
      window_num = win, event_context = ctxt,
      event_data = zero_data\<lparr>word0 := store8 rep 0, word1 := keys, word2 := ukeys,
        word3 := store16 code 0\<rparr>\<rparr>"
    using assms unfolding keyEventWithType_def in_groups[OF t] by simp
  show "keyCode e = Some (Inr code)" and "no_mouse e" and "no_tracking e" and "no_data e"
    and "eventNumber e = Some (Inl NSInternalInconsistencyException)"
    and "if t = NSFlagsChanged then no_key e
         else characters e = Inr keys \<and> charactersIgnoringModifiers e = Inr ukeys \<and> isARepeat e = Inr rep"
    using assms(1) unfolding e accessor_defs raising_defs event.select_convs in_groups[OF t]
    by (auto simp: type_lists)
qed

lemma mouse_event_accessors:
  assumes "t \<in> set (moved_types @ button_types @ tablet_types)"
    and "mouseEventWithButton t loc flags time win ctxt num clicks press button dx dy dz = Some (Inr e)"
  shows "buttonNumber e = Some (Inr button)" and "clickCount e = Some (Inr clicks)"
    and "pressure e = Some (Inr press)" and "eventNumber e = Some (Inr num)"
    and "deltaX e = Some (if t \<in> set moved_types then dx else 0)"
    and "deltaY e = Some (if t \<in> set moved_types then dy else 0)"
    and "deltaZ e = Some (if t \<in> set moved_types then dz else 0)"
    and "keyCode e = Some (Inl NSInternalInconsistencyException)"
    and "no_key e" and "no_tracking e" and "no_data e"
proof -
  have t: "t < 32" using assms(1) by (auto simp: type_lists)
  have e: "e = \<lparr>event_type = t, location_point = loc, modifier_flags = flags, event_time = time,
      window_num = win, event_context = ctxt,
      event_data = zero_data\<lparr>word0 := num, word1 := clicks, word2 := button,
        word3 := store32 press 0, word4 := dx, word5 := dy, word6 := dz\<rparr>\<rparr>"
    using assms unfolding mouseEventWithButton_def in_groups[OF t] by simp
  have shut: "t \<notin> set key_types" "t \<notin> set tracking_types" "t \<notin> set other_types"
    using assms(1) by (auto simp: type_lists)
  show "buttonNumber e = Some (Inr button)" "clickCount e = Some (Inr clicks)"
    "pressure e = Some (Inr press)" "eventNumber e = Some (Inr num)"
    "keyCode e = Some (Inl NSInternalInconsistencyException)"
    "deltaX e = Some (if t \<in> set moved_types then dx else 0)"
    "deltaY e = Some (if t \<in> set moved_types then dy else 0)"
    "deltaZ e = Some (if t \<in> set moved_types then dz else 0)"
    using assms(1) shut unfolding e accessor_defs event.select_convs in_groups[OF t] by auto
  show "no_key e" "no_tracking e" "no_data e"
    using assms(1) unfolding e accessor_defs raising_defs event.select_convs
    by (auto simp: type_lists)
qed

lemma tracking_event_accessors:
  assumes "enterExitEventWithType t loc flags time win ctxt num trackingNum user = Inr e"
  shows "trackingNumber e = Inr trackingNum" and "userData e = Inr user"
    and "eventNumber e = Some (Inr num)" and "no_mouse e" and "no_key e" and "no_data e"
    and "keyCode e = Some (Inl NSInternalInconsistencyException)"
proof -
  have mem: "t \<in> set tracking_types"
    using assms by (auto simp: enterExitEventWithType_def type_lists split: if_splits)
  then have t: "t < 32" by (auto simp: type_lists)
  have e: "e = \<lparr>event_type = t, location_point = loc, modifier_flags = flags, event_time = time,
      window_num = win, event_context = ctxt,
      event_data = zero_data\<lparr>word0 := num, word1 := trackingNum, word2 := user\<rparr>\<rparr>"
    using assms by (auto simp: enterExitEventWithType_def split: if_splits)
  show "trackingNumber e = Inr trackingNum" and "userData e = Inr user"
    and "eventNumber e = Some (Inr num)" and "no_mouse e" and "no_key e" and "no_data e"
    and "keyCode e = Some (Inl NSInternalInconsistencyException)"
    using mem unfolding e accessor_defs raising_defs event.select_convs in_groups[OF t]
    by (auto simp: type_lists)
qed

lemma other_event_accessors:
  assumes "t \<in> set other_types"
    and "otherEventWithType t loc flags time win ctxt sub d1 d2 = Some (Inr e)"
  shows "subtype e = Some (Inr sub)" and "data1 e = Inr d1" and "data2 e = Inr d2"
    and "no_mouse e" and "no_key e" and "no_tracking e"
    and "eventNumber e = Some (Inl NSInternalInconsistencyException)"
proof -
  have t: "t < 32" using assms(1) by (auto simp: type_lists)
  have e: "e = \<lparr>event_type = t, location_point = loc, modifier_flags = flags, event_time = time,
      window_num = win, event_context = ctxt,
      event_data = zero_data\<lparr>word0 := store16 sub 0, word1 := d1, word2 := d2\<rparr>\<rparr>"
    using assms unfolding otherEventWithType_def in_groups[OF t] by simp
  show "subtype e = Some (Inr sub)" and "data1 e = Inr d1" and "data2 e = Inr d2"
    and "no_mouse e" and "no_key e" and "no_tracking e"
    and "eventNumber e = Some (Inl NSInternalInconsistencyException)"
    using assms(1) unfolding e accessor_defs raising_defs event.select_convs in_groups[OF t]
    by (auto simp: type_lists)
qed

lemma tested_total:
  assumes "in_group t grp = Some ok"
  shows "tested (in_group t grp) x v = Some (if ok then Inr v else Inl x)"
  using assms by (simp add: tested_def)

text \<open>What every event has.\<close>

definition header :: "('p, 't) event \<Rightarrow> 64 word \<times> 'p \<times> 64 word \<times> 't \<times> 64 word \<times> 64 word" where
  "header e =
     (event_type e, location_point e, modifier_flags e, event_time e, window_num e, event_context e)"

text \<open>The result of a constructor for the types of a group: an event as described, or the exception.\<close>

definition creates :: "64 word \<Rightarrow> 64 word list \<Rightarrow> (('p, 't) event \<Rightarrow> bool) \<Rightarrow> ('p, 't) event res \<Rightarrow> bool" where
  "creates t types Q r =
     (case r of Inl x \<Rightarrow> x = NSInvalidArgumentException \<and> t \<notin> set types | Inr e \<Rightarrow> t \<in> set types \<and> Q e)"

lemma creates_tested:
  assumes "f = tested (Some (t \<in> set types)) NSInvalidArgumentException v"
    and "\<And>e. t \<in> set types \<Longrightarrow> f = Some (Inr e) \<Longrightarrow> Q e"
  shows "\<exists>r. f = Some r \<and> creates t types Q r"
  using assms by (cases "t \<in> set types") (simp_all add: creates_def)

lemma key_event_creation:
  assumes "t < 32"
  shows "\<exists>r. keyEventWithType t loc flags time win ctxt keys ukeys rep code = Some r \<and>
      creates t key_types (\<lambda>e. header e = (t, loc, flags, time, win, ctxt) \<and> keyCode e = Some (Inr code) \<and>
        (if t = NSFlagsChanged then no_key e
         else characters e = Inr keys \<and> charactersIgnoringModifiers e = Inr ukeys \<and> isARepeat e = Inr rep) \<and>
        no_mouse e \<and> no_tracking e \<and> no_data e \<and> eventNumber e = Some (Inl NSInternalInconsistencyException)) r"
proof (rule creates_tested[OF keyEventWithType_def[of t, unfolded in_groups[OF assms]]], intro conjI)
  fix e
  assume made: "t \<in> set (key_types)" "keyEventWithType t loc flags time win ctxt keys ukeys rep code = Some (Inr e)"
  show "header e = (t, loc, flags, time, win, ctxt)"
    using made unfolding keyEventWithType_def in_groups[OF assms] by (auto simp: header_def)
  show "if t = NSFlagsChanged then no_key e
      else characters e = Inr keys \<and> charactersIgnoringModifiers e = Inr ukeys \<and> isARepeat e = Inr rep"
    by (rule key_event_accessors(6)[OF made])
qed ((rule key_event_accessors, assumption+) | use key_event_accessors(6) in simp)+

lemma mouse_event_creation:
  assumes "t < 32"
  shows "\<exists>r. mouseEventWithButton t loc flags time win ctxt num clicks press button dx dy dz = Some r \<and>
      creates t (moved_types @ button_types @ tablet_types) (\<lambda>e. header e = (t, loc, flags, time, win, ctxt) \<and>
        buttonNumber e = Some (Inr button) \<and> clickCount e = Some (Inr clicks) \<and>
        pressure e = Some (Inr press) \<and> eventNumber e = Some (Inr num) \<and>
        (deltaX e, deltaY e, deltaZ e) =
          (if t \<in> set moved_types then (Some dx, Some dy, Some dz) else (Some 0, Some 0, Some 0)) \<and>
        no_key e \<and> no_tracking e \<and> no_data e \<and> keyCode e = Some (Inl NSInternalInconsistencyException)) r"
proof (rule creates_tested[OF mouseEventWithButton_def[of t, unfolded in_groups[OF assms]]], intro conjI)
  fix e
  assume made: "t \<in> set (moved_types @ button_types @ tablet_types)" "mouseEventWithButton t loc flags time win ctxt num clicks press button dx dy dz = Some (Inr e)"
  show "header e = (t, loc, flags, time, win, ctxt)"
    using made unfolding mouseEventWithButton_def in_groups[OF assms] by (auto simp: header_def)
  show "(deltaX e, deltaY e, deltaZ e) =
      (if t \<in> set moved_types then (Some dx, Some dy, Some dz) else (Some 0, Some 0, Some 0))"
    using mouse_event_accessors(5-7)[OF made] by simp
qed ((rule mouse_event_accessors, assumption+) | use mouse_event_accessors(6) in simp)+

lemma other_event_creation:
  assumes "t < 32"
  shows "\<exists>r. otherEventWithType t loc flags time win ctxt sub d1 d2 = Some r \<and>
      creates t other_types (\<lambda>e. header e = (t, loc, flags, time, win, ctxt) \<and> subtype e = Some (Inr sub) \<and>
        data1 e = Inr d1 \<and> data2 e = Inr d2 \<and> no_mouse e \<and> no_key e \<and> no_tracking e \<and>
        eventNumber e = Some (Inl NSInternalInconsistencyException)) r"
proof (rule creates_tested[OF otherEventWithType_def[of t, unfolded in_groups[OF assms]]], intro conjI)
  fix e
  assume made: "t \<in> set (other_types)" "otherEventWithType t loc flags time win ctxt sub d1 d2 = Some (Inr e)"
  show "header e = (t, loc, flags, time, win, ctxt)"
    using made unfolding otherEventWithType_def in_groups[OF assms] by (auto simp: header_def)
qed ((rule other_event_accessors, assumption+) | use other_event_accessors(6) in simp)+

lemma tracking_event_creation:
  "creates t tracking_types (\<lambda>e. header e = (t, loc, flags, time, win, ctxt) \<and> eventNumber e = Some (Inr num) \<and>
        trackingNumber e = Inr track \<and> userData e = Inr user \<and> no_mouse e \<and> no_key e \<and> no_data e \<and>
        keyCode e = Some (Inl NSInternalInconsistencyException))
      (enterExitEventWithType t loc flags time win ctxt num track user)"
  using tracking_event_accessors[of t loc flags time win ctxt num track user]
  by (auto simp: creates_def enterExitEventWithType_def header_def tracking_types_def split: if_splits)



text \<open>The data of an event as far as the widths of the archive keep them.\<close>

definition kept_data :: "(64 word \<Rightarrow> 64 word) \<Rightarrow> 64 word \<Rightarrow> event_data \<Rightarrow> event_data" where
  "kept_data obj type d =
     (if type \<in> set (button_types @ moved_types) then
        \<lparr>word0 = take_bit 32 (word0 d), word1 = take_bit 32 (word1 d), word2 = take_bit 32 (word2 d),
         word3 = take_bit 32 (word3 d), word4 = take_bit 32 (word4 d), word5 = take_bit 32 (word5 d),
         word6 = take_bit 32 (word6 d)\<rparr>
      else if type \<in> set tracking_types then
        zero_data\<lparr>word0 := take_bit 32 (word0 d), word1 := take_bit 32 (word1 d)\<rparr>
      else if type \<in> set key_types then
        zero_data\<lparr>word0 := take_bit 8 (word0 d), word1 := obj (word1 d), word2 := obj (word2 d),
                  word3 := take_bit 16 (word3 d)\<rparr>
      else if type \<in> set other_types then
        zero_data\<lparr>word0 := take_bit 16 (word0 d), word1 := take_bit 32 (word1 d),
                  word2 := take_bit 32 (word2 d)\<rparr>
      else zero_data)"

lemma event_kept:
  "\<exists>e'. initWithCoder False 3 obj (encodeWithCoder False e) = Some e' \<and>
     event_type e' = event_type e \<and> location_point e' = location_point e \<and>
     modifier_flags e' = modifier_flags e \<and> event_time e' = event_time e \<and>
     window_num e' = window_num e \<and> event_context e' = 0 \<and>
     event_data e' = kept_data obj (event_type e) (event_data e)"
proof -
  have zero: "word0 zero_data = 0" "word1 zero_data = 0" "word2 zero_data = 0" "word3 zero_data = 0"
    "word4 zero_data = 0" "word5 zero_data = 0" "word6 zero_data = 0"
    by (simp_all add: zero_data_def)
  show ?thesis
    by (simp add: initWithCoder_def encodeWithCoder_def converted_type_def encode_data_def
      decode_data_def decode_mouse_def decode_tracking_def decode_key_def decode_other_def
      kept_data_def zero)
qed

text \<open>C30: An archived event comes back with its type, position, modifiers, time and window, and with the
  data of its type cut to the widths of the archive: integers and \<open>CGFloat\<close>s to their lowest 32 bits in
  memory. A keyed archive keeps nothing.\<close>

theorem event_archive:
  "(\<exists>e'. initWithCoder False 3 obj (encodeWithCoder False e) = Some e' \<and>
     event_type e' = event_type e \<and> location_point e' = location_point e \<and>
     modifier_flags e' = modifier_flags e \<and> event_time e' = event_time e \<and>
     window_num e' = window_num e \<and> event_context e' = 0 \<and>
     event_data e' = kept_data obj (event_type e) (event_data e)) \<and>
   initWithCoder True 3 obj (encodeWithCoder True e) = Some allocated"
  by (rule conjI[OF event_kept]) (simp add: initWithCoder_def)

text \<open>A scroll by one line: the bits of the double 1.0 have a zero low half, so the movement is lost.\<close>

lemma archived_delta_lost:
  fixes e :: "(nat, nat) event"
  assumes "event_type e = NSScrollWheel" and "word4 (event_data e) = 0x3FF0000000000000"
    and "initWithCoder False 3 obj (encodeWithCoder False e) = Some e'"
  shows "deltaX e = Some 0x3FF0000000000000" and "deltaX e' = Some 0"
proof -
  have wheel: "NSScrollWheel < 32" by simp
  have moved: "in_group (event_type e) GSMouseMovedEventMask = Some True"
    unfolding assms(1) in_groups[OF wheel] by (simp add: type_lists)
  obtain same: "event_type e' = event_type e"
    and kept: "event_data e' = kept_data obj (event_type e) (event_data e)"
    using event_kept[of obj e] assms(3) by auto
  show "deltaX e = Some 0x3FF0000000000000"
    by (simp only: deltaX_def moved option.map if_True assms(2))
  have "event_type e \<in> set moved_types" using assms(1) by (simp add: type_lists)
  then have "word4 (event_data e') = 0" by (simp add: kept kept_data_def assms(2))
  then show "deltaX e' = Some 0"
    by (simp only: deltaX_def same moved option.map if_True)
qed

end
