(* ===== verification/Cells.thy ===== *)
theory Cells
  imports Events
begin

text \<open>
  The flags of \<open>NSCell\<close> (\<open>Headers/AppKit/NSCell.h\<close>, \<open>Source/NSCell.m\<close>): the enumerations stored in
  them, the structure \<open>GSCellFlagsType\<close>, the setters, and the two flag words of a keyed archive.
\<close>

subsection \<open>Enumerations\<close>

definition NSCellType_enum :: enum_decl where
  "NSCellType_enum = [
     (''NSNullCellType'', None), (''NSTextCellType'', None), (''NSImageCellType'', None)]"

definition NSCellEntryType_enum :: enum_decl where
  "NSCellEntryType_enum = [
     (''NSAnyType'', None), (''NSIntType'', None), (''NSPositiveIntType'', None),
     (''NSFloatType'', None), (''NSPositiveFloatType'', None), (''NSDoubleType'', None),
     (''NSPositiveDoubleType'', None), (''NSDateType'', None)]"

definition NSCellImagePosition_enum :: enum_decl where
  "NSCellImagePosition_enum = [
     (''NSNoImage'', Some (Lit 0)), (''NSImageOnly'', None), (''NSImageLeft'', None),
     (''NSImageRight'', None), (''NSImageBelow'', None), (''NSImageAbove'', None),
     (''NSImageOverlaps'', None)]"

definition NSCellAttribute_enum :: enum_decl where
  "NSCellAttribute_enum = [
     (''NSCellDisabled'', None), (''NSCellState'', None), (''NSPushInCell'', None),
     (''NSCellEditable'', None), (''NSChangeGrayCell'', None), (''NSCellHighlighted'', None),
     (''NSCellLightsByContents'', None), (''NSCellLightsByGray'', None),
     (''NSChangeBackgroundCell'', None), (''NSCellLightsByBackground'', None),
     (''NSCellIsBordered'', None), (''NSCellHasOverlappingImage'', None),
     (''NSCellHasImageHorizontal'', None), (''NSCellHasImageOnLeftOrBottom'', None),
     (''NSCellChangesContents'', None), (''NSCellIsInsetButton'', None),
     (''NSCellAllowsMixedState'', None)]"

definition NSCellMasks_enum :: enum_decl where
  "NSCellMasks_enum = [
     (''NSNoCellMask'', Some (Lit 0)), (''NSContentsCellMask'', Some (Lit 1)),
     (''NSPushInCellMask'', Some (Lit 2)), (''NSChangeGrayCellMask'', Some (Lit 4)),
     (''NSChangeBackgroundCellMask'', Some (Lit 8))]"

definition GSCellTextImage_enum :: enum_decl where
  "GSCellTextImage_enum = [
     (''GSCellTextImageXDist'', Some (Lit 2)), (''GSCellTextImageYDist'', Some (Lit 2))]"

definition NSCellStateValue_enum :: enum_decl where
  "NSCellStateValue_enum = [
     (''NSMixedState'', Some (Lit (-1))), (''NSOffState'', Some (Lit 0)),
     (''NSOnState'', Some (Lit 1))]"

definition NSControlStateValue_enum :: enum_decl where
  "NSControlStateValue_enum = [
     (''NSControlStateValueMixed'', Some (Lit (-1))), (''NSControlStateValueOff'', Some (Lit 0)),
     (''NSControlStateValueOn'', Some (Lit 1))]"

definition NSImageScaling_enum :: enum_decl where
  "NSImageScaling_enum = [
     (''NSScaleProportionally'', Some (Lit 0)), (''NSScaleToFit'', Some (Lit 1)),
     (''NSScaleNone'', Some (Lit 2)), (''NSImageScaleProportionallyDown'', Some (Lit 0)),
     (''NSImageScaleAxesIndependently'', Some (Lit 1)), (''NSImageScaleNone'', Some (Lit 2)),
     (''NSImageScaleProportionallyUpOrDown'', Some (Lit 3))]"

definition NSCellHit_enum :: enum_decl where
  "NSCellHit_enum = [
     (''NSCellHitNone'', Some (Lit 0)), (''NSCellHitContentArea'', Some (Lit 1)),
     (''NSCellHitEditableTextArea'', Some (Lit 2)), (''NSCellHitTrackableArea'', Some (Lit 4))]"

definition NSBackgroundStyle_enum :: enum_decl where
  "NSBackgroundStyle_enum = [
     (''NSBackgroundStyleLight'', Some (Lit 0)), (''NSBackgroundStyleNormal'', Some (Lit 0)),
     (''NSBackgroundStyleDark'', Some (Lit 1)), (''NSBackgroundStyleEmphasized'', Some (Lit 1)),
     (''NSBackgroundStyleRaised'', Some (Lit 2)), (''NSBackgroundStyleLowered'', Some (Lit 3))]"

definition NSControlSize2_enum :: enum_decl where
  "NSControlSize2_enum = [
     (''NSControlSizeRegular'', None), (''NSControlSizeSmall'', None), (''NSControlSizeMini'', None)]"

definition NSControlTint_enum :: enum_decl where
  "NSControlTint_enum = [
     (''NSDefaultControlTint'', None), (''NSBlueControlTint'', None),
     (''NSGraphiteControlTint'', Some (Lit 6)), (''NSClearControlTint'', None)]"

definition NSControlSize_enum :: enum_decl where
  "NSControlSize_enum = [
     (''NSRegularControlSize'', None), (''NSSmallControlSize'', None), (''NSMiniControlSize'', None)]"

definition NSTextAlignment_enum :: enum_decl where
  "NSTextAlignment_enum = [
     (''NSLeftTextAlignment'', Some (Lit 0)), (''NSCenterTextAlignment'', Some (Lit 1)),
     (''NSRightTextAlignment'', Some (Lit 2)), (''NSJustifiedTextAlignment'', Some (Lit 3)),
     (''NSNaturalTextAlignment'', Some (Lit 4))]"

definition NSLineBreakMode_enum :: enum_decl where
  "NSLineBreakMode_enum = [
     (''NSLineBreakByWordWrapping'', Some (Lit 0)), (''NSLineBreakByCharWrapping'', None),
     (''NSLineBreakByClipping'', None), (''NSLineBreakByTruncatingHead'', None),
     (''NSLineBreakByTruncatingTail'', None), (''NSLineBreakByTruncatingMiddle'', None)]"

definition NSWritingDirection_enum :: enum_decl where
  "NSWritingDirection_enum = [
     (''NSWritingDirectionNaturalDirection'', None), (''NSWritingDirectionLeftToRight'', None),
     (''NSWritingDirectionRightToLeft'', None)]"

definition NSFocusRingType_enum :: enum_decl where
  "NSFocusRingType_enum = [
     (''NSFocusRingTypeDefault'', Some (Lit 0)), (''NSFocusRingTypeNone'', Some (Lit 1)),
     (''NSFocusRingTypeExterior'', Some (Lit 2))]"

subsection \<open>The flags of a cell\<close>

text \<open>The structure \<open>GSCellFlagsType\<close>, with the mouse flags and the action mask that follow it.\<close>

record cell =
  contents_is_attributed_string :: bool
  is_highlighted :: bool
  is_disabled :: bool
  is_editable :: bool
  is_rich_text :: bool
  imports_graphics :: bool
  shows_first_responder :: bool
  refuses_first_responder :: bool
  sends_action_on_end_editing :: bool
  is_bordered :: bool
  is_bezeled :: bool
  is_scrollable :: bool
  cell_reserved :: bool
  text_align :: "3 word"
  is_selectable :: bool
  allows_mixed_state :: bool
  has_valid_object_value :: bool
  cell_type :: "2 word"
  image_position :: "3 word"
  entry_type :: "4 word"
  allows_undo :: bool
  line_break_mode :: "3 word"
  cell_state :: "2 word"
  mnemonic_location :: "8 word"
  control_tint :: "3 word"
  control_size :: "2 word"
  focus_ring_type :: "2 word"
  base_writing_direction :: "2 word"
  subclass_bool_one :: bool
  subclass_bool_two :: bool
  subclass_bool_three :: bool
  subclass_bool_four :: bool
  in_editing :: bool
  uses_single_line_mode :: bool
  background_style :: "2 word"
  mouse_down_flags :: "64 word"
  action_mask :: "64 word"

text \<open>
  \<open>BOOL\<close> is an unsigned character. Storing one in a bit field of width 1 keeps its lowest bit, while
  a condition on it asks whether it is not 0.
\<close>

type_synonym BOOL = "8 word"

abbreviation YES :: BOOL where "YES \<equiv> 1"
abbreviation NO :: BOOL where "NO \<equiv> 0"

definition low :: "BOOL \<Rightarrow> bool" where
  "low flag = bit flag 0"

definition NSTextCellType :: "2 word" where "NSTextCellType = 1"
definition NSImageCellType :: "2 word" where "NSImageCellType = 2"
definition NSLineBreakByWordWrapping :: "3 word" where "NSLineBreakByWordWrapping = 0"
definition NSLineBreakByCharWrapping :: "3 word" where "NSLineBreakByCharWrapping = 1"
definition NSLineBreakByClipping :: "3 word" where "NSLineBreakByClipping = 2"

text \<open>The state is a signed field of two bits.\<close>

definition NSMixedState :: "2 word" where "NSMixedState = - 1"
definition NSOffState :: "2 word" where "NSOffState = 0"
definition NSOnState :: "2 word" where "NSOnState = 1"

lemmas cell_constants [simp] =
  NSTextCellType_def NSImageCellType_def NSLineBreakByWordWrapping_def NSLineBreakByCharWrapping_def
  NSLineBreakByClipping_def NSMixedState_def NSOffState_def NSOnState_def

subsection \<open>Setters\<close>

definition setFocusRingType :: "64 word \<Rightarrow> cell \<Rightarrow> cell" where
  "setFocusRingType t c = c\<lparr>focus_ring_type := ucast t\<rparr>"

definition setShowsFirstResponder :: "BOOL \<Rightarrow> cell \<Rightarrow> cell" where
  "setShowsFirstResponder flag c = c\<lparr>shows_first_responder := low flag\<rparr>"

definition setRefusesFirstResponder :: "BOOL \<Rightarrow> cell \<Rightarrow> cell" where
  "setRefusesFirstResponder flag c = c\<lparr>refuses_first_responder := low flag\<rparr>"

definition setSendsActionOnEndEditing :: "BOOL \<Rightarrow> cell \<Rightarrow> cell" where
  "setSendsActionOnEndEditing flag c = c\<lparr>sends_action_on_end_editing := low flag\<rparr>"

definition setAllowsUndo :: "BOOL \<Rightarrow> cell \<Rightarrow> cell" where
  "setAllowsUndo flag c = c\<lparr>allows_undo := low flag\<rparr>"

definition setEnabled :: "BOOL \<Rightarrow> cell \<Rightarrow> cell" where
  "setEnabled flag c = c\<lparr>is_disabled := (flag = 0)\<rparr>"

definition setHighlighted :: "BOOL \<Rightarrow> cell \<Rightarrow> cell" where
  "setHighlighted flag c = c\<lparr>is_highlighted := low flag\<rparr>"

definition setBezeled :: "BOOL \<Rightarrow> cell \<Rightarrow> cell" where
  "setBezeled flag c = c\<lparr>is_bezeled := low flag, is_bordered := False\<rparr>"

definition setBordered :: "BOOL \<Rightarrow> cell \<Rightarrow> cell" where
  "setBordered flag c = c\<lparr>is_bordered := low flag, is_bezeled := False\<rparr>"

definition setEditable :: "BOOL \<Rightarrow> cell \<Rightarrow> cell" where
  "setEditable flag c = c\<lparr>is_editable := low flag\<rparr>"

definition setSelectable :: "BOOL \<Rightarrow> cell \<Rightarrow> cell" where
  "setSelectable flag c =
     (let c = c\<lparr>is_selectable := low flag\<rparr> in if flag = 0 then c\<lparr>is_editable := False\<rparr> else c)"

definition isSelectable :: "cell \<Rightarrow> bool" where
  "isSelectable c \<longleftrightarrow> is_selectable c \<or> is_editable c"

definition setLineBreakMode :: "64 word \<Rightarrow> cell \<Rightarrow> cell" where
  "setLineBreakMode mode c =
     (let c = (if mode = ucast NSLineBreakByCharWrapping \<or> mode = ucast NSLineBreakByWordWrapping
               then c\<lparr>is_scrollable := False\<rparr> else c)
      in c\<lparr>line_break_mode := ucast mode\<rparr>)"

definition wraps :: "cell \<Rightarrow> bool" where
  "wraps c \<longleftrightarrow> line_break_mode c = NSLineBreakByWordWrapping \<or>
     line_break_mode c = NSLineBreakByCharWrapping"

definition setWraps :: "BOOL \<Rightarrow> cell \<Rightarrow> cell" where
  "setWraps flag c =
     (if flag \<noteq> 0
      then (if \<not> wraps c then setLineBreakMode (ucast NSLineBreakByWordWrapping) c else c)
      else (if wraps c then setLineBreakMode (ucast NSLineBreakByClipping) c else c))"

definition setScrollable :: "BOOL \<Rightarrow> cell \<Rightarrow> cell" where
  "setScrollable flag c =
     (let c = c\<lparr>is_scrollable := low flag\<rparr> in if flag \<noteq> 0 then setWraps NO c else c)"

definition setState :: "64 word \<Rightarrow> cell \<Rightarrow> cell" where
  "setState v c =
     c\<lparr>cell_state :=
         (if 0 <s v \<or> v <s 0 \<and> \<not> allows_mixed_state c then NSOnState
          else if v = 0 then NSOffState
          else NSMixedState)\<rparr>"

definition nextState :: "cell \<Rightarrow> 2 word" where
  "nextState c =
     (if cell_state c = NSOnState then NSOffState
      else if cell_state c = NSOffState then (if allows_mixed_state c then NSMixedState else NSOnState)
      else NSOnState)"

definition setNextState :: "cell \<Rightarrow> cell" where
  "setNextState c = setState (scast (nextState c)) c"

definition setAllowsMixedState :: "BOOL \<Rightarrow> cell \<Rightarrow> cell" where
  "setAllowsMixedState flag c =
     (let c = c\<lparr>allows_mixed_state := low flag\<rparr>
      in if flag = 0 \<and> cell_state c = NSMixedState then setNextState c else c)"

definition setCellAlignment :: "64 word \<Rightarrow> cell \<Rightarrow> cell" where
  "setCellAlignment mode c = c\<lparr>text_align := ucast mode\<rparr>"

definition setAllowsEditingTextAttributes :: "BOOL \<Rightarrow> cell \<Rightarrow> cell" where
  "setAllowsEditingTextAttributes flag c =
     (let c = c\<lparr>is_rich_text := low flag\<rparr> in if flag = 0 then c\<lparr>imports_graphics := False\<rparr> else c)"

definition setImportsGraphics :: "BOOL \<Rightarrow> cell \<Rightarrow> cell" where
  "setImportsGraphics flag c =
     (let c = c\<lparr>imports_graphics := low flag\<rparr> in if flag \<noteq> 0 then c\<lparr>is_rich_text := True\<rparr> else c)"

definition setControlTint :: "64 word \<Rightarrow> cell \<Rightarrow> cell" where
  "setControlTint t c = c\<lparr>control_tint := ucast t\<rparr>"

definition setControlSize :: "64 word \<Rightarrow> cell \<Rightarrow> cell" where
  "setControlSize s c = c\<lparr>control_size := ucast s\<rparr>"

definition setUsesSingleLineMode :: "BOOL \<Rightarrow> cell \<Rightarrow> cell" where
  "setUsesSingleLineMode flag c = c\<lparr>uses_single_line_mode := low flag\<rparr>"

definition sendActionOn :: "64 word \<Rightarrow> cell \<Rightarrow> cell" where
  "sendActionOn m c = c\<lparr>action_mask := m\<rparr>"

definition NSLeftMouseDownMask :: "64 word" where "NSLeftMouseDownMask = 0x2"
definition NSLeftMouseUpMask :: "64 word" where "NSLeftMouseUpMask = 0x4"
definition NSLeftMouseDraggedMask :: "64 word" where "NSLeftMouseDraggedMask = 0x40"
definition NSPeriodicMask :: "64 word" where "NSPeriodicMask = 0x10000"

lemmas action_masks = NSLeftMouseDownMask_def NSLeftMouseUpMask_def NSLeftMouseDraggedMask_def
  NSPeriodicMask_def

lemma masks_of_types:
  "NSEventMaskFromType NSLeftMouseDown = Some NSLeftMouseDownMask"
  "NSEventMaskFromType NSLeftMouseUp = Some NSLeftMouseUpMask"
  "NSEventMaskFromType NSLeftMouseDragged = Some NSLeftMouseDraggedMask"
  "NSEventMaskFromType NSPeriodic = Some NSPeriodicMask"
  by (simp_all add: NSEventMaskFromType_def action_masks)

definition isContinuous :: "cell \<Rightarrow> bool" where
  "isContinuous c \<longleftrightarrow> action_mask c AND NSPeriodicMask \<noteq> 0"

definition setContinuous :: "BOOL \<Rightarrow> cell \<Rightarrow> cell" where
  "setContinuous flag c =
     (if flag \<noteq> 0 then c\<lparr>action_mask := action_mask c OR NSPeriodicMask\<rparr>
      else c\<lparr>action_mask := action_mask c AND NOT NSPeriodicMask\<rparr>)"

text \<open>The type is changed with the contents and the font, of which only the kind of contents is here.\<close>

definition setType :: "64 word \<Rightarrow> cell \<Rightarrow> cell" where
  "setType t c =
     (if ucast (cell_type c) = t then c
      else let c = c\<lparr>cell_type := ucast t\<rparr>
           in if cell_type c = NSTextCellType then c\<lparr>contents_is_attributed_string := False\<rparr> else c)"

text \<open>The type of a cell with an image.\<close>

definition typeOf :: "bool \<Rightarrow> cell \<Rightarrow> 2 word" where
  "typeOf has_image c = (if cell_type c = NSImageCellType \<and> \<not> has_image then 0 else cell_type c)"

subsection \<open>The flag words of a keyed archive\<close>

text \<open>The words are built in \<open>unsigned long\<close> and \<open>unsigned int\<close> and archived as \<open>int\<close>.\<close>

definition encode_flags :: "bool \<Rightarrow> cell \<Rightarrow> 32 word" where
  "encode_flags has_image c = ucast (
     (ucast (focus_ring_type c) :: 64 word)
     OR (if shows_first_responder c then 0x4 else 0)
     OR (if action_mask c AND NSLeftMouseUpMask \<noteq> 0 then 0 else 0x20)
     OR (if wraps c then 0x40 else 0)
     OR (if action_mask c AND NSLeftMouseDraggedMask \<noteq> 0 then 0x100 else 0)
     OR (if action_mask c AND NSLeftMouseDownMask \<noteq> 0 then 0x40000 else 0)
     OR (if isContinuous c then 0x80000 else 0)
     OR (if is_scrollable c then 0x100000 else 0)
     OR (if isSelectable c then 0x200000 else 0)
     OR (if is_bezeled c then 0x400000 else 0)
     OR (if is_bordered c then 0x800000 else 0)
     OR push_bit 26 (ucast (typeOf has_image c))
     OR (if is_editable c then 0x10000000 else 0)
     OR (if is_disabled c then 0x20000000 else 0)
     OR (if is_highlighted c then 0x40000000 else 0)
     OR (if cell_state c = NSOnState then 0x80000000 else 0))"

definition encode_flags2 :: "cell \<Rightarrow> 32 word" where
  "encode_flags2 c =
     (if uses_single_line_mode c then 0x40 else 0)
     OR (if \<not> allows_undo c then 0x1000 else 0)
     OR push_bit 5 (ucast (control_tint c))
     OR push_bit 9 (ucast (line_break_mode c))
     OR push_bit 17 (ucast (control_size c))
     OR (if sends_action_on_end_editing c then 0x400000 else 0)
     OR (if allows_mixed_state c then 0x1000000 else 0)
     OR (if refuses_first_responder c then 0x2000000 else 0)
     OR push_bit 26 (ucast (text_align c))
     OR (if imports_graphics c then 0x20000000 else 0)
     OR (if is_rich_text c then 0x40000000 else 0)"

text \<open>The value of a comparison of a flag with its mask.\<close>

definition has :: "'a :: len word \<Rightarrow> 'a word \<Rightarrow> BOOL" where
  "has w m = of_bool (w AND m = m)"

text \<open>\<open>decodeIntForKey:\<close> answers an \<open>int\<close>, extended to \<open>unsigned long\<close> with its sign.\<close>

definition decode_flags :: "bool \<Rightarrow> 32 word \<Rightarrow> cell \<Rightarrow> cell" where
  "decode_flags no_contents item c =
     (let w = (scast item :: 64 word);
          c = setFocusRingType (w AND 0x3) c;
          c = setShowsFirstResponder (has w 0x4) c;
          m = (if w AND 0x20 \<noteq> 0x20 then NSLeftMouseUpMask else 0);
          c = setWraps (of_bool (w AND 0x40 \<noteq> 0x40)) c;
          m = (if w AND 0x100 = 0x100 then m OR NSLeftMouseDraggedMask else m);
          m = (if w AND 0x40000 = 0x40000 then m OR NSLeftMouseDownMask else m);
          m = (if w AND 0x80000 = 0x80000 then m OR NSPeriodicMask else m);
          c = sendActionOn m c;
          c = setScrollable (has w 0x100000) c;
          c = setSelectable (has w 0x200000) c;
          c = setBezeled (has w 0x400000) c;
          c = setBordered (has w 0x800000) c;
          c = (if no_contents then setType (drop_bit 26 (w AND 0xC000000)) c else c);
          c = setEditable (has w 0x10000000) c;
          c = setEnabled (of_bool (w AND 0x20000000 \<noteq> 0x20000000)) c;
          c = setHighlighted (has w 0x40000000) c
      in setState (if w AND 0x80000000 = 0x80000000 then 1 else 0) c)"

text \<open>The argument of \<open>setUsesSingleLineMode:\<close> is the masked flag itself.\<close>

definition decode_flags2 :: "32 word \<Rightarrow> cell \<Rightarrow> cell" where
  "decode_flags2 w c =
     (let c = setUsesSingleLineMode (ucast (w AND 0x40)) c;
          c = setControlTint (scast (signed_drop_bit 5 (w AND 0xE0))) c;
          c = setLineBreakMode (scast (signed_drop_bit 9 (w AND 0xE00))) c;
          c = setControlSize (scast (signed_drop_bit 17 (w AND 0xE0000))) c;
          c = setSendsActionOnEndEditing (has w 0x400000) c;
          c = setAllowsMixedState (has w 0x1000000) c;
          c = setRefusesFirstResponder (has w 0x2000000) c;
          c = setCellAlignment (scast (signed_drop_bit 26 (w AND 0x1C000000))) c;
          c = setImportsGraphics (has w 0x20000000) c
      in setAllowsEditingTextAttributes (has w 0x40000000) c)"

subsection \<open>Bits of the flag words\<close>

lemma bit_if: "bit (if b then x else y) n = (if b then bit x n else bit y n)"
  by simp

lemma mask_test: "(w :: 'a :: len word) AND 2 ^ k = 2 ^ k \<longleftrightarrow> bit w k \<or> LENGTH('a) \<le> k"
proof
  assume "w AND 2 ^ k = 2 ^ k"
  then have "bit (w AND 2 ^ k) k = bit (2 ^ k :: 'a word) k" by simp
  then show "bit w k \<or> LENGTH('a) \<le> k" by (auto simp: bit_simps)
next
  assume "bit w k \<or> LENGTH('a) \<le> k"
  then show "w AND 2 ^ k = 2 ^ k" by (intro bit_word_eqI) (auto simp: bit_simps)
qed

lemma mask_test_numeral:
  "(w :: 64 word) AND 0x4 = 0x4 \<longleftrightarrow> bit w 2"
  "w AND 0x20 = 0x20 \<longleftrightarrow> bit w 5"
  "w AND 0x40 = 0x40 \<longleftrightarrow> bit w 6"
  "w AND 0x100 = 0x100 \<longleftrightarrow> bit w 8"
  "w AND 0x40000 = 0x40000 \<longleftrightarrow> bit w 18"
  "w AND 0x80000 = 0x80000 \<longleftrightarrow> bit w 19"
  "w AND 0x100000 = 0x100000 \<longleftrightarrow> bit w 20"
  "w AND 0x200000 = 0x200000 \<longleftrightarrow> bit w 21"
  "w AND 0x400000 = 0x400000 \<longleftrightarrow> bit w 22"
  "w AND 0x800000 = 0x800000 \<longleftrightarrow> bit w 23"
  "w AND 0x10000000 = 0x10000000 \<longleftrightarrow> bit w 28"
  "w AND 0x20000000 = 0x20000000 \<longleftrightarrow> bit w 29"
  "w AND 0x40000000 = 0x40000000 \<longleftrightarrow> bit w 30"
  "w AND 0x80000000 = 0x80000000 \<longleftrightarrow> bit w 31"
  "(v :: 32 word) AND 0x400000 = 0x400000 \<longleftrightarrow> bit v 22"
  "v AND 0x1000000 = 0x1000000 \<longleftrightarrow> bit v 24"
  "v AND 0x2000000 = 0x2000000 \<longleftrightarrow> bit v 25"
  "v AND 0x20000000 = 0x20000000 \<longleftrightarrow> bit v 29"
  "v AND 0x40000000 = 0x40000000 \<longleftrightarrow> bit v 30"
  using mask_test[of w 2] mask_test[of w 5] mask_test[of w 6] mask_test[of w 8] mask_test[of w 18]
    mask_test[of w 19] mask_test[of w 20] mask_test[of w 21] mask_test[of w 22] mask_test[of w 23]
    mask_test[of w 28] mask_test[of w 29] mask_test[of w 30] mask_test[of w 31] mask_test[of v 22]
    mask_test[of v 24] mask_test[of v 25] mask_test[of v 29] mask_test[of v 30]
  by simp_all

lemma narrow_bits [simp]:
  "2 \<le> n \<Longrightarrow> \<not> bit (x :: 2 word) n" "3 \<le> n \<Longrightarrow> \<not> bit (y :: 3 word) n"
  using bit_imp_le_length[of x n] bit_imp_le_length[of y n] by auto

lemma bit_signed_64: "bit (scast (x :: 32 word) :: 64 word) n \<longleftrightarrow> n < 64 \<and> bit x (min n 31)"
  by (auto simp: bit_simps min_def)

lemma bit_ucast_32: "bit (ucast (x :: 64 word) :: 32 word) n \<longleftrightarrow> n < 32 \<and> bit x n"
  by (auto simp: bit_simps)

lemma bit_ucast_up:
  "bit (ucast (x :: 2 word) :: 64 word) n \<longleftrightarrow> bit x n"
  "bit (ucast (y :: 3 word) :: 64 word) n \<longleftrightarrow> bit y n"
  "bit (ucast (x :: 2 word) :: 32 word) n \<longleftrightarrow> bit x n"
  "bit (ucast (y :: 3 word) :: 32 word) n \<longleftrightarrow> bit y n"
  by (auto simp: bit_simps dest: bit_imp_le_length)

lemmas flag_bits = bit_signed_64 bit_ucast_32 bit_ucast_up bit_or_iff bit_and_iff bit_if bit_push_bit_iff

lemma bit_mask_7: "bit (7 :: 32 word) n \<longleftrightarrow> n < 3"
proof -
  have "(7 :: 32 word) = mask 3" by (simp add: mask_eq_exp_minus_1)
  then show ?thesis by (simp only: bit_mask_iff) auto
qed

text \<open>Fields of three and two bits, cut out of a word and stored.\<close>

lemma cut_of_7:
  assumes "k + 3 < 32"
  shows "bit (scast (signed_drop_bit k ((v :: 32 word) AND push_bit k 7)) :: 64 word) n \<longleftrightarrow>
    n < 3 \<and> bit v (k + n)"
  using assms unfolding bit_signed_64 bit_signed_drop_bit_iff bit_and_iff bit_push_bit_iff bit_mask_7
  by (auto simp: min_def)

lemma field_of_3:
  assumes "k + 3 < 32" and "\<And>i. i < 3 \<Longrightarrow> bit (v :: 32 word) (k + i) = bit (y :: 3 word) i"
  shows "scast (signed_drop_bit k (v AND push_bit k 7)) = (ucast y :: 64 word)"
proof (rule bit_word_eqI)
  fix n
  show "bit (scast (signed_drop_bit k (v AND push_bit k 7)) :: 64 word) n = bit (ucast y :: 64 word) n"
    unfolding cut_of_7[OF assms(1)] bit_ucast_up using assms(2)[of n] by (cases "n < 3") simp_all
qed

lemma field_of_2:
  assumes "k + 3 < 32" and "\<And>i. i < 2 \<Longrightarrow> bit (v :: 32 word) (k + i) = bit (x :: 2 word) i"
  shows "ucast (scast (signed_drop_bit k (v AND push_bit k 7)) :: 64 word) = x"
proof (rule bit_word_eqI)
  fix n assume "n < LENGTH(2)"
  then have "n < 2" by simp
  then show "bit (ucast (scast (signed_drop_bit k (v AND push_bit k 7)) :: 64 word) :: 2 word) n = bit x n"
    unfolding bit_unsigned_iff cut_of_7[OF assms(1)] using assms(2) by simp
qed

lemma below_2: "n < (2 :: nat) \<Longrightarrow> n = 0 \<or> n = 1"
  by auto

lemma below_3: "n < (3 :: nat) \<Longrightarrow> n = 0 \<or> n = 1 \<or> n = 2"
  by auto

lemma encoded_bits:
  defines "w \<equiv> \<lambda>img c. scast (encode_flags img c) :: 64 word"
  shows "bit (w img c) 0 = bit (focus_ring_type c) 0"
    and "bit (w img c) 1 = bit (focus_ring_type c) 1"
    and "bit (w img c) 2 = shows_first_responder c"
    and "bit (w img c) 5 = (action_mask c AND NSLeftMouseUpMask = 0)"
    and "bit (w img c) 6 = wraps c"
    and "bit (w img c) 8 = (action_mask c AND NSLeftMouseDraggedMask \<noteq> 0)"
    and "bit (w img c) 18 = (action_mask c AND NSLeftMouseDownMask \<noteq> 0)"
    and "bit (w img c) 19 = isContinuous c"
    and "bit (w img c) 20 = is_scrollable c"
    and "bit (w img c) 21 = isSelectable c"
    and "bit (w img c) 22 = is_bezeled c"
    and "bit (w img c) 23 = is_bordered c"
    and "bit (w img c) 26 = bit (typeOf img c) 0"
    and "bit (w img c) 27 = bit (typeOf img c) 1"
    and "bit (w img c) 28 = is_editable c"
    and "bit (w img c) 29 = is_disabled c"
    and "bit (w img c) 30 = is_highlighted c"
    and "bit (w img c) 31 = (cell_state c = NSOnState)"
  unfolding w_def encode_flags_def by (simp_all only: flag_bits) simp_all

lemma encoded2_flags:
  "bit (encode_flags2 c) 22 = sends_action_on_end_editing c"
  "bit (encode_flags2 c) 24 = allows_mixed_state c"
  "bit (encode_flags2 c) 25 = refuses_first_responder c"
  "bit (encode_flags2 c) 29 = imports_graphics c"
  "bit (encode_flags2 c) 30 = is_rich_text c"
  unfolding encode_flags2_def by (simp_all only: flag_bits) simp_all

lemma encoded2_tint:
  "i < 3 \<Longrightarrow> bit (encode_flags2 c) (5 + i) = (bit (control_tint c) i \<or> i = 1 \<and> uses_single_line_mode c)"
  unfolding encode_flags2_def by (drule below_3, elim disjE; simp only: flag_bits; simp)

lemma encoded2_mode: "i < 3 \<Longrightarrow> bit (encode_flags2 c) (9 + i) = bit (line_break_mode c) i"
  unfolding encode_flags2_def by (drule below_3, elim disjE; simp only: flag_bits; simp)

lemma encoded2_size: "i < 2 \<Longrightarrow> bit (encode_flags2 c) (17 + i) = bit (control_size c) i"
  unfolding encode_flags2_def by (drule below_2, elim disjE; simp only: flag_bits; simp)

lemma encoded2_align: "i < 3 \<Longrightarrow> bit (encode_flags2 c) (26 + i) = bit (text_align c) i"
  unfolding encode_flags2_def by (drule below_3, elim disjE; simp only: flag_bits; simp)

subsection \<open>Decoding an encoded cell\<close>

lemma bool_flags [simp]:
  "low (of_bool b) = b" "low 0 = False" "low 1 = True" "(of_bool b = (0 :: BOOL)) = (\<not> b)"
  by (simp_all add: low_def)

lemmas setter_defs = setFocusRingType_def setShowsFirstResponder_def setRefusesFirstResponder_def
  setSendsActionOnEndEditing_def setEnabled_def setHighlighted_def setBezeled_def setBordered_def
  setEditable_def setSelectable_def setCellAlignment_def setAllowsEditingTextAttributes_def
  setImportsGraphics_def setControlTint_def setControlSize_def setUsesSingleLineMode_def sendActionOn_def

text \<open>Wrapping and scrolling touch two fields only.\<close>

lemma setLineBreakMode_others:
  "setLineBreakMode m c = c\<lparr>is_scrollable := is_scrollable (setLineBreakMode m c), line_break_mode := ucast m\<rparr>"
  by (simp add: setLineBreakMode_def Let_def)

lemma setWraps_others:
  "setWraps b c = c\<lparr>is_scrollable := is_scrollable (setWraps b c),
     line_break_mode := line_break_mode (setWraps b c)\<rparr>"
  by (simp add: setWraps_def setLineBreakMode_def Let_def)

lemma setScrollable_others:
  "setScrollable (of_bool b) c = c\<lparr>is_scrollable := b,
     line_break_mode := line_break_mode (setScrollable (of_bool b) c)\<rparr>"
  by (simp add: setScrollable_def setWraps_def setLineBreakMode_def Let_def)

definition decoded_mask :: "cell \<Rightarrow> 64 word" where
  "decoded_mask c = action_mask c AND
     (NSLeftMouseUpMask OR NSLeftMouseDraggedMask OR NSLeftMouseDownMask OR NSPeriodicMask)"

lemma and_one_bit: "(w :: 64 word) AND 2 ^ k = (if bit w k then 2 ^ k else 0)"
  by (rule bit_word_eqI) (auto simp: bit_simps)

lemma action_mask_bits:
  "w AND NSLeftMouseUpMask = (if bit w 2 then NSLeftMouseUpMask else 0)"
  "w AND NSLeftMouseDraggedMask = (if bit w 6 then NSLeftMouseDraggedMask else 0)"
  "w AND NSLeftMouseDownMask = (if bit w 1 then NSLeftMouseDownMask else 0)"
  "w AND NSPeriodicMask = (if bit w 16 then NSPeriodicMask else 0)"
  using and_one_bit[of w 2] and_one_bit[of w 6] and_one_bit[of w 1] and_one_bit[of w 16]
  by (simp_all add: action_masks)

lemma mask_rebuilt:
  "(let m = (if action_mask c AND NSLeftMouseUpMask \<noteq> 0 then NSLeftMouseUpMask else 0);
        m = (if action_mask c AND NSLeftMouseDraggedMask \<noteq> 0 then m OR NSLeftMouseDraggedMask else m);
        m = (if action_mask c AND NSLeftMouseDownMask \<noteq> 0 then m OR NSLeftMouseDownMask else m)
    in if isContinuous c then m OR NSPeriodicMask else m) = decoded_mask c"
  unfolding decoded_mask_def bit.conj_disj_distrib isContinuous_def action_mask_bits
  by (simp add: action_masks)

lemma setState_flag: "setState (if on then 1 else 0) c = c\<lparr>cell_state := (if on then NSOnState else NSOffState)\<rparr>"
  by (simp add: setState_def word_sless_alt)

lemma focus_bits:
  assumes "bit w 0 = bit x 0" and "bit w 1 = bit x 1"
  shows "ucast ((w :: 64 word) AND 0x3) = (x :: 2 word)"
proof (rule bit_word_eqI)
  fix n assume "n < LENGTH(2)"
  then have "n = 0 \<or> n = 1" by auto
  then show "bit (ucast (w AND 0x3) :: 2 word) n = bit x n"
    using assms by (elim disjE) (simp_all add: bit_unsigned_iff bit_and_iff)
qed

lemma bit_mask_3: "bit (0x3 :: 64 word) n \<longleftrightarrow> n < 2"
proof -
  have "(0x3 :: 64 word) = mask 2" by (simp add: mask_eq_exp_minus_1)
  then show ?thesis by (simp only: bit_mask_iff) auto
qed

lemma type_bits:
  assumes "bit w 26 = bit x 0" and "bit w 27 = bit x 1"
  shows "drop_bit 26 ((w :: 64 word) AND 0xC000000) = ucast (x :: 2 word)"
proof (rule bit_word_eqI)
  fix n
  have m: "(0xC000000 :: 64 word) = push_bit 26 0x3" by simp
  have "bit (drop_bit 26 (w AND 0xC000000)) n \<longleftrightarrow> n < 2 \<and> bit w (26 + n)"
    unfolding m bit_drop_bit_eq o_def bit_and_iff bit_push_bit_iff bit_mask_3 by auto
  moreover have "n < 2 \<Longrightarrow> bit w (26 + n) = bit x n"
    using assms by (auto dest!: below_2)
  ultimately show "bit (drop_bit 26 (w AND 0xC000000)) n = bit (ucast x :: 64 word) n"
    unfolding bit_ucast_up by (cases "n < 2") simp_all
qed

lemma decoded_flags:
  "\<exists>lbm. decode_flags no_contents (encode_flags img c) c0 =
     (if no_contents then setType (ucast (typeOf img c)) c0 else c0)
     \<lparr>focus_ring_type := focus_ring_type c, shows_first_responder := shows_first_responder c,
      action_mask := decoded_mask c, is_scrollable := is_scrollable c,
      is_selectable := isSelectable c, is_bezeled := False, is_bordered := is_bordered c,
      is_editable := is_editable c, is_disabled := is_disabled c, is_highlighted := is_highlighted c,
      cell_state := (if cell_state c = NSOnState then NSOnState else NSOffState),
      line_break_mode := lbm\<rparr>"
proof -
  let ?w = "scast (encode_flags img c) :: 64 word"
  have ring: "ucast (?w AND 0x3) = focus_ring_type c"
    by (rule focus_bits) (simp_all only: encoded_bits)
  have kind: "drop_bit 26 (?w AND 0xC000000) = ucast (typeOf img c)"
    by (rule type_bits) (simp_all only: encoded_bits)
  define c1 where "c1 = c0\<lparr>focus_ring_type := focus_ring_type c,
    shows_first_responder := shows_first_responder c\<rparr>"
  obtain s1 l1 where w: "setWraps (of_bool (\<not> wraps c)) c1 = c1\<lparr>is_scrollable := s1, line_break_mode := l1\<rparr>"
    using setWraps_others by metis
  define c2 where "c2 = c1\<lparr>is_scrollable := s1, line_break_mode := l1, action_mask := decoded_mask c\<rparr>"
  obtain l2 where s: "setScrollable (of_bool (is_scrollable c)) c2 =
      c2\<lparr>is_scrollable := is_scrollable c, line_break_mode := l2\<rparr>"
    using setScrollable_others by metis
  define c3 where "c3 =
    (let t = c2\<lparr>is_scrollable := is_scrollable c, line_break_mode := l2\<rparr>;
      t = setSelectable (of_bool (isSelectable c)) t;
      t = setBezeled (of_bool (is_bezeled c)) t
    in setBordered (of_bool (is_bordered c)) t)"
  have first: "setShowsFirstResponder (of_bool (shows_first_responder c)) (setFocusRingType (?w AND 0x3) c0) = c1"
    by (simp add: setter_defs ring c1_def)
  have acted: "sendActionOn (decoded_mask c) (c1\<lparr>is_scrollable := s1, line_break_mode := l1\<rparr>) = c2"
    by (simp add: sendActionOn_def c2_def)
  have "decode_flags no_contents (encode_flags img c) c0 =
    (let t = (if no_contents then setType (ucast (typeOf img c)) c3 else c3);
         t = setEditable (of_bool (is_editable c)) t;
         t = setEnabled (of_bool (\<not> is_disabled c)) t;
         t = setHighlighted (of_bool (is_highlighted c)) t
     in setState (if cell_state c = NSOnState then 1 else 0) t)"
    unfolding decode_flags_def Let_def has_def mask_test_numeral encoded_bits kind
      mask_rebuilt[unfolded Let_def] first w acted s c3_def by (rule refl)
  also have "\<dots> = (if no_contents then setType (ucast (typeOf img c)) c0 else c0)
     \<lparr>focus_ring_type := focus_ring_type c, shows_first_responder := shows_first_responder c,
      action_mask := decoded_mask c, is_scrollable := is_scrollable c,
      is_selectable := isSelectable c, is_bezeled := False, is_bordered := is_bordered c,
      is_editable := is_editable c, is_disabled := is_disabled c, is_highlighted := is_highlighted c,
      cell_state := (if cell_state c = NSOnState then NSOnState else NSOffState),
      line_break_mode := l2\<rparr>"
    by (simp add: c3_def c2_def c1_def setter_defs setType_def setState_flag Let_def)
  finally show ?thesis by blast
qed

text \<open>A cell whose flags agree with each other, as the setters keep them.\<close>

definition cell_ok :: "cell \<Rightarrow> bool" where
  "cell_ok c \<longleftrightarrow>
     (is_scrollable c \<longrightarrow> \<not> wraps c) \<and> (imports_graphics c \<longrightarrow> is_rich_text c) \<and>
     \<not> (is_bezeled c \<and> is_bordered c) \<and> (cell_state c = NSMixedState \<longrightarrow> allows_mixed_state c)"

lemma narrow3: "ucast (ucast (y :: 3 word) :: 64 word) = y"
  by (rule bit_word_eqI) (auto simp: bit_simps)

lemma ucast_eq3: "(ucast (y :: 3 word) :: 64 word) = ucast z \<longleftrightarrow> y = z"
  by (metis narrow3)

lemma decoded_flags2:
  assumes "cell_ok c" and "is_scrollable d = is_scrollable c" and "cell_state d \<noteq> NSMixedState"
  shows "decode_flags2 (encode_flags2 c) d =
    d\<lparr>uses_single_line_mode := False,
      control_tint := control_tint c OR (if uses_single_line_mode c then 2 else 0),
      line_break_mode := line_break_mode c, control_size := control_size c,
      sends_action_on_end_editing := sends_action_on_end_editing c,
      allows_mixed_state := allows_mixed_state c, refuses_first_responder := refuses_first_responder c,
      text_align := text_align c, imports_graphics := imports_graphics c, is_rich_text := is_rich_text c\<rparr>"
proof -
  let ?w = "encode_flags2 c"
  have masks: "(0xE0 :: 32 word) = push_bit 5 7" "(0xE00 :: 32 word) = push_bit 9 7"
    "(0xE0000 :: 32 word) = push_bit 17 7" "(0x1C000000 :: 32 word) = push_bit 26 7"
    by simp_all
  have tint: "scast (signed_drop_bit 5 (?w AND 0xE0)) =
      (ucast (control_tint c OR (if uses_single_line_mode c then 2 else 0)) :: 64 word)"
    unfolding masks
  proof (rule field_of_3)
    fix i :: nat assume i: "i < 3"
    have "bit (if uses_single_line_mode c then 2 else 0 :: 3 word) i = (i = 1 \<and> uses_single_line_mode c)"
      using below_3[OF i] by (elim disjE) simp_all
    then show "bit ?w (5 + i) = bit (control_tint c OR (if uses_single_line_mode c then 2 else 0)) i"
      by (simp only: encoded2_tint[OF i] bit_or_iff)
  qed simp
  have mode: "scast (signed_drop_bit 9 (?w AND 0xE00)) = (ucast (line_break_mode c) :: 64 word)"
    unfolding masks by (rule field_of_3) (simp, simp only: encoded2_mode)
  have size: "ucast (scast (signed_drop_bit 17 (?w AND 0xE0000)) :: 64 word) = control_size c"
    unfolding masks by (rule field_of_2) (simp, simp only: encoded2_size)
  have align: "scast (signed_drop_bit 26 (?w AND 0x1C000000)) = (ucast (text_align c) :: 64 word)"
    unfolding masks by (rule field_of_3) (simp, simp only: encoded2_align)
  have single: "low (ucast (?w AND 0x40)) = False"
    by (simp add: low_def bit_unsigned_iff bit_and_iff)
  have fields: "decode_flags2 ?w d =
    (let t = d\<lparr>uses_single_line_mode := False,
           control_tint := control_tint c OR (if uses_single_line_mode c then 2 else 0)\<rparr>;
         t = setLineBreakMode (ucast (line_break_mode c)) t;
         t = setControlSize (scast (signed_drop_bit 17 (?w AND 0xE0000))) t;
         t = setSendsActionOnEndEditing (of_bool (sends_action_on_end_editing c)) t;
         t = setAllowsMixedState (of_bool (allows_mixed_state c)) t;
         t = setRefusesFirstResponder (of_bool (refuses_first_responder c)) t;
         t = setCellAlignment (ucast (text_align c)) t;
         t = setImportsGraphics (of_bool (imports_graphics c)) t
     in setAllowsEditingTextAttributes (of_bool (is_rich_text c)) t)"
    unfolding decode_flags2_def Let_def has_def mask_test_numeral encoded2_flags tint mode align
    by (simp add: setUsesSingleLineMode_def setControlTint_def single narrow3)
  have scroll: "setLineBreakMode (ucast (line_break_mode c)) t =
      t\<lparr>line_break_mode := line_break_mode c\<rparr>" if "is_scrollable t = is_scrollable c" for t
    unfolding setLineBreakMode_def Let_def ucast_eq3 narrow3
    using that assms(1) by (intro cell.equality) (auto simp: cell_ok_def wraps_def)
  show ?thesis
    unfolding fields Let_def
    using assms by (simp add: scroll setter_defs setAllowsMixedState_def size narrow3 Let_def cell_ok_def)
qed

subsection \<open>The properties of the flags\<close>

datatype cell_op =
    FocusRing "2 word" | ShowsFirst bool | RefusesFirst bool | SendsOnEnd bool | AllowsUndo bool
  | Enabled bool | Highlighted bool | Bezeled bool | Bordered bool | Editable bool | Selectable bool
  | LineBreak "3 word" | Wraps bool | Scrollable bool | State "64 word" | NextState | AllowsMixed bool
  | Alignment "3 word" | RichText bool | ImportsGraphics bool | Tint "3 word" | Size "2 word"
  | SingleLine bool | SendOn "64 word" | Continuous bool

fun apply_cell_op :: "cell_op \<Rightarrow> cell \<Rightarrow> cell" where
  "apply_cell_op (FocusRing t) c = setFocusRingType (ucast t) c"
| "apply_cell_op (ShowsFirst b) c = setShowsFirstResponder (of_bool b) c"
| "apply_cell_op (RefusesFirst b) c = setRefusesFirstResponder (of_bool b) c"
| "apply_cell_op (SendsOnEnd b) c = setSendsActionOnEndEditing (of_bool b) c"
| "apply_cell_op (AllowsUndo b) c = setAllowsUndo (of_bool b) c"
| "apply_cell_op (Enabled b) c = setEnabled (of_bool b) c"
| "apply_cell_op (Highlighted b) c = setHighlighted (of_bool b) c"
| "apply_cell_op (Bezeled b) c = setBezeled (of_bool b) c"
| "apply_cell_op (Bordered b) c = setBordered (of_bool b) c"
| "apply_cell_op (Editable b) c = setEditable (of_bool b) c"
| "apply_cell_op (Selectable b) c = setSelectable (of_bool b) c"
| "apply_cell_op (LineBreak m) c = setLineBreakMode (ucast m) c"
| "apply_cell_op (Wraps b) c = setWraps (of_bool b) c"
| "apply_cell_op (Scrollable b) c = setScrollable (of_bool b) c"
| "apply_cell_op (State v) c = setState v c"
| "apply_cell_op NextState c = setNextState c"
| "apply_cell_op (AllowsMixed b) c = setAllowsMixedState (of_bool b) c"
| "apply_cell_op (Alignment m) c = setCellAlignment (ucast m) c"
| "apply_cell_op (RichText b) c = setAllowsEditingTextAttributes (of_bool b) c"
| "apply_cell_op (ImportsGraphics b) c = setImportsGraphics (of_bool b) c"
| "apply_cell_op (Tint t) c = setControlTint (ucast t) c"
| "apply_cell_op (Size s) c = setControlSize (ucast s) c"
| "apply_cell_op (SingleLine b) c = setUsesSingleLineMode (of_bool b) c"
| "apply_cell_op (SendOn m) c = sendActionOn m c"
| "apply_cell_op (Continuous b) c = setContinuous (of_bool b) c"

text \<open>A new text cell: everything is 0 but its type, action mask and focus ring.\<close>

definition initTextCell :: "64 word \<Rightarrow> cell" where
  "initTextCell ring = setFocusRingType ring
     \<lparr>contents_is_attributed_string = False, is_highlighted = False, is_disabled = False,
      is_editable = False, is_rich_text = False, imports_graphics = False,
      shows_first_responder = False, refuses_first_responder = False,
      sends_action_on_end_editing = False, is_bordered = False, is_bezeled = False,
      is_scrollable = False, cell_reserved = False, text_align = 0, is_selectable = False,
      allows_mixed_state = False, has_valid_object_value = False, cell_type = NSTextCellType,
      image_position = 0, entry_type = 0, allows_undo = False, line_break_mode = 0, cell_state = 0,
      mnemonic_location = 0, control_tint = 0, control_size = 0, focus_ring_type = 0,
      base_writing_direction = 0, subclass_bool_one = False, subclass_bool_two = False,
      subclass_bool_three = False, subclass_bool_four = False, in_editing = False,
      uses_single_line_mode = False, background_style = 0, mouse_down_flags = 0,
      action_mask = NSLeftMouseUpMask\<rparr>"

text \<open>Setting the line break mode restores the relation of scrolling and wrapping.\<close>

definition rest_ok :: "cell \<Rightarrow> bool" where
  "rest_ok c \<longleftrightarrow> (imports_graphics c \<longrightarrow> is_rich_text c) \<and> \<not> (is_bezeled c \<and> is_bordered c) \<and>
     (cell_state c = NSMixedState \<longrightarrow> allows_mixed_state c)"

lemma cell_ok_rest: "cell_ok c \<longleftrightarrow> (is_scrollable c \<longrightarrow> \<not> wraps c) \<and> rest_ok c"
  by (auto simp: cell_ok_def rest_ok_def)

lemma rest_ok: "cell_ok c \<Longrightarrow> rest_ok c"
  by (simp add: cell_ok_rest)

lemma setLineBreak_ok: "rest_ok c \<Longrightarrow> cell_ok (setLineBreakMode (ucast (m :: 3 word)) c)"
  unfolding setLineBreakMode_def Let_def ucast_eq3 narrow3
  by (auto simp: cell_ok_rest rest_ok_def wraps_def)

lemma setWraps_ok:
  assumes "rest_ok c" and "flag = 0 \<or> cell_ok c"
  shows "cell_ok (setWraps flag c)"
proof (cases "flag \<noteq> 0 \<longleftrightarrow> wraps c")
  case True
  then have "\<not> wraps c \<or> cell_ok c" using assms(2) by blast
  then have "cell_ok c" using assms(1) by (auto simp: cell_ok_rest)
  then show ?thesis using True by (simp add: setWraps_def)
next
  case False
  then show ?thesis
    using setLineBreak_ok[OF assms(1), of NSLineBreakByClipping]
      setLineBreak_ok[OF assms(1), of NSLineBreakByWordWrapping]
    unfolding setWraps_def by auto
qed

lemma setScrollable_ok:
  assumes "cell_ok c"
  shows "cell_ok (setScrollable (of_bool b) c)"
proof (cases b)
  case True
  have "rest_ok (c\<lparr>is_scrollable := True\<rparr>)" using rest_ok[OF assms] by (simp add: rest_ok_def)
  then show ?thesis using setWraps_ok[of _ 0] True by (simp add: setScrollable_def Let_def)
next
  case False
  then show ?thesis using assms by (simp add: setScrollable_def cell_ok_def wraps_def)
qed

lemma sint_zero: "sint (v :: 64 word) = 0 \<longleftrightarrow> v = 0"
  using signed_word_eqI[of v 0] by auto

lemma apply_cell_op_ok: "cell_ok c \<Longrightarrow> cell_ok (apply_cell_op x c)"
proof (cases x)
  case (LineBreak m)
  assume "cell_ok c"
  then show ?thesis unfolding LineBreak apply_cell_op.simps by (intro setLineBreak_ok rest_ok)
next
  case (Wraps b)
  assume "cell_ok c"
  then show ?thesis unfolding Wraps apply_cell_op.simps by (intro setWraps_ok rest_ok) simp_all
next
  case (Scrollable b)
  assume "cell_ok c"
  then show ?thesis unfolding Scrollable apply_cell_op.simps by (rule setScrollable_ok)
qed (auto simp: cell_ok_def wraps_def setter_defs setAllowsUndo_def setContinuous_def setNextState_def
    setState_def setAllowsMixedState_def nextState_def Let_def word_sless_alt sint_zero)

text \<open>C31: However the setters are called on a new cell, a scrollable cell does not wrap, one that
  imports graphics edits rich text, no cell is both bezeled and bordered, and the mixed state only
  occurs where it is allowed.\<close>

theorem cell_setters:
  "cell_ok (fold apply_cell_op ops (initTextCell ring))"
proof -
  have "cell_ok (initTextCell ring)"
    by (simp add: initTextCell_def setFocusRingType_def cell_ok_def)
  then show ?thesis by (rule fold_invariant_set) (rule apply_cell_op_ok)
qed

text \<open>C16: Decoding the flag words of a cell whose flags agree gives its flags back, with exactly these
  losses: the bezel and the single line mode are always off, single line mode leaves its bit in the
  control tint, the mixed state becomes off, and of the action mask only four events remain. Whether
  undo is allowed is not read at all.\<close>

theorem cell_archive:
  assumes "cell_ok c"
  shows "decode_flags2 (encode_flags2 c) (decode_flags False (encode_flags img c) c0) =
    c0\<lparr>focus_ring_type := focus_ring_type c, shows_first_responder := shows_first_responder c,
       action_mask := decoded_mask c, is_scrollable := is_scrollable c,
       is_selectable := isSelectable c, is_bezeled := False, is_bordered := is_bordered c,
       is_editable := is_editable c, is_disabled := is_disabled c, is_highlighted := is_highlighted c,
       cell_state := (if cell_state c = NSOnState then NSOnState else NSOffState),
       uses_single_line_mode := False,
       control_tint := control_tint c OR (if uses_single_line_mode c then 2 else 0),
       line_break_mode := line_break_mode c, control_size := control_size c,
       sends_action_on_end_editing := sends_action_on_end_editing c,
       allows_mixed_state := allows_mixed_state c, refuses_first_responder := refuses_first_responder c,
       text_align := text_align c, imports_graphics := imports_graphics c, is_rich_text := is_rich_text c\<rparr>"
proof -
  obtain lbm where d: "decode_flags False (encode_flags img c) c0 =
     c0\<lparr>focus_ring_type := focus_ring_type c, shows_first_responder := shows_first_responder c,
      action_mask := decoded_mask c, is_scrollable := is_scrollable c,
      is_selectable := isSelectable c, is_bezeled := False, is_bordered := is_bordered c,
      is_editable := is_editable c, is_disabled := is_disabled c, is_highlighted := is_highlighted c,
      cell_state := (if cell_state c = NSOnState then NSOnState else NSOffState),
      line_break_mode := lbm\<rparr>"
    using decoded_flags[of False img c c0] by auto
  show ?thesis unfolding d by (subst decoded_flags2[OF assms]) simp_all
qed

theorem cell_archive_witness:
  "is_bezeled (decode_flags2 (encode_flags2 (setBezeled YES (initTextCell 2)))
     (decode_flags False (encode_flags False (setBezeled YES (initTextCell 2))) (initTextCell 2))) = False"
proof -
  have "cell_ok (setBezeled YES (initTextCell 2))"
    by (simp add: initTextCell_def setFocusRingType_def setBezeled_def cell_ok_def)
  from cell_archive[OF this, of False "initTextCell 2"] show ?thesis by simp
qed

text \<open>The enumerators stored in the fields of a cell fit the widths of the fields, the states as
  signed numbers of two bits, and the newer names of the states have the values of the old ones.\<close>

lemma cell_enums_fit:
  "list_all (\<lambda>(D, width). length (enumerators_of [D]) = length D \<and>
       list_all (\<lambda>(x, v). 0 \<le> v \<and> v < 2 ^ width) (enumerators_of [D]))
     [(NSCellType_enum, 2), (NSCellEntryType_enum, 4),
      (NSCellImagePosition_enum, 3), (NSControlTint_enum, 3),
      (NSControlSize_enum, 2), (NSTextAlignment_enum, 3),
      (NSLineBreakMode_enum, 3), (NSWritingDirection_enum, 2),
      (NSFocusRingType_enum, 2), (NSBackgroundStyle_enum, 2)] \<and>
   list_all (\<lambda>(x, v). sint (word_of_int v :: 2 word) = v) (enumerators_of [NSCellStateValue_enum]) \<and>
   map snd (enumerators_of [NSControlStateValue_enum]) = map snd (enumerators_of [NSCellStateValue_enum]) \<and>
   map snd (enumerators_of [NSControlSize2_enum]) = map snd (enumerators_of [NSControlSize_enum])"
proof (intro conjI)
  show "list_all (\<lambda>(D, width). length (enumerators_of [D]) = length D \<and>
       list_all (\<lambda>(x, v). 0 \<le> v \<and> v < 2 ^ width) (enumerators_of [D]))
     [(NSCellType_enum, 2), (NSCellEntryType_enum, 4),
      (NSCellImagePosition_enum, 3), (NSControlTint_enum, 3),
      (NSControlSize_enum, 2), (NSTextAlignment_enum, 3),
      (NSLineBreakMode_enum, 3), (NSWritingDirection_enum, 2),
      (NSFocusRingType_enum, 2), (NSBackgroundStyle_enum, 2)]"
    by code_simp
  show "map snd (enumerators_of [NSControlStateValue_enum]) = map snd (enumerators_of [NSCellStateValue_enum])"
    "map snd (enumerators_of [NSControlSize2_enum]) = map snd (enumerators_of [NSControlSize_enum])"
    by code_simp+
  have "enumerators_of [NSCellStateValue_enum] = [(''NSMixedState'', - 1), (''NSOffState'', 0), (''NSOnState'', 1)]"
    by code_simp
  then show "list_all (\<lambda>(x, v). sint (word_of_int v :: 2 word) = v) (enumerators_of [NSCellStateValue_enum])"
    by simp
qed

end
