(* ===== verification/MatrixGrid.thy ===== *)
theory MatrixGrid
  imports Cells Foundation
begin

text \<open>
  Matrices of cells (\<open>Headers/AppKit/NSMatrix.h\<close>, \<open>Source/NSMatrix.m\<close>): the arrays of cells and of
  selection flags, which may be larger than the matrix, the selected cell and the cell with the
  keyboard focus. Cells are the cells of \<open>Cells\<close>, kept by name. An access outside the arrays has no
  result. Drawing, scrolling and the actions of a matrix are left out.
\<close>

subsection \<open>State\<close>

datatype matrix_mode = NSRadioModeMatrix | NSHighlightModeMatrix | NSListModeMatrix | NSTrackModeMatrix

record matrix =
  grid :: "nat option list list"
  picked :: "bool list list"
  max_cols :: nat
  num_rows :: nat
  num_cols :: nat
  matrix_mode :: matrix_mode
  selected_cell :: "nat option"
  selected_row :: int
  selected_column :: int
  allows_empty_selection :: bool
  selection_by_rect :: bool
  dotted_row :: int
  dotted_column :: int
  text_object :: bool
  cell_object :: "nat \<Rightarrow> cell"
  fresh_cell :: nat
  cell_prototype :: cell

text \<open>The field editor of the window: whether there is one, and whether another view holds on to it.\<close>

record field_editor =
  has_editor :: bool
  editor_held :: bool

definition tell :: "(cell \<Rightarrow> cell) \<Rightarrow> nat option \<Rightarrow> matrix \<Rightarrow> matrix" where
  "tell g aCell m =
     (case aCell of
        None \<Rightarrow> m
      | Some c \<Rightarrow> m\<lparr>cell_object := (cell_object m)(c := g (cell_object m c))\<rparr>)"

definition asks :: "(cell \<Rightarrow> bool) \<Rightarrow> nat option \<Rightarrow> matrix \<Rightarrow> bool" where
  "asks q aCell m = (case aCell of None \<Rightarrow> False | Some c \<Rightarrow> q (cell_object m c))"

definition acceptsFirstResponder :: "cell \<Rightarrow> bool" where
  "acceptsFirstResponder c \<longleftrightarrow> \<not> is_disabled c \<and> \<not> refuses_first_responder c"

definition pick :: "bool \<Rightarrow> nat \<Rightarrow> nat \<Rightarrow> matrix \<Rightarrow> matrix" where
  "pick b i j m = m\<lparr>picked := (picked m)[i := (picked m ! i)[j := b]]\<rparr>"

text \<open>Whether an index of the arrays is inside them.\<close>

definition inside :: "matrix \<Rightarrow> int \<Rightarrow> int \<Rightarrow> bool" where
  "inside m row column \<longleftrightarrow>
     0 \<le> row \<and> row < int (length (grid m)) \<and> 0 \<le> column \<and> column < int (max_cols m)"

definition cellAtRow :: "int \<Rightarrow> int \<Rightarrow> matrix \<Rightarrow> nat option" where
  "cellAtRow row column m =
     (if row < 0 \<or> int (num_rows m) \<le> row \<or> column < 0 \<or> int (num_cols m) \<le> column then None
      else grid m ! nat row ! nat column)"

text \<open>The loops over all rows and columns.\<close>

definition places :: "matrix \<Rightarrow> (nat \<times> nat) list" where
  "places m = List.product [0..<num_rows m] [0..<num_cols m]"

subsection \<open>Selecting\<close>

definition no_selection :: "matrix \<Rightarrow> matrix" where
  "no_selection m = m\<lparr>selected_cell := None, selected_row := - 1, selected_column := - 1\<rparr>"

definition deselect_place :: "nat \<times> nat \<Rightarrow> matrix \<Rightarrow> matrix" where
  "deselect_place ij m =
     (let (i, j) = ij; c = grid m ! i ! j
      in if picked m ! i ! j
         then let m' = pick False i j m
              in if asks (\<lambda>x. cell_state x \<noteq> 0 \<or> is_highlighted x) c m
                 then let m'' = tell (setState 0) c m'
                      in if asks is_highlighted c m then tell (setHighlighted NO) c m'' else m''
                 else m'
         else m)"

definition deselectAllCells :: "matrix \<Rightarrow> matrix" where
  "deselectAllCells m =
     (if 0 < num_rows m \<and> 0 < num_cols m \<and> \<not> allows_empty_selection m \<and> matrix_mode m = NSRadioModeMatrix
      then m
      else no_selection (fold deselect_place (places m) m))"

definition deselectSelectedCell :: "matrix \<Rightarrow> matrix" where
  "deselectSelectedCell m =
     (if selected_cell m = None \<or> \<not> allows_empty_selection m \<and> matrix_mode m = NSRadioModeMatrix then m
      else no_selection (fold (\<lambda>(i, j) m.
        if picked m ! i ! j then pick False i j (tell (setState 0) (grid m ! i ! j) m) else m) (places m) m))"

definition select_place :: "nat \<times> nat \<Rightarrow> matrix \<Rightarrow> matrix" where
  "select_place ij m =
     (let (i, j) = ij; c = grid m ! i ! j
      in if asks (\<lambda>x. \<not> is_disabled x \<and> \<not> is_editable x) c m
         then pick True i j (tell (setState 1) c m)\<lparr>selected_cell := c, selected_row := int i, selected_column := int j\<rparr>
         else tell (setShowsFirstResponder NO) c (pick False i j m))"

definition selectAll :: "matrix \<Rightarrow> matrix" where
  "selectAll m =
     (if matrix_mode m = NSRadioModeMatrix then m
      else fold select_place (places m) (no_selection m))"

definition setKeyRow :: "int \<Rightarrow> int \<Rightarrow> matrix \<Rightarrow> matrix" where
  "setKeyRow row column m =
     (if dotted_row m = row \<and> dotted_column m = column then m
      else if asks acceptsFirstResponder (grid m ! nat row ! nat column) m
      then m\<lparr>dotted_row := row, dotted_column := column\<rparr>
      else m)"

text \<open>The flag of the cell selected so far is cleared, at the row and column kept for it.\<close>

definition release_selected :: "matrix \<Rightarrow> matrix option" where
  "release_selected m =
     (if selected_row m \<le> - 1 \<or> selected_column m \<le> - 1 then Some m
      else if \<not> inside m (selected_row m) (selected_column m) then None
      else Some (tell (setState 0) (selected_cell m)
        (pick False (nat (selected_row m)) (nat (selected_column m)) m)))"

definition select_cell :: "nat option \<Rightarrow> nat \<Rightarrow> nat \<Rightarrow> matrix \<Rightarrow> matrix option" where
  "select_cell aCell row column m =
     (case aCell of
        None \<Rightarrow> Some (no_selection m)
      | Some c \<Rightarrow>
          Option.bind
            (if selected_cell m \<noteq> None \<and> selected_cell m \<noteq> Some c \<and> matrix_mode m = NSRadioModeMatrix
             then release_selected m else Some m)
            (\<lambda>m. let m = pick True row column
                   (m\<lparr>selected_cell := Some c, selected_row := int row, selected_column := int column\<rparr>);
                 m = tell (if matrix_mode m = NSListModeMatrix \<or> matrix_mode m = NSRadioModeMatrix
                           then setState 1 else setNextState) (Some c) m;
                 m = (if matrix_mode m = NSListModeMatrix then tell (setHighlighted YES) (Some c) m else m)
             in Some (setKeyRow (int row) (int column) m)))"

definition selectTextAtRow :: "field_editor \<Rightarrow> int \<Rightarrow> int \<Rightarrow> matrix \<Rightarrow> matrix option" where
  "selectTextAtRow E row column m =
     (case cellAtRow row column m of
        None \<Rightarrow> Some m
      | Some c \<Rightarrow>
          if \<not> isSelectable (cell_object m c) then Some m
          else if text_object m \<and> selected_cell m = Some c then Some m
          else let m = m\<lparr>text_object := False\<rparr>
               in if editor_held E then Some m
                  else map_option (\<lambda>m. m\<lparr>text_object := has_editor E\<rparr>)
                         (select_cell (Some c) (nat row) (nat column) m))"

definition selectCellAtRow :: "field_editor \<Rightarrow> int \<Rightarrow> int \<Rightarrow> matrix \<Rightarrow> matrix option" where
  "selectCellAtRow E row column m =
     (if row = - 1 \<or> column = - 1 then Some (deselectAllCells m)
      else case cellAtRow row column m of
        None \<Rightarrow> Some m
      | Some c \<Rightarrow>
          Option.bind (select_cell (Some c) (nat row) (nat column)
            (if matrix_mode m = NSListModeMatrix then deselectAllCells m else m))
            (selectTextAtRow E row column))"

definition getRowOfCell :: "nat option \<Rightarrow> matrix \<Rightarrow> (nat \<times> nat) option" where
  "getRowOfCell aCell m = List.find (\<lambda>(i, j). grid m ! i ! j = aCell) (places m)"

definition selectCell :: "field_editor \<Rightarrow> nat option \<Rightarrow> matrix \<Rightarrow> matrix option" where
  "selectCell E aCell m =
     (case getRowOfCell aCell m of
        None \<Rightarrow> Some m
      | Some (i, j) \<Rightarrow> Option.bind (select_cell aCell i j m) (selectTextAtRow E (int i) (int j)))"

definition setStateAtRow :: "64 word \<Rightarrow> int \<Rightarrow> int \<Rightarrow> matrix \<Rightarrow> matrix option" where
  "setStateAtRow v row column m =
     (case cellAtRow row column m of
        None \<Rightarrow> Some m
      | Some c \<Rightarrow>
          if matrix_mode m = NSRadioModeMatrix
          then if v \<noteq> 0
               then map_option (\<lambda>m.
                      let m = m\<lparr>selected_cell := Some c, selected_row := row, selected_column := column\<rparr>
                      in setKeyRow row column (pick True (nat row) (nat column) (tell (setState v) (Some c) m)))
                    (release_selected m)
               else if allows_empty_selection m then Some (deselectSelectedCell m) else Some m
          else Some (tell (setState v) (Some c) m))"

definition selectedCells :: "matrix \<Rightarrow> nat option list" where
  "selectedCells m = map (\<lambda>(i, j). grid m ! i ! j) (filter (\<lambda>(i, j). picked m ! i ! j) (places m))"

subsection \<open>Rows and columns\<close>

text \<open>A cell made from the prototype.\<close>

definition make_cell :: "matrix \<Rightarrow> nat option \<times> matrix" where
  "make_cell m =
     (Some (fresh_cell m), m\<lparr>cell_object := (cell_object m)(fresh_cell m := cell_prototype m), fresh_cell := fresh_cell m + 1\<rparr>)"

text \<open>New entries of a row: nil where space is left for cells of the caller, new cells elsewhere.\<close>

fun fill :: "bool list \<Rightarrow> matrix \<Rightarrow> nat option list \<times> matrix" where
  "fill [] m = ([], m)"
| "fill (space # spaces) m =
     (let (c, m) = (if space then (None, m) else make_cell m);
          (cs, m) = fill spaces m
      in (c # cs, m))"

text \<open>Existing rows get \<open>n + 1\<close> more columns, the last one left empty in the first \<open>colSpace\<close> rows.\<close>

fun widen :: "nat \<Rightarrow> nat \<Rightarrow> nat option list list \<Rightarrow> matrix \<Rightarrow> nat option list list \<times> matrix" where
  "widen n colSpace [] m = ([], m)"
| "widen n colSpace (r # rs) m =
     (let (cs, m) = fill (replicate n False @ [0 < colSpace]) m;
          (rs, m) = widen n (colSpace - 1) rs m
      in ((r @ cs) # rs, m))"

text \<open>New rows, the first \<open>rowSpace\<close> places of the last one left empty.\<close>

fun new_rows :: "nat \<Rightarrow> nat \<Rightarrow> nat \<Rightarrow> matrix \<Rightarrow> nat option list list \<times> matrix" where
  "new_rows 0 width rowSpace m = ([], m)"
| "new_rows (Suc n) width rowSpace m =
     (let (r, m) = fill (if n = 0 then map (\<lambda>j. j < rowSpace) [0..<width] else replicate width False) m;
          (rs, m) = new_rows n width rowSpace m
      in (r # rs, m))"

definition renewRows :: "int \<Rightarrow> int \<Rightarrow> nat \<Rightarrow> nat \<Rightarrow> matrix \<Rightarrow> matrix" where
  "renewRows row col rowSpace colSpace m =
     (let r = nat row; c = nat col; oldMaxC = max_cols m; oldMaxR = length (grid m);
          m = m\<lparr>num_cols := c, max_cols := max c oldMaxC, num_rows := r\<rparr>;
          m = (if oldMaxC < c
               then let (rs, m) = widen (c - oldMaxC - 1) colSpace (grid m) m
                    in m\<lparr>grid := rs, picked := map (\<lambda>bs. bs @ replicate (c - oldMaxC) False) (picked m)\<rparr>
               else m);
          m = (if oldMaxR < r
               then let (rs, m) = new_rows (r - oldMaxR) (max_cols m) rowSpace m
                    in m\<lparr>grid := grid m @ rs,
                         picked := picked m @ replicate (r - oldMaxR) (replicate (max_cols m) False)\<rparr>
               else m)
      in deselectAllCells m)"

text \<open>The last of the first \<open>n\<close> elements moves to place \<open>k\<close>, those from \<open>k\<close> on move up.\<close>

definition rotate_in :: "nat \<Rightarrow> nat \<Rightarrow> 'a list \<Rightarrow> 'a list" where
  "rotate_in n k xs =
     (if k < n then take k xs @ (xs ! (n - 1)) # take (n - 1 - k) (drop k xs) @ drop n xs
      else xs[k := xs ! (n - 1)])"

definition moved_up :: "int \<Rightarrow> int \<Rightarrow> int" where
  "moved_up k x = (if k \<le> x then x + 1 else x)"

definition select_first :: "field_editor \<Rightarrow> matrix \<Rightarrow> matrix option" where
  "select_first E m =
     (if matrix_mode m = NSRadioModeMatrix \<and> \<not> allows_empty_selection m \<and> selected_cell m = None
      then selectCellAtRow E 0 0 m else Some m)"

definition insertColumn :: "field_editor \<Rightarrow> int \<Rightarrow> nat list option \<Rightarrow> matrix \<Rightarrow> matrix option" where
  "insertColumn E column cellArray m =
     (let cs = (case cellArray of None \<Rightarrow> [] | Some cs \<Rightarrow> cs);
          count = length cs;
          column = max 0 column;
          i = (if int (num_cols m) + 1 \<le> column then column + 1 else int (num_cols m) + 1);
          m = (if 0 < count \<and> (num_rows m = 0 \<or> num_cols m = 0)
               then renewRows (int count) 1 0 count m
               else renewRows (if num_rows m \<noteq> 0 then int (num_rows m) else 1) i 0 count m);
          k = nat column
      in if num_rows m \<noteq> 0 \<and> max_cols m \<le> k then None
         else
           let m = (if num_cols m \<noteq> k
                    then m\<lparr>grid := map (rotate_in (num_cols m) k) (take (num_rows m) (grid m)) @ drop (num_rows m) (grid m),
                           picked := map (\<lambda>bs. (rotate_in (num_cols m) k bs)[k := False]) (take (num_rows m) (picked m))
                             @ drop (num_rows m) (picked m),
                           selected_column := (if selected_cell m \<noteq> None then moved_up column (selected_column m)
                             else selected_column m),
                           dotted_column := moved_up column (dotted_column m)\<rparr>
                    else m);
               n = min (num_rows m) count;
               m = m\<lparr>grid := map2 (\<lambda>r c. r[k := Some c]) (take n (grid m)) (take n cs) @ drop n (grid m)\<rparr>
           in select_first E m)"

text \<open>
  With cells for an empty matrix, an index behind its new row is outside the array of rows, or would
  make two rows share one array; neither has a result here.
\<close>

definition insertRow :: "field_editor \<Rightarrow> int \<Rightarrow> nat list option \<Rightarrow> matrix \<Rightarrow> matrix option" where
  "insertRow E row cellArray m =
     (let cs = (case cellArray of None \<Rightarrow> [] | Some cs \<Rightarrow> cs);
          count = length cs;
          row = max 0 row;
          i = (if int (num_rows m) + 1 \<le> row then row + 1 else int (num_rows m) + 1);
          m = (if 0 < count \<and> (num_rows m = 0 \<or> num_cols m = 0)
               then renewRows 1 (int count) count 0 m
               else renewRows i (if num_cols m \<noteq> 0 then int (num_cols m) else 1) count 0 m);
          k = nat row
      in if length (grid m) \<le> k \<or> num_rows m < k then None
         else
           let m = (if num_rows m \<noteq> k
                    then m\<lparr>grid := rotate_in (num_rows m) k (grid m), picked := rotate_in (num_rows m) k (picked m),
                           selected_row := (if selected_cell m \<noteq> None then moved_up row (selected_row m)
                             else selected_row m),
                           dotted_row := (if dotted_row m \<noteq> - 1 then moved_up row (dotted_row m) else dotted_row m)\<rparr>
                    else m);
               n = min (num_cols m) count;
               m = m\<lparr>grid := (grid m)[k := map Some (take n cs) @ drop n (grid m ! k)]\<rparr>
           in select_first E m)"

definition putCell :: "nat option \<Rightarrow> int \<Rightarrow> int \<Rightarrow> matrix \<Rightarrow> matrix step" where
  "putCell newCell row column m =
     (if row < 0 \<or> int (num_rows m) \<le> row \<or> column < 0 \<or> int (num_cols m) \<le> column
      then Inl (NSRangeException, m)
      else let m = (if row = selected_row m \<and> column = selected_column m \<and> selected_cell m \<noteq> None
                    then m\<lparr>selected_cell := newCell\<rparr> else m)
           in Inr (m\<lparr>grid := (grid m)[nat row := (grid m ! nat row)[nat column := newCell]]\<rparr>))"

definition without_nth :: "nat \<Rightarrow> 'a list \<Rightarrow> 'a list" where
  "without_nth k xs = take k xs @ drop (k + 1) xs"

definition removeColumn :: "field_editor \<Rightarrow> int \<Rightarrow> matrix \<Rightarrow> matrix option" where
  "removeColumn E column m =
     (if 0 \<le> column \<and> column < int (num_cols m)
      then let k = nat column;
               m = m\<lparr>grid := map (without_nth k) (grid m), picked := map (without_nth k) (picked m),
                     num_cols := num_cols m - 1, max_cols := max_cols m - 1\<rparr>;
               m = (if max_cols m = 0 then m\<lparr>num_rows := 0, grid := [], picked := []\<rparr> else m)
           in Option.bind (if column = selected_column m
                   then selectCellAtRow E (selected_row m) 0 (m\<lparr>selected_cell := None\<rparr>) else Some m) (\<lambda>m.
              if column = dotted_column m
              then if num_cols m \<noteq> 0 \<and> \<not> inside m (dotted_row m) 0 then None
                   else if num_cols m \<noteq> 0 \<and> asks acceptsFirstResponder (grid m ! nat (dotted_row m) ! 0) m
                   then Some (m\<lparr>dotted_column := 0\<rparr>)
                   else Some (m\<lparr>dotted_row := - 1, dotted_column := - 1\<rparr>)
              else Some m)
      else Some m)"

definition removeRow :: "field_editor \<Rightarrow> int \<Rightarrow> matrix \<Rightarrow> matrix option" where
  "removeRow E row m =
     (if 0 \<le> row \<and> row < int (num_rows m)
      then let k = nat row;
               m = m\<lparr>grid := without_nth k (grid m), picked := without_nth k (picked m), num_rows := num_rows m - 1\<rparr>;
               m = (if grid m = [] then m\<lparr>num_cols := 0, max_cols := 0\<rparr> else m)
           in Option.bind (if row = selected_row m
                   then selectCellAtRow E 0 (selected_column m) (m\<lparr>selected_cell := None\<rparr>) else Some m) (\<lambda>m.
              if row = dotted_row m
              then if num_rows m \<noteq> 0 \<and> \<not> inside m 0 (dotted_column m) then None
                   else if num_rows m \<noteq> 0 \<and> asks acceptsFirstResponder (grid m ! 0 ! nat (dotted_column m)) m
                   then Some (m\<lparr>dotted_row := 0\<rparr>)
                   else Some (m\<lparr>dotted_row := - 1, dotted_column := - 1\<rparr>)
              else Some m)
      else Some m)"

subsection \<open>Well formed arrays\<close>

definition wf_grid :: "matrix \<Rightarrow> bool" where
  "wf_grid m \<longleftrightarrow> length (picked m) = length (grid m) \<and> (\<forall>r \<in> set (grid m). length r = max_cols m) \<and>
     (\<forall>b \<in> set (picked m). length b = max_cols m) \<and> num_rows m \<le> length (grid m) \<and> num_cols m \<le> max_cols m"

text \<open>The flag at a place of the arrays.\<close>

definition flag :: "matrix \<Rightarrow> nat \<Rightarrow> nat \<Rightarrow> bool" where
  "flag m i j \<longleftrightarrow> picked m ! i ! j"

lemma wf_gridD:
  assumes "wf_grid m"
  shows "length (picked m) = length (grid m)" and "i < length (grid m) \<Longrightarrow> length (grid m ! i) = max_cols m"
    and "i < length (grid m) \<Longrightarrow> length (picked m ! i) = max_cols m"
    and "num_rows m \<le> length (grid m)" and "num_cols m \<le> max_cols m"
  using assms by (auto simp: wf_grid_def)

text \<open>What an operation on single cells and flags leaves alone.\<close>

definition same_shape :: "matrix \<Rightarrow> matrix \<Rightarrow> bool" where
  "same_shape m m' \<longleftrightarrow> grid m' = grid m \<and> map length (picked m') = map length (picked m) \<and> max_cols m' = max_cols m \<and>
     num_rows m' = num_rows m \<and> num_cols m' = num_cols m \<and> matrix_mode m' = matrix_mode m \<and>
     allows_empty_selection m' = allows_empty_selection m"

lemma same_shape_refl [simp]: "same_shape m m"
  by (simp add: same_shape_def)

lemma same_shape_trans: "same_shape m m' \<Longrightarrow> same_shape m' m'' \<Longrightarrow> same_shape m m''"
  by (auto simp: same_shape_def)

lemma same_shape_wf: "same_shape m m' \<Longrightarrow> wf_grid m \<Longrightarrow> wf_grid m'"
proof -
  assume same: "same_shape m m'" and wf: "wf_grid m"
  then have lengths: "map length (picked m') = map length (picked m)" by (simp add: same_shape_def)
  then have "length ` set (picked m') = length ` set (picked m)" by (metis set_map)
  then have "\<forall>b \<in> set (picked m'). length b = max_cols m" using wf by (auto simp: wf_grid_def)
  then show "wf_grid m'" using same wf map_eq_imp_length_eq[OF lengths] by (simp add: wf_grid_def same_shape_def)
qed

lemma tell_sel [simp]:
  "grid (tell g c m) = grid m" "picked (tell g c m) = picked m" "max_cols (tell g c m) = max_cols m"
  "num_rows (tell g c m) = num_rows m" "num_cols (tell g c m) = num_cols m"
  "matrix_mode (tell g c m) = matrix_mode m" "selected_cell (tell g c m) = selected_cell m"
  "selected_row (tell g c m) = selected_row m" "selected_column (tell g c m) = selected_column m"
  "allows_empty_selection (tell g c m) = allows_empty_selection m"
  "selection_by_rect (tell g c m) = selection_by_rect m"
  "dotted_row (tell g c m) = dotted_row m" "dotted_column (tell g c m) = dotted_column m"
  "text_object (tell g c m) = text_object m" "fresh_cell (tell g c m) = fresh_cell m"
  by (simp_all add: tell_def split: option.split)

lemma pick_sel [simp]:
  "grid (pick b i j m) = grid m" "max_cols (pick b i j m) = max_cols m"
  "num_rows (pick b i j m) = num_rows m" "num_cols (pick b i j m) = num_cols m"
  "matrix_mode (pick b i j m) = matrix_mode m" "selected_cell (pick b i j m) = selected_cell m"
  "selected_row (pick b i j m) = selected_row m" "selected_column (pick b i j m) = selected_column m"
  "allows_empty_selection (pick b i j m) = allows_empty_selection m"
  "selection_by_rect (pick b i j m) = selection_by_rect m"
  "dotted_row (pick b i j m) = dotted_row m" "dotted_column (pick b i j m) = dotted_column m"
  "text_object (pick b i j m) = text_object m" "cell_object (pick b i j m) = cell_object m"
  "fresh_cell (pick b i j m) = fresh_cell m"
  by (simp_all add: pick_def)

lemma setKeyRow_sel [simp]:
  "grid (setKeyRow r c m) = grid m" "picked (setKeyRow r c m) = picked m" "max_cols (setKeyRow r c m) = max_cols m"
  "num_rows (setKeyRow r c m) = num_rows m" "num_cols (setKeyRow r c m) = num_cols m"
  "matrix_mode (setKeyRow r c m) = matrix_mode m" "selected_cell (setKeyRow r c m) = selected_cell m"
  "selected_row (setKeyRow r c m) = selected_row m" "selected_column (setKeyRow r c m) = selected_column m"
  "allows_empty_selection (setKeyRow r c m) = allows_empty_selection m"
  by (simp_all add: setKeyRow_def)

lemma tell_flag [simp]: "flag (tell g c m) = flag m"
  by (simp add: flag_def fun_eq_iff)

lemma pick_shape: "same_shape m (pick b i j m)"
  by (cases "i < length (picked m)") (simp_all add: same_shape_def pick_def map_update list_update_same_conv list_update_beyond)

lemma pick_flag:
  "wf_grid m \<Longrightarrow> i < length (grid m) \<Longrightarrow> j < max_cols m \<Longrightarrow>
    flag (pick b i j m) i' j' = (if i' = i \<and> j' = j then b else flag m i' j')"
  using wf_gridD[of m] by (auto simp: flag_def pick_def nth_list_update)

lemma in_places: "(i, j) \<in> set (places m) \<longleftrightarrow> i < num_rows m \<and> j < num_cols m"
  by (auto simp: places_def)

subsection \<open>Clearing all flags\<close>

lemma deselect_place_sel:
  "same_shape m (deselect_place ij m)" "dotted_row (deselect_place ij m) = dotted_row m"
  "dotted_column (deselect_place ij m) = dotted_column m"
  using pick_shape[of m False "fst ij" "snd ij"]
  by (auto simp: deselect_place_def Let_def same_shape_def split: prod.split)

lemma deselect_place_flag:
  "wf_grid m \<Longrightarrow> i < num_rows m \<Longrightarrow> j < num_cols m \<Longrightarrow>
    flag (deselect_place (i, j) m) i' j' \<longleftrightarrow> flag m i' j' \<and> (i', j') \<noteq> (i, j)"
  using pick_flag[of m i j False i' j'] wf_gridD(4,5)[of m]
  by (auto simp: deselect_place_def Let_def flag_def[symmetric])

text \<open>A loop over places that clears the flag of each.\<close>

lemma fold_clears:
  assumes "\<And>ij m. same_shape m (f ij m) \<and> dotted_row (f ij m) = dotted_row m \<and> dotted_column (f ij m) = dotted_column m"
    and "\<And>i j m i' j'. wf_grid m \<Longrightarrow> i < num_rows m \<Longrightarrow> j < num_cols m \<Longrightarrow>
      flag (f (i, j) m) i' j' \<longleftrightarrow> flag m i' j' \<and> (i', j') \<noteq> (i, j)"
    and "wf_grid m" and "\<forall>(i, j) \<in> set ps. i < num_rows m \<and> j < num_cols m"
  shows "same_shape m (fold f ps m) \<and> dotted_row (fold f ps m) = dotted_row m \<and>
    dotted_column (fold f ps m) = dotted_column m \<and>
    (\<forall>i j. flag (fold f ps m) i j \<longleftrightarrow> flag m i j \<and> (i, j) \<notin> set ps)"
  using assms(3,4)
proof (induction ps arbitrary: m)
  case (Cons p ps)
  obtain i j where p: "p = (i, j)" by (cases p)
  have ij: "i < num_rows m" "j < num_cols m" using Cons.prems(2) p by auto
  have shape: "same_shape m (f p m)" using assms(1) by blast
  have "wf_grid (f p m)" by (rule same_shape_wf[OF shape Cons.prems(1)])
  moreover have "\<forall>(i, j) \<in> set ps. i < num_rows (f p m) \<and> j < num_cols (f p m)"
    using Cons.prems(2) shape by (auto simp: same_shape_def)
  ultimately have "same_shape (f p m) (fold f ps (f p m)) \<and> dotted_row (fold f ps (f p m)) = dotted_row (f p m) \<and>
      dotted_column (fold f ps (f p m)) = dotted_column (f p m) \<and>
      (\<forall>i j. flag (fold f ps (f p m)) i j \<longleftrightarrow> flag (f p m) i j \<and> (i, j) \<notin> set ps)"
    by (rule Cons.IH)
  then show ?case
    using same_shape_trans[OF shape] assms(1)[of m p] assms(2)[OF Cons.prems(1) ij] by (auto simp: p)
qed simp

lemma no_selection_sel [simp]:
  "grid (no_selection m) = grid m" "picked (no_selection m) = picked m" "max_cols (no_selection m) = max_cols m"
  "num_rows (no_selection m) = num_rows m" "num_cols (no_selection m) = num_cols m"
  "matrix_mode (no_selection m) = matrix_mode m" "selected_cell (no_selection m) = None"
  "selected_row (no_selection m) = - 1" "selected_column (no_selection m) = - 1"
  "allows_empty_selection (no_selection m) = allows_empty_selection m"
  "dotted_row (no_selection m) = dotted_row m" "dotted_column (no_selection m) = dotted_column m"
  by (simp_all add: no_selection_def)

end
