(* ===== verification/MatrixSelect.thy ===== *)
theory MatrixSelect
  imports MatrixGrid
begin

text \<open>
  Selecting a range of cells in a matrix (\<open>Source/NSMatrix.m\<close>). \<open>setSelectionFrom:to:anchor:highlight:\<close>
  follows a mouse that went down at one cell and is at another: the cells from the anchor to the mouse
  are selected, those the mouse has left are deselected, without visiting cells that do not change.
\<close>

subsection \<open>Ranges of cells\<close>

text \<open>The loops of \<open>_setState:highlight:startIndex:endIndex:\<close>, over the places from one index to another.\<close>

definition places_between :: "bool \<Rightarrow> nat \<Rightarrow> nat \<Rightarrow> nat \<Rightarrow> (nat \<times> nat) list" where
  "places_between by_rect n start end =
     concat (map (\<lambda>i. map (Pair i)
       [if by_rect \<or> i = start div n then start mod n else 0 ..<
        Suc (if by_rect \<or> i = end div n then end mod n else n - 1)])
       [start div n ..< Suc (end div n)])"

definition set_place :: "bool \<Rightarrow> bool \<Rightarrow> nat \<times> nat \<Rightarrow> matrix \<Rightarrow> matrix" where
  "set_place on highlight ij m =
     (let (i, j) = ij; c = grid m ! i ! j
      in if asks (\<lambda>x. \<not> is_disabled x \<and>
              (cell_state x \<noteq> (if on then NSOnState else NSOffState) \<or> is_highlighted x \<noteq> highlight \<or>
               \<not> on \<and> picked m ! i ! j \<or> on \<and> \<not> picked m ! i ! j)) c m
         then tell (setHighlighted (if highlight then YES else NO)) c
                (pick on i j (tell (setState (if on then 1 else 0)) c m))
         else m)"

definition setStateBetween :: "bool \<Rightarrow> bool \<Rightarrow> nat \<Rightarrow> nat \<Rightarrow> matrix \<Rightarrow> matrix" where
  "setStateBetween on highlight start end m =
     fold (set_place on highlight) (places_between (selection_by_rect m) (num_cols m) start end) m"

text \<open>The last selected cell becomes the selected cell.\<close>

definition find_selected :: "matrix \<Rightarrow> matrix" where
  "find_selected m =
     (case List.find (\<lambda>(i, j). picked m ! i ! j) (rev (places m)) of
        None \<Rightarrow> no_selection m
      | Some (i, j) \<Rightarrow> m\<lparr>selected_cell := grid m ! i ! j, selected_row := int i, selected_column := int j\<rparr>)"

definition selectLinear :: "nat \<Rightarrow> nat \<Rightarrow> nat \<Rightarrow> bool \<Rightarrow> matrix \<Rightarrow> matrix" where
  "selectLinear startPos endPos anchorPos highlight m =
     (let selStart = min anchorPos endPos; selEnd = max anchorPos endPos;
          m = setStateBetween highlight highlight selStart selEnd m
      in if selEnd < startPos then setStateBetween (\<not> highlight) (\<not> highlight) (selEnd + 1) startPos m
         else if startPos < selStart then setStateBetween (\<not> highlight) (\<not> highlight) startPos (selStart - 1) m
         else m)"

definition selectRect :: "nat \<Rightarrow> nat \<Rightarrow> nat \<Rightarrow> bool \<Rightarrow> matrix \<Rightarrow> matrix" where
  "selectRect startPos endPos anchorPos highlight m =
     (let n = num_cols m;
          ax = anchorPos mod n; ay = anchorPos div n; ex = endPos mod n; ey = endPos div n;
          sx = startPos mod n; sy = startPos div n;
          minx_AE = min ax ex; miny_AE = min ay ey; maxx_AE = max ax ex; maxy_AE = max ay ey;
          minx_AS = min ax sx; miny_AS = min ay sy; maxx_AS = max ax sx; maxy_AS = max ay sy;
          m = setStateBetween highlight highlight (miny_AE * n + minx_AE) (maxy_AE * n + maxx_AE) m;
          m = (if maxx_AE < sx
               then setStateBetween (\<not> highlight) (\<not> highlight) (miny_AS * n + (maxx_AE + 1)) (maxy_AS * n + sx) m
               else if sx < minx_AE
               then setStateBetween (\<not> highlight) (\<not> highlight) (miny_AS * n + sx) (maxy_AS * n + (minx_AE - 1)) m
               else m)
      in if maxy_AE < sy
         then setStateBetween (\<not> highlight) (\<not> highlight) ((maxy_AE + 1) * n + minx_AS) (sy * n + maxx_AS) m
         else if sy < miny_AE
         then setStateBetween (\<not> highlight) (\<not> highlight) (sy * n + minx_AS) ((miny_AE - 1) * n + maxx_AS) m
         else m)"

definition setSelectionFrom :: "nat \<Rightarrow> nat \<Rightarrow> nat \<Rightarrow> bool \<Rightarrow> matrix \<Rightarrow> matrix" where
  "setSelectionFrom startPos endPos anchorPos highlight m =
     find_selected
       (if \<not> selection_by_rect m \<or> num_rows m = 1 \<or> num_cols m = 1
        then selectLinear startPos endPos anchorPos highlight m
        else selectRect startPos endPos anchorPos highlight m)"

subsection \<open>What a loop over a range does\<close>

text \<open>An enabled cell is switched on or off; the flag of its place follows.\<close>

definition switched :: "bool \<Rightarrow> cell \<Rightarrow> cell" where
  "switched b x = (if is_disabled x then x
     else x\<lparr>cell_state := (if b then NSOnState else NSOffState), is_highlighted := b\<rparr>)"

definition enabled_at :: "matrix \<Rightarrow> nat \<Rightarrow> nat \<Rightarrow> bool" where
  "enabled_at m i j = asks (\<lambda>x. \<not> is_disabled x) (grid m ! i ! j) m"

definition switch_all :: "bool \<Rightarrow> (nat \<times> nat) set \<Rightarrow> matrix \<Rightarrow> matrix" where
  "switch_all b S m = m\<lparr>
     picked := map (\<lambda>i. map (\<lambda>j. if (i, j) \<in> S \<and> enabled_at m i j then b else picked m ! i ! j)
       [0..<length (picked m ! i)]) [0..<length (picked m)],
     cell_object := (\<lambda>c. if Some c \<in> (\<lambda>(i, j). grid m ! i ! j) ` S then switched b (cell_object m c)
       else cell_object m c)\<rparr>"

lemma switched_simps [simp]:
  "is_disabled (switched b x) = is_disabled x" "switched b (switched b' x) = switched b x"
  by (simp_all add: switched_def)

lemma set_place_switched:
  "setHighlighted (if b then YES else NO) (setState (if b then 1 else 0) x) =
    x\<lparr>cell_state := (if b then NSOnState else NSOffState), is_highlighted := b\<rparr>"
  by (simp add: setHighlighted_def setState_def low_def word_sless_alt)

lemma switched_at:
  "\<not> is_disabled x \<Longrightarrow> switched b x = setHighlighted (if b then YES else NO) (setState (if b then 1 else 0) x)"
  by (simp add: switched_def set_place_switched)

lemma switched_same:
  "cell_state x = (if b then NSOnState else NSOffState) \<Longrightarrow> is_highlighted x = b \<Longrightarrow> switched b x = x"
  by (simp add: switched_def)

text \<open>Visiting a place switches its cell, whatever the condition says.\<close>

lemma set_place_switch:
  assumes "wf_grid m" and "i < length (grid m)" and "j < max_cols m"
  shows "set_place b b (i, j) m = switch_all b {(i, j)} m"
proof -
  let ?c = "grid m ! i ! j"
  have i: "i < length (picked m)" "j < length (picked m ! i)" using assms wf_gridD[OF assms(1)] by simp_all
  have flags: "picked (switch_all b {(i, j)} m) =
      (if enabled_at m i j then (picked m)[i := (picked m ! i)[j := b]] else picked m)"
    by (intro nth_equalityI) (auto simp: switch_all_def nth_list_update i intro!: nth_equalityI)
  show ?thesis
  proof (cases ?c)
    case None
    then have "\<not> enabled_at m i j" by (simp add: enabled_at_def asks_def)
    then have "switch_all b {(i, j)} m = m" using flags None by (simp add: switch_all_def)
    then show ?thesis using None by (simp add: set_place_def asks_def)
  next
    case (Some c)
    have objects: "cell_object (switch_all b {(i, j)} m) = (cell_object m)(c := switched b (cell_object m c))"
      using Some by (auto simp: switch_all_def)
    let ?x = "cell_object m c"
    have enabled: "enabled_at m i j \<longleftrightarrow> \<not> is_disabled ?x" by (simp add: enabled_at_def asks_def Some)
    have switch: "switch_all b {(i, j)} m = m\<lparr>picked := picked (switch_all b {(i, j)} m),
        cell_object := cell_object (switch_all b {(i, j)} m)\<rparr>" by (simp add: switch_all_def)
    consider (disabled) "is_disabled ?x"
      | (same) "\<not> is_disabled ?x" "cell_state ?x = (if b then NSOnState else NSOffState)" "is_highlighted ?x = b"
          "picked m ! i ! j = b"
      | (new) "\<not> is_disabled ?x" "cell_state ?x \<noteq> (if b then NSOnState else NSOffState) \<or>
          is_highlighted ?x \<noteq> b \<or> picked m ! i ! j \<noteq> b" by blast
    then show ?thesis
    proof cases
      case disabled
      then have "switch_all b {(i, j)} m = m"
        by (subst switch) (simp add: flags objects enabled switched_def)
      then show ?thesis using disabled by (simp add: set_place_def asks_def Some)
    next
      case same
      have "(picked m)[i := (picked m ! i)[j := b]] = picked m"
        by (subst same(4)[symmetric]) simp
      then have "switch_all b {(i, j)} m = m"
        by (subst switch) (simp add: flags objects enabled same(1) switched_same[OF same(2,3)])
      moreover have "set_place b b (i, j) m = m"
        using same by (simp add: set_place_def asks_def Some)
      ultimately show ?thesis by simp
    next
      case new
      have "set_place b b (i, j) m = tell (setHighlighted (if b then YES else NO)) (Some c)
          (pick b i j (tell (setState (if b then 1 else 0)) (Some c) m))"
        using new by (auto simp: set_place_def asks_def Some Let_def)
      also have "\<dots> = m\<lparr>picked := (picked m)[i := (picked m ! i)[j := b]],
          cell_object := (cell_object m)(c := switched b ?x)\<rparr>"
        by (simp add: tell_def pick_def switched_at[OF new(1)])
      also have "\<dots> = switch_all b {(i, j)} m" by (subst switch) (simp add: flags objects enabled new(1))
      finally show ?thesis .
    qed
  qed
qed

lemma switch_all_sel [simp]:
  "grid (switch_all b S m) = grid m" "max_cols (switch_all b S m) = max_cols m"
  "num_rows (switch_all b S m) = num_rows m" "num_cols (switch_all b S m) = num_cols m"
  "selection_by_rect (switch_all b S m) = selection_by_rect m"
  "map length (picked (switch_all b S m)) = map length (picked m)"
  "length (picked (switch_all b S m)) = length (picked m)"
  by (auto simp: switch_all_def intro!: nth_equalityI)

lemma switch_all_wf: "wf_grid m \<Longrightarrow> wf_grid (switch_all b S m)"
  by (rule same_shape_wf[of m]) (simp_all add: same_shape_def, simp_all add: switch_all_def)

lemma switch_all_enabled [simp]: "enabled_at (switch_all b S m) i j = enabled_at m i j"
  by (simp add: enabled_at_def asks_def switch_all_def split: option.split)

lemma switch_all_flag:
  "i < length (picked m) \<Longrightarrow> j < length (picked m ! i) \<Longrightarrow>
    picked (switch_all b S m) ! i ! j = (if (i, j) \<in> S \<and> enabled_at m i j then b else picked m ! i ! j)"
  by (simp add: switch_all_def)

lemma switch_all_length: "i < length (picked m) \<Longrightarrow> length (picked (switch_all b S m) ! i) = length (picked m ! i)"
  by (simp add: switch_all_def)

lemma switch_all_object:
  "cell_object (switch_all b S m) c =
    (if Some c \<in> (\<lambda>(i, j). grid m ! i ! j) ` S then switched b (cell_object m c) else cell_object m c)"
  by (simp add: switch_all_def)

lemma switch_all_frame:
  "switch_all b S m = m\<lparr>picked := picked (switch_all b S m), cell_object := cell_object (switch_all b S m)\<rparr>"
  by (simp add: switch_all_def)

lemma switch_all_eqI:
  assumes "\<And>i j. i < length (picked m) \<Longrightarrow> j < length (picked m ! i) \<Longrightarrow>
      picked (switch_all b S (switch_all b' T m)) ! i ! j = picked (switch_all c U (switch_all c' V m)) ! i ! j"
    and "\<And>x. cell_object (switch_all b S (switch_all b' T m)) x = cell_object (switch_all c U (switch_all c' V m)) x"
  shows "switch_all b S (switch_all b' T m) = switch_all c U (switch_all c' V m)"
proof -
  have two: "switch_all b S (switch_all b' T m) = m\<lparr>picked := picked (switch_all b S (switch_all b' T m)),
      cell_object := cell_object (switch_all b S (switch_all b' T m))\<rparr>" for b S b' T
    by (subst switch_all_frame, subst (1) switch_all_frame) simp
  have "picked (switch_all b S (switch_all b' T m)) = picked (switch_all c U (switch_all c' V m))"
    using assms(1) by (intro nth_equalityI) (auto simp: switch_all_length)
  moreover have "cell_object (switch_all b S (switch_all b' T m)) = cell_object (switch_all c U (switch_all c' V m))"
    using assms(2) by blast
  ultimately show ?thesis using two[of b S b' T] two[of c U c' V] by simp
qed

lemma switch_nothing: "switch_all b {} m = m"
proof -
  have "picked (switch_all b {} m) = picked m"
    by (intro nth_equalityI) (auto simp: switch_all_def intro!: nth_equalityI)
  moreover have "cell_object (switch_all b {} m) = cell_object m" by (simp add: switch_all_def)
  ultimately show ?thesis using switch_all_frame[of b "{}" m] by simp
qed

lemma switch_all_twice: "switch_all b S (switch_all b T m) = switch_all b (S \<union> T) m"
proof -
  have "switch_all b S (switch_all b T m) = switch_all b (S \<union> T) (switch_all b {} m)"
    by (rule switch_all_eqI) (auto simp: switch_all_flag switch_all_length switch_all_object)
  then show ?thesis by (simp add: switch_nothing)
qed

text \<open>No cell is at two places.\<close>

definition cells_apart :: "matrix \<Rightarrow> bool" where
  "cells_apart m \<longleftrightarrow> (\<forall>i < num_rows m. \<forall>j < num_cols m. \<forall>i' < num_rows m. \<forall>j' < num_cols m.
     grid m ! i ! j = grid m ! i' ! j' \<longrightarrow> grid m ! i ! j = None \<or> i = i' \<and> j = j')"

lemma switch_all_swap:
  assumes "cells_apart m" and S: "S \<subseteq> set (places m)" and T: "T \<subseteq> set (places m)"
  shows "switch_all b S (switch_all b' T m) = switch_all b' (T - S) (switch_all b S m)"
proof (rule switch_all_eqI)
  have apart: "p = q" if "p \<in> S \<union> T" "q \<in> S \<union> T" "(\<lambda>(i, j). grid m ! i ! j) p = Some c"
      "(\<lambda>(i, j). grid m ! i ! j) q = Some c" for p q c
  proof -
    obtain i j i' j' where pq: "p = (i, j)" "q = (i', j')" by (cases p; cases q)
    then have "(i, j) \<in> set (places m)" "(i', j') \<in> set (places m)" using that S T by auto
    then show ?thesis using that(3,4) assms(1) pq unfolding in_places cells_apart_def by fastforce
  qed
  fix c
  have "Some c \<in> (\<lambda>(i, j). grid m ! i ! j) ` (T - S) \<longleftrightarrow>
      Some c \<in> (\<lambda>(i, j). grid m ! i ! j) ` T \<and> Some c \<notin> (\<lambda>(i, j). grid m ! i ! j) ` S" (is "?l = ?r")
  proof
    show "?l \<Longrightarrow> ?r" using apart[of _ _ c] by (smt (verit, best) DiffE UnI1 UnI2 image_iff)
    show "?r \<Longrightarrow> ?l" by blast
  qed
  then show "cell_object (switch_all b S (switch_all b' T m)) c =
      cell_object (switch_all b' (T - S) (switch_all b S m)) c"
    by (simp add: switch_all_object)
qed (auto simp: switch_all_flag switch_all_length)

lemma fold_switch:
  assumes "wf_grid m" and "\<forall>(i, j) \<in> set ps. i < length (grid m) \<and> j < max_cols m"
  shows "fold (set_place b b) ps m = switch_all b (set ps) m"
  using assms
proof (induction ps arbitrary: m)
  case Nil
  then show ?case by (simp add: switch_nothing)
next
  case (Cons p ps)
  obtain i j where p: "p = (i, j)" by (cases p)
  have "set_place b b p m = switch_all b {p} m"
    using Cons.prems p by (auto intro: set_place_switch)
  moreover have "fold (set_place b b) ps (switch_all b {p} m) = switch_all b (set ps) (switch_all b {p} m)"
    using Cons.prems by (intro Cons.IH switch_all_wf) auto
  ultimately show ?case by (simp add: switch_all_twice)
qed

subsection \<open>The regions\<close>

text \<open>
  The cells from one place to another: those in the rectangle between them, or in reading order those
  between them.
\<close>

definition span :: "matrix \<Rightarrow> nat \<Rightarrow> nat \<Rightarrow> (nat \<times> nat) set" where
  "span m s e =
     (if selection_by_rect m
      then {min (s div num_cols m) (e div num_cols m)..max (s div num_cols m) (e div num_cols m)} \<times>
        {min (s mod num_cols m) (e mod num_cols m)..max (s mod num_cols m) (e mod num_cols m)}
      else {(i, j). j < num_cols m \<and> min s e \<le> i * num_cols m + j \<and> i * num_cols m + j \<le> max s e})"

lemma lex_le:
  assumes "j < (n :: nat)"
  shows "s \<le> i * n + j \<longleftrightarrow> s div n < i \<or> s div n = i \<and> s mod n \<le> j"
    and "i * n + j \<le> s \<longleftrightarrow> i < s div n \<or> s div n = i \<and> j \<le> s mod n"
proof -
  have s: "s = s div n * n + s mod n" by simp
  have less: "a * n + b < c * n + d" if "a < c" "b < n" for a b c d :: nat
  proof -
    have "a * n + b < Suc a * n" using that(2) by simp
    also have "\<dots> \<le> c * n" using that(1) by (intro mult_le_mono1) simp
    finally show ?thesis by simp
  qed
  have "s mod n < n" using assms by simp
  then show "s \<le> i * n + j \<longleftrightarrow> s div n < i \<or> s div n = i \<and> s mod n \<le> j"
    using less[of "s div n" i "s mod n" j] less[of i "s div n" j "s mod n"] assms s
    by (metis add_le_cancel_left linorder_cases linorder_not_less nat_less_le)
  show "i * n + j \<le> s \<longleftrightarrow> i < s div n \<or> s div n = i \<and> j \<le> s mod n"
    using less[of "s div n" i "s mod n" j] less[of i "s div n" j "s mod n"] assms s \<open>s mod n < n\<close>
    by (metis add_le_cancel_left linorder_cases linorder_not_less nat_less_le)
qed

lemma set_loops:
  "set (concat (map (\<lambda>i. map (Pair i) [f i ..< Suc (g i)]) [a ..< Suc b])) =
    {(i, j). a \<le> i \<and> i \<le> b \<and> f i \<le> j \<and> j \<le> (g i :: nat)}"
  by (auto simp del: upt_Suc simp: image_iff less_Suc_eq_le)

lemma places_between_set:
  "(i, j) \<in> set (places_between r n s e) \<longleftrightarrow>
    s div n \<le> i \<and> i \<le> e div n \<and> (if r \<or> i = s div n then s mod n else 0) \<le> j \<and>
    j \<le> (if r \<or> i = e div n then e mod n else n - 1)"
  unfolding places_between_def set_loops by simp

lemma places_linear:
  assumes n: "0 < n" and "\<not> r \<or> n = 1 \<or> e < n" and "s \<le> e"
  shows "set (places_between r n s e) = {(i, j). j < n \<and> s \<le> i * n + j \<and> i * n + j \<le> e}"
proof -
  have "(i, j) \<in> set (places_between r n s e) \<longleftrightarrow> j < n \<and> s \<le> i * n + j \<and> i * n + j \<le> e" for i j
  proof -
    consider (linear) "\<not> r" | (column) "n = 1" | (row) "e < n" using assms(2) by blast
    then show ?thesis
    proof cases
      case linear
      have le: "s div n \<le> e div n" using assms(3) by (rule div_le_mono)
      have low: "s mod n < n" "e mod n < n" using n by simp_all
      show ?thesis
      proof (cases "j < n")
        case True
        then show ?thesis using linear le low
          by (simp only: places_between_set lex_le[OF True]) (auto split: if_splits)
      next
        case False
        then have "\<not> j \<le> e mod n" "\<not> j \<le> n - 1" using low(2) n by linarith+
        then show ?thesis using False by (simp only: places_between_set) (auto split: if_splits)
      qed
    next
      case column
      then show ?thesis by (simp only: places_between_set) (auto split: if_splits)
    next
      case row
      then have "s < n" using assms(3) by simp
      show ?thesis
      proof (cases i)
        case 0
        then show ?thesis using row \<open>s < n\<close> by (simp only: places_between_set) (auto split: if_splits)
      next
        case (Suc k)
        then show ?thesis using row \<open>s < n\<close> by (simp only: places_between_set) auto
      qed
    qed
  qed
  then show ?thesis by auto
qed

lemma places_rect:
  assumes "x1 < n" and "x2 < n"
  shows "set (places_between True n (y1 * n + x1) (y2 * n + x2)) = {y1..y2} \<times> {x1..x2}"
  using assms by (auto simp: places_between_set)

subsection \<open>The optimised selection\<close>

lemma setStateBetween_switch:
  assumes "wf_grid m" and "set (places_between (selection_by_rect m) (num_cols m) s e) \<subseteq> set (places m)"
  shows "setStateBetween b b s e m = switch_all b (set (places_between (selection_by_rect m) (num_cols m) s e)) m"
  unfolding setStateBetween_def
proof (rule fold_switch[OF assms(1)])
  show "\<forall>(i, j) \<in> set (places_between (selection_by_rect m) (num_cols m) s e). i < length (grid m) \<and> j < max_cols m"
  proof clarify
    fix i j assume "(i, j) \<in> set (places_between (selection_by_rect m) (num_cols m) s e)"
    then have "i < num_rows m" "j < num_cols m" using subsetD[OF assms(2)] in_places by metis+
    then show "i < length (grid m) \<and> j < max_cols m" using wf_gridD(4,5)[OF assms(1)] by simp
  qed
qed

lemma linear_inside:
  assumes "e < num_rows m * num_cols m"
  shows "{(i, j). j < num_cols m \<and> s \<le> i * num_cols m + j \<and> i * num_cols m + j \<le> e} \<subseteq> set (places m)"
proof
  fix p assume "p \<in> {(i, j). j < num_cols m \<and> s \<le> i * num_cols m + j \<and> i * num_cols m + j \<le> e}"
  then obtain i j where p: "p = (i, j)" "j < num_cols m" "i * num_cols m + j \<le> e" by auto
  then have "i * num_cols m < num_rows m * num_cols m" using assms by linarith
  then show "p \<in> set (places m)" using p by (simp add: in_places)
qed

lemma span_linear:
  assumes "\<not> selection_by_rect m \<or> num_rows m = 1 \<or> num_cols m = 1"
    and "s < num_rows m * num_cols m" and "e < num_rows m * num_cols m"
  shows "span m s e = {(i, j). j < num_cols m \<and> min s e \<le> i * num_cols m + j \<and> i * num_cols m + j \<le> max s e}"
proof -
  have n: "0 < num_cols m" using assms(2) by (cases "num_cols m") auto
  consider "\<not> selection_by_rect m" | "selection_by_rect m" "num_cols m = 1" | "selection_by_rect m" "num_rows m = 1"
    using assms(1) by blast
  then show ?thesis
  proof cases
    case 1
    then show ?thesis by (simp add: span_def)
  next
    case 2
    then show ?thesis by (auto simp: span_def)
  next
    case 3
    then have "s < num_cols m" "e < num_cols m" using assms by simp_all
    moreover from this have "min s e \<le> i * num_cols m + j \<and> i * num_cols m + j \<le> max s e \<longleftrightarrow>
        i = 0 \<and> min s e \<le> j \<and> j \<le> max s e" for i j
      by (cases i) auto
    ultimately show ?thesis using 3(1) by (auto simp: span_def)
  qed
qed

lemma selectLinear_spec:
  assumes wf: "wf_grid m" and apart: "cells_apart m"
    and shape: "\<not> selection_by_rect m \<or> num_rows m = 1 \<or> num_cols m = 1"
    and "startPos < num_rows m * num_cols m" "endPos < num_rows m * num_cols m" "anchorPos < num_rows m * num_cols m"
  shows "selectLinear startPos endPos anchorPos b m =
    switch_all b (span m anchorPos endPos) (switch_all (\<not> b) (span m anchorPos startPos) m)"
proof -
  let ?n = "num_cols m" and ?t = "num_rows m * num_cols m"
  let ?line = "\<lambda>s e. {(i, j). j < ?n \<and> s \<le> i * ?n + j \<and> i * ?n + j \<le> e}"
  let ?AE = "span m anchorPos endPos" and ?AS = "span m anchorPos startPos"
  have n: "0 < ?n" using assms(4) by (cases ?n) auto
  have switch: "setStateBetween c c s e k = switch_all c (?line s e) k"
    if "s \<le> e" "e < ?t" "wf_grid k" "selection_by_rect k = selection_by_rect m" "num_cols k = ?n" "num_rows k = num_rows m"
    for c s e k
  proof -
    have "\<not> selection_by_rect m \<or> ?n = 1 \<or> e < ?n" using shape that(2) by auto
    then have "set (places_between (selection_by_rect k) (num_cols k) s e) = ?line s e"
      using places_linear[OF n _ that(1)] that(4,5) by simp
    moreover have "?line s e \<subseteq> set (places k)"
      using linear_inside[of e k s] that by simp
    ultimately show ?thesis using setStateBetween_switch[OF that(3)] by simp
  qed
  note AE = span_linear[OF shape assms(6,5)] and AS = span_linear[OF shape assms(6,4)]
  have "?AE \<subseteq> set (places m)" "?AS \<subseteq> set (places m)"
    unfolding AE AS using assms(4-6) by (intro linear_inside; simp)+
  note swap = switch_all_swap[OF apart this]
  let ?m = "switch_all b ?AE m"
  have first: "setStateBetween b b (min anchorPos endPos) (max anchorPos endPos) m = ?m"
    unfolding AE using assms(4-6) wf by (intro switch) auto
  have second: "setStateBetween (\<not> b) (\<not> b) s e ?m = switch_all (\<not> b) (?line s e) ?m" if "s \<le> e" "e < ?t" for s e
    using that wf by (intro switch switch_all_wf) auto
  have "selectLinear startPos endPos anchorPos b m = switch_all (\<not> b) (?AS - ?AE) ?m"
  proof -
    consider (after) "max anchorPos endPos < startPos"
      | (before) "\<not> max anchorPos endPos < startPos" "startPos < min anchorPos endPos"
      | (inner) "\<not> max anchorPos endPos < startPos" "\<not> startPos < min anchorPos endPos" by blast
    then show ?thesis
    proof cases
      case after
      have "?line (Suc (max anchorPos endPos)) startPos = ?AS - ?AE" unfolding AE AS using after by auto
      then have "setStateBetween (\<not> b) (\<not> b) (Suc (max anchorPos endPos)) startPos ?m = switch_all (\<not> b) (?AS - ?AE) ?m"
        using second[of "Suc (max anchorPos endPos)" startPos] after assms(4) by simp
      then show ?thesis using after by (simp add: selectLinear_def first)
    next
      case before
      have "?line startPos (min anchorPos endPos - 1) = ?AS - ?AE" unfolding AE AS using before by auto
      moreover have "min anchorPos endPos < ?t" using assms(5,6) by (simp add: min_def)
      then have "setStateBetween (\<not> b) (\<not> b) startPos (min anchorPos endPos - 1) ?m =
          switch_all (\<not> b) (?line startPos (min anchorPos endPos - 1)) ?m"
        using before(2) by (intro second) linarith+
      ultimately have "setStateBetween (\<not> b) (\<not> b) startPos (min anchorPos endPos - 1) ?m = switch_all (\<not> b) (?AS - ?AE) ?m"
        by (simp only:)
      then show ?thesis using before by (simp add: selectLinear_def first)
    next
      case inner
      then have none: "?AS - ?AE = {}" unfolding AE AS by auto
      show ?thesis unfolding selectLinear_def Let_def first none switch_nothing using inner by (simp only: if_False)
    qed
  qed
  then show ?thesis by (simp only: swap)
qed

lemma rect_inside: "b < num_rows m \<Longrightarrow> d < num_cols m \<Longrightarrow> {a..b} \<times> {c..d} \<subseteq> set (places m)"
  by (auto simp: in_places)

lemma line_difference:
  fixes a e s :: nat
  shows "(if max a e < s then {max a e + 1..s} else if s < min a e then {s..min a e - 1} else {}) =
    {min a s..max a s} - {min a e..max a e}"
  by (auto simp: min_def max_def)

lemma rect_difference:
  fixes ax ay ex ey sx sy :: nat
  shows "(if max ay ey < sy then {max ay ey + 1..sy} \<times> {min ax sx..max ax sx}
      else if sy < min ay ey then {sy..min ay ey - 1} \<times> {min ax sx..max ax sx} else {}) \<union>
    (if max ax ex < sx then {min ay sy..max ay sy} \<times> {max ax ex + 1..sx}
      else if sx < min ax ex then {min ay sy..max ay sy} \<times> {sx..min ax ex - 1} else {}) =
    {min ay sy..max ay sy} \<times> {min ax sx..max ax sx} - {min ay ey..max ay ey} \<times> {min ax ex..max ax ex}"
    (is "?U2 \<union> ?U1 = _")
proof -
  have "?U2 = ({min ay sy..max ay sy} - {min ay ey..max ay ey}) \<times> {min ax sx..max ax sx}"
    unfolding line_difference[symmetric] by simp
  moreover have "?U1 = {min ay sy..max ay sy} \<times> ({min ax sx..max ax sx} - {min ax ex..max ax ex})"
    unfolding line_difference[symmetric] by simp
  ultimately show ?thesis by (simp only:) blast
qed

lemma selectRect_spec:
  assumes wf: "wf_grid m" and apart: "cells_apart m" and rect: "selection_by_rect m"
    and "startPos < num_rows m * num_cols m" "endPos < num_rows m * num_cols m" "anchorPos < num_rows m * num_cols m"
  shows "selectRect startPos endPos anchorPos b m =
    switch_all b (span m anchorPos endPos) (switch_all (\<not> b) (span m anchorPos startPos) m)"
proof -
  let ?n = "num_cols m" and ?r = "num_rows m"
  have n: "0 < ?n" using assms(4) by (cases ?n) auto
  define ax ay ex ey sx sy where defs: "ax = anchorPos mod ?n" "ay = anchorPos div ?n" "ex = endPos mod ?n"
    "ey = endPos div ?n" "sx = startPos mod ?n" "sy = startPos div ?n"
  have x: "ax < ?n" "ex < ?n" "sx < ?n" using n by (simp_all add: defs)
  have y: "ay < ?r" "ey < ?r" "sy < ?r"
    using assms(4-6) by (simp_all add: defs less_mult_imp_div_less)
  let ?AE = "{min ay ey..max ay ey} \<times> {min ax ex..max ax ex}"
  let ?AS = "{min ay sy..max ay sy} \<times> {min ax sx..max ax sx}"
  have AE: "span m anchorPos endPos = ?AE" and AS: "span m anchorPos startPos = ?AS"
    using rect by (simp_all add: span_def defs)
  have switch: "setStateBetween c c (y1 * ?n + x1) (y2 * ?n + x2) k = switch_all c ({y1..y2} \<times> {x1..x2}) k"
    if "x1 < ?n" "x2 < ?n" "y2 < ?r" "wf_grid k" "selection_by_rect k" "num_cols k = ?n" "num_rows k = ?r"
    for c x1 x2 y1 y2 k
  proof -
    have "set (places_between (selection_by_rect k) (num_cols k) (y1 * ?n + x1) (y2 * ?n + x2)) = {y1..y2} \<times> {x1..x2}"
      using places_rect[OF that(1,2)] that(5,6) by simp
    moreover have "{y1..y2} \<times> {x1..x2} \<subseteq> set (places k)" using that by (intro rect_inside) simp_all
    ultimately show ?thesis using setStateBetween_switch[OF that(4)] by simp
  qed
  have "?AE \<subseteq> set (places m)" "?AS \<subseteq> set (places m)" using x y by (intro rect_inside; simp)+
  note swap = switch_all_swap[OF apart this]
  let ?m = "switch_all b ?AE m"
  define U1 where "U1 = (if max ax ex < sx then {min ay sy..max ay sy} \<times> {max ax ex + 1..sx}
    else if sx < min ax ex then {min ay sy..max ay sy} \<times> {sx..min ax ex - 1} else {})"
  define U2 where "U2 = (if max ay ey < sy then {max ay ey + 1..sy} \<times> {min ax sx..max ax sx}
    else if sy < min ay ey then {sy..min ay ey - 1} \<times> {min ax sx..max ax sx} else {})"
  have first: "setStateBetween b b (min ay ey * ?n + min ax ex) (max ay ey * ?n + max ax ex) m = ?m"
    using x y wf rect by (intro switch) auto
  have wf_m: "wf_grid ?m" using wf by (rule switch_all_wf)
  have bounds: "max ay sy < ?r" "max ax sx < ?n" "min ax sx < ?n" using x y by simp_all
  have columns: "(if max ax ex < sx then setStateBetween (\<not> b) (\<not> b) (min ay sy * ?n + (max ax ex + 1)) (max ay sy * ?n + sx) ?m
      else if sx < min ax ex then setStateBetween (\<not> b) (\<not> b) (min ay sy * ?n + sx) (max ay sy * ?n + (min ax ex - 1)) ?m
      else ?m) = switch_all (\<not> b) U1 ?m"
  proof -
    have "setStateBetween (\<not> b) (\<not> b) (min ay sy * ?n + (max ax ex + 1)) (max ay sy * ?n + sx) ?m =
        switch_all (\<not> b) ({min ay sy..max ay sy} \<times> {max ax ex + 1..sx}) ?m" if "max ax ex < sx"
    proof -
      have "max ax ex + 1 < ?n" using that x(3) by linarith
      then show ?thesis using x(3) bounds(1) wf_m rect by (intro switch) simp_all
    qed
    moreover have "setStateBetween (\<not> b) (\<not> b) (min ay sy * ?n + sx) (max ay sy * ?n + (min ax ex - 1)) ?m =
        switch_all (\<not> b) ({min ay sy..max ay sy} \<times> {sx..min ax ex - 1}) ?m" if "sx < min ax ex"
    proof -
      have "min ax ex < ?n" using x by (simp add: min_def)
      then have "min ax ex - 1 < ?n" by (rule less_imp_diff_less)
      then show ?thesis using x(3) bounds(1) wf_m rect by (intro switch) simp_all
    qed
    ultimately show ?thesis unfolding U1_def by (cases "max ax ex < sx"; cases "sx < min ax ex") (simp_all only: if_True if_False switch_nothing simp_thms)
  qed
  have wf_u: "wf_grid (switch_all (\<not> b) U1 ?m)" using wf_m by (rule switch_all_wf)
  have rows: "(if max ay ey < sy then setStateBetween (\<not> b) (\<not> b) ((max ay ey + 1) * ?n + min ax sx) (sy * ?n + max ax sx) k
      else if sy < min ay ey then setStateBetween (\<not> b) (\<not> b) (sy * ?n + min ax sx) ((min ay ey - 1) * ?n + max ax sx) k
      else k) = switch_all (\<not> b) U2 k" if k: "k = switch_all (\<not> b) U1 ?m" for k
  proof -
    have wf_k: "wf_grid k" "selection_by_rect k = selection_by_rect m" "num_cols k = ?n" "num_rows k = ?r"
      using wf_u by (simp_all add: k)
    have "setStateBetween (\<not> b) (\<not> b) ((max ay ey + 1) * ?n + min ax sx) (sy * ?n + max ax sx) k =
        switch_all (\<not> b) ({max ay ey + 1..sy} \<times> {min ax sx..max ax sx}) k"
      using y(3) bounds wf_k rect by (intro switch) simp_all
    moreover have "setStateBetween (\<not> b) (\<not> b) (sy * ?n + min ax sx) ((min ay ey - 1) * ?n + max ax sx) k =
        switch_all (\<not> b) ({sy..min ay ey - 1} \<times> {min ax sx..max ax sx}) k"
    proof -
      have "min ay ey < ?r" using y by (simp add: min_def)
      then have "min ay ey - 1 < ?r" by (rule less_imp_diff_less)
      then show ?thesis using bounds wf_k rect by (intro switch) simp_all
    qed
    ultimately show ?thesis unfolding U2_def by (cases "max ay ey < sy"; cases "sy < min ay ey") (simp_all only: if_True if_False switch_nothing simp_thms)
  qed
  have "selectRect startPos endPos anchorPos b m = switch_all (\<not> b) U2 (switch_all (\<not> b) U1 ?m)"
    unfolding selectRect_def Let_def defs[symmetric] first columns by (rule rows) (rule refl)
  also have "\<dots> = switch_all (\<not> b) (U2 \<union> U1) ?m" by (rule switch_all_twice)
  also have "U2 \<union> U1 = ?AS - ?AE" unfolding U1_def U2_def by (rule rect_difference)
  finally show ?thesis unfolding AE AS by (simp only: swap)
qed

lemma setSelectionFrom_spec:
  assumes "wf_grid m" and "cells_apart m"
    and "startPos < num_rows m * num_cols m" "endPos < num_rows m * num_cols m" "anchorPos < num_rows m * num_cols m"
  shows "setSelectionFrom startPos endPos anchorPos b m =
    find_selected (switch_all b (span m anchorPos endPos) (switch_all (\<not> b) (span m anchorPos startPos) m))"
proof (cases "\<not> selection_by_rect m \<or> num_rows m = 1 \<or> num_cols m = 1")
  case True
  then show ?thesis
    using selectLinear_spec[OF assms(1,2) True assms(3-5)] by (simp only: setSelectionFrom_def if_True)
next
  case False
  then have "selection_by_rect m" by blast
  from selectRect_spec[OF assms(1,2) this assms(3-5)] False show ?thesis
    by (simp only: setSelectionFrom_def if_False)
qed

text \<open>A matrix of two rows and two columns; the cells are named in reading order.\<close>

definition square :: matrix where
  "square = \<lparr>grid = [[Some 0, Some 1], [Some 2, Some 3]], picked = [[False, False], [False, False]],
     max_cols = 2, num_rows = 2, num_cols = 2, matrix_mode = NSListModeMatrix, selected_cell = None,
     selected_row = - 1, selected_column = - 1, allows_empty_selection = False, selection_by_rect = True,
     dotted_row = - 1, dotted_column = - 1, text_object = False, cell_object = (\<lambda>_. initTextCell 2),
     fresh_cell = 4, cell_prototype = initTextCell 2\<rparr>"

lemma square_ok: "wf_grid square" "cells_apart square"
  by (simp_all add: wf_grid_def cells_apart_def square_def numeral_2_eq_2 All_less_Suc)

text \<open>C15: \<open>setSelectionFrom:to:anchor:highlight:\<close> ends as if all cells from the anchor to the place where
  the mouse went down were deselected first and then all cells from the anchor to the mouse selected,
  for lines and rectangles of cells: the disabled cells stay as they are, and the last selected cell of
  the matrix becomes the selected cell.\<close>

theorem selection_follows_mouse:
  assumes "wf_grid m" and "cells_apart m"
    and "startPos < num_rows m * num_cols m" "endPos < num_rows m * num_cols m" "anchorPos < num_rows m * num_cols m"
  shows "setSelectionFrom startPos endPos anchorPos b m =
    find_selected (switch_all b (span m anchorPos endPos) (switch_all (\<not> b) (span m anchorPos startPos) m))"
  by (rule setSelectionFrom_spec[OF assms])

theorem selection_follows_mouse_witness:
  "setSelectionFrom 2 1 0 True square =
    find_selected (switch_all True (span square 0 1) (switch_all (\<not> True) (span square 0 2) square))"
  using selection_follows_mouse[OF square_ok, of 2 1 0 True] by (simp add: square_def)

end
