(* ===== verification/MatrixOps.thy ===== *)
theory MatrixOps
  imports MatrixSelect
begin

text \<open>
  The selection of a matrix of cells (\<open>Source/NSMatrix.m\<close>): the calls that select and deselect keep
  the selected cell, its row and column, and the flags in step; what inserting and removing rows does
  to them.
\<close>

subsection \<open>Consistent selections\<close>

text \<open>
  The selected cell is at the row and column kept for it and has its flag there, or there is none.
  Flags are at places with cells, and in radio mode only the selected cell has one.
\<close>

definition selection_ok :: "matrix \<Rightarrow> bool" where
  "selection_ok m \<longleftrightarrow> wf_grid m \<and> cells_apart m \<and>
     (case selected_cell m of
        None \<Rightarrow> selected_row m = - 1 \<and> selected_column m = - 1
      | Some c \<Rightarrow> \<exists>i < num_rows m. \<exists>j < num_cols m. selected_row m = int i \<and> selected_column m = int j \<and>
          grid m ! i ! j = Some c \<and> flag m i j) \<and>
     (\<forall>i < num_rows m. \<forall>j < num_cols m. flag m i j \<longrightarrow> grid m ! i ! j \<noteq> None \<and>
        (matrix_mode m = NSRadioModeMatrix \<longrightarrow> int i = selected_row m \<and> int j = selected_column m))"

lemma selection_okD:
  assumes "selection_ok m"
  shows "wf_grid m" and "cells_apart m"
    and "selected_cell m = None \<Longrightarrow> selected_row m = - 1 \<and> selected_column m = - 1"
    and "selected_cell m = Some c \<Longrightarrow> \<exists>i < num_rows m. \<exists>j < num_cols m. selected_row m = int i \<and>
      selected_column m = int j \<and> grid m ! i ! j = Some c \<and> flag m i j"
    and "flag m i j \<Longrightarrow> i < num_rows m \<Longrightarrow> j < num_cols m \<Longrightarrow> grid m ! i ! j \<noteq> None"
    and "flag m i j \<Longrightarrow> i < num_rows m \<Longrightarrow> j < num_cols m \<Longrightarrow> matrix_mode m = NSRadioModeMatrix \<Longrightarrow>
      int i = selected_row m \<and> int j = selected_column m"
  using assms by (auto simp: selection_ok_def)

lemma selection_ok_tell [simp]: "selection_ok (tell g c m) = selection_ok m"
  by (simp add: selection_ok_def wf_grid_def cells_apart_def cong: option.case_cong)

lemma selection_ok_key [simp]: "selection_ok (setKeyRow r c m) = selection_ok m"
  by (simp add: selection_ok_def wf_grid_def cells_apart_def flag_def cong: option.case_cong)

lemma selection_ok_text [simp]: "selection_ok (m\<lparr>text_object := b\<rparr>) = selection_ok m"
  by (simp add: selection_ok_def wf_grid_def cells_apart_def flag_def cong: option.case_cong)

lemma same_shape_apart: "same_shape m m' \<Longrightarrow> cells_apart m' = cells_apart m"
  by (simp add: same_shape_def cells_apart_def)

text \<open>No flag is left and nothing is selected.\<close>

lemma cleared_ok:
  assumes "selection_ok m" and "same_shape m m'" and "\<And>i j. flag m' i j \<longleftrightarrow> flag m i j \<and> (i, j) \<notin> set (places m)"
  shows "selection_ok (no_selection m')"
proof -
  have "wf_grid m'" "cells_apart m'"
    using assms(1,2) same_shape_wf same_shape_apart by (auto simp: selection_ok_def)
  moreover have "\<not> flag m' i j" if "i < num_rows m'" "j < num_cols m'" for i j
    using assms(2,3) that by (simp add: in_places same_shape_def)
  ultimately show ?thesis
    by (simp add: selection_ok_def wf_grid_def cells_apart_def flag_def cong: option.case_cong)
qed

lemma places_visible: "\<forall>(i, j) \<in> set (places m). i < num_rows m \<and> j < num_cols m"
  by (auto simp: in_places)

lemma deselectAllCells_ok:
  assumes "selection_ok m"
  shows "selection_ok (deselectAllCells m) \<and> same_shape m (deselectAllCells m)"
proof -
  let ?m = "fold deselect_place (places m) m"
  have cleared: "same_shape m ?m \<and> dotted_row ?m = dotted_row m \<and> dotted_column ?m = dotted_column m \<and>
      (\<forall>i j. flag ?m i j \<longleftrightarrow> flag m i j \<and> (i, j) \<notin> set (places m))"
    by (rule fold_clears[OF _ _ selection_okD(1)[OF assms] places_visible])
      (use deselect_place_sel deselect_place_flag in blast)+
  then have "selection_ok (no_selection ?m)" by (intro cleared_ok[OF assms]) blast+
  then show ?thesis using assms cleared by (simp add: deselectAllCells_def same_shape_def)
qed

lemma deselectSelectedCell_ok:
  assumes "selection_ok m"
  shows "selection_ok (deselectSelectedCell m) \<and> same_shape m (deselectSelectedCell m)"
proof -
  let ?f = "\<lambda>(i, j) m. if picked m ! i ! j then pick False i j (tell (setState 0) (grid m ! i ! j) m) else m"
  let ?m = "fold ?f (places m) m"
  have cleared: "same_shape m ?m \<and> dotted_row ?m = dotted_row m \<and> dotted_column ?m = dotted_column m \<and>
      (\<forall>i j. flag ?m i j \<longleftrightarrow> flag m i j \<and> (i, j) \<notin> set (places m))"
  proof (rule fold_clears[OF _ _ selection_okD(1)[OF assms] places_visible])
    fix ij m
    show "same_shape m (?f ij m) \<and> dotted_row (?f ij m) = dotted_row m \<and> dotted_column (?f ij m) = dotted_column m"
      by (cases ij) (auto simp: same_shape_def pick_shape[unfolded same_shape_def])
  next
    fix i j m i' j'
    assume "wf_grid m" "i < num_rows m" "j < num_cols m"
    moreover from this have "wf_grid (tell (setState 0) (grid m ! i ! j) m)"
      by (simp add: wf_grid_def)
    ultimately show "flag (?f (i, j) m) i' j' \<longleftrightarrow> flag m i' j' \<and> (i', j') \<noteq> (i, j)"
      using pick_flag[of "tell (setState 0) (grid m ! i ! j) m" i j False i' j'] wf_gridD(4,5)[of m]
      by (auto simp: flag_def[of m])
  qed
  then have "selection_ok (no_selection ?m)" by (intro cleared_ok[OF assms]) blast+
  then show ?thesis using assms cleared by (simp add: deselectSelectedCell_def same_shape_def)
qed

subsection \<open>Selecting one cell\<close>

text \<open>The cell at a place, with its flag as the only one in radio mode, becomes the selected cell.\<close>

lemma selection_okI:
  assumes "wf_grid m" and "cells_apart m" and "i < num_rows m" and "j < num_cols m" and "grid m ! i ! j = Some c"
    and "\<And>i' j'. flag m i' j' \<Longrightarrow> i' < num_rows m \<Longrightarrow> j' < num_cols m \<Longrightarrow> grid m ! i' ! j' \<noteq> None \<and>
      (matrix_mode m = NSRadioModeMatrix \<longrightarrow> i' = i \<and> j' = j)"
  shows "selection_ok (pick True i j (m\<lparr>selected_cell := Some c, selected_row := int i, selected_column := int j\<rparr>))"
proof -
  let ?m = "m\<lparr>selected_cell := Some c, selected_row := int i, selected_column := int j\<rparr>"
  have m: "wf_grid ?m" "cells_apart ?m" "flag ?m = flag m"
    using assms(1,2) by (simp_all add: wf_grid_def cells_apart_def flag_def fun_eq_iff)
  have ij: "i < length (grid ?m)" "j < max_cols ?m" using wf_gridD(4,5)[OF assms(1)] assms(3,4) by simp_all
  note flags = pick_flag[OF m(1) ij, of True, unfolded m(3)]
  have "wf_grid (pick True i j ?m)" "cells_apart (pick True i j ?m)"
    using same_shape_wf[OF pick_shape m(1)] same_shape_apart[OF pick_shape] m(2) by auto
  then show ?thesis
    using assms(3-5) assms(6) unfolding selection_ok_def by (auto simp: flags)
qed

lemma only_flag:
  assumes "selection_ok m" and "flag m i j" and "i < num_rows m" and "j < num_cols m"
    and "matrix_mode m = NSRadioModeMatrix"
  obtains c where "selected_cell m = Some c" and "grid m ! i ! j = Some c"
    and "selected_row m = int i" and "selected_column m = int j"
proof -
  have at: "int i = selected_row m" "int j = selected_column m"
    using selection_okD(6)[OF assms] by blast+
  then obtain c where c: "selected_cell m = Some c"
    using selection_okD(3)[OF assms(1)] by (cases "selected_cell m") auto
  from selection_okD(4)[OF assms(1) c] at that[OF c] show ?thesis by auto
qed

text \<open>Clearing the flag of the selected cell leaves no flag in radio mode.\<close>

lemma release_selected_spec:
  assumes ok: "selection_ok m" and radio: "matrix_mode m = NSRadioModeMatrix"
  shows "\<exists>m'. release_selected m = Some m' \<and> same_shape m m' \<and>
    (\<forall>i < num_rows m. \<forall>j < num_cols m. \<not> flag m' i j)"
proof (cases "selected_cell m")
  case None
  then have "release_selected m = Some m"
    using selection_okD(3)[OF ok] by (simp add: release_selected_def)
  moreover have "\<not> flag m i j" if "i < num_rows m" "j < num_cols m" for i j
    using only_flag[OF ok _ that radio] None by (metis option.distinct(1))
  ultimately show ?thesis by auto
next
  case (Some c)
  obtain i j where at: "i < num_rows m" "j < num_cols m" "selected_row m = int i" "selected_column m = int j"
    using selection_okD(4)[OF ok Some] by blast
  have in_arrays: "i < length (grid m)" "j < max_cols m"
    using at(1,2) wf_gridD(4,5)[OF selection_okD(1)[OF ok]] by simp_all
  then have released: "release_selected m = Some (tell (setState 0) (selected_cell m) (pick False i j m))"
    by (simp add: release_selected_def inside_def at)
  have "\<not> flag (pick False i j m) i' j'" if "i' < num_rows m" "j' < num_cols m" for i' j'
    using pick_flag[OF selection_okD(1)[OF ok] in_arrays] selection_okD(6)[OF ok _ that radio] at(3,4) by auto
  then show ?thesis using released pick_shape[of m False i j] by (simp add: same_shape_def)
qed

lemma select_cell_spec:
  assumes ok: "selection_ok m" and at: "i < num_rows m" "j < num_cols m" "grid m ! i ! j = Some c"
  shows "\<exists>m'. select_cell (Some c) i j m = Some m' \<and> selection_ok m' \<and> same_shape m m' \<and>
    selected_cell m' = Some c \<and> selected_row m' = int i \<and> selected_column m' = int j"
proof -
  let ?release = "selected_cell m \<noteq> None \<and> selected_cell m \<noteq> Some c \<and> matrix_mode m = NSRadioModeMatrix"
  have "\<exists>m1. (if ?release then release_selected m else Some m) = Some m1 \<and> same_shape m m1 \<and>
      (\<forall>i' < num_rows m. \<forall>j' < num_cols m. flag m1 i' j' \<longrightarrow> grid m ! i' ! j' \<noteq> None \<and>
        (matrix_mode m = NSRadioModeMatrix \<longrightarrow> i' = i \<and> j' = j))"
  proof (cases ?release)
    case True
    then show ?thesis using release_selected_spec[OF ok] by fastforce
  next
    case False
    have "grid m ! i' ! j' \<noteq> None \<and> (matrix_mode m = NSRadioModeMatrix \<longrightarrow> i' = i \<and> j' = j)"
      if flag: "flag m i' j'" "i' < num_rows m" "j' < num_cols m" for i' j'
    proof -
      have "i' = i \<and> j' = j" if radio: "matrix_mode m = NSRadioModeMatrix"
      proof -
        obtain d where "selected_cell m = Some d" "grid m ! i' ! j' = Some d" by (rule only_flag[OF ok flag radio])
        then have "grid m ! i' ! j' = grid m ! i ! j" using False radio at(3) by simp
        then show ?thesis
          using selection_okD(2)[OF ok] flag(2,3) at unfolding cells_apart_def by (metis option.distinct(1))
      qed
      then show ?thesis using selection_okD(5)[OF ok flag] by blast
    qed
    then show ?thesis using False by auto
  qed
  then obtain m1 where m1: "(if ?release then release_selected m else Some m) = Some m1" "same_shape m m1"
    and flags: "\<And>i' j'. flag m1 i' j' \<Longrightarrow> i' < num_rows m \<Longrightarrow> j' < num_cols m \<Longrightarrow> grid m ! i' ! j' \<noteq> None \<and>
        (matrix_mode m = NSRadioModeMatrix \<longrightarrow> i' = i \<and> j' = j)" by blast
  let ?m2 = "pick True i j (m1\<lparr>selected_cell := Some c, selected_row := int i, selected_column := int j\<rparr>)"
  have "wf_grid m1" "cells_apart m1"
    using same_shape_wf[OF m1(2)] same_shape_apart[OF m1(2)] selection_okD(1,2)[OF ok] by auto
  then have m2: "selection_ok ?m2"
    by (rule selection_okI) (use m1(2) at flags in \<open>auto simp: same_shape_def\<close>)
  have "same_shape m1 (m1\<lparr>selected_cell := Some c, selected_row := int i, selected_column := int j\<rparr>)"
    by (simp add: same_shape_def)
  then have "same_shape m ?m2" using same_shape_trans[OF m1(2)] same_shape_trans pick_shape by blast
  then show ?thesis
    unfolding select_cell_def option.case m1(1) bind.bind_lunit Let_def using m2 by (simp add: same_shape_def)
qed

definition kept :: "matrix \<Rightarrow> matrix option \<Rightarrow> bool" where
  "kept m r \<longleftrightarrow> (case r of None \<Rightarrow> False | Some m' \<Rightarrow> selection_ok m' \<and> same_shape m m')"

lemma kept_Some [simp]: "kept m (Some m') \<longleftrightarrow> selection_ok m' \<and> same_shape m m'"
  by (simp add: kept_def)

lemma kept_shape: "same_shape m m' \<Longrightarrow> kept m' r \<Longrightarrow> kept m r"
  by (cases r) (auto simp: kept_def intro: same_shape_trans)

lemma kept_bind:
  assumes "kept m r" and "\<And>m'. selection_ok m' \<Longrightarrow> same_shape m m' \<Longrightarrow> kept m' (f m')"
  shows "kept m (Option.bind r f)"
proof -
  obtain m' where r: "r = Some m'" "selection_ok m'" "same_shape m m'"
    using assms(1) by (cases r) (auto simp: kept_def)
  have "kept m' (f m')" by (rule assms(2)[OF r(2,3)])
  then show ?thesis unfolding r(1) bind.bind_lunit by (rule kept_shape[OF r(3)])
qed

lemma same_shape_visible:
  assumes "same_shape m m'"
  shows "cellAtRow r c m' = cellAtRow r c m" "num_rows m' = num_rows m" "num_cols m' = num_cols m"
    "grid m' = grid m" "matrix_mode m' = matrix_mode m"
  using assms by (simp_all add: same_shape_def cellAtRow_def)

lemma cellAtRow_place:
  assumes "cellAtRow r c m = Some x"
  shows "nat r < num_rows m" "nat c < num_cols m" "grid m ! nat r ! nat c = Some x" "int (nat r) = r" "int (nat c) = c"
  using assms by (auto simp: cellAtRow_def split: if_splits)

lemma select_cell_kept:
  assumes "selection_ok m" and "i < num_rows m" "j < num_cols m" "grid m ! i ! j = Some c"
  shows "kept m (select_cell (Some c) i j m)"
  using select_cell_spec[OF assms] by auto

lemma selectTextAtRow_kept:
  assumes "selection_ok m"
  shows "kept m (selectTextAtRow E row column m)"
proof (cases "cellAtRow row column m")
  case (Some c)
  let ?m = "m\<lparr>text_object := False\<rparr>"
  have "kept ?m (select_cell (Some c) (nat row) (nat column) ?m)"
    using cellAtRow_place[OF Some] assms by (intro select_cell_kept) auto
  then obtain m' where "select_cell (Some c) (nat row) (nat column) ?m = Some m'" "selection_ok m'" "same_shape m m'"
    by (auto simp: kept_def same_shape_def split: option.splits)
  then show ?thesis
    using assms Some by (auto simp: selectTextAtRow_def Let_def same_shape_def)
qed (use assms in \<open>simp add: selectTextAtRow_def\<close>)

lemma selectCellAtRow_kept:
  assumes "selection_ok m"
  shows "kept m (selectCellAtRow E row column m)"
proof (cases "cellAtRow row column m")
  case None
  then show ?thesis using assms deselectAllCells_ok[OF assms] by (simp add: selectCellAtRow_def)
next
  case (Some c)
  let ?m = "if matrix_mode m = NSListModeMatrix then deselectAllCells m else m"
  have m: "selection_ok ?m" "same_shape m ?m" using deselectAllCells_ok[OF assms] assms by simp_all
  note at = cellAtRow_place[OF Some]
  have "kept ?m (Option.bind (select_cell (Some c) (nat row) (nat column) ?m) (selectTextAtRow E row column))"
    using m(1) at same_shape_visible(2-4)[OF m(2)] by (intro kept_bind select_cell_kept selectTextAtRow_kept) simp_all
  then have "kept m (Option.bind (select_cell (Some c) (nat row) (nat column) ?m) (selectTextAtRow E row column))"
    by (rule kept_shape[OF m(2)])
  then show ?thesis using Some deselectAllCells_ok[OF assms] by (auto simp: selectCellAtRow_def)
qed

lemma find_in: "List.find P xs = Some x \<Longrightarrow> x \<in> set xs \<and> P x"
  by (induction xs) (auto split: if_splits)

lemma selectCell_kept:
  assumes "selection_ok m"
  shows "kept m (selectCell E (Some c) m)"
proof (cases "getRowOfCell (Some c) m")
  case (Some p)
  obtain i j where p: "p = (i, j)" by (cases p)
  have "p \<in> set (places m)" "grid m ! i ! j = Some c"
    using find_in[of _ "places m" p] Some p by (auto simp: getRowOfCell_def)
  then show ?thesis
    using Some p assms by (auto simp: selectCell_def in_places intro!: kept_bind select_cell_kept selectTextAtRow_kept)
qed (use assms in \<open>simp add: selectCell_def\<close>)

lemma setStateAtRow_kept:
  assumes ok: "selection_ok m"
  shows "kept m (setStateAtRow v row column m)"
proof (cases "cellAtRow row column m")
  case (Some c)
  note at = cellAtRow_place[OF Some]
  show ?thesis
  proof (cases "matrix_mode m = NSRadioModeMatrix \<and> v \<noteq> 0")
    case True
    then obtain m1 where m1: "release_selected m = Some m1" "same_shape m m1"
        "\<forall>i < num_rows m. \<forall>j < num_cols m. \<not> flag m1 i j"
      using release_selected_spec[OF ok] by blast
    let ?m2 = "m1\<lparr>selected_cell := Some c, selected_row := row, selected_column := column\<rparr>"
    let ?m3 = "tell (setState v) (Some c) ?m2"
    have fields: "grid m1 = grid m" "num_rows m1 = num_rows m" "num_cols m1 = num_cols m"
      using m1(2) by (simp_all add: same_shape_def)
    have "wf_grid m1" "cells_apart m1"
      using same_shape_wf[OF m1(2)] same_shape_apart[OF m1(2)] selection_okD(1,2)[OF ok] by auto
    then have "selection_ok (pick True (nat row) (nat column)
        (m1\<lparr>selected_cell := Some c, selected_row := int (nat row), selected_column := int (nat column)\<rparr>))"
      by (rule selection_okI) (use at m1(3) in \<open>simp_all add: fields\<close>)
    then have "selection_ok (tell (setState v) (Some c) (pick True (nat row) (nat column) ?m2))" using at(4,5) by simp
    moreover have "tell (setState v) (Some c) (pick True (nat row) (nat column) ?m2) = pick True (nat row) (nat column) ?m3"
      by (simp add: tell_def pick_def)
    moreover have "same_shape m (pick True (nat row) (nat column) ?m3)"
      using m1(2) pick_shape[of ?m3 True "nat row" "nat column"] by (simp add: same_shape_def)
    ultimately show ?thesis
      using Some True m1(1) by (simp add: setStateAtRow_def Let_def same_shape_def)
  next
    case False
    then show ?thesis
      using Some ok deselectSelectedCell_ok[OF ok] by (auto simp: setStateAtRow_def same_shape_def)
  qed
qed (use ok in \<open>simp add: setStateAtRow_def\<close>)

subsection \<open>Selecting many cells\<close>

lemma flag_selection [simp]: "flag (m\<lparr>selected_cell := c, selected_row := r, selected_column := k\<rparr>) = flag m"
  by (simp add: flag_def fun_eq_iff)

text \<open>Outside radio mode the flags need only be at places with cells.\<close>

definition flags_on_cells :: "matrix \<Rightarrow> bool" where
  "flags_on_cells m \<longleftrightarrow> (\<forall>i < num_rows m. \<forall>j < num_cols m. flag m i j \<longrightarrow> grid m ! i ! j \<noteq> None)"

text \<open>The selected cell has its flag, at a place outside \<open>S\<close>.\<close>

definition selected_ok :: "(nat \<times> nat) set \<Rightarrow> matrix \<Rightarrow> bool" where
  "selected_ok S m \<longleftrightarrow>
     (case selected_cell m of
        None \<Rightarrow> selected_row m = - 1 \<and> selected_column m = - 1
      | Some c \<Rightarrow> \<exists>i < num_rows m. \<exists>j < num_cols m. selected_row m = int i \<and> selected_column m = int j \<and>
          grid m ! i ! j = Some c \<and> flag m i j \<and> (i, j) \<notin> S)"

lemma selection_ok_flags: "selection_ok m \<Longrightarrow> flags_on_cells m"
  by (simp add: selection_ok_def flags_on_cells_def)

lemma selection_ok_many:
  assumes "wf_grid m" and "cells_apart m" and "flags_on_cells m" and "selected_ok S m"
    and "matrix_mode m \<noteq> NSRadioModeMatrix"
  shows "selection_ok m"
proof -
  have "selected_ok {} m" using assms(4) by (auto simp: selected_ok_def split: option.splits)
  then show ?thesis
    using assms(1-3,5) by (simp add: selection_ok_def flags_on_cells_def selected_ok_def cong: option.case_cong)
qed

lemma select_place_shape: "same_shape m (select_place ij m)"
proof (cases ij)
  case (Pair i j)
  show ?thesis
    using pick_shape[of "tell (setState 1) (grid m ! i ! j) m" True i j] pick_shape[of m False i j]
    by (simp add: Pair select_place_def Let_def same_shape_def)
qed

lemma select_place_flag:
  assumes "wf_grid m" and "i < num_rows m" and "j < num_cols m"
  shows "flag (select_place (i, j) m) i' j' =
    (if (i', j') = (i, j) then asks (\<lambda>x. \<not> is_disabled x \<and> \<not> is_editable x) (grid m ! i ! j) m else flag m i' j')"
proof -
  have wf: "wf_grid (tell g c m)" for g c using assms(1) by (simp add: wf_grid_def)
  have at: "i < length (grid m)" "j < max_cols m" using wf_gridD(4,5)[OF assms(1)] assms(2,3) by simp_all
  show ?thesis
    using pick_flag[of "tell (setState 1) (grid m ! i ! j) m" i j True i' j'] wf pick_flag[OF assms(1) at, of False] at
    by (auto simp: select_place_def Let_def)
qed

text \<open>The selected cell stays selected, as its place is not visited again.\<close>

lemma fold_select:
  assumes "distinct ps" and "wf_grid m" and "\<forall>(i, j) \<in> set ps. i < num_rows m \<and> j < num_cols m"
    and "flags_on_cells m" and "selected_ok (set ps) m"
  shows "same_shape m (fold select_place ps m) \<and> flags_on_cells (fold select_place ps m) \<and>
    selected_ok {} (fold select_place ps m)"
  using assms
proof (induction ps arbitrary: m)
  case (Cons p ps)
  obtain i j where p: "p = (i, j)" by (cases p)
  have ij: "i < num_rows m" "j < num_cols m" using Cons.prems(3) p by auto
  let ?m = "select_place p m" and ?ask = "asks (\<lambda>x. \<not> is_disabled x \<and> \<not> is_editable x) (grid m ! i ! j) m"
  have shape: "same_shape m ?m" by (rule select_place_shape)
  note fields = same_shape_visible[OF shape]
  have flags: "flag ?m i' j' = (if i' = i \<and> j' = j then ?ask else flag m i' j')" for i' j'
    using select_place_flag[OF Cons.prems(2) ij] by (simp add: p)
  have selected: "selected_cell ?m = (if ?ask then grid m ! i ! j else selected_cell m)"
      "selected_row ?m = (if ?ask then int i else selected_row m)"
      "selected_column ?m = (if ?ask then int j else selected_column m)"
    by (simp_all add: p select_place_def Let_def)
  have later: "(i, j) \<notin> set ps" using Cons.prems(1) p by simp
  have "selected_ok (set ps) ?m"
  proof (cases ?ask)
    case True
    then obtain c where "grid m ! i ! j = Some c" by (auto simp: asks_def split: option.splits)
    moreover have "flag ?m i j" using True flags by simp
    ultimately show ?thesis using True ij later by (simp add: selected_ok_def selected fields)
  next
    case False
    have "selected_ok (insert (i, j) (set ps)) m" using Cons.prems(5) by (simp add: p)
    then show ?thesis
      using False by (auto simp: selected_ok_def selected fields flags split: option.splits)
  qed
  moreover have "flags_on_cells ?m"
    using Cons.prems(4) by (auto simp: flags_on_cells_def fields flags asks_def split: option.splits if_splits)
  moreover have "wf_grid ?m" by (rule same_shape_wf[OF shape Cons.prems(2)])
  moreover have "\<forall>(i, j) \<in> set ps. i < num_rows ?m \<and> j < num_cols ?m" using Cons.prems(3) by (auto simp: fields)
  ultimately have "same_shape ?m (fold select_place ps ?m) \<and> flags_on_cells (fold select_place ps ?m) \<and>
      selected_ok {} (fold select_place ps ?m)"
    using Cons.prems(1) by (intro Cons.IH) simp_all
  then show ?case using same_shape_trans[OF shape] by simp
qed simp

lemma selectAll_kept:
  assumes "selection_ok m"
  shows "kept m (Some (selectAll m))"
proof (cases "matrix_mode m = NSRadioModeMatrix")
  case True
  then show ?thesis using assms by (simp add: selectAll_def)
next
  case False
  let ?m = "no_selection m" and ?all = "fold select_place (places m) (no_selection m)"
  have "wf_grid ?m" "flags_on_cells ?m" "selected_ok (set (places m)) ?m"
    using selection_okD(1)[OF assms] selection_ok_flags[OF assms]
    by (simp_all add: wf_grid_def flags_on_cells_def selected_ok_def flag_def)
  then have all: "same_shape ?m ?all \<and> flags_on_cells ?all \<and> selected_ok {} ?all"
    using places_visible[of m] by (intro fold_select) (simp_all add: places_def distinct_product)
  then have shape: "same_shape m ?all" by (simp add: same_shape_def)
  have "wf_grid ?all" "cells_apart ?all" "matrix_mode ?all \<noteq> NSRadioModeMatrix"
    using same_shape_wf[OF shape] same_shape_apart[OF shape] selection_okD(1,2)[OF assms] shape False
    by (auto simp: same_shape_def)
  then have "selection_ok ?all" using all selection_ok_many by blast
  then show ?thesis using shape False by (simp add: selectAll_def)
qed

lemma find_selected_ok:
  assumes "wf_grid m" and "cells_apart m" and "flags_on_cells m" and "matrix_mode m \<noteq> NSRadioModeMatrix"
  shows "selection_ok (find_selected m) \<and> same_shape m (find_selected m)"
proof (cases "List.find (\<lambda>(i, j). picked m ! i ! j) (rev (places m))")
  case None
  have "selection_ok (no_selection m)"
    by (rule selection_ok_many[where S = "{}"])
      (use assms in \<open>simp_all add: wf_grid_def cells_apart_def flags_on_cells_def flag_def selected_ok_def\<close>)
  then show ?thesis using None by (simp add: find_selected_def same_shape_def)
next
  case (Some p)
  obtain i j where p: "p = (i, j)" by (cases p)
  have "p \<in> set (rev (places m))" "picked m ! i ! j"
    using find_in[OF Some] p by simp_all
  then have ij: "i < num_rows m" "j < num_cols m" "flag m i j" using p by (simp_all add: in_places flag_def)
  then obtain c where c: "grid m ! i ! j = Some c" using assms(3) by (auto simp: flags_on_cells_def)
  have "selection_ok (m\<lparr>selected_cell := Some c, selected_row := int i, selected_column := int j\<rparr>)"
    by (rule selection_ok_many[where S = "{}"])
      (use assms ij c in \<open>simp_all add: wf_grid_def cells_apart_def flags_on_cells_def selected_ok_def\<close>)
  then show ?thesis using Some p c by (simp add: find_selected_def same_shape_def)
qed

lemma setSelectionFrom_kept:
  assumes ok: "selection_ok m" and "matrix_mode m \<noteq> NSRadioModeMatrix"
    and "s < num_rows m * num_cols m" "e < num_rows m * num_cols m" "a < num_rows m * num_cols m"
  shows "kept m (Some (setSelectionFrom s e a b m))"
proof -
  let ?n = "switch_all b (span m a e) (switch_all (\<not> b) (span m a s) m)"
  have shape: "same_shape m ?n" by (simp add: same_shape_def) (simp add: switch_all_def)
  have "flags_on_cells ?n"
    unfolding flags_on_cells_def
  proof (intro allI impI)
    fix i j assume at: "i < num_rows ?n" "j < num_cols ?n" and flag: "flag ?n i j"
    have "i < length (picked m)" "j < length (picked m ! i)"
      using at wf_gridD[OF selection_okD(1)[OF ok]] by simp_all
    then have "flag m i j \<or> enabled_at m i j"
      using flag by (auto simp: flag_def switch_all_flag switch_all_length split: if_splits)
    then have "grid m ! i ! j \<noteq> None"
      using selection_okD(5)[OF ok, of i j] at by (auto simp: enabled_at_def asks_def split: option.splits)
    then show "grid ?n ! i ! j \<noteq> None" by simp
  qed
  moreover have "wf_grid ?n" "cells_apart ?n" "matrix_mode ?n \<noteq> NSRadioModeMatrix"
    using same_shape_wf[OF shape] same_shape_apart[OF shape] selection_okD(1,2)[OF ok] shape assms(2)
    by (auto simp: same_shape_def)
  ultimately have "selection_ok (find_selected ?n) \<and> same_shape ?n (find_selected ?n)"
    by (intro find_selected_ok)
  then show ?thesis
    using same_shape_trans[OF shape] setSelectionFrom_spec[OF selection_okD(1,2)[OF ok] assms(3-5)] by simp
qed

subsection \<open>Sequences of calls\<close>

datatype selection_call =
    SelectCellAtRow int int
  | SelectCell nat
  | SetStateAtRow "64 word" int int
  | DeselectAllCells
  | DeselectSelectedCell
  | SelectAll
  | SetSelectionFrom nat nat nat bool

fun perform_selection :: "field_editor \<Rightarrow> selection_call \<Rightarrow> matrix \<Rightarrow> matrix option" where
  "perform_selection E (SelectCellAtRow r c) m = selectCellAtRow E r c m"
| "perform_selection E (SelectCell c) m = selectCell E (Some c) m"
| "perform_selection E (SetStateAtRow v r c) m = setStateAtRow v r c m"
| "perform_selection E DeselectAllCells m = Some (deselectAllCells m)"
| "perform_selection E DeselectSelectedCell m = Some (deselectSelectedCell m)"
| "perform_selection E SelectAll m = Some (selectAll m)"
| "perform_selection E (SetSelectionFrom s e a b) m = Some (setSelectionFrom s e a b m)"

fun perform_selections :: "field_editor \<Rightarrow> selection_call list \<Rightarrow> matrix \<Rightarrow> matrix option" where
  "perform_selections E [] m = Some m"
| "perform_selections E (c # cs) m = Option.bind (perform_selection E c m) (perform_selections E cs)"

text \<open>Ranges are selected in matrices that are not in radio mode, between places of the matrix.\<close>

fun selection_call_ok :: "matrix \<Rightarrow> selection_call \<Rightarrow> bool" where
  "selection_call_ok m (SetSelectionFrom s e a b) \<longleftrightarrow> matrix_mode m \<noteq> NSRadioModeMatrix \<and>
     s < num_rows m * num_cols m \<and> e < num_rows m * num_cols m \<and> a < num_rows m * num_cols m"
| "selection_call_ok m _ \<longleftrightarrow> True"

lemma perform_selection_kept:
  assumes "selection_ok m" and "selection_call_ok m c"
  shows "kept m (perform_selection E c m)"
proof (cases c)
  case DeselectAllCells
  then show ?thesis using deselectAllCells_ok[OF assms(1)] by simp
next
  case DeselectSelectedCell
  then show ?thesis using deselectSelectedCell_ok[OF assms(1)] by simp
next
  case (SetSelectionFrom s e a b)
  then show ?thesis using setSelectionFrom_kept[OF assms(1), of s e a b] assms(2) by simp
qed (use assms selectCellAtRow_kept selectCell_kept setStateAtRow_kept selectAll_kept in \<open>auto simp del: kept_Some\<close>)

lemma perform_selections_kept:
  assumes "selection_ok m" and "list_all (selection_call_ok m) cs"
  shows "kept m (perform_selections E cs m)"
  using assms
proof (induction cs arbitrary: m)
  case (Cons c cs)
  show ?case
    unfolding perform_selections.simps
  proof (rule kept_bind)
    show "kept m (perform_selection E c m)" using Cons.prems by (intro perform_selection_kept) simp_all
    fix m' assume m': "selection_ok m'" "same_shape m m'"
    have "selection_call_ok m' c = selection_call_ok m c" for c
      using m'(2) by (cases c) (simp_all add: same_shape_def)
    then show "kept m' (perform_selections E cs m')"
      using Cons.prems(2) m'(1) by (intro Cons.IH) (simp_all add: list.pred_mono_strong)
  qed
qed (simp add: kept_def)

subsection \<open>Inserting a row\<close>

lemma fill_spaces: "fill (replicate n True) m = (replicate n None, m)"
  by (induction n) simp_all

lemma rotate_in_last: "k \<le> length xs \<Longrightarrow> rotate_in (length xs + 1) k (xs @ [x]) = take k xs @ x # drop k xs"
  by (simp add: rotate_in_def nth_append)

definition with_row :: "nat \<Rightarrow> nat option list \<Rightarrow> matrix \<Rightarrow> matrix" where
  "with_row k r m = m\<lparr>grid := take k (grid m) @ r # drop k (grid m),
     picked := take k (picked m) @ replicate (num_cols m) False # drop k (picked m), num_rows := num_rows m + 1,
     selected_row := moved_up (int k) (selected_row m),
     dotted_row := (if dotted_row m \<noteq> - 1 then moved_up (int k) (dotted_row m) else - 1)\<rparr>"

text \<open>A radio matrix without spare rows and columns gets a row of cells.\<close>

lemma insertRow_spec:
  assumes wf: "wf_grid m" and full: "length (grid m) = num_rows m" "max_cols m = num_cols m" "0 < num_rows m" "0 < num_cols m"
    and radio: "matrix_mode m = NSRadioModeMatrix" "\<not> allows_empty_selection m" "selected_cell m = Some c"
    and row: "k \<le> num_rows m" "length cs = num_cols m"
  shows "insertRow E (int k) (Some cs) m = Some (with_row k (map Some cs) m)"
proof -
  let ?n = "num_rows m" and ?w = "num_cols m"
  have spaces: "map (\<lambda>j. j < ?w) [0..<?w] = replicate ?w True"
    by (auto intro: nth_equalityI)
  have rows: "new_rows (Suc 0) ?w ?w m1 = ([replicate ?w None], m1)" for m1
    by (simp add: spaces fill_spaces)
  have renew: "renewRows (int ?n + 1) (int ?w) ?w 0 m = m\<lparr>num_cols := ?w, max_cols := ?w, num_rows := ?n + 1,
      grid := grid m @ [replicate ?w None], picked := picked m @ [replicate ?w False]\<rparr>"
  proof -
    have size: "nat (int ?n + 1) = Suc ?n" "nat (int ?w) = ?w" "Suc ?n - ?n = Suc 0" by simp_all
    show ?thesis
      unfolding renewRows_def size full(1,2) Let_def using full(3,4) radio
      by (simp add: rows deselectAllCells_def del: new_rows.simps)
  qed
  have lengths: "length (picked m) = ?n" using wf full(1) by (simp add: wf_grid_def)
  let ?m1 = "m\<lparr>num_cols := ?w, max_cols := ?w, num_rows := ?n + 1,
      grid := grid m @ [replicate ?w None], picked := picked m @ [replicate ?w False]\<rparr>"
  have rotated: "rotate_in (Suc ?n) k (grid m @ [replicate ?w None]) = take k (grid m) @ replicate ?w None # drop k (grid m)"
      "rotate_in (Suc ?n) k (picked m @ [replicate ?w False]) = take k (picked m) @ replicate ?w False # drop k (picked m)"
    using rotate_in_last[of k "grid m"] rotate_in_last[of k "picked m"] row(1) full(1) lengths by simp_all
  have new: "(take k (grid m) @ replicate ?w None # drop k (grid m)) ! k = replicate ?w None"
    using row(1) full(1) by (simp add: nth_append)
  have put: "(take k (grid m) @ replicate ?w None # drop k (grid m))[k := map Some cs] =
      take k (grid m) @ map Some cs # drop k (grid m)"
    using row(1) full(1) by (simp add: list_update_append)
  show ?thesis
    using full row radio
    by (simp add: insertRow_def Let_def renew select_first_def rotated new put with_row_def)
qed

text \<open>The flags are those of before, and the row of the selected cell moves with it.\<close>

lemma nth_put_in:
  assumes "k \<le> length xs"
  shows "(take k xs @ x # drop k xs) ! k = x"
    and "i < length xs \<Longrightarrow> (take k xs @ x # drop k xs) ! (if k \<le> i then Suc i else i) = xs ! i"
  using assms by (auto simp: nth_append nth_Cons' Suc_diff_le)

lemma moved_cases:
  assumes "i' < Suc n" and "k \<le> n"
  obtains "i' = k" | i where "i < n" and "i' = (if k \<le> i then Suc i else i)"
proof (cases "i' < k")
  case True
  then show ?thesis using assms that(2)[of i'] by simp
next
  case False
  then show ?thesis using assms that(1) that(2)[of "i' - 1"] by (cases "i' = k") auto
qed

lemma with_row_ok:
  assumes ok: "selection_ok m" and full: "length (grid m) = num_rows m" "max_cols m = num_cols m"
    and sel: "selected_cell m = Some c"
    and row: "k \<le> num_rows m" "length cs = num_cols m"
    and fresh: "distinct cs" "\<forall>r \<in> set (grid m). \<forall>x \<in> set cs. Some x \<notin> set r"
  shows "selection_ok (with_row k (map Some cs) m)"
proof -
  let ?m = "with_row k (map Some cs) m" and ?up = "\<lambda>i. if k \<le> i then Suc i else i"
  note wf = selection_okD(1)[OF ok]
  have lens: "length (picked m) = num_rows m" using wf full(1) by (simp add: wf_grid_def)
  have fields: "num_rows ?m = Suc (num_rows m)" "num_cols ?m = num_cols m" "max_cols ?m = max_cols m"
      "matrix_mode ?m = matrix_mode m" "selected_cell ?m = selected_cell m"
      "selected_row ?m = moved_up (int k) (selected_row m)" "selected_column ?m = selected_column m"
    by (simp_all add: with_row_def)
  have new: "grid ?m ! k = map Some cs" "\<not> flag ?m k j" if "j < num_cols m" for j
    using row(1) full(1) lens that by (simp_all add: with_row_def flag_def nth_put_in)
  have old: "grid ?m ! ?up i = grid m ! i" "flag ?m (?up i) j \<longleftrightarrow> flag m i j" if "i < num_rows m" for i j
    using row(1) full(1) lens that by (simp_all add: with_row_def flag_def nth_put_in del: if_split)
  have "wf_grid ?m"
    using wf full row by (auto simp: wf_grid_def with_row_def dest: in_set_takeD in_set_dropD)
  moreover have "cells_apart ?m"
    unfolding cells_apart_def fields(1,2)
  proof (intro allI impI)
    have apart: "grid m ! i ! j \<noteq> Some (cs ! l)" if "i < num_rows m" "j < num_cols m" "l < num_cols m" for i j l
    proof -
      have "grid m ! i \<in> set (grid m)" "cs ! l \<in> set cs" "grid m ! i ! j \<in> set (grid m ! i)"
        using that row(2) full wf_gridD(2)[OF wf, of i] by simp_all
      then have "Some (cs ! l) \<noteq> grid m ! i ! j" using fresh(2) by metis
      then show ?thesis by (rule not_sym)
    qed
    fix i1 j1 i2 j2
    assume at: "i1 < Suc (num_rows m)" "j1 < num_cols m" "i2 < Suc (num_rows m)" "j2 < num_cols m"
      and same: "grid ?m ! i1 ! j1 = grid ?m ! i2 ! j2"
    have cell: "grid ?m ! k ! j = Some (cs ! j)" if "j < num_cols m" for j
      unfolding new(1)[OF that] using that row(2) by simp
    show "grid ?m ! i1 ! j1 = None \<or> i1 = i2 \<and> j1 = j2"
    proof (cases rule: moved_cases[OF at(1) row(1)])
      case i1: 1
      show ?thesis
      proof (cases rule: moved_cases[OF at(3) row(1)])
        case 1
        have "cs ! j1 = cs ! j2" using same cell[OF at(2)] cell[OF at(4)] unfolding i1 1 by simp
        then show ?thesis using at(2,4) row(2) nth_eq_iff_index_eq[OF fresh(1)] i1 1 by simp
      next
        case (2 i)
        have "grid m ! i ! j2 = Some (cs ! j1)"
          using same cell[OF at(2)] unfolding i1 2(2) old(1)[OF 2(1)] by (rule trans[OF sym])
        then show ?thesis using apart[OF 2(1) at(4,2)] by blast
      qed
    next
      case i1: (2 i)
      show ?thesis
      proof (cases rule: moved_cases[OF at(3) row(1)])
        case 1
        have "grid m ! i ! j1 = Some (cs ! j2)"
          using same cell[OF at(4)] unfolding 1 i1(2) old(1)[OF i1(1)] by (rule trans)
        then show ?thesis using apart[OF i1(1) at(2,4)] by blast
      next
        case (2 l)
        have "grid m ! i ! j1 = grid m ! l ! j2" using same unfolding i1(2) 2(2) old(1)[OF i1(1)] old(1)[OF 2(1)] .
        from selection_okD(2)[OF ok, unfolded cells_apart_def, rule_format, OF i1(1) at(2) 2(1) at(4) this]
        show ?thesis unfolding i1(2) 2(2) old(1)[OF i1(1)] by blast
      qed
    qed
  qed
  moreover have "\<exists>i < num_rows ?m. \<exists>j < num_cols ?m. selected_row ?m = int i \<and> selected_column ?m = int j \<and>
      grid ?m ! i ! j = Some c \<and> flag ?m i j"
  proof -
    obtain i j where at: "i < num_rows m" "j < num_cols m" "selected_row m = int i" "selected_column m = int j"
        "grid m ! i ! j = Some c" "flag m i j" using selection_okD(4)[OF ok sel] by blast
    show ?thesis
    proof (intro exI conjI)
      show "?up i < num_rows ?m" "j < num_cols ?m" "selected_row ?m = int (?up i)" "selected_column ?m = int j"
        using at by (simp_all add: fields moved_up_def)
      show "grid ?m ! ?up i ! j = Some c" unfolding old(1)[OF at(1)] by (rule at(5))
      show "flag ?m (?up i) j" unfolding old(2)[OF at(1)] by (rule at(6))
    qed
  qed
  moreover have "grid ?m ! i' ! j \<noteq> None \<and>
      (matrix_mode m = NSRadioModeMatrix \<longrightarrow> int i' = selected_row ?m \<and> int j = selected_column ?m)"
    if at: "i' < num_rows ?m" "j < num_cols ?m" "flag ?m i' j" for i' j
  proof -
    have bound: "i' < Suc (num_rows m)" using at(1) by (simp only: fields)
    show ?thesis
    proof (cases rule: moved_cases[OF bound row(1)])
      case 1
      have "j < num_cols m" using at(2) by (simp only: fields)
      from new(2)[OF this] show ?thesis using at(3) unfolding 1 by (rule notE)
    next
      case (2 i)
      have "flag m i j" "j < num_cols m" using at(2,3) unfolding 2(2) old(2)[OF 2(1)] fields by blast+
      note cell = selection_okD(5,6)[OF ok this(1) 2(1) this(2)]
      show ?thesis
        unfolding 2(2) old(1)[OF 2(1)] fields using cell by (auto simp: moved_up_def)
    qed
  qed
  ultimately show ?thesis by (simp add: selection_ok_def fields sel)
qed

subsection \<open>Removing a row\<close>

lemma nth_without_nth: "k < length xs \<Longrightarrow> i < length xs - 1 \<Longrightarrow> without_nth k xs ! i = xs ! (if i < k then i else i + 1)"
  by (auto simp: without_nth_def nth_append)

definition without_row :: "nat \<Rightarrow> matrix \<Rightarrow> matrix" where
  "without_row k m = m\<lparr>grid := without_nth k (grid m), picked := without_nth k (picked m), num_rows := num_rows m - 1\<rparr>"

text \<open>Removing a row that is not the selected one does not look at the selection.\<close>

lemma removeRow_other:
  assumes "0 \<le> r" and "r < int (num_rows m)" and "r \<noteq> selected_row m" and "1 < num_rows m" and "wf_grid m"
    and "removeRow E r m = Some m'"
  obtains dr dc where "m' = (without_row (nat r) m)\<lparr>dotted_row := dr, dotted_column := dc\<rparr>"
proof -
  have "grid (without_row (nat r) m) \<noteq> []"
    using assms(1,2,4) wf_gridD(4)[OF assms(5)] by (auto simp: without_row_def without_nth_def)
  then have "removeRow E r m = (let m = without_row (nat r) m in
      if r = dotted_row m
      then if num_rows m \<noteq> 0 \<and> \<not> inside m 0 (dotted_column m) then None
           else if num_rows m \<noteq> 0 \<and> asks acceptsFirstResponder (grid m ! 0 ! nat (dotted_column m)) m
           then Some (m\<lparr>dotted_row := 0\<rparr>)
           else Some (m\<lparr>dotted_row := - 1, dotted_column := - 1\<rparr>)
      else Some m)"
    using assms(1-3) by (simp add: removeRow_def Let_def without_row_def)
  then have "m' = (without_row (nat r) m)\<lparr>dotted_row := dotted_row m', dotted_column := dotted_column m'\<rparr>"
    using assms(6) by (auto simp: Let_def split: if_splits)
  then show ?thesis by (rule that)
qed

lemma without_row_wf:
  assumes "wf_grid m" and "k < num_rows m"
  shows "wf_grid (without_row k m)"
  using assms by (auto simp: wf_grid_def without_row_def without_nth_def dest: in_set_takeD in_set_dropD)

text \<open>Selecting a second cell in radio mode clears the flag at the row and column kept, wherever they point to.\<close>

lemma select_cell_flags:
  assumes "(if selected_cell m \<noteq> None \<and> selected_cell m \<noteq> Some c \<and> matrix_mode m = NSRadioModeMatrix
      then release_selected m else Some m) = Some m1"
    and "wf_grid m1" and "i < num_rows m1" and "j < num_cols m1"
  shows "\<exists>m'. select_cell (Some c) i j m = Some m' \<and> same_shape m1 m' \<and> selected_cell m' = Some c \<and>
    (\<forall>i' j'. flag m' i' j' \<longleftrightarrow> i' = i \<and> j' = j \<or> flag m1 i' j')"
proof -
  let ?m = "m1\<lparr>selected_cell := Some c, selected_row := int i, selected_column := int j\<rparr>"
  have "wf_grid ?m" "i < length (grid ?m)" "j < max_cols ?m"
    using assms(2-4) wf_gridD(4,5)[OF assms(2)] by (simp_all add: wf_grid_def)
  note flags = pick_flag[OF this, of True]
  have key: "flag (setKeyRow r k x) = flag x" for r k x by (simp add: flag_def fun_eq_iff)
  show ?thesis
    unfolding select_cell_def option.case assms(1) bind.bind_lunit Let_def
    using pick_shape[of ?m True i j] by (auto simp: flags key same_shape_def)
qed

lemma select_second:
  assumes wf: "wf_grid m" and radio: "matrix_mode m = NSRadioModeMatrix"
    and sel: "selected_cell m = Some s" "selected_row m = int a" "selected_column m = int b"
    and at: "a < num_rows m" "b < num_cols m" and other: "cellAtRow i j m = Some c" "c \<noteq> s"
  shows "\<exists>m'. selectCellAtRow E i j m = Some m' \<and> same_shape m m' \<and>
    (\<forall>i' j'. flag m' i' j' \<longleftrightarrow> i' = nat i \<and> j' = nat j \<or> flag m i' j' \<and> (i', j') \<noteq> (a, b))"
proof -
  let ?m1 = "tell (setState 0) (Some s) (pick False a b m)"
  have in_arrays: "a < length (grid m)" "b < max_cols m" using at wf_gridD(4,5)[OF wf] by simp_all
  then have released: "release_selected m = Some ?m1" by (simp add: release_selected_def inside_def sel)
  have shape1: "same_shape m ?m1" using pick_shape[of m False a b] by (simp add: same_shape_def)
  note visible = cellAtRow_place[OF other(1)]
  have "\<exists>m2. select_cell (Some c) (nat i) (nat j) m = Some m2 \<and> same_shape ?m1 m2 \<and> selected_cell m2 = Some c \<and>
      (\<forall>i' j'. flag m2 i' j' \<longleftrightarrow> i' = nat i \<and> j' = nat j \<or> flag ?m1 i' j')"
    using other(2) sel(1) radio released visible same_shape_visible[OF shape1] same_shape_wf[OF shape1 wf]
    by (intro select_cell_flags) simp_all
  then obtain m2 where m2: "select_cell (Some c) (nat i) (nat j) m = Some m2" "same_shape m m2" "selected_cell m2 = Some c"
      and flags: "\<And>i' j'. flag m2 i' j' \<longleftrightarrow> i' = nat i \<and> j' = nat j \<or> flag m i' j' \<and> (i', j') \<noteq> (a, b)"
    using same_shape_trans[OF shape1] pick_flag[OF wf in_arrays, of False] by auto
  have "\<exists>m'. selectTextAtRow E i j m2 = Some m' \<and> same_shape m2 m' \<and>
      (\<forall>i' j'. flag m' i' j' \<longleftrightarrow> i' = nat i \<and> j' = nat j \<or> flag m2 i' j')"
  proof -
    let ?m3 = "m2\<lparr>text_object := False\<rparr>"
    have plain: "same_shape m2 ?m3" "flag ?m3 = flag m2" "selected_cell ?m3 = Some c"
      using m2(3) by (simp_all add: same_shape_def flag_def fun_eq_iff)
    have shape3: "same_shape m ?m3" by (rule same_shape_trans[OF m2(2) plain(1)])
    have "\<exists>m'. select_cell (Some c) (nat i) (nat j) ?m3 = Some m' \<and> same_shape ?m3 m' \<and> selected_cell m' = Some c \<and>
        (\<forall>i' j'. flag m' i' j' \<longleftrightarrow> i' = nat i \<and> j' = nat j \<or> flag ?m3 i' j')"
      using plain(3) visible same_shape_visible[OF shape3] same_shape_wf[OF shape3 wf]
      by (intro select_cell_flags) simp_all
    then obtain m' where m': "select_cell (Some c) (nat i) (nat j) ?m3 = Some m'" "same_shape m2 m'"
        "\<And>i' j'. flag m' i' j' \<longleftrightarrow> i' = nat i \<and> j' = nat j \<or> flag m2 i' j'"
      using same_shape_trans[OF plain(1)] plain(2) by auto
    have editor: "same_shape m2 (m'\<lparr>text_object := b\<rparr>)" "flag (m'\<lparr>text_object := b\<rparr>) = flag m'" for b
      using m'(2) by (simp_all add: same_shape_def flag_def fun_eq_iff)
    show ?thesis
      using other(1) m'(3) flags plain(1,2) by (auto simp: selectTextAtRow_def Let_def m'(1) editor same_shape_visible[OF m2(2)])
  qed
  then obtain m' where m': "selectTextAtRow E i j m2 = Some m'" "same_shape m2 m'"
      "\<And>i' j'. flag m' i' j' \<longleftrightarrow> i' = nat i \<and> j' = nat j \<or> flag m2 i' j'" by blast
  have "selectCellAtRow E i j m = selectTextAtRow E i j m2"
    using other(1) radio m2(1) by (auto simp: selectCellAtRow_def cellAtRow_def split: if_splits)
  then show ?thesis using m' flags same_shape_trans[OF m2(2)] by auto
qed

lemma selectedCellsI: "i < num_rows m \<Longrightarrow> j < num_cols m \<Longrightarrow> flag m i j \<Longrightarrow> grid m ! i ! j \<in> set (selectedCells m)"
  by (force simp: selectedCells_def in_places flag_def)

text \<open>
  Removing a row above the selected one moves the cells and the flags up, but not the row kept for the
  selected cell: selecting another cell clears a flag one row too low, and two cells are selected in a
  matrix in radio mode.
\<close>

lemma two_selected:
  assumes ok: "selection_ok m" and radio: "matrix_mode m = NSRadioModeMatrix" and sel: "selected_cell m = Some s"
    and row: "0 \<le> r" "r < selected_row m" "selected_row m + 1 < int (num_rows m)"
    and removed: "removeRow E r m = Some m1" and other: "cellAtRow i j m1 = Some c" "c \<noteq> s"
  shows "\<exists>m2. selectCellAtRow E i j m1 = Some m2 \<and> matrix_mode m2 = NSRadioModeMatrix \<and>
    {Some s, Some c} \<subseteq> set (selectedCells m2)"
proof -
  note wf = selection_okD(1)[OF ok]
  obtain a b where at: "a < num_rows m" "b < num_cols m" "selected_row m = int a" "selected_column m = int b"
      "grid m ! a ! b = Some s" "flag m a b" using selection_okD(4)[OF ok sel] by blast
  have k: "nat r < num_rows m" "nat r < a" "Suc a < num_rows m" using row at(3) by linarith+
  obtain dr dc where m1: "m1 = (without_row (nat r) m)\<lparr>dotted_row := dr, dotted_column := dc\<rparr>"
    by (rule removeRow_other[OF row(1) _ _ _ wf removed]) (use row k in linarith)+
  have moved: "grid m1 ! (a - 1) = grid m ! a" "picked m1 ! (a - 1) = picked m ! a"
  proof -
    have up: "nat r < length (grid m)" "a - 1 < length (grid m) - 1" "\<not> a - 1 < nat r" "a - 1 + 1 = a"
      using k wf_gridD(4)[OF wf] by linarith+
    then show "grid m1 ! (a - 1) = grid m ! a" "picked m1 ! (a - 1) = picked m ! a"
      using wf_gridD(1)[OF wf] nth_without_nth[OF up(1,2)] nth_without_nth[of "nat r" "picked m" "a - 1"]
      by (simp_all add: m1 without_row_def del: One_nat_def)
  qed
  have fields: "num_rows m1 = num_rows m - 1" "num_cols m1 = num_cols m" "matrix_mode m1 = matrix_mode m"
      "selected_cell m1 = Some s" "selected_row m1 = int a" "selected_column m1 = int b"
    using at sel by (simp_all add: m1 without_row_def)
  have "wf_grid m1" using without_row_wf[OF wf k(1)] by (simp add: m1 wf_grid_def)
  moreover have "a < num_rows m - 1" "a - 1 < num_rows m - 1" "b < num_cols m" "a - 1 \<noteq> a" using k at(2) by linarith+
  ultimately obtain m2 where m2: "selectCellAtRow E i j m1 = Some m2" "same_shape m1 m2"
      and flags: "\<And>i' j'. flag m2 i' j' \<longleftrightarrow> i' = nat i \<and> j' = nat j \<or> flag m1 i' j' \<and> (i', j') \<noteq> (a, b)"
    using select_second[of m1 s a b i j c E] fields radio other by (auto simp del: One_nat_def)
  have "flag m2 (a - 1) b" "grid m2 ! (a - 1) ! b = Some s"
    using flags at(5,6) moved k same_shape_visible[OF m2(2)] by (auto simp: flag_def)
  moreover have "flag m2 (nat i) (nat j)" "grid m2 ! nat i ! nat j = Some c"
    using flags cellAtRow_place[OF other(1)] same_shape_visible[OF m2(2)] by simp_all
  ultimately have "Some s \<in> set (selectedCells m2)" "Some c \<in> set (selectedCells m2)"
    using selectedCellsI[of "a - 1" m2 b] selectedCellsI[of "nat i" m2 "nat j"] cellAtRow_place[OF other(1)]
      fields at(2) k(3) same_shape_visible[OF m2(2)] by simp_all
  then show ?thesis using m2(1) radio fields(3) same_shape_visible[OF m2(2)] by simp
qed

subsection \<open>Properties\<close>

text \<open>C14: from a matrix with a consistent selection, any sequence of calls of \<open>selectCellAtRow:column:\<close>,
  \<open>selectCell:\<close>, \<open>setState:atRow:column:\<close>, \<open>selectAll:\<close>, \<open>deselectAllCells\<close>, \<open>deselectSelectedCell\<close> and,
  in matrices that are not in radio mode and with all three indices inside the matrix,
  \<open>setSelectionFrom:to:anchor:highlight:\<close> stays inside the arrays and ends with a consistent selection:
  the selected cell is where its row and column say, with its flag, and in radio mode no other cell has
  one. A selection of a range in radio mode is left out because it can set two flags.\<close>

theorem selection_stays_consistent:
  assumes "selection_ok m" and "list_all (selection_call_ok m) cs"
  shows "\<exists>m'. perform_selections E cs m = Some m' \<and> selection_ok m'"
  using perform_selections_kept[OF assms, of E] by (auto simp: kept_def split: option.splits)

lemma square_selection: "selection_ok square"
  using square_ok by (simp add: selection_ok_def square_def flag_def numeral_2_eq_2 All_less_Suc)

theorem selection_stays_consistent_witness:
  "\<exists>m'. perform_selections \<lparr>has_editor = True, editor_held = False\<rparr>
      [SelectCellAtRow 1 0, SetSelectionFrom 2 1 0 True, SelectCell 3, DeselectSelectedCell, SelectAll] square = Some m' \<and>
    selection_ok m'"
  by (rule selection_stays_consistent[OF square_selection]) (simp add: square_def)

text \<open>C35: inserting a row of new cells, exactly as many as there are columns, at any place of a matrix in radio
  mode that does not allow an empty selection, has a selected cell and no spare rows or columns, puts
  them between the rows above and below, unselected, and moves the row of the selected cell along with
  the cell, so that the selection stays consistent. (Where an empty selection is allowed the matrix
  is deselected, and a spare row keeps the flags it had.)\<close>

theorem insert_row_keeps_selection:
  assumes "selection_ok m" and "length (grid m) = num_rows m" and "max_cols m = num_cols m"
    and "0 < num_rows m" and "0 < num_cols m" and "matrix_mode m = NSRadioModeMatrix"
    and "\<not> allows_empty_selection m" and "selected_cell m = Some c"
    and "k \<le> num_rows m" and "length cs = num_cols m"
    and "distinct cs" and "\<forall>r \<in> set (grid m). \<forall>x \<in> set cs. Some x \<notin> set r"
  shows "insertRow E (int k) (Some cs) m = Some (with_row k (map Some cs) m) \<and>
    selection_ok (with_row k (map Some cs) m)"
  using insertRow_spec[OF selection_okD(1)[OF assms(1)] assms(2-10)] with_row_ok[OF assms(1-3,8-12)] by simp

text \<open>Three rows of one cell, the cell in the middle is selected.\<close>

definition choice :: matrix where
  "choice = square\<lparr>grid := [[Some 0], [Some 1], [Some 2]], picked := [[False], [True], [False]], max_cols := 1,
     num_rows := 3, num_cols := 1, matrix_mode := NSRadioModeMatrix, selected_cell := Some 1,
     selected_row := 1, selected_column := 0\<rparr>"

lemma choice_selection: "selection_ok choice"
  by (simp add: selection_ok_def choice_def square_def wf_grid_def cells_apart_def flag_def eval_nat_numeral
    All_less_Suc Ex_less_Suc)

theorem insert_row_keeps_selection_witness:
  "insertRow \<lparr>has_editor = True, editor_held = False\<rparr> (int 0) (Some [7]) choice =
      Some (with_row 0 (map Some [7]) choice) \<and> selection_ok (with_row 0 (map Some [7]) choice)"
  by (rule insert_row_keeps_selection[OF choice_selection, where c = 1]) (simp_all add: choice_def square_def)

text \<open>C38: removing a row above the selected cell does not move the row kept for it. When the selected cell is
  not in the last row, the next selection of another cell then clears a flag one row too low, and two
  cells are selected in radio mode. (For the last row the slot behind the
  end still points to the flags of the cell, and the right flag is cleared.)\<close>

theorem remove_row_selects_two:
  assumes "selection_ok m" and "matrix_mode m = NSRadioModeMatrix" and "selected_cell m = Some s"
    and "0 \<le> r" and "r < selected_row m" and "selected_row m + 1 < int (num_rows m)"
    and "removeRow E r m = Some m1" and "cellAtRow i j m1 = Some c" and "c \<noteq> s"
  shows "\<exists>m2. selectCellAtRow E i j m1 = Some m2 \<and> matrix_mode m2 = NSRadioModeMatrix \<and>
    {Some s, Some c} \<subseteq> set (selectedCells m2)"
  by (rule two_selected[OF assms])

theorem remove_row_selects_two_witness:
  "\<exists>m2. selectCellAtRow \<lparr>has_editor = True, editor_held = False\<rparr> 1 0
      (choice\<lparr>grid := [[Some 1], [Some 2]], picked := [[True], [False]], num_rows := 2\<rparr>) = Some m2 \<and>
    matrix_mode m2 = NSRadioModeMatrix \<and> {Some 1, Some 2} \<subseteq> set (selectedCells m2)"
  by (rule remove_row_selects_two[OF choice_selection, where r = 0])
    (simp_all add: choice_def square_def removeRow_def without_nth_def cellAtRow_def Let_def)

end
