(* ===== verification/ViewTree.thy ===== *)
theory ViewTree
  imports Foundation
begin

text \<open>
  The hierarchy of views (\<open>Source/NSView.m\<close>). Views are named by numbers, a view knows its superview,
  its subviews in order, its window and its next responder, and the operations that change the
  hierarchy keep these in step. Methods the code calls so that subclasses can follow a change are
  recorded. Drawing, coordinates, drag types, view controllers and layout constraints are left out.
\<close>

subsection \<open>State\<close>

record view =
  super_view :: "nat option"
  sub_views :: "nat list"
  view_window :: "nat option"
  next_responder :: "nat option"
  has_subviews :: bool
  is_hidden :: bool
  next_keys :: "nat option list"
  previous_keys :: "nat option list"

datatype responder = View nat | Window nat | OtherResponder nat

text \<open>The methods for subclasses.\<close>

datatype hook =
    WillMoveToWindow nat "nat option"
  | DidMoveToWindow nat
  | WillMoveToSuperview nat "nat option"
  | DidMoveToSuperview nat
  | DidAddSubview nat nat
  | WillRemoveSubview nat nat
  | DidHide nat
  | DidUnhide nat

record views =
  view_at :: "nat \<Rightarrow> view"
  first_responder :: "nat \<Rightarrow> responder option"
  hooks :: "hook list"

definition told :: "hook \<Rightarrow> views \<Rightarrow> views" where
  "told k h = h\<lparr>hooks := hooks h @ [k]\<rparr>"

definition change :: "nat \<Rightarrow> (view \<Rightarrow> view) \<Rightarrow> views \<Rightarrow> views" where
  "change v g h = h\<lparr>view_at := (view_at h)(v := g (view_at h v))\<rparr>"

text \<open>Loops over the elements of an array.\<close>

fun for_each :: "('a \<Rightarrow> 's \<Rightarrow> 's option) \<Rightarrow> 'a list \<Rightarrow> 's \<Rightarrow> 's option" where
  "for_each f [] s = Some s"
| "for_each f (x # xs) s = Option.bind (f x s) (for_each f xs)"

lemma for_each_mono [partial_function_mono]:
  assumes "\<And>x s. mono_option (\<lambda>f. F f x s)"
  shows "mono_option (\<lambda>f. for_each (F f) xs s)"
  using assms by (induction xs arbitrary: s) (auto intro!: option.const_mono bind_mono)

text \<open>A loop whose body keeps an invariant of the elements done so far.\<close>

lemma for_each_invariant:
  assumes "I [] s" and "\<And>ys x zs t. xs = ys @ x # zs \<Longrightarrow> I ys t \<Longrightarrow> \<exists>t'. f x t = Some t' \<and> I (ys @ [x]) t'"
  shows "\<exists>t. for_each f xs s = Some t \<and> I xs t"
proof -
  have "\<exists>t. for_each f zs s = Some t \<and> I xs t" if "xs = ys @ zs" "I ys s" for ys zs s
    using that
  proof (induction zs arbitrary: ys s)
    case (Cons z zs)
    obtain t where "f z s = Some t" "I (ys @ [z]) t" using assms(2)[OF Cons.prems] by blast
    with Cons.IH[of "ys @ [z]" t] Cons.prems(1) show ?case by simp
  qed simp
  from this[of "[]" xs s] assms(1) show ?thesis by simp
qed

subsection \<open>Ancestors\<close>

partial_function (option) isDescendantOf :: "views \<Rightarrow> nat \<Rightarrow> nat option \<Rightarrow> bool option" where
  "isDescendantOf h v other =
     (if other = Some v then Some True
      else case super_view (view_at h v) of
        None \<Rightarrow> Some False
      | Some p \<Rightarrow> if other = Some p then Some True else isDescendantOf h p other)"

partial_function (option) ancestorSharedWithView :: "views \<Rightarrow> nat \<Rightarrow> nat \<Rightarrow> nat option option" where
  "ancestorSharedWithView h v other =
     (if v = other then Some (Some v)
      else Option.bind (isDescendantOf h v (Some other)) (\<lambda>below.
        if below then Some (Some other)
        else Option.bind (isDescendantOf h other (Some v)) (\<lambda>above.
          if above then Some (Some v)
          else (case (super_view (view_at h v), super_view (view_at h other)) of
                  (Some p, Some q) \<Rightarrow> ancestorSharedWithView h p q
                | _ \<Rightarrow> Some None))))"

subsection \<open>Moving to a window\<close>

partial_function (option) viewWillMoveToWindow :: "nat option \<Rightarrow> nat \<Rightarrow> views \<Rightarrow> views option" where
  "viewWillMoveToWindow w v h =
     (let h = told (WillMoveToWindow v w) h
      in if view_window (view_at h v) = w then Some h
         else let h = change v (\<lambda>x. x\<lparr>view_window := w\<rparr>) h
              in if has_subviews (view_at h v)
                 then for_each (viewWillMoveToWindow w) (sub_views (view_at h v)) h
                 else Some h)"

partial_function (option) viewDidMoveToWindow :: "nat \<Rightarrow> views \<Rightarrow> views option" where
  "viewDidMoveToWindow v h =
     (let h = told (DidMoveToWindow v) h
      in if has_subviews (view_at h v)
         then for_each viewDidMoveToWindow (sub_views (view_at h v)) h
         else Some h)"

definition viewWillMoveToSuperview :: "nat option \<Rightarrow> nat \<Rightarrow> views \<Rightarrow> views" where
  "viewWillMoveToSuperview p v h =
     change v (\<lambda>x. x\<lparr>super_view := p\<rparr>) (told (WillMoveToSuperview v p) h)"

definition setNextResponder :: "nat option \<Rightarrow> nat \<Rightarrow> views \<Rightarrow> views" where
  "setNextResponder r v h = change v (\<lambda>x. x\<lparr>next_responder := r\<rparr>) h"

subsection \<open>First responder\<close>

text \<open>How responders answer when they are asked to become or to resign as the first responder.\<close>

record responder_answers =
  accepts :: "responder \<Rightarrow> bool"
  becomes :: "responder \<Rightarrow> bool"
  resigns :: "responder \<Rightarrow> bool"

definition makeFirstResponder :: "responder_answers \<Rightarrow> nat \<Rightarrow> responder option \<Rightarrow> views \<Rightarrow> bool \<times> views" where
  "makeFirstResponder A w r h =
     (if first_responder h w = r then (True, h)
      else if (case r of None \<Rightarrow> False | Some x \<Rightarrow> \<not> accepts A x) then (False, h)
      else if (case first_responder h w of None \<Rightarrow> False | Some x \<Rightarrow> \<not> resigns A x) then (False, h)
      else (True, h\<lparr>first_responder := (first_responder h)(w :=
        (case r of None \<Rightarrow> Some (Window w) | Some x \<Rightarrow> if becomes A x then Some x else Some (Window w)))\<rparr>))"

text \<open>Whether \<open>v\<close> is met on the way up from \<open>r\<close>.\<close>

partial_function (option) met_above :: "views \<Rightarrow> nat \<Rightarrow> nat \<Rightarrow> bool option" where
  "met_above h r v =
     (if r = v then Some True
      else case super_view (view_at h r) of
        None \<Rightarrow> Some False
      | Some p \<Rightarrow> met_above h p v)"

text \<open>The window of \<open>p\<close> takes over when its first responder is \<open>v\<close> or inside it.\<close>

definition resignInside ::
  "responder_answers \<Rightarrow> nat \<Rightarrow> nat \<Rightarrow> views \<Rightarrow> views option" where
  "resignInside A p v h =
     (case view_window (view_at h p) of
        None \<Rightarrow> Some h
      | Some w \<Rightarrow>
          (case first_responder h w of
             Some (View r) \<Rightarrow>
               Option.bind (met_above h r v) (\<lambda>inside.
                 Some (if inside then snd (makeFirstResponder A w (Some (Window w)) h) else h))
           | _ \<Rightarrow> Some h))"

subsection \<open>Adding and removing subviews\<close>

definition removeSubview :: "responder_answers \<Rightarrow> nat \<Rightarrow> nat \<Rightarrow> views \<Rightarrow> views option" where
  "removeSubview A p v h =
     Option.bind (resignInside A p v h) (\<lambda>h.
     Option.bind (viewWillMoveToWindow None v
       (change v (\<lambda>x. x\<lparr>super_view := None\<rparr>) (told (WillRemoveSubview p v) h))) (\<lambda>h.
     Option.bind (viewDidMoveToWindow v
       (change p (\<lambda>x. x\<lparr>sub_views := filter (\<lambda>u. u \<noteq> v) (sub_views x)\<rparr>)
         (setNextResponder None v (viewWillMoveToSuperview None v h)))) (\<lambda>h.
     let h = told (DidMoveToSuperview v) h
     in Some (if sub_views (view_at h p) = [] then change p (\<lambda>x. x\<lparr>has_subviews := False\<rparr>) h else h))))"

definition removeFromSuperview :: "responder_answers \<Rightarrow> nat \<Rightarrow> views \<Rightarrow> views option" where
  "removeFromSuperview A v h =
     (case super_view (view_at h v) of
        None \<Rightarrow> Some h
      | Some p \<Rightarrow> removeSubview A p v h)"

text \<open>The statements that make a view without a superview a subview, at an index.\<close>

definition attach :: "nat \<Rightarrow> nat \<Rightarrow> nat \<Rightarrow> views \<Rightarrow> views option" where
  "attach p v i h =
     Option.bind (viewWillMoveToWindow (view_window (view_at h p)) v h) (\<lambda>h.
     Option.bind (viewDidMoveToWindow v
       (change p (\<lambda>x. x\<lparr>sub_views := take i (sub_views x) @ v # drop i (sub_views x), has_subviews := True\<rparr>)
         (setNextResponder (Some p) v (viewWillMoveToSuperview (Some p) v h)))) (\<lambda>h.
     Some (told (DidAddSubview p v) (told (DidMoveToSuperview v) h))))"

datatype place = NSWindowAbove | NSWindowBelow | NSWindowOut

text \<open>The index of an object in an array it is in.\<close>

definition index_in :: "nat list \<Rightarrow> nat \<Rightarrow> nat" where
  "index_in vs v = length (takeWhile (\<lambda>u. u \<noteq> v) vs)"

definition insertion_index :: "place \<Rightarrow> nat option \<Rightarrow> nat list \<Rightarrow> nat" where
  "insertion_index place otherView subs =
     (case otherView of
        Some u \<Rightarrow>
          if u \<in> set subs
          then if place = NSWindowBelow then index_in subs u else index_in subs u + 1
          else if place = NSWindowBelow then 0 else length subs
      | None \<Rightarrow> if place = NSWindowBelow then 0 else length subs)"

definition addSubview ::
  "responder_answers \<Rightarrow> nat \<Rightarrow> nat option \<Rightarrow> place \<Rightarrow> nat option \<Rightarrow> views \<Rightarrow> views pstep" where
  "addSubview A p aView place otherView h =
     (case aView of
        None \<Rightarrow> Some (Inr h)
      | Some v \<Rightarrow>
          (case isDescendantOf h p (Some v) of
             None \<Rightarrow> None
           | Some True \<Rightarrow> Some (Inl (NSInvalidArgumentException, h))
           | Some False \<Rightarrow>
               if aView = otherView then Some (Inr h)
               else map_option Inr
                 (Option.bind (removeFromSuperview A v h) (\<lambda>h.
                  attach p v (insertion_index place otherView (sub_views (view_at h p))) h))))"

definition replaceSubview ::
  "responder_answers \<Rightarrow> nat \<Rightarrow> nat option \<Rightarrow> nat option \<Rightarrow> views \<Rightarrow> views option" where
  "replaceSubview A p oldView newView h =
     (if newView = oldView then Some h
      else case (oldView, newView) of
        (None, None) \<Rightarrow> Some h
      | (None, Some v) \<Rightarrow>
          Option.bind (removeFromSuperview A v h) (\<lambda>h. attach p v (length (sub_views (view_at h p))) h)
      | (Some old, _) \<Rightarrow>
          if old \<notin> set (sub_views (view_at h p)) then Some h
          else (case newView of
                  None \<Rightarrow> removeFromSuperview A old h
                | Some v \<Rightarrow>
                    Option.bind (removeFromSuperview A v h) (\<lambda>h.
                    let i = index_in (sub_views (view_at h p)) old
                    in Option.bind (removeFromSuperview A old h) (attach p v i))))"

text \<open>The loop over the new subviews; \<open>uniq\<close> are those done.\<close>

fun add_new_subviews ::
  "responder_answers \<Rightarrow> nat \<Rightarrow> nat list \<Rightarrow> nat list \<Rightarrow> views \<Rightarrow> views pstep" where
  "add_new_subviews A p [] uniq h = Some (Inr (change p (\<lambda>x. x\<lparr>sub_views := uniq\<rparr>) h))"
| "add_new_subviews A p (v # vs) uniq h =
     (if super_view (view_at h v) \<noteq> None \<and> super_view (view_at h v) \<noteq> Some p
      then Some (Inl (NSInvalidArgumentException, h))
      else if v \<in> set uniq then Some (Inl (NSInvalidArgumentException, h))
      else pbind (if v \<in> set (sub_views (view_at h p)) then Some (Inr h)
                  else addSubview A p (Some v) NSWindowAbove None h)
             (add_new_subviews A p vs (uniq @ [v])))"

definition setSubviews :: "responder_answers \<Rightarrow> nat \<Rightarrow> nat list option \<Rightarrow> views \<Rightarrow> views pstep" where
  "setSubviews A p newSubviews h =
     (case newSubviews of
        None \<Rightarrow> Some (Inl (NSInvalidArgumentException, h))
      | Some vs \<Rightarrow>
          (case for_each (\<lambda>u h. if u \<in> set vs then Some h else removeFromSuperview A u h)
                  (sub_views (view_at h p)) h of
             None \<Rightarrow> None
           | Some h \<Rightarrow> add_new_subviews A p vs [] h))"

text \<open>Sorting is a parameter: some rearrangement of the array.\<close>

definition sortSubviews :: "(nat list \<Rightarrow> nat list) \<Rightarrow> nat \<Rightarrow> views \<Rightarrow> views" where
  "sortSubviews rearrange p h = change p (\<lambda>x. x\<lparr>sub_views := rearrange (sub_views x)\<rparr>) h"

subsection \<open>Well formed hierarchies\<close>

definition child :: "(nat \<Rightarrow> view) \<Rightarrow> (nat \<times> nat) set" where
  "child f = {(u, p). u \<in> set (sub_views (f p))}"

definition subtree :: "(nat \<Rightarrow> view) \<Rightarrow> nat \<Rightarrow> nat set" where
  "subtree f v = {u. (u, v) \<in> (child f)\<^sup>*}"

text \<open>
  What a walk down needs: no view is below itself, no view is a subview of two views, and a view with
  subviews has the flag. The arrays of finitely many views are not empty.
\<close>

definition forest :: "(nat \<Rightarrow> view) \<Rightarrow> bool" where
  "forest f \<longleftrightarrow> finite (child f) \<and> acyclic (child f) \<and>
     (\<forall>u p q. u \<in> set (sub_views (f p)) \<longrightarrow> u \<in> set (sub_views (f q)) \<longrightarrow> p = q) \<and>
     (\<forall>p. sub_views (f p) \<noteq> [] \<longrightarrow> has_subviews (f p))"

definition hierarchy :: "(nat \<Rightarrow> view) \<Rightarrow> bool" where
  "hierarchy f \<longleftrightarrow> forest f \<and> (\<forall>p. distinct (sub_views (f p)) \<and> (has_subviews (f p) \<longrightarrow> sub_views (f p) \<noteq> [])) \<and>
     (\<forall>v p. v \<in> set (sub_views (f p)) \<longleftrightarrow> super_view (f v) = Some p) \<and>
     (\<forall>v p. super_view (f v) = Some p \<longrightarrow>
        view_window (f v) = view_window (f p) \<and> next_responder (f v) = Some p)"

lemma forest_wf: "forest f \<Longrightarrow> wf (child f)"
  by (simp add: forest_def finite_acyclic_wf)

lemma forest_wf_up: "forest f \<Longrightarrow> wf ((child f)\<inverse>)"
  by (simp add: forest_def finite_acyclic_wf_converse)

lemma forest_single: "forest f \<Longrightarrow> single_valued (child f)"
  by (auto simp: forest_def child_def intro!: single_valuedI)

lemma forest_flag: "forest f \<Longrightarrow> \<not> has_subviews (f p) \<Longrightarrow> sub_views (f p) = []"
  by (auto simp: forest_def)

lemma subtree_self [simp]: "v \<in> subtree f v"
  by (simp add: subtree_def)

lemma subtree_child: "c \<in> set (sub_views (f v)) \<Longrightarrow> subtree f c \<subseteq> subtree f v"
  by (auto simp: subtree_def child_def intro: rtrancl.rtrancl_into_rtrancl)

lemma subtree_unfold: "subtree f v = insert v (\<Union>c \<in> set (sub_views (f v)). subtree f c)"
proof
  show "subtree f v \<subseteq> insert v (\<Union>c \<in> set (sub_views (f v)). subtree f c)"
  proof
    fix u assume "u \<in> subtree f v"
    then have "(u, v) \<in> (child f)\<^sup>*" by (simp add: subtree_def)
    then show "u \<in> insert v (\<Union>c \<in> set (sub_views (f v)). subtree f c)"
      by (cases rule: rtranclE) (auto simp: subtree_def child_def)
  qed
qed (use subtree_child in fastforce)

lemma subtrees_apart:
  assumes f: "forest f" and c: "c \<in> set (sub_views (f v))" "d \<in> set (sub_views (f v))" and "c \<noteq> d"
  shows "subtree f c \<inter> subtree f d = {}"
proof (rule ccontr)
  assume "subtree f c \<inter> subtree f d \<noteq> {}"
  then obtain u where "(u, c) \<in> (child f)\<^sup>*" "(u, d) \<in> (child f)\<^sup>*" by (auto simp: subtree_def)
  from single_valued_confluent[OF forest_single[OF f] this]
  have "(c, d) \<in> (child f)\<^sup>+ \<or> (d, c) \<in> (child f)\<^sup>+" using \<open>c \<noteq> d\<close> by (auto dest: rtranclD)
  moreover have "(v, y) \<in> (child f)\<^sup>*" if up: "(x, y) \<in> (child f)\<^sup>+" "x \<in> set (sub_views (f v))" for x y
  proof -
    obtain z where z: "(x, z) \<in> child f" "(z, y) \<in> (child f)\<^sup>*" using tranclD[OF up(1)] by blast
    then have "z = v" using f up(2) by (auto simp: forest_def child_def)
    then show ?thesis using z(2) by simp
  qed
  ultimately obtain y where "(v, y) \<in> (child f)\<^sup>*" "y \<in> {c, d}" using c by blast
  then have "(v, v) \<in> (child f)\<^sup>+" using c by (auto simp: child_def intro: rtrancl_into_trancl1)
  then show False using f by (auto simp: forest_def acyclic_def)
qed

lemma root_apart: "forest f \<Longrightarrow> c \<in> set (sub_views (f v)) \<Longrightarrow> v \<notin> subtree f c"
  by (auto simp: subtree_def child_def forest_def acyclic_def intro: rtrancl_into_trancl1)

subsection \<open>Moving a subtree\<close>

definition set_windows :: "nat set \<Rightarrow> nat option \<Rightarrow> (nat \<Rightarrow> view) \<Rightarrow> nat \<Rightarrow> view" where
  "set_windows S w f u = (if u \<in> S then (f u)\<lparr>view_window := w\<rparr> else f u)"

lemma set_windows_sel [simp]:
  "super_view (set_windows S w f u) = super_view (f u)" "sub_views (set_windows S w f u) = sub_views (f u)"
  "next_responder (set_windows S w f u) = next_responder (f u)"
  "has_subviews (set_windows S w f u) = has_subviews (f u)" "is_hidden (set_windows S w f u) = is_hidden (f u)"
  "next_keys (set_windows S w f u) = next_keys (f u)"
  "previous_keys (set_windows S w f u) = previous_keys (f u)"
  "view_window (set_windows S w f u) = (if u \<in> S then w else view_window (f u))"
  by (simp_all add: set_windows_def)

lemma child_set_windows [simp]: "child (set_windows S w f) = child f"
  by (simp add: child_def)

lemma subtree_set_windows [simp]: "subtree (set_windows S w f) v = subtree f v"
  by (simp add: subtree_def)

lemma forest_set_windows [simp]: "forest (set_windows S w f) = forest f"
  by (simp add: forest_def)

lemma set_windows_twice: "set_windows T w (set_windows S w f) = set_windows (S \<union> T) w f"
  by (auto simp: set_windows_def)

lemma set_windows_one: "set_windows {v} w f = f(v := (f v)\<lparr>view_window := w\<rparr>)"
  by (rule ext) (simp add: set_windows_def)

text \<open>All views of the subtree are in the same window.\<close>

definition together :: "(nat \<Rightarrow> view) \<Rightarrow> nat \<Rightarrow> bool" where
  "together f v \<longleftrightarrow>
     (\<forall>p \<in> subtree f v. \<forall>u \<in> set (sub_views (f p)). view_window (f u) = view_window (f p))"

lemma together_same: "together f v \<Longrightarrow> u \<in> subtree f v \<Longrightarrow> view_window (f u) = view_window (f v)"
proof -
  assume "together f v" "u \<in> subtree f v"
  then have "(u, v) \<in> (child f)\<^sup>*" by (simp add: subtree_def)
  then show ?thesis
  proof (induction rule: converse_rtrancl_induct)
    case (step y z)
    then show ?case using \<open>together f v\<close> by (simp add: together_def subtree_def child_def)
  qed simp
qed

lemma set_windows_same: "together f v \<Longrightarrow> set_windows (subtree f v) (view_window (f v)) f = f"
  by (rule ext) (simp add: set_windows_def together_same[symmetric])

lemma together_part:
  assumes "forest f" and "together f v" and "x \<in> set (sub_views (f v))" and "set ys \<subseteq> set (sub_views (f v))"
  shows "together (set_windows (insert v (\<Union>c \<in> set ys. subtree f c)) w f) x"
proof -
  let ?S = "insert v (\<Union>c \<in> set ys. subtree f c)"
  have "p \<in> ?S \<longleftrightarrow> x \<in> set ys" if p: "p \<in> subtree f x" for p
    using root_apart[OF assms(1,3)] subtrees_apart[OF assms(1) assms(3)] assms(4) p by auto
  moreover have "u \<in> subtree f x" if "p \<in> subtree f x" "u \<in> set (sub_views (f p))" for p u
    using that by (auto simp: subtree_def child_def intro: converse_rtrancl_into_rtrancl)
  moreover have "view_window (f u) = view_window (f p)" if "p \<in> subtree f x" "u \<in> set (sub_views (f p))" for p u
    using that assms(2) subtree_child[of x f v] assms(3) by (auto simp: together_def)
  ultimately show ?thesis by (simp add: together_def)
qed

lemma viewWillMoveToWindow_spec:
  assumes "forest (view_at h)" and "together (view_at h) v"
  shows "\<exists>hs. viewWillMoveToWindow w v h =
    Some (h\<lparr>view_at := set_windows (subtree (view_at h) v) w (view_at h), hooks := hooks h @ hs\<rparr>)"
proof -
  have "wf C \<Longrightarrow> child (view_at h) = C \<Longrightarrow> forest (view_at h) \<Longrightarrow> together (view_at h) v \<Longrightarrow> \<exists>hs.
    viewWillMoveToWindow w v h =
      Some (h\<lparr>view_at := set_windows (subtree (view_at h) v) w (view_at h), hooks := hooks h @ hs\<rparr>)" for C
  proof (induction v arbitrary: h rule: wf_induct_rule)
    case (less v h)
    let ?f = "view_at h"
    show ?case
    proof (cases "view_window (?f v) = w")
      case True
      then show ?thesis
        using set_windows_same[OF less.prems(3)]
        by (subst viewWillMoveToWindow.simps) (auto simp: told_def)
    next
      case False
      let ?g = "\<lambda>ys. set_windows (insert v (\<Union>c \<in> set ys. subtree ?f c)) w ?f"
      let ?I = "\<lambda>ys t. \<exists>hs. t = h\<lparr>view_at := ?g ys, hooks := hooks h @ hs\<rparr>"
      let ?h = "change v (\<lambda>x. x\<lparr>view_window := w\<rparr>) (told (WillMoveToWindow v w) h)"
      have start: "?I [] ?h"
        by (intro exI[of _ "[WillMoveToWindow v w]"]) (simp add: change_def told_def set_windows_one)
      have subs: "sub_views (view_at ?h v) = sub_views (?f v)" "has_subviews (view_at ?h v) = has_subviews (?f v)"
        by (simp_all add: change_def told_def)
      have "\<exists>t. for_each (viewWillMoveToWindow w) (sub_views (?f v)) ?h = Some t \<and> ?I (sub_views (?f v)) t"
      proof (rule for_each_invariant[where I = ?I])
        show "?I [] ?h" by (rule start)
      next
        fix ys x zs t
        assume xs: "sub_views (?f v) = ys @ x # zs" and "?I ys t"
        then obtain hs where t: "t = h\<lparr>view_at := ?g ys, hooks := hooks h @ hs\<rparr>" by blast
        have x: "x \<in> set (sub_views (?f v))" "set ys \<subseteq> set (sub_views (?f v))" using xs by auto
        have "(x, v) \<in> C" using x(1) less.prems(1) by (auto simp: child_def)
        moreover have "child (view_at t) = C" "forest (view_at t)" using less.prems(1,2) t by simp_all
        moreover have "together (view_at t) x"
          using together_part[OF less.prems(2,3) x] t by simp
        ultimately obtain hs' where "viewWillMoveToWindow w x t =
            Some (t\<lparr>view_at := set_windows (subtree (view_at t) x) w (view_at t), hooks := hooks t @ hs'\<rparr>)"
          using less.IH by blast
        then show "\<exists>t'. viewWillMoveToWindow w x t = Some t' \<and> ?I (ys @ [x]) t'"
          unfolding t by (auto simp: set_windows_twice Un_commute Un_left_commute)
      qed
      then obtain hs where "for_each (viewWillMoveToWindow w) (sub_views (?f v)) ?h =
          Some (h\<lparr>view_at := set_windows (subtree ?f v) w ?f, hooks := hooks h @ hs\<rparr>)"
        unfolding subtree_unfold[of ?f v] by blast
      moreover have "viewWillMoveToWindow w v h = for_each (viewWillMoveToWindow w) (sub_views (?f v)) ?h"
        using False forest_flag[OF less.prems(2), of v]
        by (subst viewWillMoveToWindow.simps) (auto simp: Let_def subs told_def change_def)
      ultimately show ?thesis by auto
    qed
  qed
  from this[OF forest_wf[OF assms(1)] refl assms] show ?thesis .
qed

lemma viewDidMoveToWindow_spec:
  assumes "forest (view_at h)"
  shows "\<exists>hs. viewDidMoveToWindow v h = Some (h\<lparr>hooks := hooks h @ hs\<rparr>)"
proof -
  have "wf C \<Longrightarrow> child (view_at h) = C \<Longrightarrow> forest (view_at h) \<Longrightarrow>
    \<exists>hs. viewDidMoveToWindow v h = Some (h\<lparr>hooks := hooks h @ hs\<rparr>)" for C
  proof (induction v arbitrary: h rule: wf_induct_rule)
    case (less v h)
    let ?h = "told (DidMoveToWindow v) h"
    let ?I = "\<lambda>(ys :: nat list) t. \<exists>hs. t = h\<lparr>hooks := hooks h @ hs\<rparr>"
    have "?I [] ?h" by (auto simp: told_def)
    then have "\<exists>t. for_each viewDidMoveToWindow (sub_views (view_at h v)) ?h = Some t \<and> ?I (sub_views (view_at h v)) t"
    proof (rule for_each_invariant)
      fix ys x zs t
      assume xs: "sub_views (view_at h v) = ys @ x # zs" and "?I ys t"
      then obtain hs where t: "t = h\<lparr>hooks := hooks h @ hs\<rparr>" by blast
      have "(x, v) \<in> C" using xs less.prems(1) by (auto simp: child_def)
      with less.IH[of x t] less.prems t
      show "\<exists>t'. viewDidMoveToWindow x t = Some t' \<and> ?I (ys @ [x]) t'" by auto
    qed
    then show ?case
      using forest_flag[OF less.prems(2), of v]
      by (subst viewDidMoveToWindow.simps) (auto simp: Let_def told_def)
  qed
  from this[OF forest_wf[OF assms] refl assms] show ?thesis .
qed

subsection \<open>Ancestors in a hierarchy\<close>

lemma hierarchy_forest: "hierarchy f \<Longrightarrow> forest f"
  by (simp add: hierarchy_def)

lemma hierarchy_child: "hierarchy f \<Longrightarrow> (u, p) \<in> child f \<longleftrightarrow> super_view (f u) = Some p"
  by (simp add: hierarchy_def child_def)

lemma hierarchy_together: "hierarchy f \<Longrightarrow> together f v"
  by (simp add: hierarchy_def together_def)

lemma below_step:
  assumes "hierarchy f"
  shows "r \<in> subtree f v \<longleftrightarrow>
    r = v \<or> (case super_view (f r) of None \<Rightarrow> False | Some p \<Rightarrow> p \<in> subtree f v)"
proof
  assume "r \<in> subtree f v"
  then have "(r, v) \<in> (child f)\<^sup>*" by (simp add: subtree_def)
  then show "r = v \<or> (case super_view (f r) of None \<Rightarrow> False | Some p \<Rightarrow> p \<in> subtree f v)"
    by (cases rule: converse_rtranclE) (auto simp: subtree_def hierarchy_child[OF assms])
next
  assume "r = v \<or> (case super_view (f r) of None \<Rightarrow> False | Some p \<Rightarrow> p \<in> subtree f v)"
  then show "r \<in> subtree f v"
    by (auto simp: subtree_def hierarchy_child[OF assms, symmetric] split: option.splits
        intro: converse_rtrancl_into_rtrancl)
qed

lemma up_induct [consumes 1, case_names view]:
  assumes "hierarchy f" and "\<And>v. (\<And>p. super_view (f v) = Some p \<Longrightarrow> P p) \<Longrightarrow> P v"
  shows "P v"
  using forest_wf_up[OF hierarchy_forest[OF assms(1)]]
  by (induction v rule: wf_induct_rule) (use assms(2) hierarchy_child[OF assms(1)] in auto)

lemma met_above_spec:
  assumes "hierarchy (view_at h)"
  shows "met_above h r v = Some (r \<in> subtree (view_at h) v)"
  using assms
proof (induction r rule: up_induct)
  case (view r)
  then show ?case
    using below_step[OF assms, of r v] by (subst met_above.simps) (auto split: option.split)
qed

lemma isDescendantOf_spec:
  assumes "hierarchy (view_at h)"
  shows "isDescendantOf h v other =
    Some (case other of None \<Rightarrow> False | Some a \<Rightarrow> v \<in> subtree (view_at h) a)"
  using assms
proof (induction v rule: up_induct)
  case (view v)
  then show ?case
    using below_step[OF assms, of v] by (subst isDescendantOf.simps) (auto split: option.split)
qed

lemma subtree_trans: "u \<in> subtree f v \<Longrightarrow> v \<in> subtree f w \<Longrightarrow> u \<in> subtree f w"
  by (simp add: subtree_def)

lemma subtree_antisym: "forest f \<Longrightarrow> u \<in> subtree f v \<Longrightarrow> v \<in> subtree f u \<Longrightarrow> u = v"
  by (auto simp: subtree_def forest_def acyclic_def dest: rtranclD trancl_rtrancl_trancl)

subsection \<open>Changes of the hierarchy\<close>

definition detached :: "nat \<Rightarrow> nat \<Rightarrow> (nat \<Rightarrow> view) \<Rightarrow> nat \<Rightarrow> view" where
  "detached p v f =
     (let g = set_windows (subtree f v) None f;
          subs = filter (\<lambda>u. u \<noteq> v) (sub_views (f p))
      in g(v := (g v)\<lparr>super_view := None, next_responder := None\<rparr>,
           p := (g p)\<lparr>sub_views := subs, has_subviews := subs \<noteq> []\<rparr>))"

definition attached :: "nat \<Rightarrow> nat \<Rightarrow> nat \<Rightarrow> (nat \<Rightarrow> view) \<Rightarrow> nat \<Rightarrow> view" where
  "attached p v i f =
     (let g = set_windows (subtree f v) (view_window (f p)) f
      in g(v := (g v)\<lparr>super_view := Some p, next_responder := Some p\<rparr>,
           p := (g p)\<lparr>sub_views := take i (sub_views (f p)) @ v # drop i (sub_views (f p)), has_subviews := True\<rparr>))"

lemma detached_sel:
  assumes "p \<noteq> v"
  shows "super_view (detached p v f u) = (if u = v then None else super_view (f u))"
    and "next_responder (detached p v f u) = (if u = v then None else next_responder (f u))"
    and "sub_views (detached p v f u) = (if u = p then filter (\<lambda>u. u \<noteq> v) (sub_views (f p)) else sub_views (f u))"
    and "has_subviews (detached p v f u) =
      (if u = p then filter (\<lambda>u. u \<noteq> v) (sub_views (f p)) \<noteq> [] else has_subviews (f u))"
    and "view_window (detached p v f u) = (if u \<in> subtree f v then None else view_window (f u))"
    and "is_hidden (detached p v f u) = is_hidden (f u)"
    and "next_keys (detached p v f u) = next_keys (f u)"
    and "previous_keys (detached p v f u) = previous_keys (f u)"
  using assms by (auto simp: detached_def Let_def)

lemma attached_sel:
  assumes "p \<noteq> v"
  shows "super_view (attached p v i f u) = (if u = v then Some p else super_view (f u))"
    and "next_responder (attached p v i f u) = (if u = v then Some p else next_responder (f u))"
    and "sub_views (attached p v i f u) =
      (if u = p then take i (sub_views (f p)) @ v # drop i (sub_views (f p)) else sub_views (f u))"
    and "has_subviews (attached p v i f u) = (u = p \<or> has_subviews (f u))"
    and "view_window (attached p v i f u) = (if u \<in> subtree f v then view_window (f p) else view_window (f u))"
    and "is_hidden (attached p v i f u) = is_hidden (f u)"
    and "next_keys (attached p v i f u) = next_keys (f u)"
    and "previous_keys (attached p v i f u) = previous_keys (f u)"
  using assms by (auto simp: attached_def Let_def)

lemma detached_child:
  assumes "hierarchy f" and "super_view (f v) = Some p"
  shows "child (detached p v f) = child f - {(v, p)}" and "p \<noteq> v"
proof -
  have "(v, p) \<in> child f" using assms by (simp add: hierarchy_child)
  moreover have "(v, v) \<notin> child f"
    using hierarchy_forest[OF assms(1)] by (meson forest_def acyclic_def r_into_trancl')
  ultimately show ne: "p \<noteq> v" by blast
  show "child (detached p v f) = child f - {(v, p)}"
    by (auto simp: child_def detached_sel[OF ne])
qed

lemma subtree_mono: "child g \<subseteq> child f \<Longrightarrow> subtree g v \<subseteq> subtree f v"
  unfolding subtree_def using rtrancl_mono by blast

lemma forest_smaller:
  assumes "forest f" and "child g \<subseteq> child f" and "\<And>p. sub_views (g p) \<noteq> [] \<longrightarrow> has_subviews (g p)"
  shows "forest g"
proof -
  have "finite (child g)" "acyclic (child g)"
    using assms(1,2) finite_subset acyclic_subset by (auto simp: forest_def)
  moreover have "p = q" if "u \<in> set (sub_views (g p))" "u \<in> set (sub_views (g q))" for u p q
  proof -
    have "(u, p) \<in> child f" "(u, q) \<in> child f" using that assms(2) by (auto simp: child_def)
    then show ?thesis using assms(1) by (simp add: forest_def child_def)
  qed
  ultimately show ?thesis using assms(3) by (simp add: forest_def)
qed

lemma hierarchyD:
  assumes "hierarchy f"
  shows "u \<in> set (sub_views (f q)) \<longleftrightarrow> super_view (f u) = Some q" and "distinct (sub_views (f q))"
    and "has_subviews (f q) \<longleftrightarrow> sub_views (f q) \<noteq> []"
    and "super_view (f u) = Some q \<Longrightarrow> view_window (f u) = view_window (f q)"
    and "super_view (f u) = Some q \<Longrightarrow> next_responder (f u) = Some q"
  using assms by (auto simp: hierarchy_def forest_def)

lemma detached_hierarchy:
  assumes f: "hierarchy f" and v: "super_view (f v) = Some p"
  shows "hierarchy (detached p v f)"
proof -
  note ne = detached_child(2)[OF f v] and sel = detached_sel[OF detached_child(2)[OF f v]]
  have forest: "forest (detached p v f)"
    by (rule forest_smaller[OF hierarchy_forest[OF f]])
      (auto simp: detached_child(1)[OF f v] sel(3,4) hierarchyD(3)[OF f])
  show ?thesis
    unfolding hierarchy_def
  proof (intro conjI allI impI forest)
    fix q u
    show "distinct (sub_views (detached p v f q))" using hierarchyD(2)[OF f] by (simp add: sel(3))
    show "sub_views (detached p v f q) \<noteq> []" if "has_subviews (detached p v f q)"
      using that hierarchyD(3)[OF f, of q] by (simp add: sel(3,4) split: if_splits)
    show "u \<in> set (sub_views (detached p v f q)) \<longleftrightarrow> super_view (detached p v f u) = Some q"
      using hierarchyD(1)[OF f, of u q] hierarchyD(1)[OF f, of u p] v by (auto simp: sel(1,3))
    assume "super_view (detached p v f u) = Some q"
    then have u: "u \<noteq> v" "super_view (f u) = Some q" by (simp_all add: sel(1) split: if_splits)
    show "view_window (detached p v f u) = view_window (detached p v f q)"
      using u hierarchyD(4)[OF f u(2)] below_step[OF f, of u v] by (simp add: sel(5))
    show "next_responder (detached p v f u) = Some q"
      using u hierarchyD(5)[OF f u(2)] by (simp add: sel(2))
  qed
qed

lemma detached_subtree:
  assumes f: "hierarchy f" and v: "super_view (f v) = Some p"
  shows "subtree (detached p v f) v = subtree f v"
proof
  show "subtree (detached p v f) v \<subseteq> subtree f v"
    using detached_child(1)[OF f v] by (intro subtree_mono) auto
  have "u \<in> subtree (detached p v f) v" if "(u, v) \<in> (child f)\<^sup>*" for u
    using that
  proof (induction rule: converse_rtrancl_induct)
    case (step y z)
    have "(v, p) \<in> child f" using v by (simp add: hierarchy_child[OF f])
    then have "p \<notin> subtree f v"
      using subtree_antisym[OF hierarchy_forest[OF f], of p v] detached_child(2)[OF f v]
      by (auto simp: subtree_def)
    then have "(y, z) \<noteq> (v, p)" using step(2) by (auto simp: subtree_def)
    then have "(y, z) \<in> child (detached p v f)" using step(1) detached_child(1)[OF f v] by simp
    then show ?case using step.IH by (simp add: subtree_def converse_rtrancl_into_rtrancl)
  qed simp
  then show "subtree f v \<subseteq> subtree (detached p v f) v" by (auto simp: subtree_def)
qed

lemma attached_hierarchy:
  assumes f: "hierarchy f" and v: "super_view (f v) = None" and p: "p \<notin> subtree f v"
  shows "hierarchy (attached p v i f)"
proof -
  have ne: "p \<noteq> v" using p by auto
  note sel = attached_sel[OF ne]
  have fresh: "v \<notin> set (sub_views (f q))" for q using hierarchyD(1)[OF f] v by simp
  have subs: "u \<in> set (sub_views (attached p v i f q)) \<longleftrightarrow> u \<in> set (sub_views (f q)) \<or> u = v \<and> q = p" for u q
    using set_insert_at[of i "sub_views (f p)" v] by (simp only: sel(3)) auto
  have child: "child (attached p v i f) = insert (v, p) (child f)"
    by (auto simp: child_def subs)
  have forest: "forest (attached p v i f)"
    unfolding forest_def child
  proof (intro conjI allI impI)
    show "finite (insert (v, p) (child f))" "acyclic (insert (v, p) (child f))"
      using hierarchy_forest[OF f] p by (auto simp: forest_def subtree_def)
    show "q = r" if "u \<in> set (sub_views (attached p v i f q))" "u \<in> set (sub_views (attached p v i f r))" for u q r
      using that hierarchy_forest[OF f] fresh unfolding subs forest_def by blast
    show "has_subviews (attached p v i f q)" if "sub_views (attached p v i f q) \<noteq> []" for q
      using that hierarchyD(3)[OF f, of q] by (simp add: sel(3,4) split: if_splits)
  qed
  show ?thesis
    unfolding hierarchy_def
  proof (intro conjI allI impI forest)
    fix q u
    show "distinct (sub_views (attached p v i f q))"
      using hierarchyD(2)[OF f] fresh by (simp only: sel(3) distinct_insert_at split: if_split) simp
    show "sub_views (attached p v i f q) \<noteq> []" if "has_subviews (attached p v i f q)"
      using that hierarchyD(3)[OF f, of q] by (auto simp: sel(3,4))
    show "u \<in> set (sub_views (attached p v i f q)) \<longleftrightarrow> super_view (attached p v i f u) = Some q"
      using hierarchyD(1)[OF f, of u q] fresh[of q] by (auto simp: subs sel(1))
    assume u: "super_view (attached p v i f u) = Some q"
    show "view_window (attached p v i f u) = view_window (attached p v i f q)"
    proof (cases "u = v")
      case True
      then have "q = p" using u by (simp add: sel(1))
      then show ?thesis using True p by (simp add: sel(5))
    next
      case False
      then have "super_view (f u) = Some q" using u by (simp add: sel(1))
      then show ?thesis
        using False hierarchyD(4)[OF f] below_step[OF f, of u v] by (simp add: sel(5))
    qed
    show "next_responder (attached p v i f u) = Some q"
      using u hierarchyD(5)[OF f, of u q] by (simp add: sel(1,2) split: if_splits)
  qed
qed

subsection \<open>The operations\<close>

lemma resignInside_spec:
  assumes "hierarchy (view_at h)"
  shows "\<exists>h'. resignInside A p v h = Some h' \<and> view_at h' = view_at h \<and> hooks h' = hooks h"
  using assms
  by (auto simp: resignInside_def met_above_spec makeFirstResponder_def split: option.split responder.split)

text \<open>The flag is cleared after the last subview.\<close>

lemma flag_cleared:
  assumes "\<And>u. view_at h u = (if u = p then (detached p v f p)\<lparr>has_subviews := True\<rparr> else detached p v f u)"
    and "p \<noteq> v"
  shows "view_at (if sub_views (view_at h p) = [] then change p (\<lambda>x. x\<lparr>has_subviews := False\<rparr>) h else h) =
    detached p v f"
proof
  fix u
  show "view_at (if sub_views (view_at h p) = [] then change p (\<lambda>x. x\<lparr>has_subviews := False\<rparr>) h else h) u =
      detached p v f u"
    by (rule view.equality)
      (use assms(2) in \<open>auto simp: change_def assms(1) detached_sel[OF assms(2)]\<close>)
qed

lemma removeSubview_spec:
  assumes f: "hierarchy (view_at h)" and v: "super_view (view_at h v) = Some p"
  shows "\<exists>h'. removeSubview A p v h = Some h' \<and> view_at h' = detached p v (view_at h)"
proof -
  let ?f = "view_at h"
  have ne: "p \<noteq> v" by (rule detached_child(2)[OF f v])
  obtain h1 where h1: "resignInside A p v h = Some h1" "view_at h1 = ?f"
    using resignInside_spec[OF f] by blast
  let ?h2 = "change v (\<lambda>x. x\<lparr>super_view := None\<rparr>) (told (WillRemoveSubview p v) h1)"
  have h2: "view_at ?h2 = ?f(v := (?f v)\<lparr>super_view := None\<rparr>)" by (simp add: change_def told_def h1(2))
  have child2: "child (view_at ?h2) = child ?f" unfolding h2 by (auto simp: child_def)
  have same: "child (view_at ?h2) = child ?f" "subtree (view_at ?h2) = subtree ?f"
    by (simp_all add: fun_eq_iff subtree_def child2)
  have forest2: "forest (view_at ?h2)"
  proof (rule forest_smaller[OF hierarchy_forest[OF f]])
    show "child (view_at ?h2) \<subseteq> child ?f" by (simp only: same order_refl)
    show "sub_views (view_at ?h2 q) \<noteq> [] \<longrightarrow> has_subviews (view_at ?h2 q)" for q
      using hierarchyD(3)[OF f, of q] by (auto simp: h2)
  qed
  have together2: "together (view_at ?h2) v"
    using hierarchy_together[OF f, of v] unfolding together_def same by (simp add: h2)
  obtain hs where h3: "viewWillMoveToWindow None v ?h2 =
      Some (?h2\<lparr>view_at := set_windows (subtree ?f v) None (view_at ?h2), hooks := hooks ?h2 @ hs\<rparr>)"
    using viewWillMoveToWindow_spec[OF forest2 together2] unfolding same by blast
  let ?h3 = "?h2\<lparr>view_at := set_windows (subtree ?f v) None (view_at ?h2), hooks := hooks ?h2 @ hs\<rparr>"
  let ?subs = "filter (\<lambda>u. u \<noteq> v) (sub_views (?f p))"
  let ?h4 = "change p (\<lambda>x. x\<lparr>sub_views := filter (\<lambda>u. u \<noteq> v) (sub_views x)\<rparr>)
      (setNextResponder None v (viewWillMoveToSuperview None v ?h3))"
  have h4: "view_at ?h4 u =
      (if u = p then (detached p v ?f p)\<lparr>has_subviews := has_subviews (?f p)\<rparr> else detached p v ?f u)" for u
    by (rule view.equality)
      (use ne in \<open>simp_all add: detached_sel[OF ne] change_def told_def setNextResponder_def
        viewWillMoveToSuperview_def h1(2)\<close>)
  have "child (view_at ?h4) = child (detached p v ?f)"
    unfolding child_def h4 by (simp add: detached_sel(3)[OF ne])
  then have "forest (view_at ?h4)"
    using detached_child(1)[OF f v] hierarchyD(3)[OF f]
    by (intro forest_smaller[OF hierarchy_forest[OF f]]) (auto simp: h4 detached_sel(3,4)[OF ne])
  from viewDidMoveToWindow_spec[OF this] obtain hs' where
    h5: "viewDidMoveToWindow v ?h4 = Some (?h4\<lparr>hooks := hooks ?h4 @ hs'\<rparr>)" by blast
  let ?h6 = "told (DidMoveToSuperview v) (?h4\<lparr>hooks := hooks ?h4 @ hs'\<rparr>)"
  have h6: "view_at ?h6 = view_at ?h4" by (simp add: told_def)
  have had: "has_subviews (?f p)" using hierarchyD(1)[OF f, of v p] hierarchyD(3)[OF f, of p] v by auto
  have "view_at (if sub_views (view_at ?h6 p) = [] then change p (\<lambda>x. x\<lparr>has_subviews := False\<rparr>) ?h6 else ?h6) =
      detached p v ?f"
    by (rule flag_cleared[OF _ ne]) (simp only: h6 h4 had)
  then show ?thesis
    unfolding removeSubview_def h1(1) bind.bind_lunit h3 h5 Let_def by blast
qed

definition removed :: "nat \<Rightarrow> (nat \<Rightarrow> view) \<Rightarrow> nat \<Rightarrow> view" where
  "removed v f = (case super_view (f v) of None \<Rightarrow> f | Some p \<Rightarrow> detached p v f)"

lemma removeFromSuperview_spec:
  assumes "hierarchy (view_at h)"
  shows "\<exists>h'. removeFromSuperview A v h = Some h' \<and> view_at h' = removed v (view_at h)"
  using removeSubview_spec[OF assms]
  by (auto simp: removeFromSuperview_def removed_def split: option.split)

lemma removed_hierarchy: "hierarchy f \<Longrightarrow> hierarchy (removed v f)"
  using detached_hierarchy by (auto simp: removed_def split: option.split)

lemma removed_root:
  assumes "hierarchy f"
  shows "super_view (removed v f v) = None" and "subtree (removed v f) v = subtree f v"
  using detached_sel(1)[OF detached_child(2)[OF assms]] detached_subtree[OF assms]
  by (auto simp: removed_def split: option.split)

lemma attach_spec:
  assumes f: "hierarchy (view_at h)" and v: "super_view (view_at h v) = None" and p: "p \<notin> subtree (view_at h) v"
  shows "\<exists>h'. attach p v i h = Some h' \<and> view_at h' = attached p v i (view_at h)"
proof -
  let ?f = "view_at h" and ?w = "view_window (view_at h p)"
  have ne: "p \<noteq> v" using p by auto
  obtain hs where h1: "viewWillMoveToWindow ?w v h =
      Some (h\<lparr>view_at := set_windows (subtree ?f v) ?w ?f, hooks := hooks h @ hs\<rparr>)"
    using viewWillMoveToWindow_spec[OF hierarchy_forest[OF f] hierarchy_together[OF f]] by blast
  let ?h1 = "h\<lparr>view_at := set_windows (subtree ?f v) ?w ?f, hooks := hooks h @ hs\<rparr>"
  let ?h2 = "change p (\<lambda>x. x\<lparr>sub_views := take i (sub_views x) @ v # drop i (sub_views x), has_subviews := True\<rparr>)
      (setNextResponder (Some p) v (viewWillMoveToSuperview (Some p) v ?h1))"
  have h2: "view_at ?h2 = attached p v i ?f"
    using ne p by (auto simp: change_def told_def setNextResponder_def viewWillMoveToSuperview_def
        attached_def set_windows_def Let_def fun_eq_iff)
  have "forest (view_at ?h2)" unfolding h2 by (rule hierarchy_forest[OF attached_hierarchy[OF f v p]])
  from viewDidMoveToWindow_spec[OF this] obtain hs' where
    "viewDidMoveToWindow v ?h2 = Some (?h2\<lparr>hooks := hooks ?h2 @ hs'\<rparr>)" by blast
  then show ?thesis
    unfolding attach_def h1 by (simp add: told_def h2)
qed

end
