(* ===== verification/ViewOps.thy ===== *)
theory ViewOps
  imports ViewTree "HOL-Library.Multiset"
begin

text \<open>
  What the operations on the hierarchy of views do (\<open>Source/NSView.m\<close>): adding, replacing and
  removing subviews, looking for a shared ancestor, and which sequences of calls keep a hierarchy a
  hierarchy.
\<close>

subsection \<open>Adding a subview\<close>

text \<open>The views after \<open>v\<close> has been made a subview of \<open>p\<close>.\<close>

definition moved :: "nat \<Rightarrow> nat \<Rightarrow> place \<Rightarrow> nat option \<Rightarrow> (nat \<Rightarrow> view) \<Rightarrow> nat \<Rightarrow> view" where
  "moved p v place otherView f =
     attached p v (insertion_index place otherView (sub_views (removed v f p))) (removed v f)"

lemma filter_out: "v \<notin> set vs \<Longrightarrow> filter (\<lambda>u. u \<noteq> v) vs = vs"
  by (rule filter_True) auto

lemma removed_below:
  assumes "hierarchy f"
  shows "subtree (removed v f) v = subtree f v" and "super_view (removed v f v) = None"
    and "sub_views (removed v f p) = filter (\<lambda>u. u \<noteq> v) (sub_views (f p))"
proof -
  show "subtree (removed v f) v = subtree f v" "super_view (removed v f v) = None"
    using removed_root[OF assms] by simp_all
  show "sub_views (removed v f p) = filter (\<lambda>u. u \<noteq> v) (sub_views (f p))"
  proof (cases "super_view (f v)")
    case None
    then have "v \<notin> set (sub_views (f p))" using hierarchyD(1)[OF assms, of v p] by simp
    then show ?thesis using None by (simp add: removed_def filter_out)
  next
    case (Some q)
    have "v \<notin> set (sub_views (f p))" if "p \<noteq> q"
      using that Some hierarchyD(1)[OF assms, of v p] by simp
    then show ?thesis
      using Some by (auto simp: removed_def detached_sel[OF detached_child(2)[OF assms Some]] filter_out)
  qed
qed

lemma moved_hierarchy:
  assumes "hierarchy f" and "p \<notin> subtree f v"
  shows "hierarchy (moved p v place otherView f)"
  unfolding moved_def using assms removed_below
  by (intro attached_hierarchy removed_hierarchy) simp_all

lemma move_spec:
  assumes "hierarchy (view_at h)" and "p \<notin> subtree (view_at h) v"
  shows "\<exists>h'. Option.bind (removeFromSuperview A v h) (\<lambda>h. attach p v (i h) h) = Some h' \<and>
    (\<exists>h1. view_at h1 = removed v (view_at h) \<and> removeFromSuperview A v h = Some h1 \<and>
       view_at h' = attached p v (i h1) (removed v (view_at h)))"
proof -
  obtain h1 where h1: "removeFromSuperview A v h = Some h1" "view_at h1 = removed v (view_at h)"
    using removeFromSuperview_spec[OF assms(1)] by blast
  have "hierarchy (view_at h1)" "super_view (view_at h1 v) = None" "p \<notin> subtree (view_at h1) v"
    using removed_hierarchy[OF assms(1)] removed_below[OF assms(1)] assms(2) by (simp_all add: h1(2))
  from attach_spec[OF this] h1 show ?thesis by fastforce
qed

lemma addSubview_spec:
  assumes "hierarchy (view_at h)"
  shows "\<exists>h'. addSubview A p (Some v) place otherView h =
      (if p \<in> subtree (view_at h) v then Some (Inl (NSInvalidArgumentException, h)) else Some (Inr h')) \<and>
    view_at h' = (if otherView = Some v then view_at h else moved p v place otherView (view_at h))"
proof (cases "p \<in> subtree (view_at h) v")
  case True
  have "\<exists>h' :: views. view_at h' = g" for g by (rule exI[of _ "h\<lparr>view_at := g\<rparr>"]) simp
  then show ?thesis using True by (simp add: addSubview_def isDescendantOf_spec[OF assms])
next
  case False
  then show ?thesis
    using move_spec[OF assms False, of A "\<lambda>h. insertion_index place otherView (sub_views (view_at h p))"]
    by (auto simp: addSubview_def isDescendantOf_spec[OF assms] moved_def)
qed

subsection \<open>Replacing a subview\<close>

lemma removed_child:
  assumes "hierarchy f"
  shows "child (removed v f) \<subseteq> child f"
  using detached_child(1)[OF assms] by (auto simp: removed_def split: option.split)

lemma removed_other:
  assumes "hierarchy f" and "super_view (f v) = None"
  shows "super_view (removed u f v) = None"
  using assms(2) detached_sel(1)[OF detached_child(2)[OF assms(1)]]
  by (auto simp: removed_def split: option.split)

text \<open>The views after \<open>v\<close> has taken the place of the subview \<open>old\<close> of \<open>p\<close>.\<close>

definition replaced :: "nat \<Rightarrow> nat \<Rightarrow> nat \<Rightarrow> (nat \<Rightarrow> view) \<Rightarrow> nat \<Rightarrow> view" where
  "replaced p old v f =
     attached p v (index_in (sub_views (removed v f p)) old) (removed old (removed v f))"

lemma replaced_ready:
  assumes "hierarchy f" and "p \<notin> subtree f v"
  shows "hierarchy (removed old (removed v f))" and "super_view (removed old (removed v f) v) = None"
    and "p \<notin> subtree (removed old (removed v f)) v"
proof -
  have f: "hierarchy (removed v f)" by (rule removed_hierarchy[OF assms(1)])
  show "hierarchy (removed old (removed v f))" by (rule removed_hierarchy[OF f])
  show "super_view (removed old (removed v f) v) = None"
    by (rule removed_other[OF f]) (rule removed_below(2)[OF assms(1)])
  show "p \<notin> subtree (removed old (removed v f)) v"
    using subtree_mono[OF removed_child[OF f], of old v] removed_below(1)[OF assms(1), of v] assms(2) by auto
qed

lemma replaceSubview_spec:
  assumes f: "hierarchy (view_at h)" and p: "p \<notin> subtree (view_at h) v" and "v \<noteq> old"
  shows "\<exists>h'. replaceSubview A p (Some old) (Some v) h = Some h' \<and>
    view_at h' = (if old \<in> set (sub_views (view_at h p)) then replaced p old v (view_at h) else view_at h)"
proof (cases "old \<in> set (sub_views (view_at h p))")
  case True
  obtain h1 where h1: "removeFromSuperview A v h = Some h1" "view_at h1 = removed v (view_at h)"
    using removeFromSuperview_spec[OF f] by blast
  have "hierarchy (view_at h1)" using removed_hierarchy[OF f] by (simp add: h1(2))
  then obtain h2 where h2: "removeFromSuperview A old h1 = Some h2"
      "view_at h2 = removed old (removed v (view_at h))"
    using removeFromSuperview_spec[of h1 A old] by (auto simp: h1(2))
  show ?thesis
    using attach_spec[of h2 v p, unfolded h2(2), OF replaced_ready[OF f p]] True assms(3)
    by (auto simp: replaceSubview_def Let_def h1 h2(1) replaced_def h2(2))
qed (use assms(3) in \<open>simp add: replaceSubview_def\<close>)

lemma replaceSubview_hierarchy:
  assumes f: "hierarchy (view_at h)" and p: "\<And>v. new = Some v \<Longrightarrow> p \<notin> subtree (view_at h) v"
  shows "\<exists>h'. replaceSubview A p old new h = Some h' \<and> hierarchy (view_at h')"
proof (cases "old = new")
  case True
  then show ?thesis using f by (simp add: replaceSubview_def)
next
  case False
  have removal: "\<exists>h'. removeFromSuperview A v h = Some h' \<and> hierarchy (view_at h')" for v
    using removeFromSuperview_spec[OF f, of A v] removed_hierarchy[OF f, of v] by auto
  show ?thesis
  proof (cases new)
    case None
    then show ?thesis using removal f by (cases old) (auto simp: replaceSubview_def)
  next
    case (Some v)
    note p = p[OF Some]
    show ?thesis
    proof (cases old)
      case None
      have "hierarchy (attached p v i (removed v (view_at h)))" for i
        using attached_hierarchy[OF removed_hierarchy[OF f]] removed_below[OF f] p by simp
      then show ?thesis
        using move_spec[OF f p, of A "\<lambda>h. length (sub_views (view_at h p))"] Some None
        by (auto simp: replaceSubview_def)
    next
      case (Some u)
      then show ?thesis
        using False \<open>new = Some v\<close> replaceSubview_spec[OF f p, of u A] f
          attached_hierarchy[OF replaced_ready[OF f p]]
        by (auto simp: replaced_def split: if_splits)
    qed
  qed
qed

text \<open>A loop whose body keeps the property \<open>I\<close> of the state views_reach every element.\<close>

lemma for_each_reached:
  assumes "for_each f xs s = Some t" and "\<And>x s t. x \<in> set xs \<Longrightarrow> f x s = Some t \<Longrightarrow> I s \<Longrightarrow> I t \<and> Q x" and "I s"
  shows "I t \<and> (\<forall>x \<in> set xs. Q x)"
  using assms
proof (induction xs arbitrary: s)
  case (Cons x xs)
  then obtain s' where "f x s = Some s'" "for_each f xs s' = Some t" by (auto simp: bind_eq_Some_conv)
  with Cons.prems(2)[of x s s'] Cons.prems(2,3) Cons.IH[of s'] show ?case by auto
qed simp

lemma viewDidMoveToWindow_wellfounded:
  assumes "viewDidMoveToWindow v h = Some h'"
  shows "(\<forall>p. sub_views (view_at h p) \<noteq> [] \<longrightarrow> has_subviews (view_at h p)) \<longrightarrow>
    view_at h' = view_at h \<and> v \<in> Wellfounded.acc (child (view_at h))"
proof (rule viewDidMoveToWindow.raw_induct[OF _ assms])
  fix step v h h'
  assume IH: "\<And>v h h'. step v h = Some h' \<Longrightarrow>
      (\<forall>p. sub_views (view_at h p) \<noteq> [] \<longrightarrow> has_subviews (view_at h p)) \<longrightarrow>
      view_at h' = view_at h \<and> v \<in> Wellfounded.acc (child (view_at h))"
    and eq: "(let h = told (DidMoveToWindow v) h
      in if has_subviews (view_at h v) then for_each step (sub_views (view_at h v)) h else Some h) = Some h'"
  let ?P = "\<lambda>f. \<forall>p. sub_views (f p) \<noteq> [] \<longrightarrow> has_subviews (f p)"
  show "?P (view_at h) \<longrightarrow> view_at h' = view_at h \<and> v \<in> Wellfounded.acc (child (view_at h))"
  proof (intro impI)
    assume flags: "?P (view_at h)"
    show "view_at h' = view_at h \<and> v \<in> Wellfounded.acc (child (view_at h))"
    proof (cases "has_subviews (view_at h v)")
      case True
      then have "for_each step (sub_views (view_at h v)) (told (DidMoveToWindow v) h) = Some h'"
        using eq by (simp add: Let_def told_def)
      then have "view_at h' = view_at h \<and> (\<forall>u \<in> set (sub_views (view_at h v)). u \<in> Wellfounded.acc (child (view_at h)))"
      proof (rule for_each_reached)
        fix u s t
        assume s: "step u s = Some t" "view_at s = view_at h"
        show "view_at t = view_at h \<and> u \<in> Wellfounded.acc (child (view_at h))"
          using IH[OF s(1), unfolded s(2)] flags by (rule mp)
      qed (simp add: told_def)
      moreover from this have "v \<in> Wellfounded.acc (child (view_at h))"
        by - (rule acc.accI, simp add: child_def)
      ultimately show ?thesis by blast
    next
      case False
      then have "sub_views (view_at h v) = []" using flags by blast
      then have "v \<in> Wellfounded.acc (child (view_at h))"
        by - (rule acc.accI, simp add: child_def)
      moreover have "h' = told (DidMoveToWindow v) h" using eq False by (simp add: Let_def told_def)
      ultimately show ?thesis by (simp add: told_def)
    qed
  qed
qed

lemma acc_no_cycle: "x \<in> Wellfounded.acc r \<Longrightarrow> (x, x) \<notin> r\<^sup>+"
proof (induction rule: acc_induct_rule)
  case (1 x)
  show ?case
  proof
    assume "(x, x) \<in> r\<^sup>+"
    then obtain y where "(x, y) \<in> r\<^sup>*" "(y, x) \<in> r" using tranclD2 by metis
    then show False using 1(2)[of y] by (meson rtrancl_into_trancl2)
  qed
qed

lemma viewDidMoveToWindow_loops:
  assumes "(v, v) \<in> (child (view_at h))\<^sup>+"
    and "\<And>p. sub_views (view_at h p) \<noteq> [] \<longrightarrow> has_subviews (view_at h p)"
  shows "viewDidMoveToWindow v h = None"
proof (cases "viewDidMoveToWindow v h")
  case (Some h')
  from viewDidMoveToWindow_wellfounded[OF this] assms(2) have "v \<in> Wellfounded.acc (child (view_at h))" by simp
  from acc_no_cycle[OF this] assms(1) show ?thesis by contradiction
qed

lemma inserted_cycle:
  assumes g: "\<And>q. sub_views (g q) =
      (if q = p then take i (sub_views (f p)) @ v # drop i (sub_views (f p)) else sub_views (f q))"
    and p: "p \<in> subtree f v"
  shows "(v, v) \<in> (child g)\<^sup>+"
proof -
  have "set (sub_views (g q)) = set (sub_views (f q)) \<union> (if q = p then {v} else {})" for q
    using set_insert_at[of i "sub_views (f p)" v] by (simp add: g)
  then have child: "child g = insert (v, p) (child f)" by (auto simp: child_def split: if_splits)
  then have "(p, v) \<in> (child g)\<^sup>*"
    using p rtrancl_mono[of "child f" "child g"] by (auto simp: subtree_def)
  then show ?thesis unfolding child by (meson insertI1 rtrancl_into_trancl2)
qed

lemma attach_loop:
  assumes f: "hierarchy (view_at h)" and p: "p \<in> subtree (view_at h) v"
  shows "attach p v i h = None"
proof -
  let ?f = "view_at h" and ?w = "view_window (view_at h p)"
  obtain hs where h1: "viewWillMoveToWindow ?w v h =
      Some (h\<lparr>view_at := set_windows (subtree ?f v) ?w ?f, hooks := hooks h @ hs\<rparr>)"
    using viewWillMoveToWindow_spec[OF hierarchy_forest[OF f] hierarchy_together[OF f]] by blast
  let ?h1 = "h\<lparr>view_at := set_windows (subtree ?f v) ?w ?f, hooks := hooks h @ hs\<rparr>"
  let ?h2 = "change p (\<lambda>x. x\<lparr>sub_views := take i (sub_views x) @ v # drop i (sub_views x), has_subviews := True\<rparr>)
      (setNextResponder (Some p) v (viewWillMoveToSuperview (Some p) v ?h1))"
  have subs: "sub_views (view_at ?h2 q) =
      (if q = p then take i (sub_views (?f p)) @ v # drop i (sub_views (?f p)) else sub_views (?f q))" for q
    by (simp add: change_def told_def setNextResponder_def viewWillMoveToSuperview_def)
  then have "(v, v) \<in> (child (view_at ?h2))\<^sup>+" by (rule inserted_cycle) (rule p)
  moreover have "has_subviews (view_at ?h2 q) = (q = p \<or> has_subviews (?f q))" for q
    by (simp add: change_def told_def setNextResponder_def viewWillMoveToSuperview_def)
  then have "sub_views (view_at ?h2 q) \<noteq> [] \<longrightarrow> has_subviews (view_at ?h2 q)" for q
    using hierarchyD(3)[OF f, of q] by (simp only: subs split: if_split) simp
  ultimately have "viewDidMoveToWindow v ?h2 = None" by (rule viewDidMoveToWindow_loops)
  then show ?thesis unfolding attach_def h1 by simp
qed

lemma removed_keeps_above:
  assumes f: "hierarchy f" and "super_view (f old) = Some p" and "p \<in> subtree f v"
  shows "p \<in> subtree (removed old f) v"
proof -
  have child: "child (removed old f) = child f - {(old, p)}"
    using detached_child(1)[OF f assms(2)] assms(2) by (simp add: removed_def)
  have "(p, v) \<in> (child f)\<^sup>*" using assms(3) by (simp add: subtree_def)
  then have "(p, v) \<in> (child (removed old f))\<^sup>*"
  proof (induction rule: rtrancl_induct)
    case (step y z)
    have "z \<noteq> p"
      using step(1,2) hierarchy_forest[OF f] by (auto simp: forest_def acyclic_def dest: rtrancl_into_trancl1)
    then have "(y, z) \<in> child (removed old f)" using step(2) child by simp
    with step.IH show ?case by simp
  qed simp
  then show ?thesis by (simp add: subtree_def)
qed

subsection \<open>The array of subviews\<close>

text \<open>Only the order of the subviews changes.\<close>

definition reordered :: "nat \<Rightarrow> nat list \<Rightarrow> (nat \<Rightarrow> view) \<Rightarrow> nat \<Rightarrow> view" where
  "reordered p vs f = f(p := (f p)\<lparr>sub_views := vs\<rparr>)"

lemma reordered_sel [simp]:
  "super_view (reordered p vs f u) = super_view (f u)"
  "sub_views (reordered p vs f u) = (if u = p then vs else sub_views (f u))"
  "has_subviews (reordered p vs f u) = has_subviews (f u)"
  "view_window (reordered p vs f u) = view_window (f u)"
  "next_responder (reordered p vs f u) = next_responder (f u)"
  by (simp_all add: reordered_def)

lemma reordered_hierarchy:
  assumes f: "hierarchy f" and vs: "set vs = set (sub_views (f p))" "distinct vs"
  shows "hierarchy (reordered p vs f)"
proof -
  have "child (reordered p vs f) = child f" using vs(1) by (auto simp: child_def)
  moreover have "vs \<noteq> [] \<longleftrightarrow> sub_views (f p) \<noteq> []" using vs(1) by (metis set_empty)
  ultimately show ?thesis using assms by (auto simp: hierarchy_def forest_def)
qed

lemma removal_hierarchy:
  assumes "hierarchy (view_at h)"
  shows "\<exists>h'. removeFromSuperview A v h = Some h' \<and> hierarchy (view_at h') \<and>
    sub_views (view_at h' p) = filter (\<lambda>u. u \<noteq> v) (sub_views (view_at h p))"
  using removeFromSuperview_spec[OF assms, of A v] removed_hierarchy[OF assms, of v] removed_below(3)[OF assms, of v p]
  by auto

lemma drop_subviews:
  assumes "hierarchy (view_at h)"
  shows "\<exists>h'. for_each (\<lambda>u h. if u \<in> set vs then Some h else removeFromSuperview A u h) us h = Some h' \<and>
    hierarchy (view_at h') \<and> sub_views (view_at h' p) =
      filter (\<lambda>u. u \<notin> set us \<or> u \<in> set vs) (sub_views (view_at h p))"
  using assms
proof (induction us arbitrary: h)
  case (Cons u us)
  show ?case
  proof (cases "u \<in> set vs")
    case True
    have "(u' \<notin> set us \<or> u' \<in> set vs) = (u' \<notin> set (u # us) \<or> u' \<in> set vs)" for u'
      using True by auto
    then show ?thesis using Cons.IH[OF Cons.prems] True by simp
  next
    case False
    obtain h1 where h1: "removeFromSuperview A u h = Some h1" "hierarchy (view_at h1)"
        "sub_views (view_at h1 p) = filter (\<lambda>x. x \<noteq> u) (sub_views (view_at h p))"
      using removal_hierarchy[OF Cons.prems] by blast
    have "((x \<notin> set us \<or> x \<in> set vs) \<and> x \<noteq> u) = (x \<notin> set (u # us) \<or> x \<in> set vs)" for x
      using False by auto
    then show ?thesis using Cons.IH[OF h1(2)] False h1(1) by (simp add: h1(3) conj_commute)
  qed
qed simp

text \<open>
  The loop over the new subviews returns or raises with a hierarchy. When it returns, the subviews are
  the new ones in their order.
\<close>

lemma add_new_subviews_spec:
  assumes "hierarchy (view_at h)" and "distinct uniq" and "set uniq \<subseteq> set (sub_views (view_at h p))"
    and "set (sub_views (view_at h p)) \<subseteq> set uniq \<union> set vs"
  shows "\<exists>r. add_new_subviews A p vs uniq h = Some r \<and> hierarchy (view_at (final r)) \<and>
    (\<forall>h'. r = Inr h' \<longrightarrow> sub_views (view_at h' p) = uniq @ vs)"
  using assms
proof (induction vs arbitrary: uniq h)
  case Nil
  then have "set uniq = set (sub_views (view_at h p))" by auto
  from reordered_hierarchy[OF Nil(1) this Nil(2)] show ?case
    by (simp add: change_def reordered_def)
next
  case (Cons v vs)
  let ?f = "view_at h"
  show ?case
  proof (cases "(super_view (?f v) = None \<or> super_view (?f v) = Some p) \<and> v \<notin> set uniq")
    case False
    then show ?thesis using Cons.prems(1) by auto
  next
    case True
    show ?thesis
    proof (cases "v \<in> set (sub_views (?f p))")
      case True
      then show ?thesis
        using \<open>_ \<and> v \<notin> set uniq\<close> Cons.prems Cons.IH[of h "uniq @ [v]"] by auto
    next
      case new: False
      then have root: "super_view (?f v) = None" using True hierarchyD(1)[OF Cons.prems(1)] by simp
      show ?thesis
      proof (cases "p \<in> subtree ?f v")
        case True
        then show ?thesis
          using addSubview_spec[OF Cons.prems(1), of A p v NSWindowAbove None] new root Cons.prems(1)
            \<open>_ \<and> v \<notin> set uniq\<close> by auto
      next
        case below: False
        from addSubview_spec[OF Cons.prems(1), of A p v NSWindowAbove None] below
        obtain h' where h': "addSubview A p (Some v) NSWindowAbove None h = Some (Inr h')"
          "view_at h' = moved p v NSWindowAbove None ?f" by auto
        have f': "hierarchy (view_at h')"
          unfolding h'(2) by (rule moved_hierarchy[OF Cons.prems(1) below])
        have ne: "p \<noteq> v" using below by auto
        have subs: "sub_views (view_at h' p) = sub_views (?f p) @ [v]"
          by (simp add: h'(2) moved_def insertion_index_def attached_sel[OF ne] removed_def root)
        show ?thesis
          using Cons.IH[of h' "uniq @ [v]"] f' subs Cons.prems True h'(1) new root by auto
      qed
    qed
  qed
qed

lemma setSubviews_spec:
  assumes "hierarchy (view_at h)"
  shows "\<exists>r. setSubviews A p (Some vs) h = Some r \<and> hierarchy (view_at (final r)) \<and>
    (\<forall>h'. r = Inr h' \<longrightarrow> sub_views (view_at h' p) = vs)"
proof -
  obtain h1 where h1: "for_each (\<lambda>u h. if u \<in> set vs then Some h else removeFromSuperview A u h)
      (sub_views (view_at h p)) h = Some h1" "hierarchy (view_at h1)"
      "sub_views (view_at h1 p) = filter (\<lambda>u. u \<notin> set (sub_views (view_at h p)) \<or> u \<in> set vs) (sub_views (view_at h p))"
    using drop_subviews[OF assms] by blast
  then show ?thesis
    using add_new_subviews_spec[OF h1(2), of "[]" p vs A] by (auto simp: setSubviews_def)
qed

subsection \<open>Shared ancestors\<close>

definition ancestors :: "(nat \<Rightarrow> view) \<Rightarrow> nat \<Rightarrow> nat set" where
  "ancestors f v = {a. v \<in> subtree f a}"

text \<open>The nearest of the views in \<open>S\<close>: the one that is below all others.\<close>

definition nearest_in :: "(nat \<Rightarrow> view) \<Rightarrow> nat set \<Rightarrow> nat option \<Rightarrow> bool" where
  "nearest_in f S a = (case a of None \<Rightarrow> S = {} | Some a \<Rightarrow> a \<in> S \<and> S \<subseteq> ancestors f a)"

lemma ancestors_self [simp]: "v \<in> ancestors f v"
  by (simp add: ancestors_def)

lemma ancestors_up:
  assumes "hierarchy f"
  shows "ancestors f v = insert v (case super_view (f v) of None \<Rightarrow> {} | Some p \<Rightarrow> ancestors f p)"
  using below_step[OF assms, of v] by (auto simp: ancestors_def split: option.split)

lemma ancestors_trans: "a \<in> ancestors f v \<Longrightarrow> ancestors f a \<subseteq> ancestors f v"
  by (auto simp: ancestors_def intro: subtree_trans)

lemma ancestorSharedWithView_nearest:
  assumes "hierarchy (view_at h)"
  shows "\<exists>a. ancestorSharedWithView h v u = Some a \<and>
    nearest_in (view_at h) (ancestors (view_at h) v \<inter> ancestors (view_at h) u) a"
  using assms
proof (induction v arbitrary: u rule: up_induct)
  case (view v)
  let ?f = "view_at h" and ?A = "ancestors (view_at h)"
  note below = isDescendantOf_spec[OF assms]
  consider (above) "u \<in> ?A v" | (under) "u \<notin> ?A v" "v \<in> ?A u" | (apart) "u \<notin> ?A v" "v \<notin> ?A u" by blast
  then show ?case
  proof cases
    case above
    then have "ancestorSharedWithView h v u = Some (Some u)"
      by (subst ancestorSharedWithView.simps) (simp add: below ancestors_def)
    then show ?thesis using above by (auto simp: nearest_in_def)
  next
    case under
    then have "ancestorSharedWithView h v u = Some (Some v)"
      by (subst ancestorSharedWithView.simps) (simp add: below ancestors_def)
    then show ?thesis using under by (auto simp: nearest_in_def)
  next
    case apart
    have up: "?A x = insert x (case super_view (?f x) of None \<Rightarrow> {} | Some p \<Rightarrow> ?A p)" for x
      by (rule ancestors_up[OF assms])
    have shared: "?A v \<inter> ?A u = (case super_view (?f v) of None \<Rightarrow> {} | Some p \<Rightarrow> ?A p) \<inter>
        (case super_view (?f u) of None \<Rightarrow> {} | Some q \<Rightarrow> ?A q)"
      using apart unfolding up[of v] up[of u] by blast
    have "ancestorSharedWithView h v u = (case (super_view (?f v), super_view (?f u)) of
        (Some p, Some q) \<Rightarrow> ancestorSharedWithView h p q | _ \<Rightarrow> Some None)"
      using apart by (subst ancestorSharedWithView.simps) (auto simp: below ancestors_def)
    then show ?thesis
      using view.IH unfolding shared by (auto simp: nearest_in_def split: option.splits)
  qed
qed

subsection \<open>Sequences of calls\<close>

datatype view_call =
    AddSubview nat "nat option" place "nat option"
  | RemoveFromSuperview nat
  | RemoveSubview nat nat
  | ReplaceSubview nat "nat option" "nat option"
  | SetSubviews nat "nat list option"
  | SortSubviews nat "nat list \<Rightarrow> nat list"

fun perform :: "responder_answers \<Rightarrow> view_call \<Rightarrow> views \<Rightarrow> views pstep" where
  "perform A (AddSubview p v place u) h = addSubview A p v place u h"
| "perform A (RemoveFromSuperview v) h = map_option Inr (removeFromSuperview A v h)"
| "perform A (RemoveSubview p v) h = map_option Inr (removeSubview A p v h)"
| "perform A (ReplaceSubview p old new) h = map_option Inr (replaceSubview A p old new h)"
| "perform A (SetSubviews p vs) h = setSubviews A p vs h"
| "perform A (SortSubviews p rearrange) h = Some (Inr (sortSubviews rearrange p h))"

text \<open>
  What the calls leave to their callers: a view removed with \<open>removeSubview:\<close> is a subview, one
  that replaces another is neither the receiver nor above it, and sorting rearranges.
\<close>

fun call_ok :: "(nat \<Rightarrow> view) \<Rightarrow> view_call \<Rightarrow> bool" where
  "call_ok f (RemoveSubview p v) = (v \<in> set (sub_views (f p)))"
| "call_ok f (ReplaceSubview p old (Some v)) = (p \<notin> subtree f v)"
| "call_ok f (SortSubviews p rearrange) = (mset (rearrange (sub_views (f p))) = mset (sub_views (f p)))"
| "call_ok f _ = True"

inductive views_reach :: "responder_answers \<Rightarrow> views \<Rightarrow> views \<Rightarrow> bool" for A h where
  here: "views_reach A h h"
| call: "views_reach A h h1 \<Longrightarrow> call_ok (view_at h1) c \<Longrightarrow> perform A c h1 = Some r \<Longrightarrow> views_reach A h (final r)"

lemma perform_hierarchy:
  assumes f: "hierarchy (view_at h)" and ok: "call_ok (view_at h) c"
  shows "\<exists>r. perform A c h = Some r \<and> hierarchy (view_at (final r))"
proof (cases c)
  case (AddSubview p aView place u)
  show ?thesis
  proof (cases aView)
    case None
    then show ?thesis using f AddSubview by (simp add: addSubview_def)
  next
    case (Some v)
    then show ?thesis
      using addSubview_spec[OF f, of A p v place u] moved_hierarchy[OF f, of p v place u] f AddSubview
      by (auto split: if_splits)
  qed
next
  case (RemoveFromSuperview v)
  then show ?thesis using removeFromSuperview_spec[OF f, of A v] removed_hierarchy[OF f, of v] by auto
next
  case (RemoveSubview p v)
  then have "super_view (view_at h v) = Some p" using ok hierarchyD(1)[OF f] by simp
  then show ?thesis
    using removeSubview_spec[OF f, of v p A] detached_hierarchy[OF f, of v p] RemoveSubview by auto
next
  case (ReplaceSubview p old new)
  have "\<And>v. new = Some v \<Longrightarrow> p \<notin> subtree (view_at h) v" using ok ReplaceSubview by simp
  from replaceSubview_hierarchy[of h new, OF f this, where A = A and old = old] show ?thesis using ReplaceSubview by auto
next
  case (SetSubviews p vs)
  then show ?thesis
    using setSubviews_spec[OF f, of A p] f by (cases vs) (auto simp: setSubviews_def[of _ _ None])
next
  case (SortSubviews p rearrange)
  then have "mset (rearrange (sub_views (view_at h p))) = mset (sub_views (view_at h p))" using ok by simp
  from mset_eq_setD[OF this] mset_eq_imp_distinct_iff[OF this] reordered_hierarchy[OF f] hierarchyD(2)[OF f]
  show ?thesis using SortSubviews by (simp add: sortSubviews_def change_def reordered_def)
qed

lemma reaches_hierarchy: "views_reach A h h' \<Longrightarrow> hierarchy (view_at h) \<Longrightarrow> hierarchy (view_at h')"
proof (induction rule: views_reach.induct)
  case (call h1 c r)
  then show ?case using perform_hierarchy[of h1 c A] by auto
qed simp

subsection \<open>Properties\<close>

text \<open>Views as they are made: alone, shown and in no window.\<close>

definition blank_view :: view where
  "blank_view = \<lparr>super_view = None, sub_views = [], view_window = None, next_responder = None,
     has_subviews = False, is_hidden = False, next_keys = [], previous_keys = []\<rparr>"

definition fresh_views :: views where
  "fresh_views = \<lparr>view_at = (\<lambda>_. blank_view), first_responder = (\<lambda>_. None), hooks = []\<rparr>"

definition willing :: responder_answers where
  "willing = \<lparr>accepts = (\<lambda>_. True), becomes = (\<lambda>_. True), resigns = (\<lambda>_. True)\<rparr>"

lemma fresh_views_at [simp]: "view_at fresh_views v = blank_view"
  by (simp add: fresh_views_def)

lemma fresh_views_child [simp]: "child (view_at fresh_views) = {}"
  by (simp add: child_def blank_view_def)

lemma fresh_views_subtree [simp]: "subtree (view_at fresh_views) v = {v}"
  by (auto simp: subtree_def)

lemma fresh_views_hierarchy [simp]: "hierarchy (view_at fresh_views)"
  by (simp add: hierarchy_def forest_def wf_acyclic) (simp add: blank_view_def)

text \<open>C12: from a well formed hierarchy of views, every sequence of calls that add, remove, replace, set and
  sort subviews, whether they return or raise, leads to a hierarchy, and the next call returns or
  raises with a hierarchy again: superviews and subviews agree, a view is in the window of its
  superview and hands on its events to it, and no view is inside itself. The calls for it are to
  remove subviews only, and not to replace a subview by the receiver or by a view above it.\<close>

theorem view_calls_keep_hierarchy:
  assumes "hierarchy (view_at h)" and "views_reach A h h'" and "call_ok (view_at h') c"
  shows "\<exists>r. perform A c h' = Some r \<and> hierarchy (view_at (final r))"
  using perform_hierarchy[OF reaches_hierarchy[OF assms(2,1)] assms(3)] .

theorem view_calls_keep_hierarchy_witness:
  "\<exists>r s. perform willing (AddSubview 0 (Some 1) NSWindowAbove None) fresh_views = Some r \<and>
    perform willing (SetSubviews 1 (Some [2, 2])) (final r) = Some s \<and> hierarchy (view_at (final s))"
proof -
  obtain r where r: "perform willing (AddSubview 0 (Some 1) NSWindowAbove None) fresh_views = Some r"
    using view_calls_keep_hierarchy[OF fresh_views_hierarchy views_reach.here, of "AddSubview 0 (Some 1) NSWindowAbove None" willing]
    by auto
  have "views_reach willing fresh_views (final r)"
    by (rule views_reach.call[OF views_reach.here _ r]) simp
  from view_calls_keep_hierarchy[OF fresh_views_hierarchy this, of "SetSubviews 1 (Some [2, 2])"] r show ?thesis by auto
qed

text \<open>
  Where a view stands among the subviews: the others keep their order, and it is directly below or above
  its neighbour, or the first or last where the neighbour is not among them.
\<close>

definition stands :: "place \<Rightarrow> nat option \<Rightarrow> nat \<Rightarrow> nat list \<Rightarrow> nat list \<Rightarrow> bool" where
  "stands place otherView v others subs \<longleftrightarrow> filter (\<lambda>u. u \<noteq> v) subs = others \<and>
     (case otherView of
        Some u \<Rightarrow>
          if u \<in> set others
          then \<exists>xs ys. subs = xs @ (if place = NSWindowBelow then [v, u] else [u, v]) @ ys
          else subs = (if place = NSWindowBelow then v # others else others @ [v])
      | None \<Rightarrow> subs = (if place = NSWindowBelow then v # others else others @ [v]))"

lemma index_in_nth: "u \<in> set vs \<Longrightarrow> index_in vs u < length vs \<and> vs ! index_in vs u = u"
  by (induction vs) (auto simp: index_in_def)

lemma inserted_stands:
  assumes "v \<notin> set others" and "otherView \<noteq> Some v" and "i = insertion_index place otherView others"
  shows "stands place otherView v others (take i others @ v # drop i others)"
proof -
  have "filter (\<lambda>u. u \<noteq> v) (take i others) = take i others" "filter (\<lambda>u. u \<noteq> v) (drop i others) = drop i others"
    using assms(1) by (auto intro!: filter_out dest: in_set_takeD in_set_dropD)
  then have keep: "filter (\<lambda>u. u \<noteq> v) (take i others @ v # drop i others) = others" by simp
  have beside: "\<exists>xs ys. take i others @ v # drop i others = xs @ (if place = NSWindowBelow then [v, u] else [u, v]) @ ys"
    if u: "otherView = Some u" "u \<in> set others" for u
  proof -
    let ?k = "index_in others u"
    have at: "?k < length others" "others ! ?k = u"
      using index_in_nth[OF u(2)] by simp_all
    show ?thesis
    proof (cases "place = NSWindowBelow")
      case True
      then have "i = ?k" using assms(3) u by (simp add: insertion_index_def)
      then have "drop i others = u # drop (Suc ?k) others" using Cons_nth_drop_Suc[OF at(1)] at(2) by simp
      then show ?thesis using True by (intro exI[of _ "take i others"] exI[of _ "drop (Suc ?k) others"]) simp
    next
      case False
      then have i: "i = Suc ?k" using assms(3) u by (simp add: insertion_index_def)
      then have "take i others = take ?k others @ [u]" using take_Suc_conv_app_nth[OF at(1)] at(2) by simp
      then show ?thesis using False by (intro exI[of _ "take ?k others"] exI[of _ "drop i others"]) simp
    qed
  qed
  show ?thesis
    using keep beside assms(3) unfolding stands_def insertion_index_def by (cases otherView) auto
qed

lemma moved_sel:
  assumes f: "hierarchy f" and p: "p \<notin> subtree f v" and "otherView \<noteq> Some v"
  shows "stands place otherView v (filter (\<lambda>u. u \<noteq> v) (sub_views (f p))) (sub_views (moved p v place otherView f p))"
    and "q \<noteq> p \<Longrightarrow> sub_views (moved p v place otherView f q) = filter (\<lambda>u. u \<noteq> v) (sub_views (f q))"
    and "super_view (moved p v place otherView f u) = (if u = v then Some p else super_view (f u))"
    and "next_responder (moved p v place otherView f u) = (if u = v then Some p else next_responder (f u))"
    and "view_window (moved p v place otherView f u) =
      (if u \<in> subtree f v then view_window (f p) else view_window (f u))"
proof -
  have ne: "p \<noteq> v" using p by auto
  note sel = attached_sel[OF ne] and subs = removed_below(3)[OF f]
  show "stands place otherView v (filter (\<lambda>u. u \<noteq> v) (sub_views (f p))) (sub_views (moved p v place otherView f p))"
    using inserted_stands[OF _ assms(3) refl, of "filter (\<lambda>u. u \<noteq> v) (sub_views (f p))" place]
    by (simp add: moved_def sel subs)
  show "q \<noteq> p \<Longrightarrow> sub_views (moved p v place otherView f q) = filter (\<lambda>u. u \<noteq> v) (sub_views (f q))"
    by (simp add: moved_def sel subs)
  have gone: "super_view (removed v f u) = super_view (f u)" "next_responder (removed v f u) = next_responder (f u)" if "u \<noteq> v"
    using that detached_sel(1,2)[OF detached_child(2)[OF f]] by (auto simp: removed_def split: option.split)
  have windows: "view_window (removed v f u) = view_window (f u)" if "u \<notin> subtree f v" for u
    using that detached_sel(5)[OF detached_child(2)[OF f]] by (auto simp: removed_def split: option.split)
  show "super_view (moved p v place otherView f u) = (if u = v then Some p else super_view (f u))"
    "next_responder (moved p v place otherView f u) = (if u = v then Some p else next_responder (f u))"
    using gone by (simp_all add: moved_def sel)
  show "view_window (moved p v place otherView f u) =
      (if u \<in> subtree f v then view_window (f p) else view_window (f u))"
    using windows p by (simp add: moved_def sel removed_below(1)[OF f])
qed

text \<open>C13: \<open>addSubview:positioned:relativeTo:\<close> raises, changing nothing, exactly when the view is the receiver
  or above it. Otherwise it does nothing when the view is given as its own neighbour, and else takes the
  view out of its old place, and out of the subviews of all other views, and makes it a subview of the
  receiver directly below or above the neighbour, or first or last where the neighbour is nil or not a
  subview, while the other subviews keep their order; the view has the receiver as superview and next
  responder, and all views inside it are in the window of the receiver.\<close>

theorem add_subview:
  assumes "hierarchy (view_at h)"
  shows "if p \<in> subtree (view_at h) v
    then addSubview A p (Some v) place otherView h = Some (Inl (NSInvalidArgumentException, h))
    else \<exists>h'. addSubview A p (Some v) place otherView h = Some (Inr h') \<and>
      (if otherView = Some v then view_at h' = view_at h
       else stands place otherView v (filter (\<lambda>u. u \<noteq> v) (sub_views (view_at h p))) (sub_views (view_at h' p)) \<and>
         (\<forall>q. q \<noteq> p \<longrightarrow> sub_views (view_at h' q) = filter (\<lambda>u. u \<noteq> v) (sub_views (view_at h q))) \<and>
         (\<forall>u. super_view (view_at h' u) = (if u = v then Some p else super_view (view_at h u)) \<and>
            next_responder (view_at h' u) = (if u = v then Some p else next_responder (view_at h u)) \<and>
            view_window (view_at h' u) =
              (if u \<in> subtree (view_at h) v then view_window (view_at h p) else view_window (view_at h u))))"
proof -
  obtain h' where "addSubview A p (Some v) place otherView h =
      (if p \<in> subtree (view_at h) v then Some (Inl (NSInvalidArgumentException, h)) else Some (Inr h'))"
    "view_at h' = (if otherView = Some v then view_at h else moved p v place otherView (view_at h))"
    using addSubview_spec[OF assms] by blast
  then show ?thesis using moved_sel[OF assms] by simp
qed

theorem add_subview_witness:
  "\<exists>h'. addSubview willing 0 (Some 1) NSWindowBelow None fresh_views = Some (Inr h') \<and>
    sub_views (view_at h' 0) = [1] \<and> super_view (view_at h' 1) = Some 0"
  using add_subview[OF fresh_views_hierarchy, of 0 1 willing NSWindowBelow None]
  by (auto simp: stands_def blank_view_def)

text \<open>\<open>ancestorSharedWithView:\<close> answers the nearest of the views that are above or equal to both
  views, and nil when there is none.\<close>

lemma shared_ancestor:
  assumes "hierarchy (view_at h)"
  shows "\<exists>a. ancestorSharedWithView h v u = Some a \<and>
    nearest_in (view_at h) (ancestors (view_at h) v \<inter> ancestors (view_at h) u) a"
  using ancestorSharedWithView_nearest[OF assms] .

lemma shared_ancestor_example:
  "\<exists>a. ancestorSharedWithView fresh_views 1 2 = Some a \<and>
    nearest_in (view_at fresh_views) (ancestors (view_at fresh_views) 1 \<inter> ancestors (view_at fresh_views) 2) a"
  using shared_ancestor[OF fresh_views_hierarchy, of 1 2] .

text \<open>C39: \<open>replaceSubview:with:\<close> does not look for loops as \<open>addSubview:\<close> does: when the new view is the
  receiver or a view above it, a view ends up inside itself, and the walk that tells the views of their
  window never ends.\<close>

theorem replace_above_loops:
  assumes "hierarchy (view_at h)" and "p \<in> subtree (view_at h) v" and "old \<noteq> Some v"
    and "set_option old \<subseteq> set (sub_views (view_at h p))"
  shows "replaceSubview A p old (Some v) h = None"
proof -
  let ?f = "view_at h"
  obtain h1 where h1: "removeFromSuperview A v h = Some h1" "view_at h1 = removed v ?f"
    using removeFromSuperview_spec[OF assms(1)] by blast
  have f1: "hierarchy (view_at h1)" "p \<in> subtree (view_at h1) v"
    using removed_hierarchy[OF assms(1)] removed_below(1)[OF assms(1)] assms(2) by (simp_all add: h1(2))
  show ?thesis
  proof (cases old)
    case None
    then show ?thesis using attach_loop[OF f1] h1(1) by (simp add: replaceSubview_def)
  next
    case (Some u)
    then have u: "u \<in> set (sub_views (?f p))" "u \<noteq> v" using assms(3,4) by auto
    then have "super_view (view_at h1 u) = Some p"
      using removed_below(3)[OF assms(1), of v p] hierarchyD(1)[OF f1(1), of u p] by (simp add: h1(2))
    from removed_keeps_above[OF f1(1) this f1(2)] removed_hierarchy[OF f1(1), of u]
      removeFromSuperview_spec[OF f1(1), of A u]
    obtain h2 where "removeFromSuperview A u h1 = Some h2" "hierarchy (view_at h2)" "p \<in> subtree (view_at h2) v"
      by auto
    then show ?thesis
      using attach_loop u Some h1(1) by (simp add: replaceSubview_def Let_def)
  qed
qed

theorem replace_above_loops_witness: "replaceSubview willing 0 None (Some 0) fresh_views = None"
  using replace_above_loops[OF fresh_views_hierarchy, of 0 0 None willing] by simp

end
