(* ===== verification/KeyViews.thy ===== *)
theory KeyViews
  imports ViewOps
begin

text \<open>
  The key view chain (\<open>Source/NSView.m\<close>). Each view links to the next key view and
  lists the views that link to it, in arrays whose first item is the view before it. A view that goes
  away unlinks itself.
\<close>

subsection \<open>The chain\<close>

text \<open>An empty list is an array not made yet.\<close>

definition first_key :: "nat option list \<Rightarrow> nat option" where
  "first_key ks = (case ks of [] \<Rightarrow> None | k # _ \<Rightarrow> k)"

definition nextKeyView :: "(nat \<Rightarrow> view) \<Rightarrow> nat \<Rightarrow> nat option" where
  "nextKeyView f v = first_key (next_keys (f v))"

text \<open>Removal of a view from an array of links: its first item is cleared, the others are taken out.\<close>

definition remove_later :: "nat \<Rightarrow> nat option list \<Rightarrow> nat option list" where
  "remove_later v ks = take 1 ks @ filter (\<lambda>k. k \<noteq> Some v) (drop 1 ks)"

definition remove_links :: "nat \<Rightarrow> nat option list \<Rightarrow> nat option list" where
  "remove_links v ks =
     (let ks = remove_later v ks in if first_key ks = Some v then ks[0 := None] else ks)"

text \<open>A free first item in the array of the views before \<open>u\<close>: the view in it moves to the second place.\<close>

definition make_room :: "nat \<Rightarrow> views \<Rightarrow> views" where
  "make_room u h =
     (let h = (if previous_keys (view_at h u) = [] then change u (\<lambda>x. x\<lparr>previous_keys := [None]\<rparr>) h else h)
      in case first_key (previous_keys (view_at h u)) of
           None \<Rightarrow> h
         | Some t \<Rightarrow>
             let h = change t (\<lambda>x. x\<lparr>next_keys := remove_later u (next_keys x)\<rparr>) h
             in if first_key (next_keys (view_at h t)) = Some u
                then change u (\<lambda>x. x\<lparr>previous_keys := None # previous_keys x\<rparr>) h
                else h)"

text \<open>The view after \<open>v\<close> no longer lists it.\<close>

definition leave_next :: "nat \<Rightarrow> views \<Rightarrow> views" where
  "leave_next v h =
     (case first_key (next_keys (view_at h v)) of
        None \<Rightarrow> h
      | Some t \<Rightarrow> change t (\<lambda>x. x\<lparr>previous_keys := remove_links v (previous_keys x)\<rparr>) h)"

definition setNextKeyView :: "nat option \<Rightarrow> nat \<Rightarrow> views \<Rightarrow> views" where
  "setNextKeyView aView v h =
     (case aView of
        None \<Rightarrow>
          if first_key (next_keys (view_at h v)) = None then h
          else change v (\<lambda>x. x\<lparr>next_keys := (next_keys x)[0 := None]\<rparr>) (leave_next v h)
      | Some u \<Rightarrow>
          if first_key (next_keys (view_at h v)) = Some u then h
          else
            let h = (if next_keys (view_at h v) = [] then change v (\<lambda>x. x\<lparr>next_keys := [None]\<rparr>) h else h);
                h = change u (\<lambda>x. x\<lparr>previous_keys := (previous_keys x)[0 := Some v]\<rparr>) (make_room u h)
            in change v (\<lambda>x. x\<lparr>next_keys := (next_keys x)[0 := Some u]\<rparr>) (leave_next v h))"

definition previousKeyView :: "(nat \<Rightarrow> view) \<Rightarrow> nat \<Rightarrow> nat option" where
  "previousKeyView f v = first_key (previous_keys (f v))"

definition setPreviousKeyView :: "nat option \<Rightarrow> nat \<Rightarrow> views \<Rightarrow> views" where
  "setPreviousKeyView aView v h =
     (let p = previousKeyView (view_at h) v
      in if aView = p \<or> aView = Some v then h
         else let h = (case p of None \<Rightarrow> h | Some t \<Rightarrow> setNextKeyView aView t h)
              in (case aView of None \<Rightarrow> h | Some u \<Rightarrow> setNextKeyView (Some v) u h))"

text \<open>The loop of \<open>dealloc\<close> over the views that link to the receiver, from the last one.\<close>

definition unlink :: "nat \<Rightarrow> nat option \<Rightarrow> views \<Rightarrow> views" where
  "unlink v tmp h =
     (case tmp of
        None \<Rightarrow> h
      | Some t \<Rightarrow> if nextKeyView (view_at h) t = Some v then setNextKeyView None t h else h)"

fun unlink_all :: "nat \<Rightarrow> nat \<Rightarrow> views \<Rightarrow> views" where
  "unlink_all v 0 h = h"
| "unlink_all v (Suc n) h = unlink_all v n (unlink v (previous_keys (view_at h v) ! n) h)"

text \<open>The arrays are cleaned up and freed.\<close>

fun forget_next :: "nat \<Rightarrow> nat option list \<Rightarrow> views \<Rightarrow> views" where
  "forget_next v [] h = h"
| "forget_next v (k # ks) h = forget_next v ks
     (case k of None \<Rightarrow> h | Some t \<Rightarrow> change t (\<lambda>x. x\<lparr>next_keys := remove_links v (next_keys x)\<rparr>) h)"

fun forget_previous :: "nat \<Rightarrow> nat option list \<Rightarrow> views \<Rightarrow> views" where
  "forget_previous v [] h = h"
| "forget_previous v (k # ks) h = forget_previous v ks
     (case k of None \<Rightarrow> h | Some t \<Rightarrow> change t (\<lambda>x. x\<lparr>previous_keys := remove_links v (previous_keys x)\<rparr>) h)"

definition deallocKeys :: "nat \<Rightarrow> views \<Rightarrow> views" where
  "deallocKeys v h =
     (let h = setNextKeyView None v h;
          h = unlink v (previousKeyView (view_at h) v) h;
          h = unlink_all v (length (previous_keys (view_at h v))) h;
          h = change v (\<lambda>x. x\<lparr>previous_keys := []\<rparr>) (forget_next v (rev (previous_keys (view_at h v))) h)
      in change v (\<lambda>x. x\<lparr>next_keys := []\<rparr>) (forget_previous v (rev (next_keys (view_at h v))) h))"

subsection \<open>Links in both directions\<close>

definition linked :: "nat option list \<Rightarrow> nat set" where
  "linked ks = {v. Some v \<in> set ks}"

definition links_ok :: "nat option list \<Rightarrow> bool" where
  "links_ok ks \<longleftrightarrow> distinct ks \<and> None \<notin> set (drop 1 ks)"

text \<open>The array of the views before \<open>u\<close> lists exactly the views whose next view is \<open>u\<close>, each once.\<close>

definition key_chain :: "(nat \<Rightarrow> view) \<Rightarrow> bool" where
  "key_chain f \<longleftrightarrow> (\<forall>v. length (next_keys (f v)) \<le> 1) \<and> (\<forall>u. links_ok (previous_keys (f u))) \<and>
     (\<forall>u. linked (previous_keys (f u)) = {v. nextKeyView f v = Some u})"

lemma first_key_in: "first_key ks = Some v \<Longrightarrow> Some v \<in> set ks"
  by (cases ks) (auto simp: first_key_def)

lemma first_key_upd [simp]: "first_key (ks[0 := k]) = (if ks = [] then None else k)"
  by (cases ks) (auto simp: first_key_def)

lemma remove_later_short: "length ks \<le> 1 \<Longrightarrow> remove_later v ks = ks"
  by (cases ks) (auto simp: remove_later_def)

lemma remove_links_out: "Some v \<notin> set ks \<Longrightarrow> remove_links v ks = ks"
proof -
  assume out: "Some v \<notin> set ks"
  then have "filter (\<lambda>k. k \<noteq> Some v) (drop 1 ks) = drop 1 ks" by (auto dest: in_set_dropD intro!: filter_True)
  then have "remove_later v ks = ks" by (simp add: remove_later_def)
  then show ?thesis using out first_key_in by (auto simp: remove_links_def)
qed

lemma remove_links_Nil [simp]: "remove_links v [] = []"
  by (simp add: remove_links_def remove_later_def first_key_def)

lemma remove_links_Cons [simp]:
  "remove_links v (k # ks) = (if k = Some v then None else k) # filter (\<lambda>k. k \<noteq> Some v) ks"
  by (simp add: remove_links_def remove_later_def first_key_def)

lemma remove_links_ok:
  assumes "links_ok ks"
  shows "links_ok (remove_links v ks)" and "linked (remove_links v ks) = linked ks - {v}"
proof -
  show "links_ok (remove_links v ks)" using assms by (cases ks) (auto simp: links_ok_def)
  show "linked (remove_links v ks) = linked ks - {v}"
    using assms by (cases ks) (auto simp: links_ok_def linked_def)
qed

lemma change_at [simp]: "view_at (change v g h) = (view_at h)(v := g (view_at h v))"
  by (simp add: change_def)

lemma key_chainD:
  assumes "key_chain f"
  shows "length (next_keys (f v)) \<le> 1" and "links_ok (previous_keys (f v))"
    and "v \<in> linked (previous_keys (f u)) \<longleftrightarrow> nextKeyView f v = Some u"
  using assms by (auto simp: key_chain_def)

text \<open>One view gets another next view.\<close>

lemma key_chain_step:
  assumes "key_chain f" and "\<And>x. length (next_keys (g x)) \<le> 1" and "\<And>x. links_ok (previous_keys (g x))"
    and "\<And>x. nextKeyView g x = (if x = v then w else nextKeyView f x)"
    and "\<And>x. linked (previous_keys (g x)) =
      linked (previous_keys (f x)) - {v} \<union> (if w = Some x then {v} else {})"
  shows "key_chain g"
  unfolding key_chain_def using assms(1)[unfolded key_chain_def]
  by (intro conjI allI assms(2,3)) (auto simp: assms(4,5))

lemma key_chain_same:
  assumes "key_chain f" and "\<And>x. length (next_keys (g x)) \<le> 1" and "\<And>x. links_ok (previous_keys (g x))"
    and "\<And>x. nextKeyView g x = nextKeyView f x"
    and "\<And>x. linked (previous_keys (g x)) = linked (previous_keys (f x))"
  shows "key_chain g"
  unfolding key_chain_def using assms(1)[unfolded key_chain_def]
  by (intro conjI allI assms(2,3)) (auto simp: assms(4,5))

lemma linked_simps [simp]:
  "linked [] = {}" "linked (None # ks) = linked ks" "linked (Some v # ks) = insert v (linked ks)"
  by (auto simp: linked_def)

lemma make_room_spec:
  assumes f: "key_chain (view_at h)"
  shows "\<exists>ks. view_at (make_room u h) = (view_at h)(u := (view_at h u)\<lparr>previous_keys := None # ks\<rparr>) \<and>
    links_ok (None # ks) \<and> linked ks = linked (previous_keys (view_at h u))"
proof (cases "previous_keys (view_at h u)")
  case Nil
  then show ?thesis
    by (intro exI[of _ "[]"]) (simp add: make_room_def first_key_def links_ok_def)
next
  case (Cons k ks)
  show ?thesis
  proof (cases k)
    case None
    then show ?thesis using Cons key_chainD(2)[OF f, of u]
      by (intro exI[of _ ks]) (simp add: make_room_def first_key_def fun_upd_idem)
  next
    case (Some t)
    then have t: "nextKeyView (view_at h) t = Some u"
      using Cons key_chainD(3)[OF f, of t u] by simp
    have later: "remove_later u (next_keys (view_at h t)) = next_keys (view_at h t)"
      by (rule remove_later_short[OF key_chainD(1)[OF f]])
    have "links_ok (None # previous_keys (view_at h u))"
      using key_chainD(2)[OF f, of u] Cons Some by (auto simp: links_ok_def)
    then show ?thesis
      using Cons Some t later
      by (intro exI[of _ "previous_keys (view_at h u)"])
        (auto simp: make_room_def first_key_def nextKeyView_def Let_def fun_upd_idem)
  qed
qed

text \<open>Only the links of the key view chain differ.\<close>

definition same_views :: "(nat \<Rightarrow> view) \<Rightarrow> (nat \<Rightarrow> view) \<Rightarrow> bool" where
  "same_views f g \<longleftrightarrow>
     (\<forall>x. g x = (f x)\<lparr>next_keys := next_keys (g x), previous_keys := previous_keys (g x)\<rparr>)"

lemma same_views_refl [simp]: "same_views f f"
  by (simp add: same_views_def)

lemma same_views_sel:
  assumes "same_views f g"
  shows "super_view (g x) = super_view (f x)" "sub_views (g x) = sub_views (f x)"
    "view_window (g x) = view_window (f x)" "next_responder (g x) = next_responder (f x)"
    "has_subviews (g x) = has_subviews (f x)" "is_hidden (g x) = is_hidden (f x)"
  using assms[unfolded same_views_def, rule_format, of x]
  by (metis view.select_convs view.surjective view.update_convs)+

lemma same_views_hierarchy:
  assumes "same_views f g" and "hierarchy f"
  shows "hierarchy g"
proof -
  have "child g = child f" by (simp add: child_def same_views_sel[OF assms(1)])
  then show ?thesis using assms(2) by (simp add: hierarchy_def forest_def same_views_sel[OF assms(1)])
qed

lemma leave_next_at:
  "view_at (leave_next v h) =
    (case nextKeyView (view_at h) v of
       None \<Rightarrow> view_at h
     | Some t \<Rightarrow> (view_at h)(t := (view_at h t)\<lparr>previous_keys := remove_links v (previous_keys (view_at h t))\<rparr>))"
  by (simp add: leave_next_def nextKeyView_def split: option.split)

lemma setNextKeyView_spec:
  assumes f: "key_chain (view_at h)" and g_def: "g = view_at (setNextKeyView aView v h)"
  shows "key_chain g \<and> nextKeyView g = (nextKeyView (view_at h))(v := aView) \<and> same_views (view_at h) g"
proof (cases "aView = nextKeyView (view_at h) v")
  case True
  then have "g = view_at h"
    by (cases aView) (auto simp: g_def setNextKeyView_def nextKeyView_def)
  then show ?thesis using f True by auto
next
  case False
  let ?f = "view_at h"
  note ok = key_chainD[OF f]
  have links: "links_ok (remove_links v (previous_keys (?f x)))"
    "linked (remove_links v (previous_keys (?f x))) = linked (previous_keys (?f x)) - {v}" for x
    using remove_links_ok[OF ok(2)] by simp_all
  have away: "v \<notin> linked (previous_keys (?f x))" if "nextKeyView ?f v \<noteq> Some x" for x
    using that ok(3) by simp
  show ?thesis
  proof (cases aView)
    case None
    then obtain t where t: "nextKeyView ?f v = Some t" using False by (cases "nextKeyView ?f v") auto
    have next_g: "next_keys (g x) = (if x = v then (next_keys (?f v))[0 := None] else next_keys (?f x))" for x
      using t None by (simp add: g_def setNextKeyView_def nextKeyView_def leave_next_at)
    have prev_g: "previous_keys (g x) =
        (if x = t then remove_links v (previous_keys (?f t)) else previous_keys (?f x))" for x
      using t None by (simp add: g_def setNextKeyView_def nextKeyView_def leave_next_at)
    have nk: "nextKeyView g x = (if x = v then None else nextKeyView ?f x)" for x
      by (simp add: nextKeyView_def next_g)
    moreover have "key_chain g"
      by (rule key_chain_step[OF f _ _ nk])
        (use ok(1) ok(2) links away t in \<open>auto simp: next_g prev_g\<close>)
    moreover have "same_views ?f g"
      using t None by (auto simp: same_views_def g_def setNextKeyView_def nextKeyView_def leave_next_at)
    ultimately show ?thesis using None by auto
  next
    case (Some u)
    let ?nx = "if next_keys (?f v) = [] then [None] else next_keys (?f v)"
    define h1 where "h1 = (if next_keys (?f v) = [] then change v (\<lambda>x. x\<lparr>next_keys := [None]\<rparr>) h else h)"
    have h1: "view_at h1 = ?f(v := (?f v)\<lparr>next_keys := ?nx\<rparr>)"
      by (auto simp: h1_def)
    have "key_chain (view_at h1)"
      using f by (rule key_chain_same) (use ok(1,2) in \<open>auto simp: h1 nextKeyView_def first_key_def\<close>)
    then obtain ks where room:
      "view_at (make_room u h1) = (view_at h1)(u := (view_at h1 u)\<lparr>previous_keys := None # ks\<rparr>)"
      and ks: "links_ok (None # ks)" "linked ks = linked (previous_keys (?f u))"
      using make_room_spec[of h1 u] by (auto simp: h1)
    define h2 where "h2 = change u (\<lambda>x. x\<lparr>previous_keys := (previous_keys x)[0 := Some v]\<rparr>) (make_room u h1)"
    have h2: "view_at h2 x = (?f x)\<lparr>next_keys := (if x = v then ?nx else next_keys (?f x)),
        previous_keys := (if x = u then Some v # ks else previous_keys (?f x))\<rparr>" for x
      by (simp add: h2_def room h1)
    have nk2: "nextKeyView (view_at h2) v = nextKeyView ?f v"
      by (simp add: nextKeyView_def h2 first_key_def)
    have g: "g = (view_at (leave_next v h2))(v := (view_at (leave_next v h2) v)
        \<lparr>next_keys := (next_keys (view_at (leave_next v h2) v))[0 := Some u]\<rparr>)"
      using Some False unfolding g_def h2_def h1_def
      by (simp add: setNextKeyView_def nextKeyView_def Let_def)
    have left: "view_at (leave_next v h2) x = (view_at h2 x)\<lparr>previous_keys :=
        (if nextKeyView ?f v = Some x then remove_links v (previous_keys (view_at h2 x))
         else previous_keys (view_at h2 x))\<rparr>" for x
      by (simp add: leave_next_at nk2 split: option.split)
    have g_at: "g x = (?f x)\<lparr>next_keys := (if x = v then ?nx[0 := Some u] else next_keys (?f x)),
        previous_keys := (if x = u then Some v # ks
          else if nextKeyView ?f v = Some x then remove_links v (previous_keys (?f x))
          else previous_keys (?f x))\<rparr>" for x
      by (rule view.equality) (use False Some in \<open>auto simp: g left h2\<close>)
    have nk: "nextKeyView g x = (if x = v then Some u else nextKeyView ?f x)" for x
      by (simp add: nextKeyView_def g_at)
    have "v \<notin> linked (previous_keys (?f u))" using away[of u] False Some by simp
    then have room: "links_ok (Some v # ks)" using ks by (auto simp: links_ok_def linked_def)
    have "key_chain g"
      using f
    proof (rule key_chain_step[OF _ _ _ nk])
      fix x
      show "length (next_keys (g x)) \<le> 1" using ok(1)[of x] by (auto simp: g_at)
      show "links_ok (previous_keys (g x))" using ok(2)[of x] links(1)[of x] room by (simp add: g_at)
      show "linked (previous_keys (g x)) = linked (previous_keys (?f x)) - {v} \<union> (if Some u = Some x then {v} else {})"
        using links(2)[of x] away[of x] ks(2) by (auto simp: g_at)
    qed
    moreover have "same_views ?f g" by (simp add: same_views_def g_at)
    ultimately show ?thesis using nk Some by auto
  qed
qed

text \<open>No view links to \<open>v\<close> once it is deallocated, and it links to none.\<close>

definition unlinked :: "(nat \<Rightarrow> view) \<Rightarrow> nat \<Rightarrow> bool" where
  "unlinked f v \<longleftrightarrow> next_keys (f v) = [] \<and> previous_keys (f v) = [] \<and>
     (\<forall>x. Some v \<notin> set (next_keys (f x)) \<and> Some v \<notin> set (previous_keys (f x)))"

lemma same_views_trans: "same_views f g \<Longrightarrow> same_views g k \<Longrightarrow> same_views f k"
  unfolding same_views_def[of f k]
  by (intro allI view.equality) (simp_all add: same_views_sel)

text \<open>A walk that ends links of views to \<open>v\<close>.\<close>

definition fewer_links :: "nat \<Rightarrow> (nat \<Rightarrow> view) \<Rightarrow> (nat \<Rightarrow> view) \<Rightarrow> bool" where
  "fewer_links v f g \<longleftrightarrow> key_chain g \<and> same_views f g \<and>
     (\<forall>x. nextKeyView g x = nextKeyView f x \<or> nextKeyView f x = Some v \<and> nextKeyView g x = None)"

lemma fewer_links_trans: "fewer_links v f g \<Longrightarrow> fewer_links v g k \<Longrightarrow> fewer_links v f k"
  unfolding fewer_links_def using same_views_trans by (metis option.distinct(1))

lemma unlink_spec:
  assumes f: "key_chain (view_at h)"
  shows "fewer_links v (view_at h) (view_at (unlink v tmp h)) \<and>
    (\<forall>t. tmp = Some t \<longrightarrow> nextKeyView (view_at (unlink v tmp h)) t \<noteq> Some v)"
proof (cases "\<exists>t. tmp = Some t \<and> nextKeyView (view_at h) t = Some v")
  case True
  then obtain t where "tmp = Some t" "nextKeyView (view_at h) t = Some v" by blast
  then show ?thesis
    using setNextKeyView_spec[OF f refl, of None t] by (simp add: unlink_def fewer_links_def)
next
  case False
  moreover from this have "unlink v tmp h = h" by (auto simp: unlink_def split: option.split)
  ultimately show ?thesis using f by (auto simp only: fewer_links_def same_views_refl)
qed

lemma unlink_previous:
  "previous_keys (view_at (unlink v (Some t) h) v) =
    (if nextKeyView (view_at h) t = Some v then remove_links t (previous_keys (view_at h v))
     else previous_keys (view_at h v))"
  by (simp add: unlink_def setNextKeyView_def leave_next_at nextKeyView_def[symmetric])

lemma take_filter_later: "distinct ks \<Longrightarrow> n < length ks \<Longrightarrow> take n (filter (\<lambda>k. k \<noteq> ks ! n) ks) = take n ks"
proof (induction ks arbitrary: n)
  case (Cons k ks)
  then show ?case by (cases n) (auto simp: nth_mem)
qed simp

lemma remove_links_before:
  assumes "links_ok ks" and "ks ! n = Some t" and "n < length ks"
  shows "take n (remove_links t ks) = take n ks"
proof (cases n)
  case (Suc m)
  obtain k r where "ks = k # r" using assms(3) by (cases ks) auto
  then show ?thesis
    using assms Suc take_filter_later[of r m] nth_mem[of m r] by (auto simp: links_ok_def)
qed simp

lemma unlink_all_spec:
  assumes "key_chain (view_at h)" and "n \<le> length (previous_keys (view_at h v))"
  shows "fewer_links v (view_at h) (view_at (unlink_all v n h)) \<and>
    (\<forall>t \<in> linked (take n (previous_keys (view_at h v))). nextKeyView (view_at (unlink_all v n h)) t \<noteq> Some v)"
  using assms
proof (induction n arbitrary: h)
  case 0
  then show ?case by (simp add: fewer_links_def)
next
  case (Suc n)
  let ?ks = "previous_keys (view_at h v)"
  let ?h = "unlink v (?ks ! n) h"
  have n: "n < length ?ks" using Suc.prems(2) by simp
  note fewer = unlink_spec[OF Suc.prems(1), of v "?ks ! n"]
  have take: "take n (previous_keys (view_at ?h v)) = take n ?ks"
  proof (cases "?ks ! n")
    case None
    then show ?thesis by (simp add: unlink_def)
  next
    case (Some t)
    then show ?thesis
      using remove_links_before[OF key_chainD(2)[OF Suc.prems(1)] Some n] by (simp add: unlink_previous)
  qed
  then have "n \<le> length (previous_keys (view_at ?h v))" using n by (metis length_take less_imp_le min.absorb2 min.cobounded1)
  with fewer have IH: "fewer_links v (view_at ?h) (view_at (unlink_all v n ?h))"
    "t \<in> linked (take n ?ks) \<Longrightarrow> nextKeyView (view_at (unlink_all v n ?h)) t \<noteq> Some v" for t
    using Suc.IH[of ?h] take by (auto simp: fewer_links_def)
  have last: "nextKeyView (view_at (unlink_all v n ?h)) t \<noteq> Some v" if "?ks ! n = Some t" for t
    using that fewer IH(1) unfolding fewer_links_def by (metis option.distinct(1))
  have "linked (take (Suc n) ?ks) = linked (take n ?ks) \<union> {t. ?ks ! n = Some t}"
    using n by (auto simp: linked_def take_Suc_conv_app_nth)
  then show ?case
    using fewer_links_trans[OF _ IH(1)] fewer IH(2) last by auto
qed

lemma forget_nothing:
  "linked ks = {} \<Longrightarrow> forget_next v ks h = h" "linked ks = {} \<Longrightarrow> forget_previous v ks h = h"
  by (induction ks) (auto simp: linked_def split: option.splits)

lemma linked_rev [simp]: "linked (rev ks) = linked ks"
  by (simp add: linked_def)

lemma deallocKeys_spec:
  assumes f: "key_chain (view_at h)"
  shows "\<exists>g. view_at (deallocKeys v h) = g \<and> unlinked g v \<and> key_chain g \<and> same_views (view_at h) g \<and>
    nextKeyView g = (\<lambda>x. if x = v \<or> nextKeyView (view_at h) x = Some v then None else nextKeyView (view_at h) x)"
proof -
  let ?f = "view_at h"
  define h1 where "h1 = setNextKeyView None v h"
  define h2 where "h2 = unlink v (previousKeyView (view_at h1) v) h1"
  define h3 where "h3 = unlink_all v (length (previous_keys (view_at h2 v))) h2"
  have h1: "key_chain (view_at h1)" "nextKeyView (view_at h1) = (nextKeyView ?f)(v := None)" "same_views ?f (view_at h1)"
    using setNextKeyView_spec[OF f refl, of None v] by (simp_all add: h1_def)
  have h2: "fewer_links v (view_at h1) (view_at h2)"
    using unlink_spec[OF h1(1)] by (simp add: h2_def)
  then have "key_chain (view_at h2)" by (simp add: fewer_links_def)
  from unlink_all_spec[OF this order_refl, of v]
  have h3: "fewer_links v (view_at h2) (view_at h3)"
    and gone: "\<And>t. t \<in> linked (previous_keys (view_at h2 v)) \<Longrightarrow> nextKeyView (view_at h3) t \<noteq> Some v"
    by (simp_all add: h3_def)
  have fewer: "fewer_links v (view_at h1) (view_at h3)" by (rule fewer_links_trans[OF h2 h3])
  have none: "nextKeyView (view_at h3) x \<noteq> Some v" for x
    using gone[of x] h3 key_chainD(3)[OF \<open>key_chain (view_at h2)\<close>, of x v]
    unfolding fewer_links_def by (metis option.distinct(1))
  have "nextKeyView (view_at h1) v = None" using h1(2) by simp
  then have v: "nextKeyView (view_at h3) v = None"
    using fewer unfolding fewer_links_def by (metis option.distinct(1))
  have chain: "key_chain (view_at h3)" using fewer by (simp add: fewer_links_def)
  have "linked (previous_keys (view_at h3 v)) = {}" using key_chainD(3)[OF chain, of _ v] none by auto
  moreover have "linked (next_keys (view_at h3 v)) = {}"
    using v key_chainD(1)[OF chain, of v]
    by (cases "next_keys (view_at h3 v)") (auto simp: nextKeyView_def first_key_def)
  ultimately have "view_at (deallocKeys v h) =
      (view_at h3)(v := (view_at h3 v)\<lparr>previous_keys := [], next_keys := []\<rparr>)" (is "_ = ?g")
    unfolding deallocKeys_def Let_def h1_def[symmetric] h2_def[symmetric] h3_def[symmetric]
    by (simp add: forget_nothing)
  moreover have nk: "nextKeyView ?g x = nextKeyView (view_at h3) x" for x
    using v by (simp add: nextKeyView_def first_key_def)
  moreover have chain_g: "key_chain ?g"
    by (rule key_chain_same[OF chain]) (use key_chainD[OF chain] none nk in \<open>auto simp: links_ok_def\<close>)
  moreover have "unlinked ?g v"
  proof -
    have "Some v \<notin> set (next_keys (?g x))" for x
      using none[of x] nk[of x] key_chainD(1)[OF chain_g, of x]
      by (cases "next_keys (?g x)") (auto simp: nextKeyView_def first_key_def)
    moreover have "Some v \<notin> set (previous_keys (?g x))" for x
      using key_chainD(3)[OF chain_g, of v x] v nk[of v] by (simp add: linked_def)
    ultimately show ?thesis by (simp add: unlinked_def)
  qed
  moreover have "same_views ?f ?g"
  proof -
    have "same_views (view_at h3) ?g" by (simp add: same_views_def)
    then show ?thesis using fewer h1(3) same_views_trans unfolding fewer_links_def by blast
  qed
  moreover have "nextKeyView (view_at h3) x =
      (if x = v \<or> nextKeyView ?f x = Some v then None else nextKeyView ?f x)" for x
    using fewer none[of x] v h1(2) unfolding fewer_links_def by (metis fun_upd_apply)
  ultimately show ?thesis by auto
qed

subsection \<open>Properties\<close>

lemma fresh_views_key_chain: "key_chain (view_at fresh_views)"
  by (simp add: key_chain_def blank_view_def links_ok_def linked_def nextKeyView_def first_key_def)

text \<open>
  \<open>setNextKeyView:\<close> changes the next key view of the receiver and of no other view, and after it
  the array of views before a view again lists exactly the views whose next view it is.
\<close>

lemma key_chain_kept:
  assumes "key_chain (view_at h)"
  shows "key_chain (view_at (setNextKeyView aView v h)) \<and>
    nextKeyView (view_at (setNextKeyView aView v h)) = (nextKeyView (view_at h))(v := aView)"
  using setNextKeyView_spec[OF assms refl, of aView v] by blast

lemma key_chain_kept_example:
  "nextKeyView (view_at (setNextKeyView (Some 2) 1 fresh_views)) = (nextKeyView (view_at fresh_views))(1 := Some 2)"
  using key_chain_kept[OF fresh_views_key_chain, of "Some 2" 1] by blast

text \<open>C34: a view that is deallocated is in no array of any other view, and exactly the views whose next
  key view it was lose theirs.\<close>

theorem dealloc_leaves_no_links:
  assumes "key_chain (view_at h)"
  shows "unlinked (view_at (deallocKeys v h)) v \<and> key_chain (view_at (deallocKeys v h)) \<and>
    nextKeyView (view_at (deallocKeys v h)) =
      (\<lambda>x. if x = v \<or> nextKeyView (view_at h) x = Some v then None else nextKeyView (view_at h) x)"
  using deallocKeys_spec[OF assms, of v] by blast

theorem dealloc_leaves_no_links_witness:
  "unlinked (view_at (deallocKeys 2 (setNextKeyView (Some 2) 1 (setNextKeyView (Some 2) 3 fresh_views)))) 2"
proof -
  have "key_chain (view_at (setNextKeyView (Some 2) 1 (setNextKeyView (Some 2) 3 fresh_views)))"
    using setNextKeyView_spec fresh_views_key_chain by blast
  from dealloc_leaves_no_links[OF this, of 2] show ?thesis by blast
qed

end
