(* ===== verification/HiddenViews.thy ===== *)
theory HiddenViews
  imports KeyViews
begin

text \<open>
  Hidden views (\<open>Source/NSView.m\<close>): a view is out of sight when it or a view above it is hidden.
  Hiding and showing a view tells the views that lose or gain sight, and when the view holds the first
  responder, the next view in the key view chain that can become key takes over.
\<close>

subsection \<open>Hiding\<close>

partial_function (option) isHiddenOrHasHiddenAncestor :: "views \<Rightarrow> nat \<Rightarrow> bool option" where
  "isHiddenOrHasHiddenAncestor h v =
     (if is_hidden (view_at h v) then Some True
      else case super_view (view_at h v) of
        None \<Rightarrow> Some False
      | Some p \<Rightarrow> isHiddenOrHasHiddenAncestor h p)"

partial_function (option) sendViewDidUnhide :: "bool \<Rightarrow> nat \<Rightarrow> views \<Rightarrow> views option" where
  "sendViewDidUnhide unhide v h =
     for_each (\<lambda>u h. if is_hidden (view_at h u) then Some h else sendViewDidUnhide unhide u h)
       (sub_views (view_at h v)) (told (if unhide then DidUnhide v else DidHide v) h)"

definition canBecomeKeyView :: "responder_answers \<Rightarrow> views \<Rightarrow> nat \<Rightarrow> bool option" where
  "canBecomeKeyView A h v =
     (if accepts A (View v) then map_option Not (isHiddenOrHasHiddenAncestor h v) else Some False)"

text \<open>The loop, from the view after \<open>u\<close>.\<close>

partial_function (option) search_key_view ::
  "responder_answers \<Rightarrow> views \<Rightarrow> nat \<Rightarrow> nat \<Rightarrow> nat option option" where
  "search_key_view A h v u =
     (case nextKeyView (view_at h) u of
        None \<Rightarrow> Some None
      | Some n \<Rightarrow>
          if n = v then Some (Some n)
          else Option.bind (canBecomeKeyView A h n) (\<lambda>ok.
            if ok then Some (Some n) else search_key_view A h v n))"

definition nextValidKeyView :: "responder_answers \<Rightarrow> views \<Rightarrow> nat \<Rightarrow> nat option option" where
  "nextValidKeyView A h v = search_key_view A h v v"

text \<open>When the view hidden holds the first responder, the next valid key view takes over.\<close>

definition resignHidden :: "responder_answers \<Rightarrow> nat \<Rightarrow> views \<Rightarrow> views option" where
  "resignHidden A v h =
     (case view_window (view_at h v) of
        None \<Rightarrow> Some h
      | Some w \<Rightarrow>
          (case first_responder h w of
             Some (View r) \<Rightarrow>
               Option.bind (met_above h r v) (\<lambda>inside.
                 if inside
                 then map_option (\<lambda>u. snd (makeFirstResponder A w (map_option View u) h)) (nextValidKeyView A h v)
                 else Some h)
           | _ \<Rightarrow> Some h))"

definition setHidden :: "responder_answers \<Rightarrow> nat \<Rightarrow> bool \<Rightarrow> views \<Rightarrow> views option" where
  "setHidden A v flag h =
     (if is_hidden (view_at h v) = flag then Some h
      else Option.bind (case super_view (view_at h v) of
               None \<Rightarrow> Some True
             | Some p \<Rightarrow> map_option Not (isHiddenOrHasHiddenAncestor h p)) (\<lambda>notify.
           let h = change v (\<lambda>x. x\<lparr>is_hidden := flag\<rparr>) h
           in Option.bind (if flag then resignHidden A v h else Some h) (\<lambda>h.
              if notify then sendViewDidUnhide (\<not> flag) v h else Some h)))"

subsection \<open>Sight\<close>

definition out_of_sight :: "(nat \<Rightarrow> view) \<Rightarrow> nat \<Rightarrow> bool" where
  "out_of_sight f v \<longleftrightarrow> (\<exists>a \<in> ancestors f v. is_hidden (f a))"

lemma out_of_sight_up:
  assumes "hierarchy f"
  shows "out_of_sight f v \<longleftrightarrow>
    is_hidden (f v) \<or> (case super_view (f v) of None \<Rightarrow> False | Some p \<Rightarrow> out_of_sight f p)"
  using ancestors_up[OF assms, of v] by (auto simp: out_of_sight_def split: option.split)

lemma isHiddenOrHasHiddenAncestor_spec:
  assumes "hierarchy (view_at h)"
  shows "isHiddenOrHasHiddenAncestor h v = Some (out_of_sight (view_at h) v)"
  using assms
proof (induction v rule: up_induct)
  case (view v)
  then show ?case
    using out_of_sight_up[OF assms, of v]
    by (subst isHiddenOrHasHiddenAncestor.simps) (auto split: option.split)
qed

subsection \<open>The next valid key view\<close>

fun key_path :: "(nat \<Rightarrow> view) \<Rightarrow> nat \<Rightarrow> nat \<Rightarrow> nat option" where
  "key_path f u 0 = Some u"
| "key_path f u (Suc n) = (case nextKeyView f u of None \<Rightarrow> None | Some w \<Rightarrow> key_path f w n)"

lemma key_path_one: "key_path f u (Suc 0) = nextKeyView f u"
  by (simp split: option.split)

text \<open>Where a search that started at \<open>v\<close> ends.\<close>

definition search_ends :: "responder_answers \<Rightarrow> (nat \<Rightarrow> view) \<Rightarrow> nat \<Rightarrow> nat option \<Rightarrow> bool" where
  "search_ends A f v k =
     (case k of None \<Rightarrow> True | Some u \<Rightarrow> u = v \<or> accepts A (View u) \<and> \<not> out_of_sight f u)"

lemma search_step:
  assumes "hierarchy (view_at h)"
  shows "search_key_view A h v u =
    (if search_ends A (view_at h) v (nextKeyView (view_at h) u) then Some (nextKeyView (view_at h) u)
     else search_key_view A h v (the (nextKeyView (view_at h) u)))"
  by (subst search_key_view.simps)
    (auto simp: search_ends_def canBecomeKeyView_def isHiddenOrHasHiddenAncestor_spec[OF assms] split: option.split)

lemma search_found:
  assumes f: "hierarchy (view_at h)"
  shows "search_ends A (view_at h) v (key_path (view_at h) u (Suc n)) \<Longrightarrow>
    (\<And>m. m < n \<Longrightarrow> \<not> search_ends A (view_at h) v (key_path (view_at h) u (Suc m))) \<Longrightarrow>
    search_key_view A h v u = Some (key_path (view_at h) u (Suc n))"
proof (induction n arbitrary: u)
  case 0
  then show ?case using search_step[OF f, of A v u] by (simp only: key_path_one if_True)
next
  case (Suc n)
  have first: "\<not> search_ends A (view_at h) v (nextKeyView (view_at h) u)"
    using Suc.prems(2)[of 0] by (simp split: option.splits)
  then obtain w where w: "nextKeyView (view_at h) u = Some w" by (auto simp: search_ends_def split: option.splits)
  have "search_key_view A h v w = Some (key_path (view_at h) w (Suc n))"
    using Suc.prems(1) Suc.prems(2)[of "Suc m" for m] w by (intro Suc.IH) auto
  then show ?case using search_step[OF f, of A v u] first w by simp
qed

lemma search_returns:
  assumes "search_key_view A h v u = Some k" and f: "hierarchy (view_at h)"
  shows "\<exists>n. search_ends A (view_at h) v (key_path (view_at h) u (Suc n))"
proof -
  have "hierarchy (view_at h) \<longrightarrow> (\<exists>n. search_ends A (view_at h) v (key_path (view_at h) u (Suc n)))"
  proof (rule search_key_view.raw_induct[OF _ assms(1)])
    fix search A h v u k
    assume IH: "\<And>A h v u k. search A h v u = Some k \<Longrightarrow>
        hierarchy (view_at h) \<longrightarrow> (\<exists>n. search_ends A (view_at h) v (key_path (view_at h) u (Suc n)))"
      and eq: "(case nextKeyView (view_at h) u of None \<Rightarrow> Some None
        | Some n \<Rightarrow> if n = v then Some (Some n)
          else Option.bind (canBecomeKeyView A h n) (\<lambda>ok. if ok then Some (Some n) else search A h v n)) = Some k"
    show "hierarchy (view_at h) \<longrightarrow> (\<exists>n. search_ends A (view_at h) v (key_path (view_at h) u (Suc n)))"
    proof
      assume f: "hierarchy (view_at h)"
      show "\<exists>n. search_ends A (view_at h) v (key_path (view_at h) u (Suc n))"
      proof (cases "search_ends A (view_at h) v (nextKeyView (view_at h) u)")
        case True
        then have "search_ends A (view_at h) v (key_path (view_at h) u (Suc 0))" by (simp only: key_path_one)
        then show ?thesis by blast
      next
        case False
        then obtain w where w: "nextKeyView (view_at h) u = Some w" "search A h v w = Some k"
          using eq by (auto simp: search_ends_def canBecomeKeyView_def isHiddenOrHasHiddenAncestor_spec[OF f]
              split: option.splits if_splits)
        with IH[OF w(2)] f obtain n where "search_ends A (view_at h) v (key_path (view_at h) w (Suc n))" by blast
        then have "search_ends A (view_at h) v (key_path (view_at h) u (Suc (Suc n)))" using w(1) by simp
        then show ?thesis by blast
      qed
    qed
  qed
  then show ?thesis using f by blast
qed

lemma nextValidKeyView_spec:
  assumes f: "hierarchy (view_at h)"
  shows "nextValidKeyView A h v =
    (if \<exists>n. search_ends A (view_at h) v (key_path (view_at h) v (Suc n))
     then Some (key_path (view_at h) v (Suc (LEAST n. search_ends A (view_at h) v (key_path (view_at h) v (Suc n)))))
     else None)"
proof (cases "\<exists>n. search_ends A (view_at h) v (key_path (view_at h) v (Suc n))")
  case True
  let ?P = "\<lambda>n. search_ends A (view_at h) v (key_path (view_at h) v (Suc n))"
  have "search_key_view A h v v = Some (key_path (view_at h) v (Suc (LEAST n. ?P n)))"
    by (rule search_found[OF f]) (rule LeastI_ex[OF True], rule not_less_Least)
  then show ?thesis using True by (simp only: nextValidKeyView_def if_True)
next
  case False
  then show ?thesis
    using search_returns[OF _ f, of A v v] by (cases "search_key_view A h v v") (auto simp: nextValidKeyView_def)
qed

subsection \<open>Hiding and showing a view\<close>

text \<open>The views at and below \<open>v\<close> that are not hidden below it.\<close>

inductive_set open_below :: "(nat \<Rightarrow> view) \<Rightarrow> nat \<Rightarrow> nat set" for f v where
  top: "v \<in> open_below f v"
| sub: "u \<in> open_below f v \<Longrightarrow> c \<in> set (sub_views (f u)) \<Longrightarrow> \<not> is_hidden (f c) \<Longrightarrow> c \<in> open_below f v"

lemma open_below_subtree: "u \<in> open_below f v \<Longrightarrow> u \<in> subtree f v"
  by (induction rule: open_below.induct)
    (auto simp: subtree_def child_def intro: converse_rtrancl_into_rtrancl)

lemma open_below_sub:
  assumes "u \<in> open_below f c" and "c \<in> set (sub_views (f v))" and "\<not> is_hidden (f c)"
  shows "u \<in> open_below f v"
  using assms(1)
proof (induction rule: open_below.induct)
  case top
  show ?case by (rule open_below.sub[OF open_below.top assms(2,3)])
qed (rule open_below.sub)

lemma open_below_unfold:
  "open_below f v = insert v (\<Union>c \<in> {c \<in> set (sub_views (f v)). \<not> is_hidden (f c)}. open_below f c)"
proof
  show "open_below f v \<subseteq> insert v (\<Union>c \<in> {c \<in> set (sub_views (f v)). \<not> is_hidden (f c)}. open_below f c)"
  proof
    fix u assume "u \<in> open_below f v"
    then show "u \<in> insert v (\<Union>c \<in> {c \<in> set (sub_views (f v)). \<not> is_hidden (f c)}. open_below f c)"
      by (induction rule: open_below.induct) (auto intro: open_below.intros)
  qed
qed (auto intro: open_below.top open_below_sub)

lemma open_below_out:
  assumes f: "hierarchy f" and u: "u \<in> open_below f v"
  shows "out_of_sight f u \<longleftrightarrow> out_of_sight f v"
  using u
proof (induction rule: open_below.induct)
  case (sub u c)
  then show ?case
    using out_of_sight_up[OF f, of c] hierarchyD(1)[OF f, of c u] by simp
qed simp

lemma open_or_hidden:
  assumes f: "hierarchy f" and "u \<in> subtree f v"
  shows "u \<in> open_below f v \<or> (\<exists>a \<in> subtree f v. a \<noteq> v \<and> is_hidden (f a) \<and> u \<in> subtree f a)"
proof -
  have "(u, v) \<in> (child f)\<^sup>*" using assms(2) by (simp add: subtree_def)
  then show ?thesis
  proof (induction rule: converse_rtrancl_induct)
    case (step y z)
    have y: "y \<in> set (sub_views (f z))" using step(1) by (simp add: child_def)
    have yv: "y \<in> subtree f v" using step(1,2) by (simp add: subtree_def converse_rtrancl_into_rtrancl)
    have "y \<noteq> v"
      using step(1,2) hierarchy_forest[OF f] by (auto simp: forest_def acyclic_def dest: rtrancl_into_trancl2)
    from step.IH show ?case
    proof
      assume "z \<in> open_below f v"
      then show ?thesis using y yv \<open>y \<noteq> v\<close> by (cases "is_hidden (f y)") (auto intro: open_below.sub)
    next
      assume "\<exists>a \<in> subtree f v. a \<noteq> v \<and> is_hidden (f a) \<and> z \<in> subtree f a"
      then show ?thesis using step(1) by (auto simp: subtree_def intro: converse_rtrancl_into_rtrancl)
    qed
  qed (simp add: open_below.top)
qed

definition notice :: "bool \<Rightarrow> nat \<Rightarrow> hook" where
  "notice unhide v = (if unhide then DidUnhide v else DidHide v)"

lemma notice_eq [simp]: "notice b u = notice b v \<longleftrightarrow> u = v"
  by (simp add: notice_def)

lemma notice_Int: "notice b ` X \<inter> notice b ` Y = notice b ` (X \<inter> Y)"
  by auto

lemma sendViewDidUnhide_spec:
  assumes "hierarchy (view_at h)"
  shows "\<exists>hs. sendViewDidUnhide b v h = Some (h\<lparr>hooks := hooks h @ hs\<rparr>) \<and> distinct hs \<and>
    set hs = notice b ` open_below (view_at h) v"
proof -
  have "wf C \<Longrightarrow> child (view_at h) = C \<Longrightarrow> hierarchy (view_at h) \<Longrightarrow>
    \<exists>hs. sendViewDidUnhide b v h = Some (h\<lparr>hooks := hooks h @ hs\<rparr>) \<and> distinct hs \<and>
      set hs = notice b ` open_below (view_at h) v" for C
  proof (induction v arbitrary: h rule: wf_induct_rule)
    case (less v h)
    let ?f = "view_at h"
    let ?send = "\<lambda>u h. if is_hidden (view_at h u) then Some h else sendViewDidUnhide b u h"
    let ?done = "\<lambda>ys. insert v (\<Union>c \<in> {c \<in> set ys. \<not> is_hidden (?f c)}. open_below ?f c)"
    let ?I = "\<lambda>ys t. \<exists>hs. t = h\<lparr>hooks := hooks h @ hs\<rparr> \<and> distinct hs \<and> set hs = notice b ` ?done ys"
    note apart = subtrees_apart[OF hierarchy_forest[OF less.prems(2)]] root_apart[OF hierarchy_forest[OF less.prems(2)]]
    have "\<exists>t. for_each ?send (sub_views (?f v)) (told (notice b v) h) = Some t \<and> ?I (sub_views (?f v)) t"
    proof (rule for_each_invariant[where I = ?I])
      show "?I [] (told (notice b v) h)" by (auto simp: told_def)
    next
      fix ys x zs t
      assume xs: "sub_views (?f v) = ys @ x # zs" and "?I ys t"
      then obtain hs where t: "t = h\<lparr>hooks := hooks h @ hs\<rparr>" and hs: "distinct hs" "set hs = notice b ` ?done ys"
        by blast
      show "\<exists>t'. ?send x t = Some t' \<and> ?I (ys @ [x]) t'"
      proof (cases "is_hidden (?f x)")
        case True
        then have "?done (ys @ [x]) = ?done ys" by auto
        then show ?thesis using True t hs by auto
      next
        case False
        have x: "x \<in> set (sub_views (?f v))" "x \<notin> set ys" "set ys \<subseteq> set (sub_views (?f v))"
          using xs hierarchyD(2)[OF less.prems(2), of v] by auto
        have "(x, v) \<in> C" using x(1) less.prems(1) by (auto simp: child_def)
        from less.IH[OF this, of t] less.prems t obtain hs' where
          send: "sendViewDidUnhide b x t = Some (t\<lparr>hooks := hooks t @ hs'\<rparr>)" and
          hs': "distinct hs'" "set hs' = notice b ` open_below ?f x" by auto
        have "u \<notin> open_below ?f x" if "u \<in> ?done ys" for u
          using that apart(1)[OF x(1), of _] apart(2)[OF x(1)] x(2,3) open_below_subtree by fastforce
        then have "?done ys \<inter> open_below ?f x = {}" by blast
        then have "set hs \<inter> set hs' = {}" unfolding hs(2) hs'(2) by (simp only: notice_Int image_empty)
        then have "distinct (hs @ hs')" using hs(1) hs'(1) by simp
        moreover have "?done (ys @ [x]) = ?done ys \<union> open_below ?f x" using False by auto
        ultimately have "distinct (hs @ hs') \<and> set (hs @ hs') = notice b ` ?done (ys @ [x])"
          by (simp only: set_append hs(2) hs'(2) image_Un simp_thms)
        moreover have "?send x t = Some (h\<lparr>hooks := hooks h @ hs @ hs'\<rparr>)" using False send t by simp
        ultimately show ?thesis by blast
      qed
    qed
    then show ?case
      by (subst sendViewDidUnhide.simps) (subst open_below_unfold, auto simp: notice_def)
  qed
  from this[OF forest_wf[OF hierarchy_forest[OF assms]] refl assms] show ?thesis .
qed

text \<open>The flag of \<open>v\<close> changes.\<close>

definition flagged :: "nat \<Rightarrow> bool \<Rightarrow> (nat \<Rightarrow> view) \<Rightarrow> nat \<Rightarrow> view" where
  "flagged v flag f = f(v := (f v)\<lparr>is_hidden := flag\<rparr>)"

lemma flagged_sel [simp]:
  "super_view (flagged v flag f u) = super_view (f u)"
  "sub_views (flagged v flag f u) = sub_views (f u)"
  "view_window (flagged v flag f u) = view_window (f u)"
  "next_responder (flagged v flag f u) = next_responder (f u)"
  "has_subviews (flagged v flag f u) = has_subviews (f u)"
  "is_hidden (flagged v flag f u) = (if u = v then flag else is_hidden (f u))"
  by (simp_all add: flagged_def)

lemma flagged_child [simp]: "child (flagged v flag f) = child f" "subtree (flagged v flag f) u = subtree f u"
  "ancestors (flagged v flag f) u = ancestors f u"
  by (simp_all add: child_def subtree_def ancestors_def)

lemma flagged_hierarchy [simp]: "hierarchy (flagged v flag f) = hierarchy f"
  by (simp add: hierarchy_def forest_def)

lemma makeFirstResponder_views:
  "view_at (snd (makeFirstResponder A w r h)) = view_at h" "hooks (snd (makeFirstResponder A w r h)) = hooks h"
  by (simp_all add: makeFirstResponder_def)

lemma resignHidden_spec:
  assumes "hierarchy (view_at h)" and "nextValidKeyView A h v \<noteq> None"
  shows "\<exists>h'. resignHidden A v h = Some h' \<and> view_at h' = view_at h \<and> hooks h' = hooks h"
  using assms
  by (auto simp: resignHidden_def met_above_spec makeFirstResponder_views split: option.split responder.split)

lemma out_of_sight_below: "out_of_sight f a \<Longrightarrow> u \<in> subtree f a \<Longrightarrow> out_of_sight f u"
  using ancestors_trans[of a f u] by (auto simp: out_of_sight_def ancestors_def)

lemma flagged_open_below: "open_below (flagged v flag f) v = open_below f v"
proof -
  have "open_below g v \<subseteq> open_below k v"
    if "\<And>u. sub_views (g u) = sub_views (k u)" "\<And>u. u \<noteq> v \<Longrightarrow> is_hidden (g u) = is_hidden (k u)" for g k
  proof
    fix u assume "u \<in> open_below g v"
    then show "u \<in> open_below k v"
    proof (induction rule: open_below.induct)
      case (sub u c)
      then show ?case using that by (cases "c = v") (auto intro: open_below.intros)
    qed (rule open_below.top)
  qed
  from this[of "flagged v flag f" f] this[of f "flagged v flag f"] show ?thesis by simp
qed

lemma flagged_apart:
  "u \<notin> subtree f v \<Longrightarrow> out_of_sight (flagged v flag f) u = out_of_sight f u"
  by (auto simp: out_of_sight_def ancestors_def)

lemma sight_changes:
  assumes f: "hierarchy f" and "is_hidden (f v) \<noteq> flag"
  shows "{u. out_of_sight (flagged v flag f) u \<noteq> out_of_sight f u} =
    (if case super_view (f v) of None \<Rightarrow> False | Some p \<Rightarrow> out_of_sight f p then {} else open_below f v)"
proof -
  let ?g = "flagged v flag f" and ?above = "case super_view (f v) of None \<Rightarrow> False | Some p \<Rightarrow> out_of_sight f p"
  have g: "hierarchy ?g" using f by simp
  have v: "out_of_sight f v \<longleftrightarrow> is_hidden (f v) \<or> ?above"
    by (rule out_of_sight_up[OF f])
  have above: "(case super_view (f v) of None \<Rightarrow> False | Some p \<Rightarrow> out_of_sight ?g p) = ?above"
  proof (cases "super_view (f v)")
    case (Some p)
    have "p \<notin> subtree f v"
      using below_step[OF f, of v p] subtree_antisym[OF hierarchy_forest[OF f], of p v]
        detached_child(2)[OF f Some] hierarchy_child[OF f, of v p] Some
      by (auto simp: subtree_def)
    then show ?thesis using Some by (simp add: flagged_apart)
  qed simp
  have gv: "out_of_sight ?g v \<longleftrightarrow> flag \<or> ?above"
    using out_of_sight_up[OF g, of v] above by simp
  have same: "out_of_sight ?g u = out_of_sight f u" if "?above \<or> u \<notin> open_below f v" for u
  proof (cases "u \<in> subtree f v")
    case False
    then show ?thesis by (rule flagged_apart)
  next
    case True
    show ?thesis
    proof (cases ?above)
      case above: True
      then have "out_of_sight f v" "out_of_sight ?g v" using v gv by blast+
      then show ?thesis using True out_of_sight_below[of f v u] out_of_sight_below[of ?g v u] by simp
    next
      case False
      then obtain a where a: "a \<noteq> v" "is_hidden (f a)" "u \<in> subtree f a"
        using \<open>?above \<or> u \<notin> open_below f v\<close> open_or_hidden[OF f True] by blast
      then have "a \<in> ancestors f u" by (simp add: ancestors_def)
      then have "out_of_sight f u" "out_of_sight ?g u" using a by (auto simp: out_of_sight_def)
      then show ?thesis by blast
    qed
  qed
  have "out_of_sight ?g u \<noteq> out_of_sight f u" if "\<not> ?above" "u \<in> open_below f v" for u
    using open_below_out[OF f that(2)] open_below_out[OF g, of u v] that v gv assms(2) by (auto simp: flagged_open_below)
  with same show ?thesis by auto
qed

lemma setHidden_spec:
  assumes f: "hierarchy (view_at h)"
    and next_key: "\<not> flag \<or> nextValidKeyView A (change v (\<lambda>x. x\<lparr>is_hidden := True\<rparr>) h) v \<noteq> None"
  shows "\<exists>h' hs. setHidden A v flag h = Some h' \<and> view_at h' = flagged v flag (view_at h) \<and>
    hooks h' = hooks h @ hs \<and> distinct hs \<and>
    set hs = notice (\<not> flag) ` {u. out_of_sight (view_at h') u \<noteq> out_of_sight (view_at h) u}"
proof (cases "is_hidden (view_at h v) = flag")
  case True
  then have "setHidden A v flag h = Some h" "flagged v flag (view_at h) = view_at h"
    by (auto simp: setHidden_def flagged_def)
  then show ?thesis by auto
next
  case False
  let ?f = "view_at h"
  let ?above = "case super_view (?f v) of None \<Rightarrow> False | Some p \<Rightarrow> out_of_sight ?f p"
  let ?h1 = "change v (\<lambda>x. x\<lparr>is_hidden := flag\<rparr>) h"
  have h1: "view_at ?h1 = flagged v flag ?f" "hooks ?h1 = hooks h"
    by (simp_all add: flagged_def change_def)
  have "hierarchy (view_at ?h1)" using f h1(1) by simp
  then obtain h2 where h2: "(if flag then resignHidden A v ?h1 else Some ?h1) = Some h2"
      "view_at h2 = flagged v flag ?f" "hooks h2 = hooks h"
    using resignHidden_spec[of ?h1 A v] next_key h1 by (cases flag) auto
  have "hierarchy (view_at h2)" using f h2(2) by simp
  from sendViewDidUnhide_spec[OF this, of "\<not> flag" v] obtain hs where
    send: "sendViewDidUnhide (\<not> flag) v h2 = Some (h2\<lparr>hooks := hooks h2 @ hs\<rparr>)" "distinct hs"
      "set hs = notice (\<not> flag) ` open_below ?f v"
    by (auto simp: h2(2) flagged_open_below)
  have "(case super_view (?f v) of None \<Rightarrow> Some True
      | Some p \<Rightarrow> map_option Not (isHiddenOrHasHiddenAncestor h p)) = Some (\<not> ?above)"
    by (simp add: isHiddenOrHasHiddenAncestor_spec[OF f] split: option.split)
  then have set: "setHidden A v flag h = (if \<not> ?above then sendViewDidUnhide (\<not> flag) v h2 else Some h2)"
    unfolding setHidden_def using False h2(1) by (simp add: Let_def)
  show ?thesis
    using sight_changes[OF f False] set send h2(2,3) by (cases ?above) auto
qed

subsection \<open>Properties\<close>

text \<open>C37: \<open>nextValidKeyView\<close> answers the first view on the way along the key view chain that is the
  receiver or can become key, or nil at the end of the chain. When no view on the way is one of these
  the chain runs into a circle, and the search does not return.\<close>

theorem next_valid_key:
  assumes "hierarchy (view_at h)"
  shows "nextValidKeyView A h v =
    (if \<exists>n. search_ends A (view_at h) v (key_path (view_at h) v (Suc n))
     then Some (key_path (view_at h) v (Suc (LEAST n. search_ends A (view_at h) v (key_path (view_at h) v (Suc n)))))
     else None)"
  by (rule nextValidKeyView_spec[OF assms])

text \<open>A view whose next view is its own next view, when no view accepts the keyboard.\<close>

definition circle :: views where
  "circle = setNextKeyView (Some 2) 1 (setNextKeyView (Some 2) 2 fresh_views)"

definition unwilling :: responder_answers where
  "unwilling = \<lparr>accepts = (\<lambda>_. False), becomes = (\<lambda>_. True), resigns = (\<lambda>_. True)\<rparr>"

lemma circle_path: "key_path (view_at circle) 2 n = Some 2" "key_path (view_at circle) 1 (Suc n) = Some 2"
proof -
  have after: "nextKeyView (view_at circle) x = (if x = 1 \<or> x = 2 then Some 2 else None)" for x
    using setNextKeyView_spec[OF fresh_views_key_chain refl, of "Some 2" 2]
      setNextKeyView_spec[OF _ refl, of "setNextKeyView (Some 2) 2 fresh_views" "Some 2" 1]
    by (auto simp: circle_def nextKeyView_def blank_view_def first_key_def)
  show two: "key_path (view_at circle) 2 n = Some 2" for n by (induction n) (simp_all add: after)
  show "key_path (view_at circle) 1 (Suc n) = Some 2" by (simp add: after two)
qed

theorem next_valid_key_witness: "nextValidKeyView unwilling circle 1 = None"
proof -
  have "same_views (view_at fresh_views) (view_at circle)"
    unfolding circle_def using setNextKeyView_spec fresh_views_key_chain same_views_trans by metis
  then have "hierarchy (view_at circle)" by (rule same_views_hierarchy) simp
  from next_valid_key[OF this, of unwilling 1] show ?thesis
    by (simp only: circle_path search_ends_def) (simp add: unwilling_def)
qed

text \<open>C36: hiding or showing a view sends \<open>viewDidHide\<close> or \<open>viewDidUnhide\<close> exactly once to exactly the
  views that it takes out of sight or brings into sight, and changes nothing in the hierarchy but the
  flag of the view; it returns when the search for another key view does.\<close>

theorem hidden_tells:
  assumes "hierarchy (view_at h)"
    and "\<not> flag \<or> nextValidKeyView A (change v (\<lambda>x. x\<lparr>is_hidden := True\<rparr>) h) v \<noteq> None"
  shows "\<exists>h' hs. setHidden A v flag h = Some h' \<and> view_at h' = flagged v flag (view_at h) \<and>
    hooks h' = hooks h @ hs \<and> distinct hs \<and>
    set hs = notice (\<not> flag) ` {u. out_of_sight (view_at h') u \<noteq> out_of_sight (view_at h) u}"
  using setHidden_spec[OF assms] .

theorem hidden_tells_witness:
  "\<exists>h'. setHidden willing 1 True fresh_views = Some h' \<and>
    set (hooks h') = DidHide ` {u. out_of_sight (view_at h') u \<noteq> out_of_sight (view_at fresh_views) u}"
proof -
  have "nextValidKeyView willing (change 1 (\<lambda>x. x\<lparr>is_hidden := True\<rparr>) fresh_views) 1 = Some None"
    unfolding nextValidKeyView_def
    by (subst search_key_view.simps) (simp add: nextKeyView_def first_key_def blank_view_def)
  then have "\<not> True \<or> nextValidKeyView willing (change 1 (\<lambda>x. x\<lparr>is_hidden := True\<rparr>) fresh_views) 1 \<noteq> None" by simp
  from hidden_tells[OF fresh_views_hierarchy this] obtain h' hs where "setHidden willing 1 True fresh_views = Some h'"
    "hooks h' = hooks fresh_views @ hs"
    "set hs = notice False ` {u. out_of_sight (view_at h') u \<noteq> out_of_sight (view_at fresh_views) u}"
    by auto
  then show ?thesis by (intro exI[of _ h']) (simp add: fresh_views_def notice_def image_def)
qed

end
