(* ===== verification/Snapshot.thy ===== *)
theory Snapshot
  imports Foundation
begin

text \<open>
  \<open>NSDiffableDataSourceSnapshot\<close> (\<open>Source/NSDiffableDataSource.m\<close>): an ordered list of
  section identifiers and, for each section, an ordered list of item identifiers, kept in an
  array and a dictionary that the operations have to keep in step. The definitions follow the
  methods in their order in the file; the lemmas show the invariant, the flattened contents
  each operation produces, and what the moves do at the end of the array.
\<close>

subsection \<open>State\<close>

text \<open>
  A section identifier is the string constant the file uses when it is given \<open>nil\<close>, or an
  identifier of the client.
\<close>

datatype 'a section_id = GSDiffableDefaultSectionIdentifier | Section 'a

record ('a, 'b) snapshot =
  sections :: "'a section_id list"
  itemsBySection :: "'a section_id \<rightharpoonup> 'b list"

definition snapshot_init :: "('a, 'b) snapshot" where
  "snapshot_init = \<lparr>sections = [], itemsBySection = Map.empty\<rparr>"

subsection \<open>Copying and queries\<close>

definition copyWithZone :: "('a, 'b) snapshot \<Rightarrow> ('a, 'b) snapshot" where
  "copyWithZone s =
     (let copiedSections = sections s;
          copiedItems = fold (\<lambda>sec m. case itemsBySection s sec of
                                  None \<Rightarrow> m
                                | Some items \<Rightarrow> m(sec \<mapsto> items))
                             copiedSections Map.empty
      in \<lparr>sections = copiedSections, itemsBySection = copiedItems\<rparr>)"

definition sectionIdentifiers :: "('a, 'b) snapshot \<Rightarrow> 'a section_id list" where
  "sectionIdentifiers s = sections s"

definition itemIdentifiers :: "('a, 'b) snapshot \<Rightarrow> 'b list" where
  "itemIdentifiers s =
     fold (\<lambda>sec result. case itemsBySection s sec of
             None \<Rightarrow> result | Some items \<Rightarrow> result @ items) (sections s) []"

definition itemIdentifiersInSection :: "('a, 'b) snapshot \<Rightarrow> 'a section_id \<Rightarrow> 'b list" where
  "itemIdentifiersInSection s sec =
     (case itemsBySection s sec of None \<Rightarrow> [] | Some items \<Rightarrow> items)"

definition numberOfSections :: "('a, 'b) snapshot \<Rightarrow> nat" where
  "numberOfSections s = length (sections s)"

text \<open>A message to \<open>nil\<close> answers 0, so a missing section counts nothing.\<close>

definition numberOfItems :: "('a, 'b) snapshot \<Rightarrow> nat" where
  "numberOfItems s =
     fold (\<lambda>sec n. n + (case itemsBySection s sec of None \<Rightarrow> 0 | Some items \<Rightarrow> length items))
          (sections s) 0"

subsection \<open>Section operations\<close>

definition ensureSection :: "'a section_id option \<Rightarrow> ('a, 'b) snapshot \<Rightarrow> ('a, 'b) snapshot" where
  "ensureSection secOpt s =
     (let sec = (case secOpt of None \<Rightarrow> GSDiffableDefaultSectionIdentifier | Some x \<Rightarrow> x);
          s1 = (if sec \<notin> set (sections s) then s\<lparr>sections := sections s @ [sec]\<rparr> else s)
      in if itemsBySection s1 sec = None
         then s1\<lparr>itemsBySection := (itemsBySection s1)(sec \<mapsto> [])\<rparr> else s1)"

definition appendSections :: "'a section_id list \<Rightarrow> ('a, 'b) snapshot \<Rightarrow> ('a, 'b) snapshot" where
  "appendSections ids s = fold (\<lambda>sec. ensureSection (Some sec)) ids s"

text \<open>The loop shared by the two insertions: the index moves on only when a section is new.\<close>

fun insertSectionsFrom ::
  "'a section_id list \<Rightarrow> nat \<Rightarrow> ('a, 'b) snapshot \<Rightarrow> ('a, 'b) snapshot step" where
  "insertSectionsFrom [] i s = Inr s"
| "insertSectionsFrom (sec # ids) i s =
     (if sec \<in> set (sections s) then insertSectionsFrom ids i s
      else (case insertObject sec i (sections s) of
              Inl e \<Rightarrow> Inl (e, s)
            | Inr secs \<Rightarrow>
                insertSectionsFrom ids (Suc i)
                  (s\<lparr>sections := secs, itemsBySection := (itemsBySection s)(sec \<mapsto> [])\<rparr>)))"

definition insertSectionsBefore ::
  "'a section_id list \<Rightarrow> 'a section_id \<Rightarrow> ('a, 'b) snapshot \<Rightarrow> ('a, 'b) snapshot step" where
  "insertSectionsBefore ids other s =
     (let insertionIndex = (case indexOfObject other (sections s) of
                              None \<Rightarrow> length (sections s) | Some i \<Rightarrow> i)
      in insertSectionsFrom ids insertionIndex s)"

definition insertSectionsAfter ::
  "'a section_id list \<Rightarrow> 'a section_id \<Rightarrow> ('a, 'b) snapshot \<Rightarrow> ('a, 'b) snapshot step" where
  "insertSectionsAfter ids other s =
     (case indexOfObject other (sections s) of
        None \<Rightarrow> Inr (appendSections ids s)
      | Some i \<Rightarrow> insertSectionsFrom ids (i + 1) s)"

definition deleteSections :: "'a section_id list \<Rightarrow> ('a, 'b) snapshot \<Rightarrow> ('a, 'b) snapshot" where
  "deleteSections ids s =
     fold (\<lambda>sec t. t\<lparr>sections := removeObject sec (sections t),
                      itemsBySection := (itemsBySection t)(sec := None)\<rparr>) ids s"

definition moveSectionBefore ::
  "'a section_id \<Rightarrow> 'a section_id \<Rightarrow> ('a, 'b) snapshot \<Rightarrow> ('a, 'b) snapshot step" where
  "moveSectionBefore sec other s =
     (case (indexOfObject sec (sections s), indexOfObject other (sections s)) of
        (Some from, Some to) \<Rightarrow>
          (case removeObjectAtIndex from (sections s) of
             Inl e \<Rightarrow> Inl (e, s)
           | Inr secs \<Rightarrow>
               (let s1 = s\<lparr>sections := secs\<rparr>;
                    to1 = (if from < to then to - 1 else to)
                in case insertObject sec to1 secs of
                     Inl e \<Rightarrow> Inl (e, s1)
                   | Inr secs' \<Rightarrow> Inr (s1\<lparr>sections := secs'\<rparr>)))
      | _ \<Rightarrow> Inr s)"

definition moveSectionAfter ::
  "'a section_id \<Rightarrow> 'a section_id \<Rightarrow> ('a, 'b) snapshot \<Rightarrow> ('a, 'b) snapshot step" where
  "moveSectionAfter sec other s =
     (case (indexOfObject sec (sections s), indexOfObject other (sections s)) of
        (Some from, Some to) \<Rightarrow>
          (case removeObjectAtIndex from (sections s) of
             Inl e \<Rightarrow> Inl (e, s)
           | Inr secs \<Rightarrow>
               (let s1 = s\<lparr>sections := secs\<rparr>;
                    to1 = (if from < to then to - 1 else to)
                in case insertObject sec (to1 + 1) secs of
                     Inl e \<Rightarrow> Inl (e, s1)
                   | Inr secs' \<Rightarrow> Inr (s1\<lparr>sections := secs'\<rparr>)))
      | _ \<Rightarrow> Inr s)"

subsection \<open>Item operations\<close>

definition appendItemsInto ::
  "'b list \<Rightarrow> 'a section_id option \<Rightarrow> ('a, 'b) snapshot \<Rightarrow> ('a, 'b) snapshot" where
  "appendItemsInto ids secOpt s =
     (let s1 = ensureSection secOpt s;
          sec = (case secOpt of None \<Rightarrow> GSDiffableDefaultSectionIdentifier | Some x \<Rightarrow> x)
      in case itemsBySection s1 sec of
           None \<Rightarrow> s1
         | Some items \<Rightarrow> s1\<lparr>itemsBySection := (itemsBySection s1)(sec \<mapsto> items @ ids)\<rparr>)"

definition appendItems :: "'b list \<Rightarrow> ('a, 'b) snapshot \<Rightarrow> ('a, 'b) snapshot" where
  "appendItems ids s =
     (case lastObject (sections s) of
        Some sec \<Rightarrow> appendItemsInto ids (Some sec) s
      | None \<Rightarrow>
          appendItemsInto ids (Some GSDiffableDefaultSectionIdentifier)
            (appendSections [GSDiffableDefaultSectionIdentifier] s))"

text \<open>
  The search loop over the sections. A section without an array answers the message
  \<open>indexOfObject:\<close> sent to \<open>nil\<close> with 0, which is not \<open>NSNotFound\<close>.
\<close>

fun findItemFrom ::
  "'b \<Rightarrow> 'a section_id list \<Rightarrow> ('a, 'b) snapshot \<Rightarrow> ('a section_id \<times> nat) option" where
  "findItemFrom x [] s = None"
| "findItemFrom x (sec # secs) s =
     (case (case itemsBySection s sec of
              None \<Rightarrow> Some 0
            | Some items \<Rightarrow> indexOfObject x items) of
        Some i \<Rightarrow> Some (sec, i)
      | None \<Rightarrow> findItemFrom x secs s)"

definition findItemIdentifier :: "'b \<Rightarrow> ('a, 'b) snapshot \<Rightarrow> ('a section_id \<times> nat) option" where
  "findItemIdentifier x s = findItemFrom x (sections s) s"

text \<open>The insertion at a found position; on a missing array the message goes to \<open>nil\<close>.\<close>

definition insertItemsAt ::
  "'b list \<Rightarrow> 'a section_id \<Rightarrow> nat \<Rightarrow> ('a, 'b) snapshot \<Rightarrow> ('a, 'b) snapshot step" where
  "insertItemsAt ids sec i s =
     (case itemsBySection s sec of
        None \<Rightarrow> Inr s
      | Some items \<Rightarrow>
          (case insertObjects ids i items of
             Inl e \<Rightarrow> Inl (e, s)
           | Inr items' \<Rightarrow> Inr (s\<lparr>itemsBySection := (itemsBySection s)(sec \<mapsto> items')\<rparr>)))"

definition insertItemsBefore ::
  "'b list \<Rightarrow> 'b \<Rightarrow> ('a, 'b) snapshot \<Rightarrow> ('a, 'b) snapshot step" where
  "insertItemsBefore ids before s =
     (if ids = [] then Inr s
      else (case findItemIdentifier before s of
              Some (sec, i) \<Rightarrow> insertItemsAt ids sec i s
            | None \<Rightarrow> Inr (appendItems ids s)))"

definition insertItemsAfter ::
  "'b list \<Rightarrow> 'b \<Rightarrow> ('a, 'b) snapshot \<Rightarrow> ('a, 'b) snapshot step" where
  "insertItemsAfter ids after s =
     (if ids = [] then Inr s
      else (case findItemIdentifier after s of
              Some (sec, i) \<Rightarrow> insertItemsAt ids sec (i + 1) s
            | None \<Rightarrow> Inr (appendItems ids s)))"

definition deleteItem :: "'b \<Rightarrow> ('a, 'b) snapshot \<Rightarrow> ('a, 'b) snapshot step" where
  "deleteItem x s =
     (case findItemIdentifier x s of
        None \<Rightarrow> Inr s
      | Some (sec, i) \<Rightarrow>
          (case itemsBySection s sec of
             None \<Rightarrow> Inr s
           | Some items \<Rightarrow>
               if i < length items
               then (case removeObjectAtIndex i items of
                       Inl e \<Rightarrow> Inl (e, s)
                     | Inr items' \<Rightarrow>
                         Inr (s\<lparr>itemsBySection := (itemsBySection s)(sec \<mapsto> items')\<rparr>))
               else Inr s))"

definition deleteItems :: "'b list \<Rightarrow> ('a, 'b) snapshot \<Rightarrow> ('a, 'b) snapshot step" where
  "deleteItems ids s = for_in deleteItem ids s"

subsection \<open>The invariant\<close>

text \<open>
  The array lists every section once and the dictionary has an array of items for exactly the
  listed sections.
\<close>

definition snapshot_wf :: "('a, 'b) snapshot \<Rightarrow> bool" where
  "snapshot_wf s \<longleftrightarrow> distinct (sections s) \<and> dom (itemsBySection s) = set (sections s)"

lemma snapshot_wf_distinct: "snapshot_wf s \<Longrightarrow> distinct (sections s)"
  by (simp add: snapshot_wf_def)

lemma snapshot_wf_items:
  "snapshot_wf s \<Longrightarrow> sec \<in> set (sections s) \<Longrightarrow>
     itemsBySection s sec = Some (itemIdentifiersInSection s sec)"
  by (auto simp: snapshot_wf_def itemIdentifiersInSection_def split: option.splits)

lemma snapshot_wf_update:
  "snapshot_wf s \<Longrightarrow> sec \<in> set (sections s) \<Longrightarrow>
     snapshot_wf (s\<lparr>itemsBySection := (itemsBySection s)(sec \<mapsto> items)\<rparr>)"
  by (auto simp: snapshot_wf_def)

lemma snapshot_init_wf [inv_intros]: "snapshot_wf snapshot_init"
  by (simp add: snapshot_wf_def snapshot_init_def)

lemma ensureSection_wf [inv_intros]: "snapshot_wf s \<Longrightarrow> snapshot_wf (ensureSection sec s)"
  by (auto simp: snapshot_wf_def ensureSection_def Let_def)

lemma appendSections_wf [inv_intros]: "snapshot_wf s \<Longrightarrow> snapshot_wf (appendSections ids s)"
  unfolding appendSections_def by (rule fold_invariant_set) (auto intro: ensureSection_wf)

lemma deleteSections_wf [inv_intros]: "snapshot_wf s \<Longrightarrow> snapshot_wf (deleteSections ids s)"
  unfolding deleteSections_def
  by (rule fold_invariant_set) (auto simp: snapshot_wf_def)

lemma appendItemsInto_wf [inv_intros]:
  assumes "snapshot_wf s"
  shows "snapshot_wf (appendItemsInto ids sec s)"
proof -
  have "snapshot_wf (ensureSection sec s)"
    using assms by (rule ensureSection_wf)
  then show ?thesis
    by (auto simp: appendItemsInto_def Let_def snapshot_wf_def split: option.splits)
qed

lemma appendItems_wf [inv_intros]: "snapshot_wf s \<Longrightarrow> snapshot_wf (appendItems ids s)"
  by (auto simp: appendItems_def intro: appendItemsInto_wf appendSections_wf split: option.splits)

subsection \<open>The flattened contents\<close>

lemma fold_append_concat:
  "fold (\<lambda>k r. case m k of None \<Rightarrow> r | Some xs \<Rightarrow> r @ xs) ks acc =
     acc @ concat (map (\<lambda>k. case m k of None \<Rightarrow> [] | Some xs \<Rightarrow> xs) ks)"
  by (induction ks arbitrary: acc) (auto split: option.splits)

lemma itemIdentifiers_concat:
  "itemIdentifiers s = concat (map (itemIdentifiersInSection s) (sections s))"
  unfolding itemIdentifiers_def fold_append_concat
  by (simp add: itemIdentifiersInSection_def [abs_def])

lemma numberOfItems_fold:
  "fold (\<lambda>k n. n + (case m k of None \<Rightarrow> 0 | Some xs \<Rightarrow> length xs)) ks acc =
     acc + length (concat (map (\<lambda>k. case m k of None \<Rightarrow> [] | Some xs \<Rightarrow> xs) ks))"
  by (induction ks arbitrary: acc) (auto split: option.splits)

lemma numberOfItems_length: "numberOfItems s = length (itemIdentifiers s)"
  unfolding numberOfItems_def numberOfItems_fold itemIdentifiers_concat
  by (simp add: itemIdentifiersInSection_def [abs_def])

text \<open>What one section contributes when its array is replaced.\<close>

lemma itemIdentifiers_update:
  assumes "distinct (sections s)" and "sections s = pre @ sec # post"
  shows "itemIdentifiers (s\<lparr>itemsBySection := (itemsBySection s)(sec \<mapsto> new)\<rparr>) =
     concat (map (itemIdentifiersInSection s) pre) @ new @
     concat (map (itemIdentifiersInSection s) post)"
proof -
  have "sec \<notin> set pre" and "sec \<notin> set post"
    using assms by auto
  then have "map (itemIdentifiersInSection
                    (s\<lparr>itemsBySection := (itemsBySection s)(sec \<mapsto> new)\<rparr>)) xs =
               map (itemIdentifiersInSection s) xs" if "xs = pre \<or> xs = post" for xs
    using that by (auto simp: itemIdentifiersInSection_def)
  note this [of pre] this [of post]
  then show ?thesis
    unfolding itemIdentifiers_concat using assms(2)
    by (simp add: itemIdentifiersInSection_def [of "s\<lparr>itemsBySection := _\<rparr>" sec] cong: map_cong)
qed

lemma itemIdentifiers_split:
  "sections s = pre @ sec # post \<Longrightarrow>
     itemIdentifiers s = concat (map (itemIdentifiersInSection s) pre) @
       itemIdentifiersInSection s sec @ concat (map (itemIdentifiersInSection s) post)"
  by (simp add: itemIdentifiers_concat)

subsection \<open>The item search\<close>

lemma findItemFrom_Some:
  assumes "findItemFrom x secs s = Some (sec, i)" and "set secs \<subseteq> dom (itemsBySection s)"
  shows "\<exists>pre post. secs = pre @ sec # post \<and>
     x \<notin> set (concat (map (itemIdentifiersInSection s) pre)) \<and>
     indexOfObject x (itemIdentifiersInSection s sec) = Some i"
  using assms
proof (induction secs)
  case Nil
  then show ?case by simp
next
  case (Cons a secs)
  obtain items where a: "itemsBySection s a = Some items"
    using Cons.prems(2) by auto
  show ?case
  proof (cases "indexOfObject x items")
    case (Some j)
    then have "sec = a" and "j = i"
      using Cons.prems(1) a by auto
    then show ?thesis
      using Some a by (intro exI[of _ "[]"] exI[of _ secs]) (simp add: itemIdentifiersInSection_def)
  next
    case None
    then have x: "x \<notin> set (itemIdentifiersInSection s a)"
      using a by (simp add: itemIdentifiersInSection_def)
    from None have "findItemFrom x secs s = Some (sec, i)"
      using Cons.prems(1) a by (simp del: indexOfObject_None)
    then obtain pre post where "secs = pre @ sec # post"
        "x \<notin> set (concat (map (itemIdentifiersInSection s) pre))"
        "indexOfObject x (itemIdentifiersInSection s sec) = Some i"
      using Cons by auto
    then show ?thesis
      using x by (intro exI[of _ "a # pre"] exI[of _ post]) simp
  qed
qed

lemma findItemFrom_None:
  assumes "findItemFrom x secs s = None" and "set secs \<subseteq> dom (itemsBySection s)"
  shows "x \<notin> set (concat (map (itemIdentifiersInSection s) secs))"
  using assms by (induction secs) (auto simp: itemIdentifiersInSection_def split: option.splits)

lemma findItemIdentifier_Some:
  assumes "snapshot_wf s" and "findItemIdentifier x s = Some (sec, i)"
  obtains pre post where "sections s = pre @ sec # post"
    "x \<notin> set (concat (map (itemIdentifiersInSection s) pre))"
    "indexOfObject x (itemIdentifiersInSection s sec) = Some i"
    "itemsBySection s sec = Some (itemIdentifiersInSection s sec)"
proof -
  have "set (sections s) \<subseteq> dom (itemsBySection s)"
    using assms(1) by (simp add: snapshot_wf_def)
  with assms(2) obtain pre post where
      p: "sections s = pre @ sec # post"
         "x \<notin> set (concat (map (itemIdentifiersInSection s) pre))"
         "indexOfObject x (itemIdentifiersInSection s sec) = Some i"
    unfolding findItemIdentifier_def by (metis findItemFrom_Some)
  moreover have "itemsBySection s sec = Some (itemIdentifiersInSection s sec)"
    using assms(1) p(1) by (simp add: snapshot_wf_items)
  ultimately show ?thesis by (rule that)
qed

lemma findItemIdentifier_None:
  assumes "snapshot_wf s"
  shows "findItemIdentifier x s = None \<longleftrightarrow> x \<notin> set (itemIdentifiers s)"
proof
  assume "findItemIdentifier x s = None"
  moreover have "set (sections s) \<subseteq> dom (itemsBySection s)"
    using assms by (simp add: snapshot_wf_def)
  ultimately show "x \<notin> set (itemIdentifiers s)"
    unfolding findItemIdentifier_def itemIdentifiers_concat by (rule findItemFrom_None)
next
  assume x: "x \<notin> set (itemIdentifiers s)"
  show "findItemIdentifier x s = None"
  proof (rule ccontr)
    assume "findItemIdentifier x s \<noteq> None"
    then obtain sec i where "findItemIdentifier x s = Some (sec, i)"
      by (metis not_Some_eq prod.exhaust_sel)
    then obtain pre post where "sections s = pre @ sec # post"
        "indexOfObject x (itemIdentifiersInSection s sec) = Some i"
      using assms findItemIdentifier_Some by metis
    then show False
      using x indexOfObject_mem by (fastforce simp: itemIdentifiers_concat)
  qed
qed

subsection \<open>Insertion and deletion of items in the flattened contents\<close>

lemma appendItemsInto_flat:
  assumes "snapshot_wf s" and "sections s = pre @ [sec]"
  shows "itemIdentifiers (appendItemsInto ids (Some sec) s) = itemIdentifiers s @ ids"
proof -
  have items: "itemsBySection s sec = Some (itemIdentifiersInSection s sec)"
    using assms by (simp add: snapshot_wf_items)
  then have e: "ensureSection (Some sec) s = s"
    using assms(2) by (simp add: ensureSection_def)
  have "distinct (sections s)"
    using assms(1) by (rule snapshot_wf_distinct)
  from itemIdentifiers_update[OF this, of pre sec "[]"] itemIdentifiers_split[of s pre sec "[]"]
  show ?thesis
    using assms(2) items by (simp add: appendItemsInto_def e)
qed

lemma ensure_default_on_empty:
  assumes "snapshot_wf s" and "sections s = []"
  shows "appendSections [GSDiffableDefaultSectionIdentifier] s =
    s\<lparr>sections := [GSDiffableDefaultSectionIdentifier],
      itemsBySection := [GSDiffableDefaultSectionIdentifier \<mapsto> []]\<rparr>"
proof -
  have "itemsBySection s = Map.empty"
    using assms by (simp add: snapshot_wf_def)
  then show ?thesis
    using assms(2) by (simp add: appendSections_def ensureSection_def Let_def)
qed

lemma appendItems_flat:
  assumes "snapshot_wf s"
  shows "itemIdentifiers (appendItems ids s) = itemIdentifiers s @ ids"
proof (cases "sections s = []")
  case True
  let ?t = "appendSections [GSDiffableDefaultSectionIdentifier] s"
  have "snapshot_wf ?t"
    using assms by (rule appendSections_wf)
  moreover have "sections ?t = [] @ [GSDiffableDefaultSectionIdentifier]"
      and "itemIdentifiers ?t = []"
    using assms True
    by (simp_all add: ensure_default_on_empty itemIdentifiers_concat itemIdentifiersInSection_def)
  moreover have "itemIdentifiers s = []"
    using True by (simp add: itemIdentifiers_concat)
  ultimately show ?thesis
    using True by (simp add: appendItems_def lastObject_def appendItemsInto_flat)
next
  case False
  then have "sections s = butlast (sections s) @ [last (sections s)]"
    by simp
  from appendItemsInto_flat[OF assms this] show ?thesis
    using False by (simp add: appendItems_def lastObject_def)
qed

text \<open>
  Both insertions and the deletion replace the array of the section the search found; what
  this does to the flattened contents is the same computation each time.
\<close>

lemma found_section_update:
  assumes "snapshot_wf s" and "findItemIdentifier x s = Some (sec, i)"
  obtains items A C where "itemsBySection s sec = Some items"
    "indexOfObject x items = Some i" "x \<notin> set A"
    "itemIdentifiers s = A @ items @ C"
    "\<forall>new. itemIdentifiers (s\<lparr>itemsBySection := (itemsBySection s)(sec \<mapsto> new)\<rparr>) = A @ new @ C"
    "\<forall>new. snapshot_wf (s\<lparr>itemsBySection := (itemsBySection s)(sec \<mapsto> new)\<rparr>)"
proof -
  let ?items = "itemIdentifiersInSection s sec"
  obtain pre post where p: "sections s = pre @ sec # post"
      "x \<notin> set (concat (map (itemIdentifiersInSection s) pre))"
      "indexOfObject x ?items = Some i" "itemsBySection s sec = Some ?items"
    using assms by (rule findItemIdentifier_Some)
  have u: "\<forall>new. itemIdentifiers (s\<lparr>itemsBySection := (itemsBySection s)(sec \<mapsto> new)\<rparr>) =
      concat (map (itemIdentifiersInSection s) pre) @ new @
      concat (map (itemIdentifiersInSection s) post)"
    using itemIdentifiers_update[OF snapshot_wf_distinct[OF assms(1)] p(1)] by simp
  have w: "\<forall>new. snapshot_wf (s\<lparr>itemsBySection := (itemsBySection s)(sec \<mapsto> new)\<rparr>)"
    using assms(1) p(1) by (simp add: snapshot_wf_update)
  show ?thesis
    using that[OF p(4) p(3) p(2) itemIdentifiers_split[OF p(1)] u w] .
qed

lemma insertItemsBefore_spec:
  assumes wf: "snapshot_wf s"
  shows "returns (\<lambda>t. snapshot_wf t \<and> itemIdentifiers t =
      (if x \<in> set (itemIdentifiers s)
       then takeWhile (\<lambda>y. y \<noteq> x) (itemIdentifiers s) @ ids @
            dropWhile (\<lambda>y. y \<noteq> x) (itemIdentifiers s)
       else itemIdentifiers s @ ids)) (insertItemsBefore ids x s)"
proof (cases "ids = [] \<or> findItemIdentifier x s = None")
  case True
  then show ?thesis
    using findItemIdentifier_None[OF wf, of x] wf
    by (auto simp: insertItemsBefore_def appendItems_flat appendItems_wf)
next
  case False
  then obtain sec i where f: "findItemIdentifier x s = Some (sec, i)"
    by auto
  obtain items A C where g: "itemsBySection s sec = Some items"
      "indexOfObject x items = Some i" "x \<notin> set A" "itemIdentifiers s = A @ items @ C"
      "\<forall>new. itemIdentifiers (s\<lparr>itemsBySection := (itemsBySection s)(sec \<mapsto> new)\<rparr>) = A @ new @ C"
      "\<forall>new. snapshot_wf (s\<lparr>itemsBySection := (itemsBySection s)(sec \<mapsto> new)\<rparr>)"
    using wf f by (rule found_section_update)
  have "x \<in> set items" and "i < length items"
    using g(2) by (auto dest: indexOfObject_mem indexOfObject_lt)
  then show ?thesis
    using False f g
    by (simp add: insertItemsBefore_def insertItemsAt_def insertObjects_def
        takeWhile_found dropWhile_found)
qed

lemma insertItemsAfter_spec:
  assumes wf: "snapshot_wf s"
  shows "returns (\<lambda>t. snapshot_wf t \<and> itemIdentifiers t =
      (if x \<in> set (itemIdentifiers s)
       then takeWhile (\<lambda>y. y \<noteq> x) (itemIdentifiers s) @ x # ids @
            tl (dropWhile (\<lambda>y. y \<noteq> x) (itemIdentifiers s))
       else itemIdentifiers s @ ids)) (insertItemsAfter ids x s)"
proof (cases "ids = [] \<or> findItemIdentifier x s = None")
  case True
  have "takeWhile (\<lambda>y. y \<noteq> x) ys @ x # tl (dropWhile (\<lambda>y. y \<noteq> x) ys) = ys"
    if "x \<in> set ys" for ys :: "'b list"
    using that by (induction ys) auto
  then show ?thesis
    using True findItemIdentifier_None[OF wf, of x] wf
    by (auto simp: insertItemsAfter_def appendItems_flat appendItems_wf)
next
  case False
  then obtain sec i where f: "findItemIdentifier x s = Some (sec, i)"
    by auto
  obtain items A C where g: "itemsBySection s sec = Some items"
      "indexOfObject x items = Some i" "x \<notin> set A" "itemIdentifiers s = A @ items @ C"
      "\<forall>new. itemIdentifiers (s\<lparr>itemsBySection := (itemsBySection s)(sec \<mapsto> new)\<rparr>) = A @ new @ C"
      "\<forall>new. snapshot_wf (s\<lparr>itemsBySection := (itemsBySection s)(sec \<mapsto> new)\<rparr>)"
    using wf f by (rule found_section_update)
  have x: "x \<in> set items" and i: "i < length items" and "items ! i = x"
    using g(2) by (auto dest: indexOfObject_mem indexOfObject_lt indexOfObject_nth)
  then have "take (Suc i) items = take i items @ [x]"
    by (simp add: take_Suc_conv_app_nth)
  moreover have "drop i items \<noteq> []" and "tl (drop i items) = drop (Suc i) items"
    using i by (simp_all add: drop_Suc tl_drop)
  ultimately show ?thesis
    using False f g x i
    by (simp add: insertItemsAfter_def insertItemsAt_def insertObjects_def
        takeWhile_found dropWhile_found)
qed

lemma deleteItem_spec:
  assumes wf: "snapshot_wf s"
  shows "returns (\<lambda>t. snapshot_wf t \<and> itemIdentifiers t = remove1 x (itemIdentifiers s))
    (deleteItem x s)"
proof (cases "findItemIdentifier x s")
  case None
  then show ?thesis
    using wf findItemIdentifier_None[OF wf, of x] by (simp add: deleteItem_def remove1_idem)
next
  case (Some p)
  then obtain sec i where f: "findItemIdentifier x s = Some (sec, i)"
    by (cases p) auto
  obtain items A C where g: "itemsBySection s sec = Some items"
      "indexOfObject x items = Some i" "x \<notin> set A" "itemIdentifiers s = A @ items @ C"
      "\<forall>new. itemIdentifiers (s\<lparr>itemsBySection := (itemsBySection s)(sec \<mapsto> new)\<rparr>) = A @ new @ C"
      "\<forall>new. snapshot_wf (s\<lparr>itemsBySection := (itemsBySection s)(sec \<mapsto> new)\<rparr>)"
    using wf f by (rule found_section_update)
  have "x \<in> set items" and "i < length items"
    using g(2) by (auto dest: indexOfObject_mem indexOfObject_lt)
  then show ?thesis
    using f g by (simp add: deleteItem_def removeObjectAtIndex_def remove1_append
        indexOfObject_remove1)
qed

lemma deleteItems_spec:
  assumes "snapshot_wf s"
  shows "returns (\<lambda>t. snapshot_wf t \<and> itemIdentifiers t = fold remove1 ids (itemIdentifiers s))
    (deleteItems ids s)"
  unfolding deleteItems_def using assms
proof (induction ids arbitrary: s)
  case Nil
  then show ?case by simp
next
  case (Cons x ids)
  obtain t where "deleteItem x s = Inr t" "snapshot_wf t"
      "itemIdentifiers t = remove1 x (itemIdentifiers s)"
    using deleteItem_spec[OF Cons.prems, of x] by (auto simp: returns_iff)
  then show ?case
    using Cons.IH[of t] by simp
qed

subsection \<open>Insertion, deletion and moves of sections\<close>

text \<open>The identifiers of \<open>ids\<close> that are not listed yet, each at its first occurrence.\<close>

fun fresh :: "'k set \<Rightarrow> 'k list \<Rightarrow> 'k list" where
  "fresh K [] = []"
| "fresh K (x # ids) = (if x \<in> K then fresh K ids else x # fresh (insert x K) ids)"

lemma insertSectionsFrom_spec:
  assumes "snapshot_wf s" and "i \<le> length (sections s)"
  shows "returns (\<lambda>t. snapshot_wf t \<and> itemIdentifiers t = itemIdentifiers s \<and>
      sections t = take i (sections s) @ fresh (set (sections s)) ids @ drop i (sections s))
    (insertSectionsFrom ids i s)"
  using assms
proof (induction ids i s rule: insertSectionsFrom.induct)
  case (1 i s)
  then show ?case by simp
next
  case (2 sec ids i s)
  show ?case
  proof (cases "sec \<in> set (sections s)")
    case True
    then show ?thesis using 2 by simp
  next
    case False
    let ?secs = "take i (sections s) @ sec # drop i (sections s)"
    let ?t = "s\<lparr>sections := ?secs, itemsBySection := (itemsBySection s)(sec \<mapsto> [])\<rparr>"
    have secs: "distinct ?secs" "set ?secs = insert sec (set (sections s))"
      using "2.prems"(1) False distinct_insert_at[of i "sections s" sec]
        set_insert_at[of i "sections s" sec]
      by (simp_all only: snapshot_wf_def simp_thms)
    then have wf: "snapshot_wf ?t"
      using "2.prems"(1) by (simp only: snapshot_wf_def snapshot.simps dom_fun_upd) simp
    let ?f = "itemIdentifiersInSection s" and ?g = "itemIdentifiersInSection ?t"
    have m: "map ?g xs = map ?f xs" if "set xs \<subseteq> set (sections s)" for xs
      using that False by (auto simp: itemIdentifiersInSection_def)
    have "?g sec = []"
      by (simp add: itemIdentifiersInSection_def)
    then have "concat (map ?g ?secs) =
        concat (map ?f (take i (sections s)) @ map ?f (drop i (sections s)))"
      by (simp only: map_append list.map m set_take_subset set_drop_subset concat_append
          concat.simps append_Nil)
    also have "\<dots> = concat (map ?f (sections s))"
      by (metis append_take_drop_id map_append)
    finally have flat: "itemIdentifiers ?t = itemIdentifiers s"
      by (simp add: itemIdentifiers_concat)
    have ins: "insertObject sec i (sections s) = Inr ?secs"
      using "2.prems" by (simp add: array_simps)
    have le: "Suc i \<le> length (sections ?t)"
      using "2.prems" by simp
    have "take (Suc i) ?secs = take i (sections s) @ [sec]" "drop (Suc i) ?secs = drop i (sections s)"
      using "2.prems" by (simp_all add: min_def)
    with "2.IH"(2)[OF False ins wf le] show ?thesis
      using False flat ins secs(2) by simp
  qed
qed

lemma appendSections_spec:
  assumes "snapshot_wf s"
  shows "sections (appendSections ids s) = sections s @ fresh (set (sections s)) ids \<and>
    itemIdentifiers (appendSections ids s) = itemIdentifiers s"
  using assms
proof (induction ids arbitrary: s)
  case Nil
  then show ?case by (simp add: appendSections_def)
next
  case (Cons x ids)
  have step: "appendSections (x # ids) s = appendSections ids (ensureSection (Some x) s)"
    by (simp add: appendSections_def)
  have wf: "snapshot_wf (ensureSection (Some x) s)"
    using Cons.prems by (rule ensureSection_wf)
  show ?case
  proof (cases "x \<in> set (sections s)")
    case True
    then have "itemsBySection s x = Some (itemIdentifiersInSection s x)"
      using Cons.prems by (simp add: snapshot_wf_items)
    then have "ensureSection (Some x) s = s"
      using True by (simp add: ensureSection_def)
    then show ?thesis
      using Cons True step by simp
  next
    case False
    let ?t = "s\<lparr>sections := sections s @ [x], itemsBySection := (itemsBySection s)(x \<mapsto> [])\<rparr>"
    have t: "ensureSection (Some x) s = ?t"
      using False Cons.prems by (auto simp: snapshot_wf_def ensureSection_def Let_def)
    have "map (itemIdentifiersInSection ?t) (sections s) =
        map (itemIdentifiersInSection s) (sections s)"
      using False by (auto simp: itemIdentifiersInSection_def)
    then have "itemIdentifiers ?t = itemIdentifiers s"
      by (simp add: itemIdentifiers_concat itemIdentifiersInSection_def [of ?t x] cong: map_cong)
    then show ?thesis
      using Cons.IH[OF wf] False step t by simp
  qed
qed

lemma deleteSections_spec:
  "sections (deleteSections ids s) = filter (\<lambda>k. k \<notin> set ids) (sections s) \<and>
   (\<forall>k. k \<notin> set ids \<longrightarrow> itemsBySection (deleteSections ids s) k = itemsBySection s k)"
proof (induction ids arbitrary: s)
  case Nil
  then show ?case by (simp add: deleteSections_def)
next
  case (Cons x ids)
  let ?t = "s\<lparr>sections := removeObject x (sections s),
              itemsBySection := (itemsBySection s)(x := None)\<rparr>"
  have "deleteSections (x # ids) s = deleteSections ids ?t"
    by (simp add: deleteSections_def)
  then show ?case
    using Cons.IH[of ?t] by (auto simp: removeObject_def conj_commute)
qed

lemma moveSectionBefore_spec:
  assumes "snapshot_wf s" and "sec \<in> set (sections s)"
    and rest: "removeObject sec (sections s) = pre @ other # post"
  shows "moveSectionBefore sec other s = Inr (s\<lparr>sections := pre @ sec # other # post\<rparr>)"
proof -
  have d: "distinct (sections s)"
    using assms(1) by (rule snapshot_wf_distinct)
  have "other \<in> set (removeObject sec (sections s))"
    using rest by simp
  then have ne: "sec \<noteq> other" and "other \<in> set (sections s)"
    by auto
  then obtain f t where f: "indexOfObject sec (sections s) = Some f"
      and t: "indexOfObject other (sections s) = Some t"
    using assms(2) indexOfObject_ex by metis
  have "(if f < t then t - 1 else t) = length pre"
    using indexOfObject_after_removal[OF d ne f t] indexOfObject_split rest
      removeObject_distinct[OF d] by (metis option.inject)
  then show ?thesis
    using f t rest removeObject_at[OF d f] indexOfObject_lt[OF f]
    by (simp add: moveSectionBefore_def array_simps)
qed

lemma moveSectionAfter_spec:
  assumes "snapshot_wf s" and "sec \<in> set (sections s)"
    and rest: "removeObject sec (sections s) = pre @ other # post"
  shows "moveSectionAfter sec other s = Inr (s\<lparr>sections := pre @ other # sec # post\<rparr>)"
proof -
  have d: "distinct (sections s)"
    using assms(1) by (rule snapshot_wf_distinct)
  have "other \<in> set (removeObject sec (sections s))"
    using rest by simp
  then have ne: "sec \<noteq> other" and "other \<in> set (sections s)"
    by auto
  then obtain f t where f: "indexOfObject sec (sections s) = Some f"
      and t: "indexOfObject other (sections s) = Some t"
    using assms(2) indexOfObject_ex by metis
  have "(if f < t then t - 1 else t) = length pre"
    using indexOfObject_after_removal[OF d ne f t] indexOfObject_split rest
      removeObject_distinct[OF d] by (metis option.inject)
  then show ?thesis
    using f t rest removeObject_at[OF d f] indexOfObject_lt[OF f]
    by (simp add: moveSectionAfter_def array_simps)
qed

text \<open>A section that is not listed, or a target that is not, leaves the snapshot alone.\<close>

lemma move_unlisted:
  assumes "sec \<notin> set (sections s) \<or> other \<notin> set (sections s)"
  shows "moveSectionBefore sec other s = Inr s" and "moveSectionAfter sec other s = Inr s"
  using assms
  by (auto simp: moveSectionBefore_def moveSectionAfter_def simp flip: indexOfObject_None
      split: option.splits)

lemma moveSectionBefore_self:
  assumes "snapshot_wf s"
  shows "moveSectionBefore sec sec s = Inr s"
proof (cases "indexOfObject sec (sections s)")
  case None
  then show ?thesis by (simp add: moveSectionBefore_def del: indexOfObject_None)
next
  case (Some i)
  then have "i < length (sections s)" and "sections s ! i = sec"
    by (auto dest: indexOfObject_lt indexOfObject_nth)
  then have "take i (sections s) @ sec # drop (Suc i) (sections s) = sections s"
    using take_drop_Suc by metis
  then show ?thesis
    using Some \<open>i < length (sections s)\<close> by (simp add: moveSectionBefore_def array_simps)
qed

text \<open>
  Moving a section after itself: the index of the target is taken before the removal and not
  adjusted, so the section lands one position too far, and past the end when it was the last.
\<close>

lemma moveSectionAfter_self_last:
  assumes "snapshot_wf s" and "sections s = pre @ [sec]"
  shows "moveSectionAfter sec sec s = Inl (NSRangeException, s\<lparr>sections := pre\<rparr>)"
proof -
  have "indexOfObject sec (sections s) = Some (length pre)"
    using snapshot_wf_distinct[OF assms(1)] assms(2) by (simp add: indexOfObject_split)
  then show ?thesis
    using assms(2) by (simp add: moveSectionAfter_def removeObjectAtIndex_def insertObject_def)
qed

lemma moveSectionAfter_self_inner:
  assumes "snapshot_wf s" and "sections s = pre @ sec # nxt # post"
  shows "moveSectionAfter sec sec s = Inr (s\<lparr>sections := pre @ nxt # sec # post\<rparr>)"
proof -
  have "indexOfObject sec (sections s) = Some (length pre)"
    using snapshot_wf_distinct[OF assms(1)] assms(2) by (simp add: indexOfObject_split)
  then show ?thesis
    using assms(2) by (simp add: moveSectionAfter_def removeObjectAtIndex_def insertObject_def)
qed

subsection \<open>Sequences of calls\<close>

text \<open>
  The mutating interface of the class as data, and a client's run of calls: the run stops at
  the first exception.
\<close>

datatype ('a, 'b) snapshot_op =
    AppendSections "'a section_id list"
  | InsertSectionsBefore "'a section_id list" "'a section_id"
  | InsertSectionsAfter "'a section_id list" "'a section_id"
  | DeleteSections "'a section_id list"
  | MoveSectionBefore "'a section_id" "'a section_id"
  | MoveSectionAfter "'a section_id" "'a section_id"
  | AppendItems "'b list"
  | AppendItemsInto "'b list" "'a section_id option"
  | InsertItemsBefore "'b list" 'b
  | InsertItemsAfter "'b list" 'b
  | DeleteItems "'b list"

fun apply_op :: "('a, 'b) snapshot_op \<Rightarrow> ('a, 'b) snapshot \<Rightarrow> ('a, 'b) snapshot step" where
  "apply_op (AppendSections ids) s = Inr (appendSections ids s)"
| "apply_op (InsertSectionsBefore ids k) s = insertSectionsBefore ids k s"
| "apply_op (InsertSectionsAfter ids k) s = insertSectionsAfter ids k s"
| "apply_op (DeleteSections ids) s = Inr (deleteSections ids s)"
| "apply_op (MoveSectionBefore k l) s = moveSectionBefore k l s"
| "apply_op (MoveSectionAfter k l) s = moveSectionAfter k l s"
| "apply_op (AppendItems ids) s = Inr (appendItems ids s)"
| "apply_op (AppendItemsInto ids k) s = Inr (appendItemsInto ids k s)"
| "apply_op (InsertItemsBefore ids x) s = insertItemsBefore ids x s"
| "apply_op (InsertItemsAfter ids x) s = insertItemsAfter ids x s"
| "apply_op (DeleteItems ids) s = deleteItems ids s"

text \<open>A call that moves a section after itself.\<close>

fun moves_after_itself :: "('a, 'b) snapshot_op \<Rightarrow> bool" where
  "moves_after_itself (MoveSectionAfter k l) = (k = l)"
| "moves_after_itself _ = False"

lemma moved_sections_wf:
  assumes "snapshot_wf s" and "sec \<in> set (sections s)"
    and "removeObject sec (sections s) = pre @ post"
  shows "snapshot_wf (s\<lparr>sections := pre @ sec # post\<rparr>)"
proof -
  have "distinct (pre @ post)" and "set (pre @ post) = set (sections s) - {sec}"
    using removeObject_distinct[OF snapshot_wf_distinct[OF assms(1)], of sec]
      removeObject_set[of sec "sections s"] unfolding assms(3) by blast+
  then show ?thesis
    using assms(1,2) by (auto simp: snapshot_wf_def)
qed

lemma move_returns_wf:
  assumes wf: "snapshot_wf s" and ne: "k \<noteq> l"
  shows "returns snapshot_wf (moveSectionBefore k l s) \<and> returns snapshot_wf (moveSectionAfter k l s)"
proof (cases "k \<in> set (sections s) \<and> l \<in> set (sections s)")
  case True
  then have "l \<in> set (removeObject k (sections s))"
    using ne by simp
  then obtain pre post where r: "removeObject k (sections s) = pre @ l # post"
    by (meson split_list)
  then have "removeObject k (sections s) = (pre @ [l]) @ post"
    by simp
  then show ?thesis
    using True r moved_sections_wf[OF wf, of k pre "l # post"]
      moved_sections_wf[OF wf, of k "pre @ [l]" post]
    by (simp add: moveSectionBefore_spec[OF wf] moveSectionAfter_spec[OF wf])
next
  case False
  then show ?thesis using wf by (auto simp: move_unlisted)
qed

lemma insertSections_returns_wf:
  assumes wf: "snapshot_wf s"
  shows "returns snapshot_wf (insertSectionsBefore ids k s)"
    and "returns snapshot_wf (insertSectionsAfter ids k s)"
proof -
  have "i \<le> length (sections s) \<Longrightarrow> returns snapshot_wf (insertSectionsFrom ids i s)" for i
    using insertSectionsFrom_spec[OF wf, of i ids] by (auto elim: returns_mono)
  then show "returns snapshot_wf (insertSectionsBefore ids k s)"
    and "returns snapshot_wf (insertSectionsAfter ids k s)"
    using wf indexOfObject_lt
    by (fastforce simp: insertSectionsBefore_def insertSectionsAfter_def appendSections_wf
        split: option.split)+
qed

lemma apply_op_wf [inv_intros]:
  assumes wf: "snapshot_wf s" and "\<not> moves_after_itself oper"
  shows "returns snapshot_wf (apply_op oper s)"
proof (cases oper)
  case (MoveSectionBefore k l)
  then show ?thesis
    using move_returns_wf[OF wf, of k l] moveSectionBefore_self[OF wf, of k] wf
    by (cases "k = l") simp_all
next
  case (MoveSectionAfter k l)
  then show ?thesis
    using move_returns_wf[OF wf, of k l] assms(2) by simp
next
  case (InsertItemsBefore ids x)
  then show ?thesis
    using insertItemsBefore_spec[OF wf, of x ids] by (auto elim: returns_mono)
next
  case (InsertItemsAfter ids x)
  then show ?thesis
    using insertItemsAfter_spec[OF wf, of x ids] by (auto elim: returns_mono)
next
  case (DeleteItems ids)
  then show ?thesis
    using deleteItems_spec[OF wf, of ids] by (auto elim: returns_mono)
qed (use wf in \<open>simp_all add: insertSections_returns_wf appendSections_wf deleteSections_wf
        appendItems_wf appendItemsInto_wf\<close>)

text \<open>C5: Starting from a well formed snapshot, every sequence of calls of the mutating interface
  that never moves a section after itself runs without an exception and leaves a well formed
  snapshot: the section array without duplicates, and an item array for exactly its sections.\<close>

theorem snapshot_run_wf:
  assumes "snapshot_wf s" and "\<forall>oper \<in> set opers. \<not> moves_after_itself oper"
  shows "returns snapshot_wf (for_in apply_op opers s)"
  using assms by (intro returns_for_in) (auto intro: apply_op_wf)

theorem snapshot_run_wf_witness:
  "returns snapshot_wf (for_in apply_op
     [AppendSections [Section (1::nat), Section 2], AppendItems [''a'', ''b''],
      MoveSectionBefore (Section 2) (Section 1), InsertItemsAfter [''c''] ''a'']
     (snapshot_init :: (nat, string) snapshot))"
  by (rule snapshot_run_wf) (simp_all add: snapshot_init_wf)

text \<open>C25: Inserting items before an item places them, in their order, directly before the first
  occurrence of that item in the flattened contents, and at the very end when the item is
  absent; the snapshot stays well formed and no exception is raised.\<close>

theorem snapshot_insert_before:
  assumes "snapshot_wf s"
  shows "returns (\<lambda>t. snapshot_wf t \<and> itemIdentifiers t =
      (if x \<in> set (itemIdentifiers s)
       then takeWhile (\<lambda>y. y \<noteq> x) (itemIdentifiers s) @ ids @
            dropWhile (\<lambda>y. y \<noteq> x) (itemIdentifiers s)
       else itemIdentifiers s @ ids)) (insertItemsBefore ids x s)"
  using assms by (rule insertItemsBefore_spec)

theorem snapshot_insert_before_witness:
  "returns (\<lambda>t. snapshot_wf t \<and> itemIdentifiers t = [7 :: nat])
     (insertItemsBefore [7] 3 (snapshot_init :: (nat, nat) snapshot))"
  using snapshot_insert_before[OF snapshot_init_wf, of 3 "[7]"]
  by (simp add: itemIdentifiers_def snapshot_init_def)

text \<open>C26: Deleting a list of items removes, for each of them in turn, its first occurrence in the
  flattened contents and nothing else.\<close>

theorem snapshot_delete_items:
  assumes "snapshot_wf s"
  shows "returns (\<lambda>t. snapshot_wf t \<and> itemIdentifiers t = fold remove1 ids (itemIdentifiers s))
    (deleteItems ids s)"
  using assms by (rule deleteItems_spec)

lemma itemIdentifiers_init [simp]: "itemIdentifiers snapshot_init = []"
  by (simp add: itemIdentifiers_def snapshot_init_def)

theorem snapshot_delete_items_witness:
  "returns (\<lambda>t. snapshot_wf t \<and> itemIdentifiers t = [2 :: nat])
     (deleteItems [1] (appendItems [1, 2] (snapshot_init :: (nat, nat) snapshot)))"
proof -
  let ?s = "appendItems [1, 2] (snapshot_init :: (nat, nat) snapshot)"
  have "itemIdentifiers ?s = [1, 2]"
    using appendItems_flat[OF snapshot_init_wf, of "[1, 2 :: nat]"] by simp
  moreover have "snapshot_wf ?s"
    by (intro inv_intros)
  ultimately show ?thesis
    using snapshot_delete_items[of ?s "[1]"] by simp
qed

text \<open>A copy of a well formed snapshot is equal to it, and a copy of any snapshot holds arrays
  for the listed sections only.\<close>

lemma snapshot_copy:
  "(snapshot_wf s \<longrightarrow> copyWithZone s = s) \<and>
   sections (copyWithZone s) = sections s \<and>
   itemsBySection (copyWithZone s) = itemsBySection s |` set (sections s)"
proof -
  have step: "fold (\<lambda>sec m. case f sec of None \<Rightarrow> m | Some v \<Rightarrow> m(sec \<mapsto> v)) ks m =
      m ++ f |` set ks" for f :: "'k \<Rightarrow> 'v option" and ks m
    by (induction ks arbitrary: m)
       (auto simp: fun_eq_iff map_add_def restrict_map_def split: option.splits)
  have "snapshot_wf s \<Longrightarrow> itemsBySection s |` set (sections s) = itemsBySection s"
    by (metis map_le_map_add map_le_antisym restrict_map_def snapshot_wf_def domIff ext)
  then show ?thesis
    by (simp add: copyWithZone_def Let_def step)
qed

lemma snapshot_copy_example:
  "copyWithZone (snapshot_init :: (nat, nat) snapshot) = snapshot_init"
  using snapshot_copy[of "snapshot_init :: (nat, nat) snapshot"] snapshot_init_wf by blast

text \<open>Moving a section before or after another listed section takes it out of the array and
  puts it back directly before, respectively after, the target; the items of every section
  stay with it.\<close>

lemma snapshot_move:
  assumes "snapshot_wf s" and "sec \<in> set (sections s)"
    and "removeObject sec (sections s) = pre @ other # post"
  shows "moveSectionBefore sec other s = Inr (s\<lparr>sections := pre @ sec # other # post\<rparr>) \<and>
    moveSectionAfter sec other s = Inr (s\<lparr>sections := pre @ other # sec # post\<rparr>)"
  using moveSectionBefore_spec[OF assms] moveSectionAfter_spec[OF assms] by blast

lemma snapshot_move_example:
  "moveSectionBefore (Section 3) (Section 1)
     \<lparr>sections = [Section (1::nat), Section 3],
      itemsBySection = [Section 1 \<mapsto> [''a''], Section 3 \<mapsto> [''b'']]\<rparr> =
   Inr \<lparr>sections = [Section 3, Section 1],
        itemsBySection = [Section 1 \<mapsto> [''a''], Section 3 \<mapsto> [''b'']]\<rparr>"
proof -
  let ?s = "\<lparr>sections = [Section (1::nat), Section 3],
      itemsBySection = [Section 1 \<mapsto> [''a''], Section 3 \<mapsto> [''b'']]\<rparr>"
  have "snapshot_wf ?s"
    by (auto simp: snapshot_wf_def)
  then show ?thesis
    using snapshot_move[of ?s "Section 3" "[]" "Section 1" "[]"] by (simp add: removeObject_def)
qed

text \<open>Moving the last section after itself raises a range exception, and the exception leaves
  the snapshot broken: the section is gone from the array while its items stay in the
  dictionary, so the snapshot is no longer well formed.\<close>

lemma snapshot_move_after_itself:
  assumes "snapshot_wf s" and "sections s = pre @ [sec]"
  shows "moveSectionAfter sec sec s = Inl (NSRangeException, s\<lparr>sections := pre\<rparr>) \<and>
    \<not> snapshot_wf (s\<lparr>sections := pre\<rparr>)"
proof -
  have "sec \<in> dom (itemsBySection s)" and "sec \<notin> set pre"
    using assms by (auto simp: snapshot_wf_def)
  then show ?thesis
    using moveSectionAfter_self_last[OF assms] by (auto simp: snapshot_wf_def)
qed

lemma snapshot_move_after_itself_example:
  "moveSectionAfter (Section 1) (Section 1)
     \<lparr>sections = [Section (1::nat)], itemsBySection = [Section 1 \<mapsto> [''a'']]\<rparr> =
   Inl (NSRangeException, \<lparr>sections = [], itemsBySection = [Section 1 \<mapsto> [''a'']]\<rparr>)"
proof -
  let ?s = "\<lparr>sections = [Section (1::nat)], itemsBySection = [Section 1 \<mapsto> [''a'']]\<rparr>"
  have "snapshot_wf ?s" and "sections ?s = [] @ [Section 1]"
    by (auto simp: snapshot_wf_def)
  then show ?thesis
    using snapshot_move_after_itself[of ?s "[]" "Section 1"] by simp
qed

end
