(* ===== verification/DataSource.thy ===== *)
theory DataSource
  imports Snapshot
begin

text \<open>
  The two diffable data sources of \<open>Source/NSDiffableDataSource.m\<close>:
  \<open>NSCollectionViewDiffableDataSource\<close> and \<open>NSTableViewDiffableDataSource\<close>. Each keeps a
  snapshot and a lookup table from item identifiers to index paths, and answers the queries
  of its view from them. The messages a data source sends to its view are recorded in order.
\<close>

datatype view_message =
    ReloadData
  | ReloadSections "nat set"
  | ReloadItemsAtIndexPaths "index_path set"
  | ReloadRows "nat set" "nat set"

record ('a, 'b) data_source =
  dsSnapshot :: "('a, 'b) snapshot"
  identifierToIndexPath :: "'b \<rightharpoonup> index_path"
  creatingIndexPaths :: "index_path set"
  sent :: "view_message list"

definition initDataSource :: "('a, 'b) data_source" where
  "initDataSource = \<lparr>dsSnapshot = snapshot_init, identifierToIndexPath = Map.empty,
     creatingIndexPaths = {}, sent = []\<rparr>"

definition send :: "view_message \<Rightarrow> ('a, 'b) data_source \<Rightarrow> ('a, 'b) data_source" where
  "send m ds = ds\<lparr>sent := sent ds @ [m]\<rparr>"

subsection \<open>The lookup table\<close>

text \<open>
  Both classes build the table with the same two loops: for every section, for every item
  position, the identifier there is mapped to its path; a later occurrence overwrites an
  earlier one.
\<close>

fun lookupItems :: "nat \<Rightarrow> nat \<Rightarrow> 'b list \<Rightarrow> ('b \<rightharpoonup> index_path) \<Rightarrow> ('b \<rightharpoonup> index_path)" where
  "lookupItems secIndex itemIndex [] m = m"
| "lookupItems secIndex itemIndex (x # items) m =
     lookupItems secIndex (Suc itemIndex) items (m(x \<mapsto> indexPathForItem itemIndex secIndex))"

fun lookupSections ::
  "('k \<Rightarrow> 'b list) \<Rightarrow> nat \<Rightarrow> 'k list \<Rightarrow> ('b \<rightharpoonup> index_path) \<Rightarrow> ('b \<rightharpoonup> index_path)" where
  "lookupSections items secIndex [] m = m"
| "lookupSections items secIndex (sec # secs) m =
     lookupSections items (Suc secIndex) secs (lookupItems secIndex 0 (items sec) m)"

definition rebuildIndexLookup :: "('a, 'b) data_source \<Rightarrow> ('a, 'b) data_source" where
  "rebuildIndexLookup ds = ds\<lparr>identifierToIndexPath :=
     lookupSections (itemIdentifiersInSection (dsSnapshot ds)) 0
       (sectionIdentifiers (dsSnapshot ds)) Map.empty\<rparr>"

text \<open>
  \<open>applySnapshot:animatingDifferences:\<close> replaces the snapshot by a freshly initialised one;
  its argument is not read.
\<close>

definition applySnapshot ::
  "('a, 'b) snapshot \<Rightarrow> bool \<Rightarrow> ('a, 'b) data_source \<Rightarrow> ('a, 'b) data_source" where
  "applySnapshot snap animating ds =
     send ReloadData (rebuildIndexLookup (ds\<lparr>dsSnapshot := snapshot_init\<rparr>))"

definition snapshotOf :: "('a, 'b) data_source \<Rightarrow> ('a, 'b) snapshot" where
  "snapshotOf ds = copyWithZone (dsSnapshot ds)"

definition indexPathForItemIdentifier :: "'b \<Rightarrow> ('a, 'b) data_source \<Rightarrow> index_path option" where
  "indexPathForItemIdentifier x ds = identifierToIndexPath ds x"

subsection \<open>The collection view data source\<close>

text \<open>A path shorter than two indexes leaves both indexes at 0; a \<open>nil\<close> path answers \<open>nil\<close>.\<close>

definition itemAt ::
  "('k \<Rightarrow> 'b list) \<Rightarrow> 'k list \<Rightarrow> index_path \<Rightarrow> 'b option" where
  "itemAt items secs path =
     (let sectionIndex = (if 2 \<le> length path then path ! 0 else 0);
          itemIndex = (if 2 \<le> length path then path ! 1 else 0)
      in if length secs \<le> sectionIndex then None
         else let xs = items (secs ! sectionIndex)
              in if length xs \<le> itemIndex then None else Some (xs ! itemIndex))"

definition cv_itemIdentifierForIndexPath ::
  "index_path option \<Rightarrow> ('a, 'b) data_source \<Rightarrow> 'b option" where
  "cv_itemIdentifierForIndexPath path ds =
     (case path of
        None \<Rightarrow> None
      | Some p \<Rightarrow> itemAt (itemIdentifiersInSection (dsSnapshot ds))
                    (sectionIdentifiers (dsSnapshot ds)) p)"

definition cv_numberOfSections :: "('a, 'b) data_source \<Rightarrow> nat" where
  "cv_numberOfSections ds = numberOfSections (dsSnapshot ds)"

definition cv_numberOfItemsInSection :: "int \<Rightarrow> ('a, 'b) data_source \<Rightarrow> nat" where
  "cv_numberOfItemsInSection section ds =
     (let secs = sectionIdentifiers (dsSnapshot ds)
      in if section < 0 \<or> section \<ge> int (length secs) then 0
         else length (itemIdentifiersInSection (dsSnapshot ds) (secs ! nat section)))"

text \<open>
  The item a view asks for: \<open>existing\<close> is what \<open>itemAtIndexPath:\<close> of the view answers and
  \<open>provider\<close> the client's block, which may call back into the data source.
\<close>

definition cv_itemForRepresentedObject ::
  "('i option) \<Rightarrow>
   (index_path \<Rightarrow> 'b \<Rightarrow> ('a, 'b) data_source \<Rightarrow> 'i option \<times> ('a, 'b) data_source) option \<Rightarrow>
   index_path \<Rightarrow> ('a, 'b) data_source \<Rightarrow> 'i option \<times> ('a, 'b) data_source" where
  "cv_itemForRepresentedObject existing provider path ds =
     (if path \<in> creatingIndexPaths ds then (None, ds)
      else (case existing of
              Some item \<Rightarrow> (Some item, ds)
            | None \<Rightarrow>
                (case (cv_itemIdentifierForIndexPath (Some path) ds, provider) of
                   (Some ident, Some block) \<Rightarrow>
                     (let ds1 = ds\<lparr>creatingIndexPaths := insert path (creatingIndexPaths ds)\<rparr>;
                          (result, ds2) = block path ident ds1
                      in (result,
                          ds2\<lparr>creatingIndexPaths := creatingIndexPaths ds2 - {path}\<rparr>))
                 | _ \<Rightarrow> (None, ds))))"

definition cv_reloadSections :: "'a section_id list \<Rightarrow> ('a, 'b) data_source \<Rightarrow> ('a, 'b) data_source" where
  "cv_reloadSections ids ds =
     (let secs = sectionIdentifiers (dsSnapshot ds);
          indexes = fold (\<lambda>sec s. case indexOfObject sec secs of
                                     None \<Rightarrow> s | Some i \<Rightarrow> insert i s) ids {}
      in send (ReloadSections indexes) ds)"

definition cv_reloadItems :: "'b list \<Rightarrow> ('a, 'b) data_source \<Rightarrow> ('a, 'b) data_source" where
  "cv_reloadItems ids ds =
     (let indexPaths = fold (\<lambda>x ps. case indexPathForItemIdentifier x ds of
                                       None \<Rightarrow> ps | Some p \<Rightarrow> ps @ [p]) ids []
      in send (ReloadItemsAtIndexPaths (set indexPaths)) ds)"

subsection \<open>The table view data source\<close>

text \<open>Here a \<open>nil\<close> path answers 0 to \<open>length\<close>, and both indexes stay 0.\<close>

definition tv_itemIdentifierForIndexPath ::
  "index_path option \<Rightarrow> ('a, 'b) data_source \<Rightarrow> 'b option" where
  "tv_itemIdentifierForIndexPath path ds =
     itemAt (itemIdentifiersInSection (dsSnapshot ds)) (sectionIdentifiers (dsSnapshot ds))
       (case path of None \<Rightarrow> [] | Some p \<Rightarrow> p)"

text \<open>
  The row loop. A negative row is below the first running total already; the local index,
  passed as an unsigned index, is then out of every array's range.
\<close>

fun rowFrom :: "('k \<Rightarrow> 'b list) \<Rightarrow> int \<Rightarrow> int \<Rightarrow> 'k list \<Rightarrow> 'b option res" where
  "rowFrom items row runningTotal [] = Inr None"
| "rowFrom items row runningTotal (sec # secs) =
     (let nextTotal = runningTotal + int (length (items sec))
      in if row < nextTotal
         then (let localIndex = row - runningTotal
               in if localIndex < 0 then Inl NSRangeException
                  else map_sum id Some (objectAtIndex (items sec) (nat localIndex)))
         else rowFrom items row nextTotal secs)"

definition tv_itemIdentifierForRow :: "int \<Rightarrow> ('a, 'b) data_source \<Rightarrow> 'b option res" where
  "tv_itemIdentifierForRow row ds =
     rowFrom (itemIdentifiersInSection (dsSnapshot ds)) row 0 (sectionIdentifiers (dsSnapshot ds))"

definition tv_numberOfRows :: "('a, 'b) data_source \<Rightarrow> nat" where
  "tv_numberOfRows ds = numberOfItems (dsSnapshot ds)"

definition rowsOfSection :: "('k \<Rightarrow> 'b list) \<Rightarrow> 'k list \<Rightarrow> 'k \<Rightarrow> nat set" where
  "rowsOfSection items secs sec =
     (case indexOfObject sec secs of
        None \<Rightarrow> {}
      | Some sectionIndex \<Rightarrow>
          (let runningTotal = fold (\<lambda>k n. n + length (items k)) (take sectionIndex secs) 0
           in {runningTotal ..< runningTotal + length (items sec)}))"

fun rowOfItemFrom :: "('k \<Rightarrow> 'b list) \<Rightarrow> 'b \<Rightarrow> nat \<Rightarrow> 'k list \<Rightarrow> nat option" where
  "rowOfItemFrom items x runningTotal [] = None"
| "rowOfItemFrom items x runningTotal (sec # secs) =
     (case indexOfObject x (items sec) of
        Some i \<Rightarrow> Some (runningTotal + i)
      | None \<Rightarrow> rowOfItemFrom items x (runningTotal + length (items sec)) secs)"

text \<open>Only a non-empty set of rows is sent, for all the table's columns.\<close>

definition tv_send_rows :: "nat \<Rightarrow> nat set \<Rightarrow> ('a, 'b) data_source \<Rightarrow> ('a, 'b) data_source" where
  "tv_send_rows columns rows ds =
     (if rows = {} then ds else send (ReloadRows rows {0 ..< columns}) ds)"

definition tv_reloadSections ::
  "nat \<Rightarrow> 'a section_id list \<Rightarrow> ('a, 'b) data_source \<Rightarrow> ('a, 'b) data_source" where
  "tv_reloadSections columns ids ds =
     tv_send_rows columns
       (fold (\<lambda>sec rows. rows \<union> rowsOfSection (itemIdentifiersInSection (dsSnapshot ds))
                                    (sectionIdentifiers (dsSnapshot ds)) sec) ids {}) ds"

definition tv_reloadItems :: "nat \<Rightarrow> 'b list \<Rightarrow> ('a, 'b) data_source \<Rightarrow> ('a, 'b) data_source" where
  "tv_reloadItems columns ids ds =
     tv_send_rows columns
       (fold (\<lambda>x rows. case rowOfItemFrom (itemIdentifiersInSection (dsSnapshot ds)) x 0
                               (sectionIdentifiers (dsSnapshot ds)) of
                          None \<Rightarrow> rows | Some row \<Rightarrow> insert row rows) ids {}) ds"

datatype ('b, 'v) table_view = NoView | ProvidedView 'v | FallbackTextField 'b

text \<open>
  The view for a cell: \<open>provider\<close> is the client's block applied to the column, the row and the
  identifier, \<open>None\<close> when none is set.
\<close>

definition tv_viewForRow ::
  "('c \<Rightarrow> int \<Rightarrow> 'b \<Rightarrow> 'v option) option \<Rightarrow> 'c \<Rightarrow> int \<Rightarrow> ('a, 'b) data_source \<Rightarrow>
   ('b, 'v) table_view res" where
  "tv_viewForRow provider column row ds =
     (case tv_itemIdentifierForRow row ds of
        Inl e \<Rightarrow> Inl e
      | Inr None \<Rightarrow> Inr NoView
      | Inr (Some ident) \<Rightarrow>
          (case provider of
             None \<Rightarrow> Inr (FallbackTextField ident)
           | Some block \<Rightarrow>
               (case block column row ident of
                  Some v \<Rightarrow> Inr (ProvidedView v)
                | None \<Rightarrow> Inr (FallbackTextField ident))))"

definition tv_objectValue :: "int \<Rightarrow> ('a, 'b) data_source \<Rightarrow> 'b option res" where
  "tv_objectValue row ds = tv_itemIdentifierForRow row ds"

subsection \<open>The contract between a data source and its snapshot\<close>

text \<open>
  A data source reads its snapshot through four queries only: the sections, the items of a
  section, all items and their number. What it relies on is that the flattened items are the
  sections' items in order. Everything the queries of the data sources promise follows from
  that, for any provider.
\<close>

locale section_source =
  fixes secs :: "'s \<Rightarrow> 'k list"
    and items :: "'s \<Rightarrow> 'k \<Rightarrow> 'b list"
    and flat :: "'s \<Rightarrow> 'b list"
    and item_count :: "'s \<Rightarrow> nat"
  assumes flat_sections: "flat s = concat (map (items s) (secs s))"
    and count_flat: "item_count s = length (flat s)"
begin

lemma lookupItems_other:
  "x \<notin> set ys \<Longrightarrow> lookupItems si i ys m x = m x"
  by (induction ys arbitrary: i m) auto

lemma lookupItems_sound:
  assumes "lookupItems si i ys m x = Some p"
  shows "(x \<notin> set ys \<and> m x = Some p) \<or> (\<exists>j < length ys. ys ! j = x \<and> p = [si, i + j])"
  using assms
proof (induction ys arbitrary: i m)
  case Nil
  then show ?case by simp
next
  case (Cons y ys)
  have "lookupItems si (Suc i) ys (m(y \<mapsto> indexPathForItem i si)) x = Some p"
    using Cons.prems by simp
  from Cons.IH[OF this]
  consider "x \<notin> set ys" "(m(y \<mapsto> indexPathForItem i si)) x = Some p"
    | j where "j < length ys" "ys ! j = x" "p = [si, Suc i + j]"
    by blast
  then show ?case
  proof cases
    case 1
    then show ?thesis
      by (cases "y = x") (auto simp: indexPathForItem_def intro: exI[of _ 0])
  next
    case (2 j)
    then show ?thesis by (intro disjI2 exI[of _ "Suc j"]) auto
  qed
qed

lemma lookupItems_complete:
  "x \<in> set ys \<or> m x \<noteq> None \<Longrightarrow> lookupItems si i ys m x \<noteq> None"
  by (induction ys arbitrary: i m) auto

lemma itemAt_two:
  "itemAt (items s) ks [si, i] =
     (if si < length ks \<and> i < length (items s (ks ! si)) then Some (items s (ks ! si) ! i) else None)"
  by (auto simp: itemAt_def Let_def)

lemma lookupSections_sound:
  assumes "lookupSections (items s) si ks m x = Some p"
  shows "m x = Some p \<or>
    (\<exists>k < length ks. \<exists>j < length (items s (ks ! k)). items s (ks ! k) ! j = x \<and> p = [si + k, j])"
  using assms
proof (induction ks arbitrary: si m)
  case Nil
  then show ?case by simp
next
  case (Cons a ks)
  from Cons.IH[of "Suc si" "lookupItems si 0 (items s a) m"] Cons.prems
  consider "lookupItems si 0 (items s a) m x = Some p"
    | k j where "k < length ks" "j < length (items s (ks ! k))" "items s (ks ! k) ! j = x"
        "p = [Suc si + k, j]"
    by auto
  then show ?case
  proof cases
    case 1
    then show ?thesis using lookupItems_sound[OF 1] by fastforce
  next
    case (2 k j)
    then show ?thesis
      by (intro disjI2 exI[of _ "Suc k"]) auto
  qed
qed

lemma lookupSections_complete:
  "x \<in> set (concat (map (items s) ks)) \<or> m x \<noteq> None \<Longrightarrow>
     lookupSections (items s) si ks m x \<noteq> None"
proof (induction ks arbitrary: si m)
  case Nil
  then show ?case by simp
next
  case (Cons a ks)
  show ?case
  proof (cases "x \<in> set (items s a) \<or> m x \<noteq> None")
    case True
    then have "lookupItems si 0 (items s a) m x \<noteq> None"
      by (rule lookupItems_complete)
    then show ?thesis using Cons.IH by simp
  next
    case False
    then show ?thesis using Cons by simp
  qed
qed

abbreviation lookup_table :: "'s \<Rightarrow> 'b \<rightharpoonup> index_path" where
  "lookup_table s \<equiv> lookupSections (items s) 0 (secs s) Map.empty"

lemma lookup_roundtrip:
  assumes "lookup_table s x = Some p"
  shows "itemAt (items s) (secs s) p = Some x"
  using lookupSections_sound[OF assms] by (auto simp: itemAt_two)

lemma lookup_domain: "lookup_table s x \<noteq> None \<longleftrightarrow> x \<in> set (flat s)"
proof
  assume "lookup_table s x \<noteq> None"
  then obtain k j where "k < length (secs s)" "j < length (items s (secs s ! k))"
      "items s (secs s ! k) ! j = x"
    using lookupSections_sound[of s 0 "secs s" Map.empty x] by auto
  then show "x \<in> set (flat s)"
    unfolding flat_sections using nth_mem by fastforce
next
  assume "x \<in> set (flat s)"
  then show "lookup_table s x \<noteq> None"
    unfolding flat_sections by (intro lookupSections_complete) simp
qed

lemma rowFrom_concat:
  assumes "tot \<le> row"
  shows "rowFrom (items s) row tot ks =
    Inr (let xs = concat (map (items s) ks); r = nat (row - tot)
         in if r < length xs then Some (xs ! r) else None)"
  using assms
proof (induction ks arbitrary: tot)
  case Nil
  then show ?case by simp
next
  case (Cons a ks)
  show ?case
  proof (cases "row < tot + int (length (items s a))")
    case True
    then show ?thesis
      using Cons.prems by (auto simp: Let_def nth_append objectAtIndex_def)
  next
    case False
    then have "nat (row - tot) = length (items s a) + nat (row - (tot + int (length (items s a))))"
      using Cons.prems by linarith
    then show ?thesis
      using False Cons.IH[of "tot + int (length (items s a))"] by (simp add: Let_def nth_append)
  qed
qed

lemma row_lookup:
  "0 \<le> row \<Longrightarrow> rowFrom (items s) row 0 (secs s) =
     Inr (if nat row < item_count s then Some (flat s ! nat row) else None)"
  using rowFrom_concat[of 0 row s "secs s"] by (simp add: flat_sections count_flat Let_def)

lemma row_negative:
  "row < 0 \<Longrightarrow> rowFrom (items s) row 0 (secs s) =
     (if secs s = [] then Inr None else Inl NSRangeException)"
  by (cases "secs s") (auto simp: Let_def)

lemma rowOfItemFrom_index:
  "rowOfItemFrom (items s) x tot ks =
     map_option (\<lambda>i. tot + i) (indexOfObject x (concat (map (items s) ks)))"
proof (induction ks arbitrary: tot)
  case Nil
  then show ?case by simp
next
  case (Cons a ks)
  then show ?case
    by (cases "indexOfObject x (items s a)")
       (simp_all add: indexOfObject_append option.map_comp comp_def add.assoc
         del: indexOfObject_None)
qed

lemma row_of_item: "rowOfItemFrom (items s) x 0 (secs s) = indexOfObject x (flat s)"
  by (simp add: rowOfItemFrom_index flat_sections option.map_ident)

lemma rows_of_section:
  assumes "indexOfObject sec (secs s) = Some k"
  obtains start where "rowsOfSection (items s) (secs s) sec = {start ..< start + length (items s sec)}"
    and "take (length (items s sec)) (drop start (flat s)) = items s sec"
    and "start + length (items s sec) \<le> item_count s"
proof -
  have tot: "fold (\<lambda>k n. n + length (items s k)) ks n = n + length (concat (map (items s) ks))"
    for ks n by (induction ks arbitrary: n) auto
  let ?start = "length (concat (map (items s) (take k (secs s))))"
  have k: "k < length (secs s)" "secs s ! k = sec"
    using assms by (auto dest: indexOfObject_lt indexOfObject_nth)
  have "secs s = take k (secs s) @ sec # drop (Suc k) (secs s)"
    using take_drop_Suc[OF k(1)] k(2) by simp
  then have "flat s = concat (map (items s) (take k (secs s))) @ items s sec @
      concat (map (items s) (drop (Suc k) (secs s)))"
    unfolding flat_sections by (metis concat.simps(2) concat_append list.simps(9) map_append)
  then have "take (length (items s sec)) (drop ?start (flat s)) = items s sec"
      and "?start + length (items s sec) \<le> item_count s"
    by (simp_all add: count_flat)
  moreover have "rowsOfSection (items s) (secs s) sec = {?start ..< ?start + length (items s sec)}"
    using assms by (simp only: rowsOfSection_def tot option.case Let_def) simp
  ultimately show ?thesis
    using that by blast
qed

end

text \<open>The snapshot of the repository is such a provider.\<close>

interpretation snap: section_source
  sectionIdentifiers itemIdentifiersInSection itemIdentifiers numberOfItems
  by unfold_locales (simp_all add: itemIdentifiers_concat sectionIdentifiers_def numberOfItems_length)

subsection \<open>Properties of the data sources\<close>

lemma rebuilt_table:
  "identifierToIndexPath (rebuildIndexLookup ds) = snap.lookup_table (dsSnapshot ds)"
  by (simp add: rebuildIndexLookup_def)

text \<open>C23: After a rebuild the table knows exactly the items of the snapshot, and the path it
  gives for an item leads the query of either data source back to that item.\<close>

theorem lookup_roundtrip_both:
  "(indexPathForItemIdentifier x (rebuildIndexLookup ds) \<noteq> None \<longleftrightarrow>
      x \<in> set (itemIdentifiers (dsSnapshot ds))) \<and>
   (\<forall>p. indexPathForItemIdentifier x (rebuildIndexLookup ds) = Some p \<longrightarrow>
      cv_itemIdentifierForIndexPath (Some p) (rebuildIndexLookup ds) = Some x \<and>
      tv_itemIdentifierForIndexPath (Some p) (rebuildIndexLookup ds) = Some x)"
proof -
  have "dsSnapshot (rebuildIndexLookup ds) = dsSnapshot ds"
    by (simp add: rebuildIndexLookup_def)
  then show ?thesis
    using snap.lookup_domain[of "dsSnapshot ds" x] snap.lookup_roundtrip[of "dsSnapshot ds" x]
    by (simp add: indexPathForItemIdentifier_def rebuilt_table cv_itemIdentifierForIndexPath_def
        tv_itemIdentifierForIndexPath_def)
qed

theorem lookup_roundtrip_both_witness:
  "cv_itemIdentifierForIndexPath (Some [0, 1])
     (rebuildIndexLookup (initDataSource\<lparr>dsSnapshot :=
        \<lparr>sections = [Section (1::nat)], itemsBySection = [Section 1 \<mapsto> [''a'', ''b'']]\<rparr>\<rparr>)) = Some ''b''"
proof -
  let ?ds = "initDataSource\<lparr>dsSnapshot :=
      \<lparr>sections = [Section (1::nat)], itemsBySection = [Section 1 \<mapsto> [''a'', ''b'']]\<rparr>\<rparr>"
  have "indexPathForItemIdentifier ''b'' (rebuildIndexLookup ?ds) = Some [0, 1]"
    by (simp add: indexPathForItemIdentifier_def rebuildIndexLookup_def sectionIdentifiers_def
        itemIdentifiersInSection_def indexPathForItem_def)
  then show ?thesis
    using lookup_roundtrip_both[of "''b''" ?ds] by blast
qed

text \<open>The row queries of the table view data source agree with the flattened contents: a row
  inside the table answers the item at that position, a row past the end answers nothing, a
  negative row raises unless there is no section, and the row reloaded for an item is the first
  one that shows it.\<close>

lemma table_rows:
  "(0 \<le> row \<longrightarrow> tv_itemIdentifierForRow row ds =
      Inr (if nat row < tv_numberOfRows ds
           then Some (itemIdentifiers (dsSnapshot ds) ! nat row) else None)) \<and>
   (row < 0 \<longrightarrow> tv_itemIdentifierForRow row ds =
      (if sections (dsSnapshot ds) = [] then Inr None else Inl NSRangeException)) \<and>
   rowOfItemFrom (itemIdentifiersInSection (dsSnapshot ds)) x 0 (sectionIdentifiers (dsSnapshot ds)) =
      indexOfObject x (itemIdentifiers (dsSnapshot ds))"
  using snap.row_lookup[of row "dsSnapshot ds"] snap.row_negative[of row "dsSnapshot ds"]
    snap.row_of_item[of "dsSnapshot ds" x]
  by (simp add: tv_itemIdentifierForRow_def tv_numberOfRows_def sectionIdentifiers_def)

lemma table_rows_example:
  "tv_itemIdentifierForRow (-1) (initDataSource\<lparr>dsSnapshot :=
      \<lparr>sections = [Section (1::nat)], itemsBySection = [Section 1 \<mapsto> [''a'']]\<rparr>\<rparr>) = Inl NSRangeException"
  using table_rows[of "-1" "initDataSource\<lparr>dsSnapshot :=
      \<lparr>sections = [Section (1::nat)], itemsBySection = [Section 1 \<mapsto> [''a'']]\<rparr>\<rparr>"] by simp

text \<open>Applying a snapshot discards it: whatever snapshot is passed, the data source is left
  with an empty one, an empty lookup table and one reload message to its view.\<close>

lemma applySnapshot_discards:
  "itemIdentifiers (snapshotOf (applySnapshot snap animating ds)) = [] \<and>
   numberOfSections (snapshotOf (applySnapshot snap animating ds)) = 0 \<and>
   identifierToIndexPath (applySnapshot snap animating ds) = Map.empty \<and>
   sent (applySnapshot snap animating ds) = sent ds @ [ReloadData]"
  by (simp add: applySnapshot_def snapshotOf_def send_def rebuildIndexLookup_def copyWithZone_def
      sectionIdentifiers_def snapshot_init_def itemIdentifiers_def numberOfSections_def)

text \<open>While the client's block creates the item of a path, every request for the same path
  is refused without calling the block again and without touching the state, and when a block
  that leaves the other marks alone returns, no mark is left behind.\<close>

lemma creation_guard:
  assumes "path \<notin> creatingIndexPaths ds"
    and "\<And>p ident d. creatingIndexPaths (snd (block p ident d)) = creatingIndexPaths d"
  shows "(\<forall>d. path \<in> creatingIndexPaths d \<longrightarrow>
      cv_itemForRepresentedObject existing (Some block) path d = (None, d)) \<and>
    creatingIndexPaths (snd (cv_itemForRepresentedObject existing (Some block) path ds)) =
      creatingIndexPaths ds \<and>
    (existing = None \<and> cv_itemIdentifierForIndexPath (Some path) ds = Some ident \<longrightarrow>
      fst (cv_itemForRepresentedObject existing (Some block) path ds) =
      fst (block path ident (ds\<lparr>creatingIndexPaths := insert path (creatingIndexPaths ds)\<rparr>)))"
proof -
  have "creatingIndexPaths
      (snd (block path i (ds\<lparr>creatingIndexPaths := insert path (creatingIndexPaths ds)\<rparr>))) - {path} =
      creatingIndexPaths ds" for i
    using assms by auto
  then show ?thesis
    using assms(1)
    by (auto simp: cv_itemForRepresentedObject_def Let_def split_beta
        split: option.splits)
qed

lemma creation_guard_example:
  "fst (cv_itemForRepresentedObject None (Some (\<lambda>p ident d. (Some (ident, p), d))) [0, 0]
     (initDataSource\<lparr>dsSnapshot :=
        \<lparr>sections = [Section (1::nat)], itemsBySection = [Section 1 \<mapsto> [''a'']]\<rparr>\<rparr>)) =
   Some (''a'', [0, 0])"
proof -
  let ?ds = "initDataSource\<lparr>dsSnapshot :=
        \<lparr>sections = [Section (1::nat)], itemsBySection = [Section 1 \<mapsto> [''a'']]\<rparr>\<rparr>"
  have "[0, 0] \<notin> creatingIndexPaths ?ds"
    by (simp add: initDataSource_def)
  moreover have "cv_itemIdentifierForIndexPath (Some [0, 0]) ?ds = Some ''a''"
    by (simp add: cv_itemIdentifierForIndexPath_def itemAt_def sectionIdentifiers_def
        itemIdentifiersInSection_def)
  ultimately show ?thesis
    using creation_guard[of "[0, 0]" ?ds "\<lambda>p ident d. (Some (ident, p), d)" None "''a''"] by simp
qed

end
