(* ===== verification/TextEditing.thy ===== *)
theory TextEditing
  imports Foundation
begin

text \<open>
  \<open>NSTextStorage\<close> (\<open>Source/NSTextStorage.m\<close>): the bookkeeping of edits and the notification
  of observers and layout managers. The state is a record that the concrete storage extends.
  Observers, layout managers and the attribute fixing are the callers' code and may change the
  storage themselves, so they are state transformers bundled in a record of clients.
\<close>

unbundle bit_operations_syntax

subsection \<open>State and clients\<close>

record 'm editing =
  editCount :: "64 word"
  editedMask :: "64 word"
  editedRange :: nsrange
  editedDelta :: int
  layoutManagers :: "'m list"

definition NSTextStorageEditedAttributes :: "64 word" where
  "NSTextStorageEditedAttributes = 1"

definition NSTextStorageEditedCharacters :: "64 word" where
  "NSTextStorageEditedCharacters = 2"

record ('m, 's) clients =
  willProcess :: "'s \<Rightarrow> 's"
  didProcess :: "'s \<Rightarrow> 's"
  fixAttributes :: "nsrange \<Rightarrow> 's \<Rightarrow> 's"
  layoutEdited :: "'m \<Rightarrow> 64 word \<Rightarrow> nsrange \<Rightarrow> int \<Rightarrow> nsrange \<Rightarrow> 's \<Rightarrow> 's"
  setTextStorage :: "'m \<Rightarrow> bool \<Rightarrow> 's \<Rightarrow> 's"

text \<open>Clients that do nothing.\<close>

definition idle_clients :: "('m, 's) clients" where
  "idle_clients =
     \<lparr>willProcess = id, didProcess = id, fixAttributes = (\<lambda>r. id),
      layoutEdited = (\<lambda>m flags r d v. id), setTextStorage = (\<lambda>m b. id)\<rparr>"

text \<open>What the initialiser leaves in these fields: nothing edited, no layout manager.\<close>

definition editing_init :: "'m editing" where
  "editing_init =
     \<lparr>editCount = 0, editedMask = 0, editedRange = NSMakeRange 0 0, editedDelta = 0,
      layoutManagers = []\<rparr>"

subsection \<open>Layout managers\<close>

definition addLayoutManager ::
  "('m, ('m, 'z) editing_scheme) clients \<Rightarrow> 'm \<Rightarrow> ('m, 'z) editing_scheme \<Rightarrow>
   ('m, 'z) editing_scheme" where
  "addLayoutManager cl obj s =
     (if indexOfObject obj (layoutManagers s) = None
      then setTextStorage cl obj True (s\<lparr>layoutManagers := layoutManagers s @ [obj]\<rparr>)
      else s)"

definition removeLayoutManager ::
  "('m, ('m, 'z) editing_scheme) clients \<Rightarrow> 'm \<Rightarrow> ('m, 'z) editing_scheme \<Rightarrow>
   ('m, 'z) editing_scheme" where
  "removeLayoutManager cl obj s =
     (let s1 = setTextStorage cl obj False s
      in s1\<lparr>layoutManagers := removeObject obj (layoutManagers s1)\<rparr>)"

text \<open>
  The notification loop reads the array afresh in every turn, because a layout manager may
  change it; a layout manager that keeps adding others keeps the loop going for ever.
\<close>

partial_function (option) notifyLayoutManagers ::
  "('m, ('m, 'z) editing_scheme) clients \<Rightarrow> 64 word \<Rightarrow> nsrange \<Rightarrow> int \<Rightarrow> nsrange \<Rightarrow> nat \<Rightarrow>
   ('m, 'z) editing_scheme \<Rightarrow> ('m, 'z) editing_scheme option" where
  "notifyLayoutManagers cl flags r delta invalidated i s =
     (if i < length (layoutManagers s)
      then notifyLayoutManagers cl flags r delta invalidated (Suc i)
             (layoutEdited cl (layoutManagers s ! i) flags r delta invalidated s)
      else Some s)"

subsection \<open>Editing\<close>

definition beginEditing :: "('m, 'z) editing_scheme \<Rightarrow> ('m, 'z) editing_scheme" where
  "beginEditing s = s\<lparr>editCount := editCount s + 1\<rparr>"

text \<open>The range handed to the attribute fixing, cut off at the end of the text.\<close>

definition clampRange :: "nsrange \<Rightarrow> nat \<Rightarrow> nsrange" where
  "clampRange r n =
     (if n < NSMaxRange r then r\<lparr>len := u64 (int n - int (location r))\<rparr> else r)"

text \<open>
  The range handed to the layout managers: \<open>r\<close> adjusted by what the fixing added to or took
  from the text after the range was saved.
\<close>

definition adjustRange :: "nsrange \<Rightarrow> int \<Rightarrow> int \<Rightarrow> nat \<Rightarrow> nsrange" where
  "adjustRange r original_delta delta n =
     (if original_delta \<noteq> delta
      then if 0 < delta - original_delta
           then r\<lparr>len := u64 (int (len r) + (delta - original_delta))\<rparr>
           else if len r < u32 (original_delta - delta)
                then r\<lparr>len := 0, location := (if n < location r then n else location r)\<rparr>
                else r\<lparr>len := u64 (int (len r) + (delta - original_delta))\<rparr>
      else r)"

definition processEditing ::
  "('m, ('m, 'z) editing_scheme) clients \<Rightarrow> (('m, 'z) editing_scheme \<Rightarrow> nat) \<Rightarrow>
   ('m, 'z) editing_scheme \<Rightarrow> ('m, 'z) editing_scheme option" where
  "processEditing cl textLength s =
     (let s1 = willProcess cl (s\<lparr>editCount := editCount s + 1\<rparr>);
          r = clampRange (editedRange s1) (textLength s1);
          original_delta = editedDelta s1;
          s2 = didProcess cl (fixAttributes cl r s1);
          s3 = s2\<lparr>editCount := editCount s2 - 1\<rparr>;
          r' = adjustRange r original_delta (editedDelta s3) (textLength s3);
          s4 = s3\<lparr>editedRange := NSMakeRange 0 0, editedDelta := 0, editedMask := 0\<rparr>
      in notifyLayoutManagers cl (editedMask s3) r' (editedDelta s3) (editedRange s3) 0 s4)"

definition endEditing ::
  "('m, ('m, 'z) editing_scheme) clients \<Rightarrow> (('m, 'z) editing_scheme \<Rightarrow> nat) \<Rightarrow>
   ('m, 'z) editing_scheme \<Rightarrow> ('m, 'z) editing_scheme pstep" where
  "endEditing cl textLength s =
     (if editCount s = 0 then Some (Inl (NSGenericException, s))
      else let s1 = s\<lparr>editCount := editCount s - 1\<rparr>
           in if editCount s1 = 0 then map_option Inr (processEditing cl textLength s1)
              else Some (Inr s1))"

definition edited ::
  "('m, ('m, 'z) editing_scheme) clients \<Rightarrow> (('m, 'z) editing_scheme \<Rightarrow> nat) \<Rightarrow>
   64 word \<Rightarrow> nsrange \<Rightarrow> int \<Rightarrow> ('m, 'z) editing_scheme \<Rightarrow> ('m, 'z) editing_scheme pstep" where
  "edited cl textLength flags old delta s =
     (let s1 = s\<lparr>editedRange := (if editedMask s = 0 then old
                                 else NSUnionRange (editedRange s) old),
                 editedMask := editedMask s OR flags\<rparr>;
          finish = (\<lambda>t. if editCount t = 0 then map_option Inr (processEditing cl textLength t)
                        else Some (Inr t))
      in if flags AND NSTextStorageEditedCharacters \<noteq> 0 \<and> delta \<noteq> 0
         then if delta < 0 \<and> len old < u32 (- delta)
              then Some (Inl (NSInternalInconsistencyException, s1))
              else finish (s1\<lparr>editedRange := (editedRange s1)
                                \<lparr>len := u64 (int (len (editedRange s1)) + delta)\<rparr>,
                              editedDelta := editedDelta s1 + delta\<rparr>)
         else finish s1)"

subsection \<open>The notification loop\<close>

text \<open>
  A layout manager that leaves the array of layout managers alone is told once, in order, and
  the loop ends.
\<close>

definition managers_fixed :: "('m, ('m, 'z) editing_scheme) clients \<Rightarrow> bool" where
  "managers_fixed cl \<longleftrightarrow>
     (\<forall>m flags r d v s. layoutManagers (layoutEdited cl m flags r d v s) = layoutManagers s)"

lemma notifyLayoutManagers_from:
  assumes "managers_fixed cl"
  shows "notifyLayoutManagers cl flags r d v i s =
    Some (fold (\<lambda>m. layoutEdited cl m flags r d v) (drop i (layoutManagers s)) s)"
proof (induction "length (layoutManagers s) - i" arbitrary: i s)
  case 0
  then show ?case by (subst notifyLayoutManagers.simps) simp
next
  case (Suc n)
  let ?s = "layoutEdited cl (layoutManagers s ! i) flags r d v s"
  have managers: "layoutManagers ?s = layoutManagers s"
    using assms by (simp add: managers_fixed_def)
  from Suc.hyps(2) have i: "i < length (layoutManagers s)" by simp
  have "notifyLayoutManagers cl flags r d v (Suc i) ?s =
      Some (fold (\<lambda>m. layoutEdited cl m flags r d v) (drop (Suc i) (layoutManagers ?s)) ?s)"
    using Suc.hyps(2) managers by (intro Suc.hyps(1)) simp
  then show ?case
    using i managers
    by (subst notifyLayoutManagers.simps) (simp add: Cons_nth_drop_Suc [symmetric])
qed

lemmas notifyLayoutManagers_all = notifyLayoutManagers_from [where i = 0, simplified]

subsection \<open>Recorded edits\<close>

lemma edited_recorded:
  assumes "editCount s \<noteq> 0"
    and "flags AND NSTextStorageEditedCharacters \<noteq> 0 \<longrightarrow> 0 \<le> delta \<or> u32 (- delta) \<le> len old"
  shows "edited cl L flags old delta s =
    (let r = (if editedMask s = 0 then old else NSUnionRange (editedRange s) old);
         d = (if flags AND NSTextStorageEditedCharacters \<noteq> 0 then delta else 0)
     in Some (Inr (s\<lparr>editedRange := (if d = 0 then r else r\<lparr>len := u64 (int (len r) + d)\<rparr>),
                     editedMask := editedMask s OR flags,
                     editedDelta := editedDelta s + d\<rparr>)))"
  using assms by (auto simp: edited_def Let_def)

text \<open>
  What the recorded range promises: the text before the edits and the text after them agree in
  front of the range and behind it, and the recorded delta is the difference in length.
\<close>

definition covers :: "'c list \<Rightarrow> 'c list \<Rightarrow> ('m, 'z) editing_scheme \<Rightarrow> bool" where
  "covers t0 t s \<longleftrightarrow>
     (if editedMask s = 0 then t = t0 \<and> editedDelta s = 0
      else (let l = location (editedRange s); m = NSMaxRange (editedRange s);
                m0 = nat (int m - editedDelta s)
            in l \<le> m0 \<and> editedDelta s \<le> int m \<and> m0 \<le> length t0 \<and> m \<le> length t \<and>
               take l t = take l t0 \<and> drop m t = drop m0 t0))"

lemma coversD:
  fixes t0 t :: "'c list" and s :: "('m, 'z) editing_scheme"
  defines "m \<equiv> NSMaxRange (editedRange s)"
    and "m0 \<equiv> nat (int (NSMaxRange (editedRange s)) - editedDelta s)"
  assumes "covers t0 t s" and "editedMask s \<noteq> 0"
  shows "location (editedRange s) \<le> m0" and "int m0 = int m - editedDelta s"
    and "m0 \<le> length t0" and "m \<le> length t"
    and "take (location (editedRange s)) t = take (location (editedRange s)) t0"
    and "drop m t = drop m0 t0"
  using assms(3,4) unfolding covers_def Let_def m_def m0_def by auto

lemma covers_length:
  assumes "covers t0 t s"
  shows "int (length t) = int (length t0) + editedDelta s"
proof (cases "editedMask s = 0")
  case True
  then show ?thesis using assms by (simp add: covers_def)
next
  case False
  let ?m = "NSMaxRange (editedRange s)"
  let ?old_end = "nat (int ?m - editedDelta s)"
  note c = coversD[OF assms False]
  have "length t - ?m = length t0 - ?old_end"
    using c(6) by (metis length_drop)
  then show ?thesis using c(2,3,4) by linarith
qed

lemma covers_split:
  assumes "covers t0 t s" and "editedMask s \<noteq> 0"
  shows "\<exists>A X Y C. t0 = A @ X @ C \<and> t = A @ Y @ C \<and>
    length A = location (editedRange s) \<and> length Y = len (editedRange s) \<and>
    int (length Y) - int (length X) = editedDelta s"
proof -
  let ?l = "location (editedRange s)" and ?m = "NSMaxRange (editedRange s)"
  let ?old_end = "nat (int ?m - editedDelta s)"
  note b = coversD[OF assms]
  have m: "?m = ?l + len (editedRange s)" by (simp add: NSMaxRange_def)
  have split: "xs = take i xs @ drop i (take j xs) @ drop j xs" if "i \<le> j" for i j and xs :: "'a list"
    using that by (metis append.assoc append_take_drop_id min_absorb1 take_take)
  have "t0 = take ?l t @ drop ?l (take ?old_end t0) @ drop ?m t"
    using split[OF b(1), of t0] b(5,6) by simp
  moreover have "t = take ?l t @ drop ?l (take ?m t) @ drop ?m t"
    using m by (intro split) simp
  moreover have "length (take ?l t) = ?l" "length (drop ?l (take ?m t)) = len (editedRange s)"
      "int (length (drop ?l (take ?m t))) - int (length (drop ?l (take ?old_end t0))) = editedDelta s"
    using b m by auto
  ultimately show ?thesis by blast
qed

text \<open>Replacing the characters of \<open>old\<close> and recording it keeps the promise.\<close>

lemma covers_replace:
  assumes cov: "covers t0 t s"
    and old: "NSMaxRange old \<le> length t"
    and t': "t' = take (location old) t @ str @ drop (NSMaxRange old) t"
    and d: "d = int (length str) - int (len old)"
    and r: "r = (if editedMask s = 0 then old else NSUnionRange (editedRange s) old)"
    and s': "editedRange s' = r\<lparr>len := nat (int (len r) + d)\<rparr>" "editedMask s' \<noteq> 0"
      "editedDelta s' = editedDelta s + d"
  shows "covers t0 t' s'"
proof -
  let ?mB = "NSMaxRange old"
  have m2: "?mB = location old + len old" by (simp add: NSMaxRange_def)
  have shift: "drop (nat (int m + d)) t' = drop m t" if "?mB \<le> m" for m
  proof -
    have l: "length (take (location old) t @ str) = nat (int ?mB + d)"
      using old m2 d by simp
    have "nat (int m + d) = length (take (location old) t @ str) + (m - ?mB)"
      unfolding l using that d m2 by simp
    then have "drop (nat (int m + d)) t' = drop (m - ?mB) (drop ?mB t)"
      unfolding t' by (simp add: drop_append)
    then show ?thesis using that by simp
  qed
  have front: "take l t' = take l t" if "l \<le> location old" for l
    using that old m2 unfolding t' by simp
  have len': "int (length t') = int (length t) + d"
    using old m2 d unfolding t' by simp
  show ?thesis
  proof (cases "editedMask s = 0")
    case True
    then have [simp]: "t = t0" "editedDelta s = 0" "r = old"
      using cov r by (simp_all add: covers_def)
    have max': "NSMaxRange (editedRange s') = nat (int ?mB + d)"
      using s'(1) m2 d by (simp add: NSMaxRange_def)
    have "nat (int ?mB + d) \<le> length t'"
      using old len' by linarith
    moreover have "int ?mB + d \<ge> 0" using d m2 by simp
    ultimately show ?thesis
      using s' max' shift[of ?mB] front[of "location old"] old m2
      by (simp add: covers_def Let_def nat_int_add)
  next
    case False
    let ?mA = "NSMaxRange (editedRange s)" and ?lA = "location (editedRange s)"
    let ?endA = "nat (int ?mA - editedDelta s)"
    note c = coversD[OF cov False]
    let ?l = "min ?lA (location old)" and ?m = "max ?mA ?mB"
    have r': "r = NSUnionRange (editedRange s) old" using False r by simp
    have rr: "location r = ?l" "NSMaxRange r = ?m"
      unfolding r' by (simp_all add: NSMaxRange_union)
    have lr: "len r = ?m - ?l" using rr by (simp add: NSMaxRange_def)
    have lm: "?l \<le> location old" "location old \<le> ?mB" "?mB \<le> ?m" using m2 by auto
    have max': "NSMaxRange (editedRange s') = nat (int ?m + d)"
    proof -
      have "int (len r) = int ?m - int ?l" "int (len old) \<le> int ?m - int ?l"
        using lr lm m2 by linarith+
      then have "int (?l + nat (int (len r) + d)) = int ?m + d"
        using d by linarith
      moreover have "location (editedRange s') = ?l"
        using s'(1) rr(1) by simp
      ultimately have "location (editedRange s') + nat (int (len r) + d) = nat (int ?m + d)"
        by (metis nat_int)
      then show ?thesis using s'(1) by (simp add: NSMaxRange_def)
    qed
    have "take ?l t' = take ?l t0"
      using front[OF lm(1)] c(5) by (metis min.commute take_take)
    moreover have "drop (nat (int ?m + d)) t' = drop (nat (int ?m - editedDelta s)) t0"
    proof -
      have "drop ?m t = drop (?m - ?mA) (drop ?mA t)" by simp
      also have "\<dots> = drop (?m - ?mA + ?endA) t0" using c(6) by simp
      also have "?m - ?mA + ?endA = nat (int ?m - editedDelta s)" using c(2) by linarith
      finally show ?thesis using shift[OF lm(3)] by simp
    qed
    moreover have "int (length t) = int (length t0) + editedDelta s"
      using covers_length[OF cov] .
    moreover have "nat (int ?m + d) \<le> length t'" "0 \<le> int ?m + d"
      using len' old c(4) d m2 by auto
    moreover have "nat (int (nat (int ?m + d)) - (editedDelta s + d)) = nat (int ?m - editedDelta s)"
      using calculation(5) by simp
    moreover have "?l \<le> nat (int ?m - editedDelta s)" "0 \<le> int ?m - editedDelta s"
        "nat (int ?m - editedDelta s) \<le> length t0"
    proof -
      have "?mA \<le> ?m" "?m \<le> length t" "?l \<le> ?lA"
        using c(4) old by auto
      then show "0 \<le> int ?m - editedDelta s" and "?l \<le> nat (int ?m - editedDelta s)"
        and "nat (int ?m - editedDelta s) \<le> length t0"
        using c(1,2,3) covers_length[OF cov] by linarith+
    qed
    ultimately show ?thesis
      using s' max' rr(1) by (simp add: covers_def Let_def)
  qed
qed

subsection \<open>Layout managers\<close>

lemma addLayoutManager_distinct [inv_intros]:
  assumes "distinct (layoutManagers s)"
    and "\<And>s. layoutManagers (setTextStorage cl obj True s) = layoutManagers s"
  shows "distinct (layoutManagers (addLayoutManager cl obj s))"
  using assms by (auto simp: addLayoutManager_def)

lemma removeLayoutManager_distinct [inv_intros]:
  assumes "distinct (layoutManagers s)"
    and "\<And>s. layoutManagers (setTextStorage cl obj False s) = layoutManagers s"
  shows "distinct (layoutManagers (removeLayoutManager cl obj s))"
    and "obj \<notin> set (layoutManagers (removeLayoutManager cl obj s))"
  using assms by (auto simp: removeLayoutManager_def Let_def)

subsection \<open>Properties of the editing protocol\<close>

text \<open>A pair of begin and end brackets around nothing changes nothing while an outer bracket is
  open, and processes the pending edits exactly when it is the outermost one; an end without a
  begin raises and changes nothing.\<close>

lemma editing_brackets:
  "endEditing cl L (beginEditing s) =
     (if editCount s = - 1 then Some (Inl (NSGenericException, beginEditing s))
      else if editCount s = 0 then map_option Inr (processEditing cl L s)
      else Some (Inr s)) \<and>
   endEditing cl L (s\<lparr>editCount := 0\<rparr>) = Some (Inl (NSGenericException, s\<lparr>editCount := 0\<rparr>))"
proof -
  have "editCount s + 1 = 0 \<longleftrightarrow> editCount s = - 1"
    by (metis add.inverse_unique add.right_inverse add.commute)
  then show ?thesis
    by (simp add: endEditing_def beginEditing_def)
qed

text \<open>When the outermost bracket is closed and neither observers nor the attribute fixing edit
  the text, every layout manager is told once, in order, of the accumulated flags, range and
  change in length, and the storage has forgotten the edits before the first of them is told.\<close>

lemma outermost_end_notifies:
  assumes "editCount s = 1" and "managers_fixed cl"
    and "\<And>t. willProcess cl t = t" and "\<And>r t. fixAttributes cl r t = t"
    and "\<And>t. didProcess cl t = t"
    and "NSMaxRange (editedRange s) \<le> L s" and "\<And>t c. L (t\<lparr>editCount := c\<rparr>) = L t"
  shows "endEditing cl L s =
    Some (Inr (fold (\<lambda>m. layoutEdited cl m (editedMask s) (editedRange s) (editedDelta s)
                           (editedRange s))
                    (layoutManagers s)
                    (s\<lparr>editCount := 0, editedRange := NSMakeRange 0 0, editedDelta := 0,
                       editedMask := 0\<rparr>)))"
  using assms(1,6)
  by (simp add: endEditing_def processEditing_def Let_def assms(3-5,7) clampRange_def
      adjustRange_def notifyLayoutManagers_all[OF assms(2)])

text \<open>A layout manager that notes in the delta which managers were told.\<close>

lemma outermost_end_notifies_example:
  defines "cl \<equiv> \<lparr>willProcess = id, didProcess = id, fixAttributes = (\<lambda>r. id),
      layoutEdited = (\<lambda>m flags r d v s. s\<lparr>editedDelta := 10 * editedDelta s + m + d\<rparr>),
      setTextStorage = (\<lambda>m b. id)\<rparr> :: (int, int editing) clients"
  defines "s \<equiv> \<lparr>editCount = 1, editedMask = 2, editedRange = NSMakeRange 0 3, editedDelta = 1,
      layoutManagers = [4, 7]\<rparr> :: int editing"
  shows "endEditing cl (\<lambda>_. 3) s = Some (Inr \<lparr>editCount = 0, editedMask = 0,
      editedRange = NSMakeRange 0 0, editedDelta = 58, layoutManagers = [4, 7]\<rparr>)"
  by (subst outermost_end_notifies) (simp_all add: cl_def s_def managers_fixed_def)

text \<open>C27: The range the layout managers are given lies inside the text as it is after the
  attribute fixing, however many characters the fixing added or took, when the range saved
  before it was inside the text as it was then.\<close>

theorem adjusted_range_in_text:
  assumes "NSMaxRange r \<le> n" and "int n' = int n + (delta - original_delta)"
    and "n < 2 ^ 31" and "n' < 2 ^ 31"
  shows "NSMaxRange (adjustRange r original_delta delta n') \<le> n'"
proof -
  have m: "location r + len r \<le> n"
    using assms(1) by (simp add: NSMaxRange_def)
  have "u32 (original_delta - delta) = nat (original_delta - delta)" if "delta < original_delta"
    using that assms(2,3,4) by (intro u32_small) simp_all
  moreover have "u64 (int (len r) + (delta - original_delta)) =
      nat (int (len r) + (delta - original_delta))"
    if "0 \<le> int (len r) + (delta - original_delta)"
    using that assms m by (intro u64_small) simp_all
  ultimately show ?thesis
    using m assms(2) by (auto simp: adjustRange_def NSMaxRange_def)
qed

theorem adjusted_range_in_text_witness:
  "NSMaxRange (adjustRange (NSMakeRange 4 6) 0 (-3) 7) \<le> 7 \<and>
   adjustRange (NSMakeRange 4 6) 0 (-3) 7 = NSMakeRange 4 3"
  using adjusted_range_in_text[of "NSMakeRange 4 6" 10 7 "-3" 0]
  by (simp add: adjustRange_def u32_def u64_def NSMakeRange_def NSMaxRange_def)

end
