(* ===== verification/TextRuns.thy ===== *)
theory TextRuns
  imports Foundation
begin

text \<open>
  The runs of attributes of \<open>Source/GSTextStorage.m\<close>: an array of \<open>GSTextInfo\<close> objects, each
  with the position at which its attributes start, and the binary search for the run a
  character lies in. The lemmas show that the search finds the run, and how inserting a run
  and moving runs changes the attributes of every character.
\<close>

subsection \<open>Attributes and runs\<close>

type_synonym 'v attrs = "string \<rightharpoonup> 'v"

record 'v text_info =
  loc :: nat
  attrs :: "'v attrs"

text \<open>
  The loop of the binary search. \<open>low\<close>, \<open>high\<close> and \<open>cnt\<close> are \<open>unsigned\<close>, so that stepping
  below the first run wraps around. The answer is the index of the run found and the position
  at which the next one starts.
\<close>

partial_function (option) binarySearch ::
  "'v text_info list \<Rightarrow> nat \<Rightarrow> nat \<Rightarrow> nat \<Rightarrow> nat \<Rightarrow> (nat \<times> nat) res option" where
  "binarySearch infos index tmpLength low high =
     (if low \<le> high
      then let cnt = u32 (int low + int high) div 2
           in if cnt < length infos
              then if index < loc (infos ! cnt)
                   then binarySearch infos index tmpLength low (u32 (int cnt - 1))
                   else let nextLoc = (if length infos - 1 \<le> cnt then tmpLength
                                       else loc (infos ! (cnt + 1)))
                        in if loc (infos ! cnt) = index \<or> index < nextLoc
                           then Some (Inr (cnt, nextLoc))
                           else binarySearch infos index tmpLength (u32 (int cnt + 1)) high
              else Some (Inl NSRangeException)
      else Some (Inl NSInternalInconsistencyException))"

definition attributesAtIndexEffectiveRange ::
  "nat \<Rightarrow> nat \<Rightarrow> 'v text_info list \<Rightarrow> ('v attrs \<times> nsrange \<times> nat) res option" where
  "attributesAtIndexEffectiveRange index tmpLength infos =
     (if infos = [] then Some (Inl NSInternalInconsistencyException)
      else if tmpLength \<le> index
      then if index = tmpLength
           then let high = length infos - 1; found = infos ! high
                in Some (Inr (attrs found,
                              NSMakeRange (loc found) (u32 (int tmpLength - int (loc found))), high))
           else Some (Inl NSRangeException)
      else (case binarySearch infos index tmpLength 0 (length infos - 1) of
              None \<Rightarrow> None
            | Some (Inl e) \<Rightarrow> Some (Inl e)
            | Some (Inr (cnt, nextLoc)) \<Rightarrow>
                let found = infos ! cnt
                in Some (Inr (attrs found,
                              NSMakeRange (loc found) (u32 (int nextLoc - int (loc found))), cnt))))"

subsection \<open>Well formed runs\<close>

text \<open>What \<open>_sanity\<close> asserts: the runs start at 0 and their positions increase inside the text.\<close>

definition sanity :: "'v text_info list \<Rightarrow> nat \<Rightarrow> bool" where
  "sanity infos n \<longleftrightarrow>
     infos \<noteq> [] \<and> loc (hd infos) = 0 \<and> sorted_wrt (<) (map loc infos) \<and>
     (\<forall>x \<in> set (tl infos). loc x < n)"

text \<open>The attributes of the character at \<open>i\<close>: those of the last run that starts at or before it.\<close>

definition attr_of :: "'v text_info list \<Rightarrow> nat \<Rightarrow> 'v attrs" where
  "attr_of infos i = attrs (last (takeWhile (\<lambda>x. loc x \<le> i) infos))"

definition end_of :: "'v text_info list \<Rightarrow> nat \<Rightarrow> nat" where
  "end_of post n = (case post of [] \<Rightarrow> n | y # ys \<Rightarrow> loc y)"

lemma end_of_simps [simp]: "end_of [] n = n" "end_of (y # ys) n = loc y"
  by (simp_all add: end_of_def)

lemma sorted_runs_append:
  "sorted_wrt (<) (map loc (A @ B)) \<longleftrightarrow>
     sorted_wrt (<) (map loc A) \<and> sorted_wrt (<) (map loc B) \<and>
     (\<forall>x \<in> set A. \<forall>y \<in> set B. loc x < loc y)"
  by (auto simp: sorted_wrt_append)

lemma attr_of_left:
  "(\<And>y. y \<in> set B \<Longrightarrow> i < loc y) \<Longrightarrow> attr_of (A @ B) i = attr_of A i"
proof -
  assume "\<And>y. y \<in> set B \<Longrightarrow> i < loc y"
  then have "takeWhile (\<lambda>x. loc x \<le> i) B = []"
    by (cases B) (auto simp: not_le)
  then have "takeWhile (\<lambda>x. loc x \<le> i) (A @ B) = takeWhile (\<lambda>x. loc x \<le> i) A"
    by (induction A) auto
  then show ?thesis by (simp add: attr_of_def)
qed

lemma attr_of_right:
  assumes "\<And>x. x \<in> set A \<Longrightarrow> loc x \<le> i" and "loc x \<le> i"
  shows "attr_of (A @ x # B) i = attr_of (x # B) i"
proof -
  have "takeWhile (\<lambda>x. loc x \<le> i) (A @ x # B) = A @ takeWhile (\<lambda>x. loc x \<le> i) (x # B)"
    using assms(1) by (intro takeWhile_append2) auto
  then show ?thesis using assms(2) by (simp add: attr_of_def)
qed

lemma dropWhile_from:
  "sorted_wrt (<) (map loc ys) \<Longrightarrow> y \<in> set (dropWhile (\<lambda>x. loc x < b) ys) \<Longrightarrow> b \<le> loc y"
  by (induction ys) (auto simp: not_less split: if_splits intro: order.trans less_imp_le)

text \<open>The attributes a split of the runs gives to the positions of its middle run.\<close>

lemma attr_of_mid:
  assumes "\<And>y. y \<in> set A \<Longrightarrow> loc y \<le> i" and "loc x \<le> i" and "\<And>y. y \<in> set B \<Longrightarrow> i < loc y"
  shows "attr_of (A @ x # B) i = attrs x"
proof -
  have "attr_of (A @ x # B) i = attr_of ([x] @ B) i"
    using attr_of_right[OF assms(1,2)] by simp
  also have "\<dots> = attr_of [x] i"
    using assms(3) by (rule attr_of_left)
  finally show ?thesis using assms(2) by (simp add: attr_of_def)
qed

text \<open>Every position of the text lies in one run.\<close>

lemma run_split:
  assumes "sanity infos n"
  obtains pre x post where "infos = pre @ x # post" and "loc x \<le> i"
    and "\<And>y. y \<in> set pre \<Longrightarrow> loc y < loc x" and "\<And>y. y \<in> set post \<Longrightarrow> i < loc y"
    and "\<And>y. y \<in> set post \<Longrightarrow> loc x < loc y" and "attr_of infos i = attrs x"
proof -
  let ?P = "\<lambda>x. loc x \<le> i"
  have "takeWhile ?P infos \<noteq> []"
    using assms by (cases infos) (auto simp: sanity_def)
  then obtain pre x where px: "takeWhile ?P infos = pre @ [x]"
    by (metis append_butlast_last_id)
  let ?post = "dropWhile ?P infos"
  have eq: "infos = pre @ x # ?post"
    by (metis append.assoc append_Cons append_Nil px takeWhile_dropWhile_id)
  have "x \<in> set (takeWhile ?P infos)" using px by simp
  then have x: "loc x \<le> i" by (metis set_takeWhileD)
  have sorted: "sorted_wrt (<) (map loc (pre @ x # ?post))"
    using assms eq by (simp add: sanity_def)
  have pre: "loc y < loc x" if "y \<in> set pre" for y
    using sorted that by (auto simp: sorted_wrt_append)
  have post': "loc x < loc y" if "y \<in> set ?post" for y
    using sorted that by (auto simp: sorted_wrt_append)
  have post: "i < loc y" if "y \<in> set ?post" for y
  proof (cases ?post)
    case Nil
    then show ?thesis using that by (metis empty_iff empty_set)
  next
    case (Cons z zs)
    then have "\<not> loc z \<le> i" by (metis hd_dropWhile list.sel(1) list.distinct(1))
    moreover have "loc z \<le> loc y"
      using sorted that Cons by (auto simp: sorted_wrt_append)
    ultimately show ?thesis by simp
  qed
  have "attr_of infos i = attrs x" using px by (simp add: attr_of_def)
  then show ?thesis using that eq x pre post post' by blast
qed

lemma sanity_lengths:
  assumes "sanity infos n"
  shows "length infos \<le> max 1 n"
proof (cases "length infos \<le> 1")
  case True
  then show ?thesis by simp
next
  case False
  then obtain x y ys where infos: "infos = x # y # ys"
    by (metis One_nat_def le_add1 length_Cons list.exhaust list.size(3) plus_1_eq_Suc zero_le)
  then have "set (map loc infos) \<subseteq> {0..<n}"
    using assms by (auto simp: sanity_def)
  then have "card (set (map loc infos)) \<le> n"
    using card_mono[of "{0..<n}" "set (map loc infos)"] by simp
  moreover have "distinct (map loc infos)"
    using assms by (auto simp: sanity_def strict_sorted_iff)
  ultimately show ?thesis
    by (metis distinct_card length_map max.coboundedI2)
qed

lemma sanity_split:
  "sanity (pre @ x # post) n \<longleftrightarrow>
     sorted_wrt (<) (map loc (pre @ x # post)) \<and> loc (hd (pre @ [x])) = 0 \<and>
     (\<forall>y \<in> set (tl (pre @ [x])). loc y < n) \<and> (\<forall>y \<in> set post. loc y < n)"
  by (cases pre) (auto simp: sanity_def)

subsection \<open>The search finds the run\<close>

lemma mid_bounds:
  fixes low high :: nat
  assumes "low \<le> high" and "high < 2 ^ 31"
  shows "u32 (int low + int high) div 2 = (low + high) div 2"
  using assms by (simp add: u32_small nat_add_distrib)

lemma binarySearch_finds:
  assumes sane: "sanity infos n" and infos: "infos = pre @ x # post"
    and x: "loc x \<le> i" "i < end_of post n" and small: "length infos < 2 ^ 31"
    and "low \<le> length pre" and "length pre \<le> high" and "high < length infos"
  shows "binarySearch infos i n low high = Some (Inr (length pre, end_of post n))"
  using assms(6-8)
proof (induction "high - low" arbitrary: low high rule: less_induct)
  case less
  let ?c = "(low + high) div 2"
  have c: "low \<le> ?c" "?c \<le> high" "?c < length infos"
    using less.prems by auto
  have cnt: "u32 (int low + int high) div 2 = ?c"
    using less.prems small by (intro mid_bounds) auto
  have sorted: "loc (infos ! j) < loc (infos ! k)" if "j < k" "k < length infos" for j k
    using sane that by (auto simp: sanity_def sorted_wrt_iff_nth_less)
  have pre: "infos ! length pre = x"
    by (simp add: infos)
  have next': "end_of post n = (if length infos - 1 \<le> length pre then n
      else loc (infos ! (length pre + 1)))"
    by (cases post) (auto simp: infos nth_append)
  consider "?c < length pre" | "?c = length pre" | "length pre < ?c" by linarith
  then show ?case
  proof cases
    case 1
    have "loc (infos ! (?c + 1)) \<le> loc x"
      using 1 sorted[of "?c + 1" "length pre"] pre infos by (cases "?c + 1 = length pre") auto
    moreover have "loc (infos ! ?c) < loc x"
      using 1 sorted[of ?c "length pre"] pre infos by auto
    moreover have "u32 (int ?c + 1) = Suc ?c"
      using c small by (simp add: u32_small)
    moreover have "binarySearch infos i n (Suc ?c) high = Some (Inr (length pre, end_of post n))"
      using less.prems 1 by (intro less.hyps) auto
    ultimately show ?thesis
      using c cnt x(1) 1 infos less.prems by (subst binarySearch.simps) (auto simp: Let_def)
  next
    case 2
    then show ?thesis
      using c cnt x pre next' less.prems
      by (subst binarySearch.simps) (auto simp: Let_def)
  next
    case 3
    have gt: "i < loc (infos ! ?c)"
    proof -
      have "end_of post n = loc (infos ! (length pre + 1))"
      proof -
        have "\<not> length infos - 1 \<le> length pre"
          using 3 c(3) by linarith
        then show ?thesis using next' by simp
      qed
      also have "\<dots> \<le> loc (infos ! ?c)"
        using 3 c(3) sorted[of "length pre + 1" ?c] by (cases "length pre + 1 = ?c") auto
      finally show ?thesis using x(2) by simp
    qed
    have "u32 (int ?c - 1) = ?c - 1"
      using 3 c small by (simp add: u32_small nat_diff_distrib)
    moreover have "binarySearch infos i n low (?c - 1) = Some (Inr (length pre, end_of post n))"
      using less.prems 3 c by (intro less.hyps) auto
    ultimately show ?thesis
      using c cnt gt less.prems by (subst binarySearch.simps) (auto simp: Let_def)
  qed
qed

text \<open>
  The search on well formed runs always answers: the run of the character, the last run at the
  end of the text, and a range exception beyond it.
\<close>

lemma search_finds:
  assumes "sanity infos n" and "n < 2 ^ 31" and "i < n"
    and "infos = pre @ x # post" and "loc x \<le> i" and "i < end_of post n"
  shows "attributesAtIndexEffectiveRange i n infos =
    Some (Inr (attrs x, NSMakeRange (loc x) (end_of post n - loc x), length pre))"
proof -
  have "length infos < 2 ^ 31"
    using sanity_lengths[OF assms(1)] assms(2) by auto
  moreover have "end_of post n \<le> n"
    using assms(1,4) by (cases post) (auto simp: sanity_split)
  then have "u32 (int (end_of post n) - int (loc x)) = end_of post n - loc x"
    using assms(2,5,6) by (subst u32_small) auto
  moreover have "binarySearch infos i n 0 (length infos - 1) = Some (Inr (length pre, end_of post n))"
    if "length infos < 2 ^ 31"
    using binarySearch_finds[OF assms(1,4,5,6) that] assms(4) by simp
  ultimately show ?thesis
    using assms by (auto simp: attributesAtIndexEffectiveRange_def Let_def)
qed

lemma search_end:
  assumes "sanity infos n" and "n < 2 ^ 31"
  shows "attributesAtIndexEffectiveRange n n infos =
    Some (Inr (attrs (last infos), NSMakeRange (loc (last infos)) (n - loc (last infos)),
               length infos - 1))"
proof -
  obtain xs x where infos: "infos = xs @ [x]"
    using assms(1) by (metis append_butlast_last_id sanity_def)
  have "loc x \<le> n"
    using assms(1) by (cases xs) (auto simp: infos sanity_def)
  then have "u32 (int n - int (loc x)) = n - loc x"
    using assms(2) by (subst u32_small) auto
  then show ?thesis
    by (simp add: attributesAtIndexEffectiveRange_def infos Let_def)
qed

lemma search_beyond:
  "infos \<noteq> [] \<Longrightarrow> n < i \<Longrightarrow>
     attributesAtIndexEffectiveRange i n infos = Some (Inl NSRangeException)"
  by (simp add: attributesAtIndexEffectiveRange_def)

subsection \<open>Laying a run over others\<close>

text \<open>
  The runs after attributes \<open>d\<close> were given to the characters from \<open>b\<close> up to the runs \<open>tail\<close>:
  the runs of \<open>ys\<close> that start in front of \<open>b\<close> stay, and a new run is added unless the last of
  them has these attributes already.
\<close>

definition stage :: "nat \<Rightarrow> 'v attrs \<Rightarrow> 'v text_info list \<Rightarrow> 'v text_info list \<Rightarrow> 'v text_info list" where
  "stage b d ys tail =
     (let P = takeWhile (\<lambda>x. loc x < b) ys
      in if P = ys \<and> attrs (last ys) = d then ys @ tail
         else P @ \<lparr>loc = b, attrs = d\<rparr> # tail)"

lemma last_run:
  assumes "sanity (ys @ tail) n" and "ys \<noteq> []" and "loc (last ys) \<le> i" and "i < end_of tail n"
  shows "attr_of (ys @ tail) i = attrs (last ys)"
proof -
  obtain xs x where ys: "ys = xs @ [x]"
    using assms(2) by (metis append_butlast_last_id)
  have sorted: "sorted_wrt (<) (map loc (xs @ x # tail))"
    using assms(1) by (simp add: sanity_def ys)
  then have "loc y \<le> i" if "y \<in> set xs" for y
    using that assms(3) by (fastforce simp: sorted_wrt_append ys)
  moreover have "i < loc y" if "y \<in> set tail" for y
    using that sorted assms(4) by (cases tail) (auto simp: sorted_wrt_append)
  ultimately show ?thesis
    using attr_of_mid[of xs i x tail] assms(3) by (simp add: ys)
qed

lemma attr_of_tail:
  assumes "sorted_wrt (<) (map loc (A @ tail))" and "end_of tail n \<le> i" and "i < n"
  shows "attr_of (A @ tail) i = attr_of tail i"
proof (cases tail)
  case Nil
  then show ?thesis using assms by simp
next
  case (Cons y ys)
  have "loc x \<le> i" if "x \<in> set A" for x
    using assms that by (fastforce simp: Cons sorted_wrt_append)
  then show ?thesis
    using assms(2) by (simp add: Cons attr_of_right)
qed

lemma stage_runs:
  assumes sane: "sanity (ys @ tail) n" and ys: "ys \<noteq> []" and b: "b < end_of tail n"
  shows "sanity (stage b d ys tail) n"
    and "\<And>i. i < n \<Longrightarrow> attr_of (stage b d ys tail) i =
           (if b \<le> i \<and> i < end_of tail n then d else attr_of (ys @ tail) i)"
proof -
  define P Q where "P = takeWhile (\<lambda>x. loc x < b) ys" and "Q = dropWhile (\<lambda>x. loc x < b) ys"
  have PQ: "ys = P @ Q" by (simp add: P_def Q_def)
  have sorted: "sorted_wrt (<) (map loc (P @ Q @ tail))"
    using sane by (simp add: sanity_def PQ)
  have P: "loc y < b" if "y \<in> set P" for y
    using that by (auto simp: P_def dest: set_takeWhileD)
  have Q: "b \<le> loc y" if "y \<in> set Q" for y
    using that sane unfolding Q_def sanity_def
    by (intro dropWhile_from[of ys]) (simp_all add: sorted_wrt_append)
  have T: "end_of tail n \<le> loc y" if "y \<in> set tail" for y
    using that sorted by (cases tail) (auto simp: sorted_wrt_append)
  have en: "end_of tail n \<le> n"
    using sane ys by (cases tail; cases ys) (auto simp: sanity_def)
  have front: "attr_of (P @ \<lparr>loc = b, attrs = d\<rparr> # tail) i = attr_of (ys @ tail) i" if "i < b" for i
    using that Q T b by (fastforce simp: PQ intro!: attr_of_left [THEN trans] attr_of_left [symmetric])
  have new: "sorted_wrt (<) (map loc (P @ \<lparr>loc = b, attrs = d\<rparr> # tail))"
    using sorted P T b by (fastforce simp: sorted_wrt_append)
  have hd0: "b = 0" if "P = []"
    using that Q[of "hd Q"] ys sane by (cases Q) (auto simp: PQ sanity_def)
  show "sanity (stage b d ys tail) n"
  proof (cases "P = ys \<and> attrs (last ys) = d")
    case True
    then show ?thesis using sane by (simp add: stage_def P_def [symmetric])
  next
    case False
    have "sanity (P @ \<lparr>loc = b, attrs = d\<rparr> # tail) n"
      unfolding sanity_split using new hd0 sane ys b en
      by (cases P) (auto simp: PQ sanity_def)
    then show ?thesis using False sane by (simp add: stage_def P_def [symmetric])
  qed
  fix i assume i: "i < n"
  show "attr_of (stage b d ys tail) i =
      (if b \<le> i \<and> i < end_of tail n then d else attr_of (ys @ tail) i)"
  proof (cases "P = ys \<and> attrs (last ys) = d")
    case True
    have "loc (last ys) < b" using True P ys by simp
    then have "attr_of (ys @ tail) i = d" if "b \<le> i" "i < end_of tail n"
      using last_run[OF sane ys, of i] that True by simp
    then show ?thesis using True by (simp add: stage_def P_def [symmetric])
  next
    case False
    then have st: "stage b d ys tail = P @ \<lparr>loc = b, attrs = d\<rparr> # tail"
      by (simp add: stage_def P_def [symmetric])
    consider "i < b" | "b \<le> i" "i < end_of tail n" | "end_of tail n \<le> i" by linarith
    then show ?thesis
    proof cases
      case 1
      then show ?thesis using front st by simp
    next
      case 2
      have "attr_of (P @ \<lparr>loc = b, attrs = d\<rparr> # tail) i = attrs \<lparr>loc = b, attrs = d\<rparr>"
        using 2 P T by (intro attr_of_mid) fastforce+
      then show ?thesis using 2 st by simp
    next
      case 3
      have "attr_of ((P @ [\<lparr>loc = b, attrs = d\<rparr>]) @ tail) i = attr_of tail i"
        using new by (intro attr_of_tail[OF _ 3 i]) simp
      moreover have "attr_of (ys @ tail) i = attr_of tail i"
        using sane by (intro attr_of_tail[OF _ 3 i]) (simp add: sanity_def)
      ultimately show ?thesis using 3 b st by simp
    qed
  qed
qed

subsection \<open>Moving and splitting a run\<close>

lemma attr_of_swap:
  assumes "attrs x = attrs y" and "loc x \<le> i" and "loc y \<le> i"
    and "\<And>z. z \<in> set A \<Longrightarrow> loc z \<le> i" and "\<And>z. z \<in> set B \<Longrightarrow> loc z \<le> i"
  shows "attr_of (A @ x # post) i = attr_of (B @ y # post) i"
proof -
  have "attr_of (A @ x # post) i = attr_of (x # post) i"
    using assms by (intro attr_of_right) auto
  also have "\<dots> = attr_of (y # post) i"
    using assms(1-3) by (simp add: attr_of_def)
  also have "\<dots> = attr_of (B @ y # post) i"
    using assms by (intro attr_of_right [symmetric]) auto
  finally show ?thesis .
qed

lemma move_run:
  assumes "sanity (pre @ x # post) n" and "loc x \<le> a" and "a < end_of post n"
    and "pre \<noteq> []"
  shows "sanity (pre @ x\<lparr>loc := a\<rparr> # post) n"
    and "\<And>i. i < loc x \<or> a \<le> i \<Longrightarrow>
           attr_of (pre @ x\<lparr>loc := a\<rparr> # post) i = attr_of (pre @ x # post) i"
proof -
  have pre: "loc y < loc x" if "y \<in> set pre" for y
    using assms(1) that by (auto simp: sanity_def sorted_wrt_append)
  have post: "a < loc y" if "y \<in> set post" for y
    using assms(1,3) that by (cases post) (fastforce simp: sanity_def sorted_wrt_append)+
  have "end_of post n \<le> n"
    using assms(1) by (cases post) (auto simp: sanity_split)
  then show "sanity (pre @ x\<lparr>loc := a\<rparr> # post) n"
    using assms pre post unfolding sanity_split
    by (fastforce simp: sorted_wrt_append intro: less_le_trans)
  fix i assume "i < loc x \<or> a \<le> i"
  then show "attr_of (pre @ x\<lparr>loc := a\<rparr> # post) i = attr_of (pre @ x # post) i"
  proof
    assume "i < loc x"
    then have "i < loc y" if "y \<in> set (x\<lparr>loc := a\<rparr> # post) \<or> y \<in> set (x # post)" for y
      using that post assms(2) by fastforce
    then show ?thesis
      using attr_of_left[of "x\<lparr>loc := a\<rparr> # post" i pre] attr_of_left[of "x # post" i pre] by metis
  next
    assume "a \<le> i"
    then show ?thesis
      using pre assms(2) by (intro attr_of_swap) fastforce+
  qed
qed

lemma split_run:
  assumes "sanity (pre @ x # post) n" and "loc x < a" and "a < end_of post n"
  shows "sanity (pre @ x # \<lparr>loc = a, attrs = attrs x\<rparr> # post) n"
    and "\<And>i. attr_of (pre @ x # \<lparr>loc = a, attrs = attrs x\<rparr> # post) i = attr_of (pre @ x # post) i"
proof -
  have pre: "loc y < loc x" if "y \<in> set pre" for y
    using assms(1) that by (auto simp: sanity_def sorted_wrt_append)
  have post: "a < loc y" if "y \<in> set post" for y
    using assms(1,3) that by (cases post) (fastforce simp: sanity_def sorted_wrt_append)+
  have "end_of post n \<le> n"
    using assms(1) by (cases post) (auto simp: sanity_split)
  then show "sanity (pre @ x # \<lparr>loc = a, attrs = attrs x\<rparr> # post) n"
    using assms pre post unfolding sanity_split
    by (fastforce simp: sorted_wrt_append intro: less_le_trans)
  fix i
  let ?y = "\<lparr>loc = a, attrs = attrs x\<rparr>"
  show "attr_of (pre @ x # ?y # post) i = attr_of (pre @ x # post) i"
  proof (cases "i < a")
    case True
    then have "i < loc y" if "y \<in> set (?y # post) \<or> y \<in> set post" for y
      using that post by fastforce
    then show ?thesis
      using attr_of_left[of "?y # post" i "pre @ [x]"] attr_of_left[of post i "pre @ [x]"] by simp
  next
    case False
    then show ?thesis
      using attr_of_swap[of ?y x i "pre @ [x]" pre post] pre assms(2) by fastforce
  qed
qed

subsection \<open>Moving the runs behind a replaced range\<close>

text \<open>The runs \<open>B\<close> behind position \<open>m\<close> move so that \<open>m\<close> becomes \<open>m'\<close>.\<close>

definition move_to :: "nat \<Rightarrow> nat \<Rightarrow> 'v text_info \<Rightarrow> 'v text_info" where
  "move_to m m' y = y\<lparr>loc := loc y - m + m'\<rparr>"

lemma move_to_sel [simp]:
  "loc (move_to m m' y) = loc y - m + m'" "attrs (move_to m m' y) = attrs y"
  by (simp_all add: move_to_def)

lemma sorted_moved:
  assumes "sorted_wrt (<) (map loc B)" and "\<And>y. y \<in> set B \<Longrightarrow> m \<le> loc y"
  shows "sorted_wrt (<) (map loc (map (move_to m m') B))"
  using assms by (induction B) (fastforce intro: diff_less_mono)+

lemma attr_of_moved_front:
  assumes "i < m'"
  shows "attr_of (A @ map (move_to m m') B) i = attr_of A i"
  using assms by (intro attr_of_left) auto

lemma attr_of_moved_behind:
  assumes B: "\<And>y. y \<in> set B \<Longrightarrow> m \<le> loc y" and A: "\<And>y. y \<in> set A \<Longrightarrow> loc y \<le> m \<and> loc y \<le> m'"
    and j: "m \<le> j"
  shows "attr_of (A @ map (move_to m m') B) (j - m + m') = attr_of (A @ B) j"
proof -
  have A': "loc y \<le> j - m + m'" "loc y \<le> j" if "y \<in> set A" for y
    using A[OF that] j by auto
  have "takeWhile (\<lambda>x. loc x \<le> j - m + m') (map (move_to m m') B) =
      map (move_to m m') (takeWhile ((\<lambda>x. loc x \<le> j - m + m') \<circ> move_to m m') B)"
    by (simp add: takeWhile_map)
  also have "takeWhile ((\<lambda>x. loc x \<le> j - m + m') \<circ> move_to m m') B = takeWhile (\<lambda>x. loc x \<le> j) B"
    using B j by (intro takeWhile_cong) auto
  finally have tw: "takeWhile (\<lambda>x. loc x \<le> j - m + m') (map (move_to m m') B) =
      map (move_to m m') (takeWhile (\<lambda>x. loc x \<le> j) B)" .
  have "takeWhile (\<lambda>x. loc x \<le> j - m + m') (A @ map (move_to m m') B) =
      A @ map (move_to m m') (takeWhile (\<lambda>x. loc x \<le> j) B)"
    using A' by (simp add: takeWhile_append2 tw)
  moreover have "takeWhile (\<lambda>x. loc x \<le> j) (A @ B) = A @ takeWhile (\<lambda>x. loc x \<le> j) B"
    using A' by (simp add: takeWhile_append2)
  ultimately show ?thesis
    by (cases "takeWhile (\<lambda>x. loc x \<le> j) B = []") (simp_all add: attr_of_def last_map)
qed

lemma sanity_moved:
  assumes "sorted_wrt (<) (map loc A)" and "sorted_wrt (<) (map loc B)"
    and "\<And>y. y \<in> set B \<Longrightarrow> m \<le> loc y \<and> loc y < n" and "A @ B \<noteq> []"
    and "\<And>y z. y \<in> set A \<Longrightarrow> z \<in> set B \<Longrightarrow> loc y < loc z - m + m'"
    and "\<And>y. y \<in> set (tl A) \<Longrightarrow> loc y < n - m + m'"
    and "A \<noteq> [] \<Longrightarrow> loc (hd A) = 0" and "A = [] \<Longrightarrow> loc (hd B) = m \<and> m' = 0"
  shows "sanity (A @ map (move_to m m') B) (n - m + m')"
proof -
  have "sorted_wrt (<) (map loc (A @ map (move_to m m') B))"
    using assms(1,3,5) sorted_moved[OF assms(2), of m m'] by (simp add: sorted_wrt_append)
  moreover have "loc (move_to m m' y) < n - m + m'" if "y \<in> set B" for y
    using assms(3)[OF that] by (simp add: diff_less_mono)
  moreover have "loc (hd (A @ map (move_to m m') B)) = 0"
    using assms(4,7,8) by (cases A; cases B) auto
  ultimately show ?thesis
    using assms(4,6) by (cases A; cases B) (auto simp: sanity_def)
qed

end
