(* ===== verification/TextStorage.thy ===== *)
theory TextStorage
  imports TextEditing TextRuns "HOL-Library.Multiset"
begin

text \<open>
  \<open>Source/GSTextStorage.m\<close>: the concrete attributed string. The state extends the editing
  state of \<open>NSTextStorage\<close> by the characters, the array of runs and the reference counts of
  the table that makes attribute dictionaries unique. The table is a static variable that all
  storages share; dictionaries are compared by address in the code and by contents here, which
  is the same for dictionaries that come out of the table.
\<close>

subsection \<open>State\<close>

type_synonym 'v cache = "'v attrs \<rightharpoonup> nat"

record ('m, 'v) text_storage = "'m editing" +
  textChars :: "unichar list"
  infoArray :: "'v text_info list"
  attrMap :: "'v cache"

definition blank :: "'v attrs" where
  "blank = Map.empty"

definition cacheAttributes :: "'v attrs \<Rightarrow> 'v cache \<Rightarrow> 'v cache" where
  "cacheAttributes d m =
     (case m d of None \<Rightarrow> m(d \<mapsto> 1) | Some n \<Rightarrow> m(d \<mapsto> n + 1))"

definition unCacheAttributes :: "'v attrs \<Rightarrow> 'v cache \<Rightarrow> 'v cache" where
  "unCacheAttributes d m =
     (case m d of None \<Rightarrow> m
      | Some n \<Rightarrow> if n - 1 = 0 then m(d := None) else m(d \<mapsto> n - 1))"

definition textLength :: "('m, 'v) text_storage \<Rightarrow> nat" where
  "textLength s = length (textChars s)"

text \<open>
  Access to the array of runs. An index outside the array raises. Removing a run deallocates
  it, and its finaliser gives its reference to the attributes back.
\<close>

definition OBJECTAT ::
  "nat \<Rightarrow> ('m, 'v) text_storage \<Rightarrow> ('v text_info \<Rightarrow> (('m, 'v) text_storage, 'a) outcome) \<Rightarrow>
   (('m, 'v) text_storage, 'a) outcome" where
  "OBJECTAT i s f = attempt s (Some (objectAtIndex (infoArray s) i)) f"

definition ADDOBJECT :: "'v text_info \<Rightarrow> ('m, 'v) text_storage \<Rightarrow> ('m, 'v) text_storage" where
  "ADDOBJECT x s = s\<lparr>infoArray := infoArray s @ [x]\<rparr>"

definition INSOBJECT ::
  "'v text_info \<Rightarrow> nat \<Rightarrow> ('m, 'v) text_storage \<Rightarrow> ('m, 'v) text_storage pstep" where
  "INSOBJECT x i s =
     attempt s (Some (insertObject x i (infoArray s))) (\<lambda>xs. Some (Inr (s\<lparr>infoArray := xs\<rparr>)))"

definition REMOVEAT :: "nat \<Rightarrow> ('m, 'v) text_storage \<Rightarrow> ('m, 'v) text_storage pstep" where
  "REMOVEAT i s =
     attempt s (Some (removeObjectAtIndex i (infoArray s))) (\<lambda>xs.
       Some (Inr (s\<lparr>infoArray := xs,
                    attrMap := unCacheAttributes (attrs (infoArray s ! i)) (attrMap s)\<rparr>)))"

text \<open>An assignment to the position of the run object at an index.\<close>

definition setLoc :: "nat \<Rightarrow> nat \<Rightarrow> ('m, 'v) text_storage \<Rightarrow> ('m, 'v) text_storage" where
  "setLoc i l s = s\<lparr>infoArray := (infoArray s)[i := (infoArray s ! i)\<lparr>loc := l\<rparr>]\<rparr>"

subsection \<open>Initialisation\<close>

text \<open>
  The runs of another attributed string, read through its \<open>attributesAtIndex:effectiveRange:\<close>.
  That string can be of any class, and one that answers empty ranges keeps the loop going.
\<close>

partial_function (option) addRunsFrom ::
  "(nat \<Rightarrow> 'v attrs \<times> nsrange) \<Rightarrow> nsrange \<Rightarrow> nsrange \<Rightarrow> ('m, 'v) text_storage \<Rightarrow>
   ('m, 'v) text_storage option" where
  "addRunsFrom other aRange r s =
     (let l = u32 (int (NSMaxRange r))
      in if l < NSMaxRange aRange
         then let attr = fst (other l); s1 = s\<lparr>attrMap := cacheAttributes attr (attrMap s)\<rparr>
              in addRunsFrom other aRange (snd (other l))
                   (ADDOBJECT \<lparr>loc = u32 (int l - int (location aRange)), attrs = attr\<rparr> s1)
         else Some s)"

definition setAttributesFrom ::
  "(nat \<Rightarrow> 'v attrs \<times> nsrange) \<Rightarrow> nsrange \<Rightarrow> ('m, 'v) text_storage \<Rightarrow>
   ('m, 'v) text_storage option" where
  "setAttributesFrom other aRange s =
     (let s1 = s\<lparr>infoArray := [],
                 attrMap := fold (\<lambda>x. unCacheAttributes (attrs x)) (infoArray s) (attrMap s)\<rparr>;
          (attr, r) = (if len aRange = 0 then (blank, aRange) else other (location aRange));
          s2 = s1\<lparr>attrMap := cacheAttributes attr (attrMap s1)\<rparr>
      in addRunsFrom other aRange r (ADDOBJECT \<lparr>loc = 0, attrs = attr\<rparr> s2))"

text \<open>
  The argument of the initialiser is a string or \<open>nil\<close>, with attributes or \<open>nil\<close>, or an
  attributed string, whose characters and attribute lookup are given.
\<close>

datatype 'v init_source =
    PlainString "unichar list option" "'v attrs option"
  | AttributedString "unichar list" "nat \<Rightarrow> 'v attrs \<times> nsrange"

definition allocStorage :: "'v cache \<Rightarrow> ('m, 'v) text_storage" where
  "allocStorage m =
     \<lparr>editCount = 0, editedMask = 0, editedRange = NSMakeRange 0 0, editedDelta = 0,
      layoutManagers = [], textChars = [], infoArray = [], attrMap = m\<rparr>"

definition initWithString ::
  "'v init_source \<Rightarrow> 'v cache \<Rightarrow> ('m, 'v) text_storage option" where
  "initWithString src m =
     (case src of
        AttributedString str other \<Rightarrow>
          map_option (\<lambda>s. s\<lparr>textChars := str\<rparr>)
            (setAttributesFrom other (NSMakeRange 0 (length str)) (allocStorage m))
      | PlainString str attributes \<Rightarrow>
          let d = (case attributes of None \<Rightarrow> blank | Some d \<Rightarrow> d);
              s = ADDOBJECT \<lparr>loc = 0, attrs = d\<rparr> (allocStorage (cacheAttributes d m))
          in Some (s\<lparr>textChars := (case str of None \<Rightarrow> [] | Some cs \<Rightarrow> cs)\<rparr>))"

subsection \<open>Reading attributes\<close>

text \<open>The index is converted to \<open>unsigned int\<close> by the call of the search.\<close>

definition attributesAtIndex ::
  "nat \<Rightarrow> ('m, 'v) text_storage \<Rightarrow> ('v attrs \<times> nsrange) res option" where
  "attributesAtIndex index s =
     map_option (map_sum id (\<lambda>(d, r, i). (d, r)))
       (attributesAtIndexEffectiveRange (u32 (int index)) (u32 (int (textLength s))) (infoArray s))"

subsection \<open>Setting attributes\<close>

text \<open>
  The first part finds the run at the end of the range and cuts it there. It answers where the
  new run is to begin and the index from which runs are removed.
\<close>

definition cutAfter ::
  "'v attrs \<Rightarrow> nat \<Rightarrow> nat \<Rightarrow> nat \<Rightarrow> ('m, 'v) text_storage \<Rightarrow>
   (('m, 'v) text_storage, nat \<times> nat \<times> ('m, 'v) text_storage) outcome" where
  "cutAfter attributes beginRangeLoc afterRangeLoc tmpLength s =
     (if afterRangeLoc < tmpLength
      then attempt s (attributesAtIndexEffectiveRange afterRangeLoc tmpLength (infoArray s))
        (\<lambda>(d, effectiveRange, arrayIndex).
          if d = attributes
          then Some (Inr (if location effectiveRange < beginRangeLoc
                          then u32 (int (location effectiveRange)) else beginRangeLoc,
                          arrayIndex, s))
          else if beginRangeLoc < location effectiveRange
          then OBJECTAT arrayIndex s (\<lambda>info.
                 Some (Inr (beginRangeLoc, u32 (int arrayIndex - 1),
                            setLoc arrayIndex afterRangeLoc s)))
          else if afterRangeLoc < NSMaxRange effectiveRange
          then pbind (INSOBJECT \<lparr>loc = afterRangeLoc, attrs = d\<rparr> (arrayIndex + 1)
                        (s\<lparr>attrMap := cacheAttributes d (attrMap s)\<rparr>))
                 (\<lambda>s'. Some (Inr (beginRangeLoc, arrayIndex, s')))
          else Some (Inr (beginRangeLoc, arrayIndex, s)))
      else Some (Inr (beginRangeLoc, u32 (int (length (infoArray s)) - 1), s)))"

text \<open>The runs completely within the range are removed from the back.\<close>

fun removeWithin ::
  "nat \<Rightarrow> nat \<Rightarrow> ('m, 'v) text_storage \<Rightarrow>
   (('m, 'v) text_storage, nat \<times> ('m, 'v) text_storage) outcome" where
  "removeWithin beginRangeLoc 0 s = Some (Inr (0, s))"
| "removeWithin beginRangeLoc (Suc k) s =
     OBJECTAT k s (\<lambda>info.
       if loc info < beginRangeLoc then Some (Inr (Suc k, s))
       else pbind (REMOVEAT (Suc k) s) (removeWithin beginRangeLoc k))"

text \<open>
  The run at the index becomes the new run, or the new run goes behind it; a reference to the
  attributes that is not needed is given back.
\<close>

definition placeRun ::
  "'v attrs \<Rightarrow> nat \<Rightarrow> nat \<Rightarrow> ('m, 'v) text_storage \<Rightarrow> ('m, 'v) text_storage pstep" where
  "placeRun attributes beginRangeLoc arrayIndex s =
     OBJECTAT arrayIndex s (\<lambda>info.
       if beginRangeLoc \<le> loc info
       then let s1 = setLoc arrayIndex beginRangeLoc s
            in if attrs info = attributes
               then Some (Inr (s1\<lparr>attrMap := unCacheAttributes attributes (attrMap s1)\<rparr>))
               else Some (Inr (s1\<lparr>attrMap := unCacheAttributes (attrs info) (attrMap s1),
                                  infoArray := (infoArray s1)[arrayIndex :=
                                    (infoArray s1 ! arrayIndex)\<lparr>attrs := attributes\<rparr>]\<rparr>))
       else if attrs info = attributes
       then Some (Inr (s\<lparr>attrMap := unCacheAttributes attributes (attrMap s)\<rparr>))
       else INSOBJECT \<lparr>loc = beginRangeLoc, attrs = attributes\<rparr> (arrayIndex + 1) s)"

definition setAttributes ::
  "('m, ('m, 'v) text_storage) clients \<Rightarrow> 'v attrs option \<Rightarrow> nsrange \<Rightarrow>
   ('m, 'v) text_storage \<Rightarrow> ('m, 'v) text_storage pstep" where
  "setAttributes cl attributesOrNil r s =
     (if len r = 0 then Some (Inr s)
      else let attributes = (case attributesOrNil of None \<Rightarrow> blank | Some d \<Rightarrow> d);
               s1 = s\<lparr>attrMap := cacheAttributes attributes (attrMap s)\<rparr>;
               tmpLength = u32 (int (textLength s1))
           in if \<not> range_ok r tmpLength then Some (Inl (NSRangeException, s1))
              else pbind (cutAfter attributes (u32 (int (location r)))
                            (u32 (int (NSMaxRange r))) tmpLength s1)
                (\<lambda>(beginRangeLoc, arrayIndex, s2).
                  pbind (removeWithin beginRangeLoc arrayIndex s2) (\<lambda>(arrayIndex', s3).
                  pbind (placeRun attributes beginRangeLoc arrayIndex' s3)
                    (edited cl textLength NSTextStorageEditedAttributes r 0))))"

subsection \<open>Replacing characters\<close>

text \<open>
  The runs that the replaced range swallows: the run at the index is removed as long as the
  next one starts inside the range or at its end. The index stays in the array, so the accesses
  are in range.
\<close>

function absorbRuns :: "nat \<Rightarrow> nat \<Rightarrow> ('m, 'v) text_storage \<Rightarrow> ('m, 'v) text_storage" where
  "absorbRuns m i s =
     (if i + 1 < length (infoArray s) \<and> loc (infoArray s ! (i + 1)) \<le> m
      then absorbRuns m i
             (s\<lparr>infoArray := take i (infoArray s) @ drop (Suc i) (infoArray s),
                attrMap := unCacheAttributes (attrs (infoArray s ! i)) (attrMap s)\<rparr>)
      else s)"
  by pat_completeness auto
termination
  by (relation "measure (\<lambda>(m, i, s). length (infoArray s))") auto

declare absorbRuns.simps [simp del]

text \<open>What happens to the runs behind the one the new characters join.\<close>

definition trimFollowing ::
  "nsrange \<Rightarrow> nsrange \<Rightarrow> nat \<Rightarrow> ('m, 'v) text_storage \<Rightarrow> ('m, 'v) text_storage pstep" where
  "trimFollowing effectiveRange r arrayIndex s =
     (if NSMaxRange effectiveRange < NSMaxRange r
      then OBJECTAT arrayIndex s (\<lambda>info.
        let s1 = (if loc info < NSMaxRange r then absorbRuns (NSMaxRange r) arrayIndex s else s)
        in if NSMaxRange r < textLength s
           then Some (Inr (setLoc arrayIndex (u32 (int (NSMaxRange r))) s1))
           else REMOVEAT arrayIndex s1)
      else Some (Inr s))"

text \<open>
  When nothing replaces the range, the run that covered exactly the range is removed, or, if
  it is the only one, gets blank attributes. The answer is the index from which runs move.
\<close>

definition dropEmptyRun ::
  "nat \<Rightarrow> nsrange \<Rightarrow> nat \<Rightarrow> ('m, 'v) text_storage \<Rightarrow>
   (('m, 'v) text_storage, nat \<times> ('m, 'v) text_storage) outcome" where
  "dropEmptyRun start r tmpLength s =
     attempt s (attributesAtIndexEffectiveRange start tmpLength (infoArray s))
       (\<lambda>(d, effectiveRange, arrayIndex).
         if location effectiveRange = location r \<and> len effectiveRange = len r
         then if arrayIndex \<noteq> 0 \<or> 1 < length (infoArray s)
              then pbind (REMOVEAT arrayIndex s) (\<lambda>s'. Some (Inr (arrayIndex, s')))
              else OBJECTAT 0 s (\<lambda>info.
                let m = cacheAttributes blank (unCacheAttributes (attrs info) (attrMap s))
                in Some (Inr (arrayIndex,
                     s\<lparr>attrMap := m,
                       infoArray := (infoArray s)[0 :=
                         \<lparr>loc = u32 (int (NSMaxRange r)), attrs = blank\<rparr>]\<rparr>)))
         else Some (Inr (arrayIndex + 1, s)))"

definition moveRuns :: "nat \<Rightarrow> int \<Rightarrow> ('m, 'v) text_storage \<Rightarrow> ('m, 'v) text_storage" where
  "moveRuns arrayIndex moveLocations s =
     s\<lparr>infoArray := take arrayIndex (infoArray s) @
         map (\<lambda>info. info\<lparr>loc := u32 (int (loc info) + moveLocations)\<rparr>)
             (drop arrayIndex (infoArray s))\<rparr>"

definition replaceText :: "nsrange \<Rightarrow> unichar list \<Rightarrow> unichar list \<Rightarrow> unichar list" where
  "replaceText r str cs = take (location r) cs @ str @ drop (NSMaxRange r) cs"

definition setTextChars ::
  "nsrange \<Rightarrow> unichar list \<Rightarrow> ('m, 'v) text_storage \<Rightarrow> ('m, 'v) text_storage" where
  "setTextChars r str s = s\<lparr>textChars := replaceText r str (textChars s)\<rparr>"

definition replaceCharacters ::
  "('m, ('m, 'v) text_storage) clients \<Rightarrow> nsrange \<Rightarrow> unichar list option \<Rightarrow>
   ('m, 'v) text_storage \<Rightarrow> ('m, 'v) text_storage pstep" where
  "replaceCharacters cl r strOrNil s =
     (let str = (case strOrNil of None \<Rightarrow> [] | Some cs \<Rightarrow> cs);
          tmpLength = u32 (int (textLength s));
          finish = edited cl textLength NSTextStorageEditedCharacters r
                     (int (length str) - int (len r))
      in if \<not> range_ok r tmpLength then Some (Inl (NSRangeException, s))
         else if location r = tmpLength
         then finish (s\<lparr>textChars := textChars s @ str\<rparr>)
         else if length (infoArray s) = 1 then finish (setTextChars r str s)
         else let start = (if len r = 0 \<and> 0 < location r then u32 (int (location r) - 1)
                           else u32 (int (location r)));
                  moveLocations = s32 (int (length str) - int (len r))
              in attempt s (attributesAtIndexEffectiveRange start tmpLength (infoArray s))
                (\<lambda>(d, effectiveRange, arrayIndex).
                  pbind (trimFollowing effectiveRange r (arrayIndex + 1) s) (\<lambda>s1.
                  pbind (if u64 (moveLocations + int (len r)) = 0
                         then dropEmptyRun start r tmpLength s1
                         else Some (Inr (arrayIndex + 1, s1))) (\<lambda>(arrayIndex', s2).
                  finish (setTextChars r str (moveRuns arrayIndex' moveLocations s2))))))"

subsection \<open>Reference counts\<close>

text \<open>
  The table that counts the references of a multiset of dictionaries. The table is exact when
  it counts the references of the runs and those held elsewhere, \<open>E\<close>.
\<close>

definition tally :: "'v attrs multiset \<Rightarrow> 'v cache" where
  "tally M = (\<lambda>d. if count M d = 0 then None else Some (count M d))"

definition put ::
  "'v text_info list \<Rightarrow> 'v attrs multiset \<Rightarrow> ('m, 'v) text_storage \<Rightarrow> ('m, 'v) text_storage" where
  "put L E s = s\<lparr>infoArray := L, attrMap := tally (E + mset (map attrs L))\<rparr>"

definition storage_ok :: "'v attrs multiset \<Rightarrow> ('m, 'v) text_storage \<Rightarrow> bool" where
  "storage_ok E s \<longleftrightarrow>
     sanity (infoArray s) (textLength s) \<and>
     attrMap s = tally (E + mset (map attrs (infoArray s)))"

lemma cache_tally [simp]: "cacheAttributes d (tally M) = tally (add_mset d M)"
proof (rule ext)
  show "cacheAttributes d (tally M) x = tally (add_mset d M) x" for x
    by (cases "x = d") (simp_all add: cacheAttributes_def tally_def count_eq_zero_iff)
qed

lemma unCache_tally [simp]: "unCacheAttributes d (tally M) = tally (M - {#d#})"
proof (rule ext)
  show "unCacheAttributes d (tally M) x = tally (M - {#d#}) x" for x
    by (cases "x = d")
      (simp_all add: unCacheAttributes_def tally_def count_eq_zero_iff, simp add: not_in_iff)
qed

lemma put_sel [simp]:
  "infoArray (put L E s) = L"
  "attrMap (put L E s) = tally (E + mset (map attrs L))"
  "textChars (put L E s) = textChars s"
  "textLength (put L E s) = textLength s"
  "editCount (put L E s) = editCount s"
  "editedMask (put L E s) = editedMask s"
  "editedRange (put L E s) = editedRange s"
  "editedDelta (put L E s) = editedDelta s"
  "layoutManagers (put L E s) = layoutManagers s"
  by (simp_all add: put_def textLength_def)

lemma put_put [simp]: "put L' E' (put L E s) = put L' E' s"
  by (simp add: put_def)

lemma put_same: "storage_ok E s \<Longrightarrow> put (infoArray s) E s = s"
  by (simp add: put_def storage_ok_def)

lemma put_cache:
  "(put L E s)\<lparr>attrMap := tally (E' + mset (map attrs L))\<rparr> = put L E' s"
  by (simp add: put_def)

lemma cache_put [simp]:
  "(put L E s)\<lparr>attrMap := cacheAttributes d (attrMap (put L E s))\<rparr> = put L (add_mset d E) s"
  by (simp add: put_def)

lemma unCache_put [simp]:
  "(put L (add_mset d E) s)\<lparr>attrMap := unCacheAttributes d (attrMap (put L (add_mset d E) s))\<rparr> =
     put L E s"
  by (simp add: put_def)

lemma OBJECTAT_ok [array_simps]: "i < length (infoArray s) \<Longrightarrow> OBJECTAT i s f = f (infoArray s ! i)"
  by (simp add: OBJECTAT_def array_simps)

lemma remove_put:
  assumes "i < length L"
  shows "(put L E s)\<lparr>infoArray := take i L @ drop (Suc i) L,
      attrMap := unCacheAttributes (attrs (L ! i)) (attrMap (put L E s))\<rparr> =
    put (take i L @ drop (Suc i) L) E s"
proof -
  have "mset L = add_mset (L ! i) (mset (take i L @ drop (Suc i) L))"
    using assms by (subst id_take_nth_drop[of i L]) auto
  then have "mset (map attrs L) = add_mset (attrs (L ! i)) (mset (map attrs (take i L @ drop (Suc i) L)))"
    by (metis image_mset_add_mset mset_map)
  then show ?thesis by (simp add: put_def)
qed

lemma REMOVEAT_put [array_simps]:
  "i < length L \<Longrightarrow>
     REMOVEAT i (put L E s) = Some (Inr (put (take i L @ drop (Suc i) L) E s))"
  using remove_put[of i L E s] by (simp add: REMOVEAT_def array_simps del: put_sel(2))

lemma INSOBJECT_put [array_simps]:
  assumes "i \<le> length L"
  shows "INSOBJECT x i (put L (add_mset (attrs x) E) s) =
    Some (Inr (put (take i L @ x # drop i L) E s))"
proof -
  have "mset L = mset (take i L) + mset (drop i L)"
    by (metis append_take_drop_id mset_append)
  then show ?thesis
    using assms by (simp add: INSOBJECT_def array_simps put_def)
qed

lemma attrs_setLoc [simp]:
  assumes "i < length L"
  shows "image_mset attrs (mset (L[i := (L ! i)\<lparr>loc := l\<rparr>])) = image_mset attrs (mset L)"
proof -
  have "map attrs (L[i := (L ! i)\<lparr>loc := l\<rparr>]) = (map attrs L)[i := attrs (L ! i)]"
    by (simp add: map_update)
  also have "\<dots> = map attrs L"
    using assms by (metis length_map list_update_id nth_map)
  finally show ?thesis by (metis mset_map)
qed

lemma setLoc_put [array_simps]:
  "i < length L \<Longrightarrow> setLoc i l (put L E s) = put (L[i := (L ! i)\<lparr>loc := l\<rparr>]) E s"
  by (simp add: setLoc_def put_def)

subsection \<open>Setting attributes\<close>

lemma removeWithin_step:
  assumes "k < length (infoArray s)"
  shows "removeWithin b (Suc k) s =
    (if loc (infoArray s ! k) < b then Some (Inr (Suc k, s))
     else pbind (REMOVEAT (Suc k) s) (removeWithin b k))"
  using assms by (simp add: OBJECTAT_ok)

lemma removeWithin_spec:
  assumes "sorted_wrt (<) (map loc (P @ Q @ tail))" and "P @ Q \<noteq> []"
    and "\<And>x. x \<in> set P \<Longrightarrow> loc x < b" and "\<And>x. x \<in> set Q \<Longrightarrow> b \<le> loc x"
  shows "removeWithin b (length (P @ Q) - 1) (put (P @ Q @ tail) E s) =
    Some (Inr (if Q = [] then length P - 1 else length P, put (P @ take 1 Q @ tail) E s))"
  using assms
proof (induction Q arbitrary: tail rule: rev_induct)
  case Nil
  then obtain k where k: "length P = Suc k" by (cases P) auto
  show ?case
  proof (cases k)
    case 0
    then show ?thesis using k by simp
  next
    case (Suc j)
    then have "(P @ tail) ! j \<in> set P"
      using k by (simp add: nth_append)
    then show ?thesis
      using k Suc Nil.prems by (simp add: removeWithin_step del: removeWithin.simps)
  qed
next
  case (snoc q Q)
  show ?case
  proof (cases "P @ Q = []")
    case True
    then show ?thesis by simp
  next
    case False
    then obtain k where k: "length (P @ Q) = Suc k" by (cases "P @ Q") auto
    have step: "REMOVEAT (Suc k) (put (P @ Q @ q # tail) E s) = Some (Inr (put (P @ Q @ tail) E s))"
      using k by (subst REMOVEAT_put) auto
    have IH: "removeWithin b k (put (P @ Q @ tail) E s) =
        Some (Inr (if Q = [] then length P - 1 else length P, put (P @ take 1 Q @ tail) E s))"
      using snoc.IH[of tail] snoc.prems False k by (simp add: sorted_wrt_append)
    show ?thesis
    proof (cases "Q = []")
      case True
      then have "(P @ q # tail) ! k \<in> set P"
        using k by (simp add: nth_append)
      then have "loc ((P @ q # tail) ! k) < b"
        using snoc.prems by blast
      then show ?thesis
        using True k by (simp add: removeWithin_step del: removeWithin.simps)
    next
      case Q: False
      then have "(P @ Q @ q # tail) ! k \<in> set Q"
        using k by (cases Q rule: rev_cases) (auto simp: nth_append)
      then have "b \<le> loc ((P @ Q @ q # tail) ! k)"
        using snoc.prems by simp
      then have "removeWithin b (Suc k) (put (P @ Q @ q # tail) E s) =
          Some (Inr (length P, put (P @ take 1 Q @ tail) E s))"
        using Q k by (subst removeWithin_step) (simp_all add: step IH del: removeWithin.simps)
      moreover have "length (P @ (Q @ [q])) - 1 = Suc k" "take 1 (Q @ [q]) = take 1 Q"
        using k Q by (cases Q; simp)+
      ultimately show ?thesis
        using Q by (simp del: removeWithin.simps)
    qed
  qed
qed

lemma placeRun_replaces:
  assumes "i < length L" and "b \<le> loc (L ! i)"
  shows "placeRun d b i (put L (add_mset d E) s) = Some (Inr (put (L[i := \<lparr>loc = b, attrs = d\<rparr>]) E s))"
proof (cases "attrs (L ! i) = d")
  case True
  then have new: "(L ! i)\<lparr>loc := b\<rparr> = \<lparr>loc = b, attrs = d\<rparr>"
    by (cases "L ! i") simp
  show ?thesis
    using assms True
    by (simp add: placeRun_def OBJECTAT_ok setLoc_put Let_def new del: unCache_put)
next
  case False
  have "mset (map attrs (L[i := \<lparr>loc = b, attrs = d\<rparr>])) =
      add_mset d (mset (map attrs L) - {#attrs (L ! i)#})"
    using assms(1) by (simp add: map_update mset_update)
  moreover obtain M where "mset (map attrs L) = add_mset (attrs (L ! i)) M"
    using assms(1) by (metis length_map mset_add nth_map nth_mem_mset)
  ultimately have "add_mset d (E + mset (map attrs L)) - {#attrs (L ! i)#} =
      E + mset (map attrs (L[i := \<lparr>loc = b, attrs = d\<rparr>]))"
    using False by simp
  moreover have new: "(L ! i)\<lparr>loc := b, attrs := d\<rparr> = \<lparr>loc = b, attrs = d\<rparr>"
    by (cases "L ! i") simp
  ultimately have "s\<lparr>attrMap := tally (add_mset d (E + mset (map attrs L)) - {#attrs (L ! i)#}),
        infoArray := L[i := (L ! i)\<lparr>loc := b, attrs := d\<rparr>]\<rparr> =
      put (L[i := \<lparr>loc = b, attrs = d\<rparr>]) E s"
    by (simp add: put_def new)
  then show ?thesis
    using assms False by (simp add: placeRun_def OBJECTAT_ok setLoc_put Let_def) (simp add: put_def)?
qed

lemma placeRun_behind:
  assumes "i < length L" and "loc (L ! i) < b"
  shows "placeRun d b i (put L (add_mset d E) s) =
    Some (Inr (put (if attrs (L ! i) = d then L
                    else take (i + 1) L @ \<lparr>loc = b, attrs = d\<rparr> # drop (i + 1) L) E s))"
proof -
  have "INSOBJECT \<lparr>loc = b, attrs = d\<rparr> (i + 1) (put L (add_mset d E) s) =
      Some (Inr (put (take (i + 1) L @ \<lparr>loc = b, attrs = d\<rparr> # drop (i + 1) L) E s))"
    using assms INSOBJECT_put[of "i + 1" L "\<lparr>loc = b, attrs = d\<rparr>"] by simp
  moreover have "\<not> b \<le> loc (L ! i)"
    using assms by simp
  ultimately show ?thesis
    using assms(1) by (simp add: placeRun_def OBJECTAT_ok del: put_sel(2))
qed

lemma layRun:
  assumes sorted: "sorted_wrt (<) (map loc (ys @ tail))" and ys: "ys \<noteq> []"
  shows "pbind (removeWithin b (length ys - 1) (put (ys @ tail) (add_mset d E) s))
           (\<lambda>p. placeRun d b (fst p) (snd p)) = Some (Inr (put (stage b d ys tail) E s))"
proof -
  define P Q where "P = takeWhile (\<lambda>x. loc x < b) ys" and "Q = dropWhile (\<lambda>x. loc x < b) ys"
  have PQ: "ys = P @ Q" by (simp add: P_def Q_def)
  have P: "loc x < b" if "x \<in> set P" for x
    using that by (auto simp: P_def dest: set_takeWhileD)
  have Q: "b \<le> loc x" if "x \<in> set Q" for x
    using that sorted unfolding Q_def by (intro dropWhile_from[of ys]) (simp_all add: sorted_wrt_append)
  have rem: "removeWithin b (length ys - 1) (put (ys @ tail) (add_mset d E) s) =
      Some (Inr (if Q = [] then length P - 1 else length P, put (P @ take 1 Q @ tail) (add_mset d E) s))"
    using removeWithin_spec[of P Q tail b "add_mset d E" s] sorted ys P Q by (simp add: PQ)
  have st: "stage b d ys tail = (if P = ys \<and> attrs (last ys) = d then ys @ tail
      else P @ \<lparr>loc = b, attrs = d\<rparr> # tail)"
    by (simp add: stage_def P_def)
  show ?thesis
  proof (cases "Q = []")
    case True
    then have PY: "P = ys" using PQ by simp
    have i: "length ys - 1 < length (ys @ tail)" "(ys @ tail) ! (length ys - 1) = last ys"
      using ys by (cases ys; simp add: nth_append last_conv_nth)+
    have "loc (last ys) < b"
      using P[of "last ys"] PY ys by simp
    then have "placeRun d b (length ys - 1) (put (ys @ tail) (add_mset d E) s) =
        Some (Inr (put (stage b d ys tail) E s))"
      using i ys PY by (subst placeRun_behind) (simp_all add: st)
    then show ?thesis
      using rem True PY ys by simp
  next
    case False
    then obtain q Q' where q: "Q = q # Q'" by (cases Q) auto
    have "P \<noteq> ys" using PQ False by simp
    moreover have "placeRun d b (length P) (put (P @ [q] @ tail) (add_mset d E) s) =
        Some (Inr (put (P @ \<lparr>loc = b, attrs = d\<rparr> # tail) E s))"
      using Q[of q] by (subst placeRun_replaces) (auto simp: q)
    ultimately show ?thesis
      using rem False q by (simp add: st)
  qed
qed

text \<open>
  What the cut at the end of the range answers: the runs \<open>ys\<close> that end with the one at the
  index, and the runs behind. Overwriting from the answered position up to those is what
  overwriting the range means.
\<close>

definition cut_answer ::
  "'v attrs \<Rightarrow> nat \<Rightarrow> nat \<Rightarrow> nat \<Rightarrow> 'v text_info list \<Rightarrow> nat \<Rightarrow> 'v text_info list \<Rightarrow>
   'v text_info list \<Rightarrow> bool" where
  "cut_answer d b a n L b' ys tail \<longleftrightarrow>
     ys \<noteq> [] \<and> sanity (ys @ tail) n \<and> b' < end_of tail n \<and>
     (\<forall>i<n. (if b \<le> i \<and> i < a then d else attr_of L i) =
            (if b' \<le> i \<and> i < end_of tail n then d else attr_of (ys @ tail) i))"

lemma cutAfter_spec:
  assumes sane: "sanity L n" and n: "n < 2 ^ 31" and ba: "b < a" "a \<le> n"
  shows "\<exists>b' ys tail. cutAfter d b a n (put L E s) = Some (Inr (b', length ys - 1, put (ys @ tail) E s)) \<and>
    cut_answer d b a n L b' ys tail"
proof (cases "a < n")
  case False
  have "length L < 2 ^ 31"
    using sanity_lengths[OF sane] n by auto
  then have "u32 (int (length L) - 1) = length L - 1"
    using sane by (subst u32_small) (auto simp: sanity_def Suc_le_eq nat_diff_distrib)
  then show ?thesis
    using False ba sane
    by (intro exI[of _ b] exI[of _ L] exI[of _ "[]"])
       (auto simp: cutAfter_def cut_answer_def sanity_def)
next
  case True
  obtain pre x post where L: "L = pre @ x # post" and x: "loc x \<le> a"
    and pre: "\<And>y. y \<in> set pre \<Longrightarrow> loc y < loc x" and post: "\<And>y. y \<in> set post \<Longrightarrow> a < loc y"
    using run_split[OF sane] by metis
  let ?e = "end_of post n"
  have e: "a < ?e" "?e \<le> n"
    using True post sane L by (cases post; fastforce simp: sanity_split)+
  have find: "attributesAtIndexEffectiveRange a n (pre @ x # post) =
      Some (Inr (attrs x, NSMakeRange (loc x) (?e - loc x), length pre))"
    using search_finds[OF sane n True L x e(1)] L by simp
  have "length L < 2 ^ 31"
    using sanity_lengths[OF sane] n by auto
  then have index: "u32 (int (length pre) - 1) = length pre - 1" if "pre \<noteq> []"
    using that L by (subst u32_small) (auto simp: Suc_le_eq nat_diff_distrib)
  have in_x: "attr_of (pre @ x # post) i = attrs x" if "loc x \<le> i" "i < ?e" for i
  proof (intro attr_of_mid)
    show "i < loc y" if "y \<in> set post" for y
      using that \<open>i < ?e\<close> sane L by (cases post) (fastforce simp: sanity_def sorted_wrt_append)+
  qed (use that pre in fastforce)+
  consider (same) "attrs x = d" | (late) "attrs x \<noteq> d" "b < loc x"
    | (early) "attrs x \<noteq> d" "loc x \<le> b" by linarith
  then show ?thesis
  proof cases
    case same
    let ?b = "if loc x < b then loc x else b"
    have "u32 (int (loc x)) = loc x" using x ba n by (intro u32_int) simp
    then have "cutAfter d b a n (put L E s) = Some (Inr (?b, length (pre @ [x]) - 1, put ((pre @ [x]) @ post) E s))"
      using True find same by (simp add: cutAfter_def L)
    moreover have "cut_answer d b a n L ?b (pre @ [x]) post"
      using sane e ba x in_x same by (auto simp: cut_answer_def L)
    ultimately show ?thesis by blast
  next
    case late
    then have "pre \<noteq> []"
      using sane L by (auto simp: sanity_def)
    then have "cutAfter d b a n (put L E s) =
        Some (Inr (b, length pre - 1, put (pre @ x\<lparr>loc := a\<rparr> # post) E s))"
      using True find late index by (simp add: cutAfter_def L OBJECTAT_ok setLoc_put)
    moreover have "cut_answer d b a n L b pre (x\<lparr>loc := a\<rparr> # post)"
      using move_run[OF _ x e(1) \<open>pre \<noteq> []\<close>] sane ba late \<open>pre \<noteq> []\<close>
      by (auto simp: cut_answer_def L)
    ultimately show ?thesis by blast
  next
    case early
    let ?y = "\<lparr>loc = a, attrs = attrs x\<rparr>"
    have "INSOBJECT ?y (length pre + 1) (put (pre @ x # post) (add_mset (attrs ?y) E) s) =
        Some (Inr (put (pre @ x # ?y # post) E s))"
      by (subst INSOBJECT_put) simp_all
    then have "cutAfter d b a n (put L E s) =
        Some (Inr (b, length (pre @ [x]) - 1, put ((pre @ [x]) @ ?y # post) E s))"
      using True find early e by (simp add: cutAfter_def L del: put_sel(2))
    moreover have "cut_answer d b a n L b (pre @ [x]) (?y # post)"
      using split_run[of pre x post n a] sane ba early e by (auto simp: cut_answer_def L)
    ultimately show ?thesis by blast
  qed
qed

text \<open>The runs after the attributes were set, and the reference counts that go with them.\<close>

lemma set_runs:
  assumes ok: "storage_ok E s" and n: "textLength s < 2 ^ 31"
    and range: "len r \<noteq> 0" "NSMaxRange r \<le> textLength s"
  shows "\<exists>L. setAttributes cl a r s =
      edited cl textLength NSTextStorageEditedAttributes r 0 (put L E s) \<and>
    sanity L (textLength s) \<and>
    (\<forall>i < textLength s. attr_of L i =
       (if NSLocationInRange i r then (case a of None \<Rightarrow> blank | Some d \<Rightarrow> d)
        else attr_of (infoArray s) i))"
proof -
  let ?d = "case a of None \<Rightarrow> blank | Some d \<Rightarrow> d" and ?n = "textLength s"
  let ?b = "location r" and ?a = "NSMaxRange r"
  have ba: "?b < ?a" using range(1) by (simp add: NSMaxRange_def)
  have sane: "sanity (infoArray s) ?n" using ok by (simp add: storage_ok_def)
  let ?s = "put (infoArray s) (add_mset ?d E) s"
  obtain b' ys tail where cut: "cutAfter ?d ?b ?a ?n ?s =
      Some (Inr (b', length ys - 1, put (ys @ tail) (add_mset ?d E) s))"
    and ans: "cut_answer ?d ?b ?a ?n (infoArray s) b' ys tail"
    using cutAfter_spec[OF sane n ba range(2)] by metis
  have ys: "ys \<noteq> []" "sanity (ys @ tail) ?n" "b' < end_of tail ?n"
    using ans by (simp_all add: cut_answer_def)
  have lay: "pbind (removeWithin b' (length ys - 1) (put (ys @ tail) (add_mset ?d E) s))
      (\<lambda>p. placeRun ?d b' (fst p) (snd p)) = Some (Inr (put (stage b' ?d ys tail) E s))"
    using layRun[of ys tail b' ?d E s] ys by (simp add: sanity_def)
  have s1: "s\<lparr>attrMap := cacheAttributes ?d (attrMap s)\<rparr> = ?s"
    using ok by (simp add: storage_ok_def put_def)
  have small: "u32 (int ?n) = ?n" "u32 (int ?b) = ?b" "u32 (int ?a) = ?a"
    using n range(2) ba by (auto intro!: u32_int)
  have "setAttributes cl a r s =
      edited cl textLength NSTextStorageEditedAttributes r 0 (put (stage b' ?d ys tail) E s)"
    using range cut lay
    by (simp add: setAttributes_def Let_def s1 small range_ok_max case_prod_unfold pbind_assoc [symmetric])
  moreover have "sanity (stage b' ?d ys tail) ?n"
    using stage_runs(1)[OF ys(2,1,3)] .
  moreover have "attr_of (stage b' ?d ys tail) i =
      (if NSLocationInRange i r then ?d else attr_of (infoArray s) i)" if "i < ?n" for i
    using stage_runs(2)[OF ys(2,1,3) that] ans that
    by (simp add: cut_answer_def NSLocationInRange_def)
  ultimately show ?thesis by blast
qed

subsection \<open>Replacing characters\<close>

lemma absorbRuns_put:
  assumes "\<And>y. y \<in> set Ps \<Longrightarrow> loc y \<le> m" and "loc q \<le> m" and "\<And>y. y \<in> set rest \<Longrightarrow> m < loc y"
  shows "absorbRuns m (length A) (put (A @ Ps @ q # rest) E s) = put (A @ q # rest) E s"
  using assms(1)
proof (induction Ps)
  case Nil
  then show ?case
    using assms(3) by (subst absorbRuns.simps) (cases rest; force simp: nth_append)
next
  case (Cons p Ps)
  let ?L = "A @ (p # Ps) @ q # rest"
  have next': "length A + 1 < length ?L" "loc (?L ! (length A + 1)) \<le> m"
    using Cons.prems assms(2) by (cases Ps; simp add: nth_append)+
  have "absorbRuns m (length A) (put ?L E s) =
      absorbRuns m (length A) (put (take (length A) ?L @ drop (Suc (length A)) ?L) E s)"
    using next' remove_put[of "length A" ?L E s]
    by (subst absorbRuns.simps) (simp del: put_sel(2))
  then show ?case using Cons by simp
qed

text \<open>What trimming leaves behind the run \<open>x\<close> that the new characters join.\<close>

definition trim_answer ::
  "nat \<Rightarrow> nat \<Rightarrow> 'v text_info list \<Rightarrow> 'v text_info \<Rightarrow> 'v text_info list \<Rightarrow> 'v text_info list \<Rightarrow> bool" where
  "trim_answer m n pre x post post' \<longleftrightarrow>
     sanity (pre @ x # post') n \<and> m \<le> end_of post' n \<and> end_of post n \<le> end_of post' n \<and>
     (\<forall>i. m \<le> i \<and> i < n \<longrightarrow> attr_of (pre @ x # post') i = attr_of (pre @ x # post) i)"

lemma trimFollowing_spec:
  fixes s :: "('m, 'v) text_storage"
  assumes sane: "sanity (pre @ x # post) n" and n: "n = textLength s" "n < 2 ^ 31"
    and m: "NSMaxRange r \<le> n" and eff: "NSMaxRange eff = end_of post n"
  shows "\<exists>post'. trimFollowing eff r (length pre + 1) (put (pre @ x # post) E s) =
      Some (Inr (put (pre @ x # post') E s)) \<and> trim_answer (NSMaxRange r) n pre x post post'"
proof (cases "NSMaxRange eff < NSMaxRange r")
  case False
  then show ?thesis
    using sane eff by (intro exI[of _ post]) (simp add: trimFollowing_def trim_answer_def)
next
  case True
  let ?m = "NSMaxRange r"
  define F R where "F = takeWhile (\<lambda>y. loc y \<le> ?m) post" and "R = dropWhile (\<lambda>y. loc y \<le> ?m) post"
  have post: "post = F @ R" by (simp add: F_def R_def)
  have ne: "post \<noteq> []" using True eff m by auto
  then have hd: "loc (hd post) < ?m" using True eff by (cases post) auto
  then have "F \<noteq> []" using ne by (cases post) (auto simp: F_def)
  then obtain Ps q where F: "F = Ps @ [q]" by (metis append_butlast_last_id)
  have le: "loc y \<le> ?m" if "y \<in> set F" for y
    using that by (auto simp: F_def dest: set_takeWhileD)
  have sorted: "sorted_wrt (<) (map loc (pre @ x # Ps @ q # R))"
    using sane by (simp add: sanity_def post F)
  have gt: "?m < loc y" if "y \<in> set R" for y
  proof -
    have "y \<in> set (dropWhile (\<lambda>y. loc y < ?m + 1) post)"
      using that by (simp add: R_def less_Suc_eq_le)
    then have "?m + 1 \<le> loc y"
      using sane by (intro dropWhile_from[of post]) (simp_all add: sanity_def sorted_wrt_append)
    then show ?thesis by simp
  qed
  have step: "absorbRuns ?m (length pre + 1) (put (pre @ x # post) E s) = put (pre @ x # q # R) E s"
    using absorbRuns_put[of Ps ?m q R "pre @ [x]" E s] le gt by (simp add: post F)
  have len: "length pre + 1 < length (pre @ x # post)" using ne by (cases post) auto
  have at: "(pre @ x # post) ! (length pre + 1) = hd post" using ne by (cases post) (auto simp: nth_append)
  have sane': "sanity (pre @ x # q # R) n"
    using sane sorted by (auto simp: sanity_split post F sorted_wrt_append)
  show ?thesis
  proof (cases "?m < n")
    case mn: True
    have u: "u32 (int ?m) = ?m" using mn n(2) by (intro u32_int) simp
    have "loc q \<le> ?m" using le F by simp
    have e: "?m < end_of R n" using gt mn by (cases R) auto
    have mv: "sanity (pre @ x # q\<lparr>loc := ?m\<rparr> # R) n"
      using move_run(1)[of "pre @ [x]" q R n ?m] sane' \<open>loc q \<le> ?m\<close> e by simp
    have "attr_of (pre @ x # q\<lparr>loc := ?m\<rparr> # R) i = attr_of (pre @ x # post) i" if "?m \<le> i" for i
    proof -
      have before: "loc y \<le> i" if "y \<in> set (pre @ x # F)" for y
        using that \<open>?m \<le> i\<close> le sorted hd ne by (fastforce simp: F sorted_wrt_append)
      have "attr_of ((pre @ [x]) @ q\<lparr>loc := ?m\<rparr> # R) i = attr_of ((pre @ x # Ps) @ q # R) i"
        using before F that by (intro attr_of_swap) auto
      then show ?thesis by (simp add: post F)
    qed
    then have "trim_answer ?m n pre x post (q\<lparr>loc := ?m\<rparr> # R)"
      using mv hd ne eff True by (auto simp: trim_answer_def)
    moreover have "trimFollowing eff r (length pre + 1) (put (pre @ x # post) E s) =
        Some (Inr (put (pre @ x # q\<lparr>loc := ?m\<rparr> # R) E s))"
    proof -
      have "(pre @ x # q # R) ! Suc (length pre) = q" by (simp add: nth_append)
      then show ?thesis
        using True len at hd step mn n(1) u
        by (simp add: trimFollowing_def OBJECTAT_ok Let_def setLoc_put list_update_append)
    qed
    ultimately show ?thesis by blast
  next
    case False
    then have mn: "?m = n" using m by simp
    have "R = []"
      using gt[of "hd R"] sane mn by (cases R) (auto simp: sanity_split post)
    then have "trimFollowing eff r (length pre + 1) (put (pre @ x # post) E s) =
        Some (Inr (put (pre @ [x]) E s))"
      using True len at hd step mn n(1)
      by (simp add: trimFollowing_def OBJECTAT_ok Let_def REMOVEAT_put)
    moreover have "trim_answer ?m n pre x post []"
      using sane mn eff True by (auto simp: trim_answer_def sanity_split sorted_wrt_append)
    ultimately show ?thesis by blast
  qed
qed

lemma moveRuns_put:
  assumes "\<And>y. y \<in> set B \<Longrightarrow> m \<le> loc y \<and> loc y < 2 ^ 31" and "m' < 2 ^ 31"
    and "mv = int m' - int m"
  shows "moveRuns (length A) mv (put (A @ B) E s) = put (A @ map (move_to m m') B) E s"
proof -
  have "y\<lparr>loc := u32 (int (loc y) + mv)\<rparr> = move_to m m' y" if "y \<in> set B" for y
  proof -
    have "u32 (int (loc y) + mv) = nat (int (loc y) + mv)"
      using assms(1)[OF that] assms(2,3) by (intro u32_small) auto
    also have "\<dots> = loc y - m + m'"
      using assms(1)[OF that] assms(3) by auto
    finally show ?thesis by (simp add: move_to_def)
  qed
  then have moved: "map (\<lambda>y. y\<lparr>loc := u32 (int (loc y) + mv)\<rparr>) B = map (move_to m m') B"
    by simp
  have same: "map attrs (map (move_to m m') B) = map attrs B"
    by simp
  show ?thesis
    unfolding moveRuns_def put_def map_append same by (simp add: moved del: map_map map_eq_conv)
qed

text \<open>
  The index behind the front runs \<open>A\<close> and the runs after the empty run was dropped, in the
  three cases the code tells apart.
\<close>

definition drop_answer ::
  "nat \<Rightarrow> nat \<Rightarrow> nat \<Rightarrow> 'v text_info list \<Rightarrow> 'v text_info \<Rightarrow> 'v text_info list \<Rightarrow>
   'v text_info list \<Rightarrow> 'v text_info list \<Rightarrow> bool" where
  "drop_answer l m n pre x post A B \<longleftrightarrow>
     (if loc x = l \<and> end_of post n = m
      then if pre @ post \<noteq> [] then A = pre \<and> B = post
           else A = [] \<and> B = [\<lparr>loc = m, attrs = blank\<rparr>]
      else A = pre @ [x] \<and> B = post)"

lemma dropEmptyRun_spec:
  assumes sane: "sanity (pre @ x # post) n" and n: "n < 2 ^ 31" and m: "NSMaxRange r \<le> n"
    and st: "start < n" "loc x \<le> start" "start < end_of post n"
  shows "\<exists>A B. dropEmptyRun start r n (put (pre @ x # post) E s) = Some (Inr (length A, put (A @ B) E s)) \<and>
    drop_answer (location r) (NSMaxRange r) n pre x post A B"
proof -
  have find: "attributesAtIndexEffectiveRange start n (pre @ x # post) =
      Some (Inr (attrs x, NSMakeRange (loc x) (end_of post n - loc x), length pre))"
    using search_finds[OF sane n st(1) refl st(2,3)] .
  have same: "loc x = location r \<and> end_of post n - loc x = len r \<longleftrightarrow>
      loc x = location r \<and> end_of post n = NSMaxRange r"
    using st by (auto simp: NSMaxRange_def)
  show ?thesis
  proof (cases "loc x = location r \<and> end_of post n = NSMaxRange r")
    case False
    then show ?thesis
      using find same
      by (intro exI[of _ "pre @ [x]"] exI[of _ post]) (auto simp: dropEmptyRun_def drop_answer_def)
  next
    case True
    show ?thesis
    proof (cases "pre @ post = []")
      case False
      then have "length pre \<noteq> 0 \<or> 1 < length (pre @ x # post)" by auto
      then show ?thesis
        using find same True False
        by (intro exI[of _ pre] exI[of _ post])
           (auto simp: dropEmptyRun_def drop_answer_def REMOVEAT_put)
    next
      case single: True
      have "u32 (int (NSMaxRange r)) = NSMaxRange r" using m n by (intro u32_int) simp
      then have "dropEmptyRun start r n (put (pre @ x # post) E s) =
          Some (Inr (0, put [\<lparr>loc = NSMaxRange r, attrs = blank\<rparr>] E s))"
        using find same True single by (auto simp: dropEmptyRun_def OBJECTAT_ok put_def)
      then show ?thesis
        using True single
        by (intro exI[of _ "[]"] exI[of _ "[\<lparr>loc = NSMaxRange r, attrs = blank\<rparr>]"])
           (simp add: drop_answer_def)
    qed
  qed
qed

text \<open>
  What replacing means for the runs: \<open>L'\<close> are well formed runs of the new text, the characters
  in front and behind keep their attributes, and the new ones have the attributes \<open>d\<close>.
\<close>

definition replaces_runs ::
  "nat \<Rightarrow> nat \<Rightarrow> nat \<Rightarrow> nat \<Rightarrow> 'v attrs \<Rightarrow> 'v text_info list \<Rightarrow> 'v text_info list \<Rightarrow> bool" where
  "replaces_runs l m k n d L L' \<longleftrightarrow>
     sanity L' (n - m + (l + k)) \<and> (\<forall>i<l. attr_of L' i = attr_of L i) \<and>
     (\<forall>i. l \<le> i \<and> i < l + k \<longrightarrow> attr_of L' i = d) \<and>
     (\<forall>j. m \<le> j \<and> j < n \<longrightarrow> attr_of L' (j - m + (l + k)) = attr_of L j)"

lemma replaces_runs_keep:
  assumes sane: "sanity (pre @ x # post) n" and lm: "l \<le> m" "m \<le> n" and x: "loc x \<le> l"
    and e: "m \<le> end_of post n" and ne: "loc x = l \<Longrightarrow> k = 0 \<Longrightarrow> end_of post n \<noteq> m"
    and le: "\<And>i. i < l \<Longrightarrow> i < end_of post n"
  shows "replaces_runs l m k n (attrs x) (pre @ x # post) ((pre @ [x]) @ map (move_to m (l + k)) post)"
proof -
  have sorted: "sorted_wrt (<) (map loc (pre @ x # post))" using sane by (simp add: sanity_def)
  have pre: "loc y < loc x" if "y \<in> set pre" for y
    using sorted that by (auto simp: sorted_wrt_append)
  have pre': "loc y \<le> l" if "y \<in> set (pre @ [x])" for y
    using pre that x by fastforce
  have post: "end_of post n \<le> loc y" "loc y < n" if "y \<in> set post" for y
    using sane sorted that by (cases post; auto simp: sanity_split sorted_wrt_append)+
  have en: "end_of post n \<le> n" using sane by (cases post) (auto simp: sanity_split)
  have "loc y < loc z - m + (l + k)" if "y \<in> set (pre @ [x])" "z \<in> set post" for y z
  proof -
    have "loc y \<le> loc x" using that(1) pre by fastforce
    then show ?thesis
      using post(1)[OF that(2)] e ne x by (cases "k = 0"; cases "loc x = l"; simp)
  qed
  moreover have "loc y < n - m + (l + k)" if "y \<in> set (tl (pre @ [x]))" for y
  proof -
    have "y \<in> set (pre @ [x])" using that by (cases pre) auto
    then have "loc y \<le> loc x" using pre by fastforce
    then show ?thesis using x e ne en lm by (cases "k = 0"; cases "loc x = l"; simp)
  qed
  ultimately have "sanity ((pre @ [x]) @ map (move_to m (l + k)) post) (n - m + (l + k))"
    using sane sorted post e
    by (intro sanity_moved) (fastforce simp: sanity_split sorted_wrt_append)+
  moreover have "attr_of ((pre @ [x]) @ map (move_to m (l + k)) post) i = attr_of (pre @ x # post) i"
    if "i < l" for i
  proof -
    have "attr_of ((pre @ [x]) @ map (move_to m (l + k)) post) i = attr_of (pre @ [x]) i"
      using that by (intro attr_of_moved_front) simp
    also have "\<dots> = attr_of ((pre @ [x]) @ post) i"
      using le[OF that] post by (intro attr_of_left [symmetric]) fastforce
    finally show ?thesis by simp
  qed
  moreover have "attr_of ((pre @ [x]) @ map (move_to m (l + k)) post) i = attrs x"
    if "l \<le> i" "i < l + k" for i
  proof -
    have "attr_of ((pre @ [x]) @ map (move_to m (l + k)) post) i = attr_of (pre @ [x]) i"
      using that by (intro attr_of_moved_front) simp
    also have "\<dots> = attrs x"
      using that pre' by (intro attr_of_mid) fastforce+
    finally show ?thesis .
  qed
  moreover have "attr_of ((pre @ [x]) @ map (move_to m (l + k)) post) (j - m + (l + k)) =
      attr_of (pre @ x # post) j" if "m \<le> j" "j < n" for j
    using attr_of_moved_behind[of post m "pre @ [x]" "l + k" j] that post e pre' lm by fastforce
  ultimately show ?thesis by (simp add: replaces_runs_def)
qed

lemma replaces_runs_drop:
  assumes sane: "sanity (pre @ x # post) n" and lm: "l \<le> m" "m \<le> n" and x: "loc x = l"
    and e: "end_of post n = m"
  shows "replaces_runs l m 0 n d (pre @ x # post)
    (if pre @ post \<noteq> [] then pre @ map (move_to m l) post
     else map (move_to m l) [\<lparr>loc = m, attrs = blank\<rparr>])"
proof (cases "pre @ post = []")
  case True
  then show ?thesis
    using sane e x by (auto simp: replaces_runs_def sanity_def)
next
  case False
  have sorted: "sorted_wrt (<) (map loc (pre @ x # post))" using sane by (simp add: sanity_def)
  have pre: "loc y < l" if "y \<in> set pre" for y
    using sorted that x by (auto simp: sorted_wrt_append)
  have post: "m \<le> loc y" "loc y < n" if "y \<in> set post" for y
    using sane sorted that e by (cases post; auto simp: sanity_split sorted_wrt_append)+
  have x0: "loc x = 0" if "pre = []"
    using sane that by (simp add: sanity_def)
  have "loc y < loc z - m + l" if "y \<in> set pre" "z \<in> set post" for y z
    using pre[OF that(1)] by simp
  moreover have "loc y < n - m + l" if "y \<in> set (tl pre)" for y
    using pre[of y] that by (cases pre) auto
  ultimately have "sanity (pre @ map (move_to m l) post) (n - m + l)"
    using sane sorted post e x x0 False
    by (intro sanity_moved) (auto simp: sanity_split sorted_wrt_append end_of_def split: list.splits)
  moreover have "attr_of (pre @ map (move_to m l) post) i = attr_of (pre @ x # post) i"
    if "i < l" for i
  proof -
    have "attr_of (pre @ map (move_to m l) post) i = attr_of pre i"
      using that by (intro attr_of_moved_front) simp
    also have "\<dots> = attr_of (pre @ x # post) i"
      using that x sorted by (intro attr_of_left [symmetric]) (fastforce simp: sorted_wrt_append)
    finally show ?thesis .
  qed
  moreover have "attr_of (pre @ map (move_to m l) post) (j - m + l) = attr_of (pre @ x # post) j"
    if "m \<le> j" "j < n" for j
  proof -
    have "attr_of (pre @ map (move_to m l) post) (j - m + l) = attr_of (pre @ post) j"
      using that post pre lm by (intro attr_of_moved_behind) fastforce+
    also have "\<dots> = attr_of post j"
      using sorted e that by (intro attr_of_tail[of _ _ n]) (auto simp: sorted_wrt_append)
    also have "\<dots> = attr_of ((pre @ [x]) @ post) j"
      using sorted e that by (intro attr_of_tail[of _ _ n, symmetric]) auto
    finally show ?thesis by simp
  qed
  ultimately show ?thesis using False by (auto simp: replaces_runs_def)
qed

text \<open>The position whose attributes the new characters get.\<close>

definition inherit_from :: "nsrange \<Rightarrow> nat" where
  "inherit_from r = (if len r = 0 \<and> 0 < location r then location r - 1 else location r)"

lemma replace_runs_several:
  fixes s :: "('m, 'v) text_storage" and r :: nsrange and str :: "unichar list"
  defines "l \<equiv> location r" and "m \<equiv> NSMaxRange r" and "k \<equiv> length str" and "n \<equiv> textLength s"
  assumes sane: "sanity L n" and L1: "length L \<noteq> 1"
    and small: "n < 2 ^ 31" "n - len r + k < 2 ^ 31" and m: "m \<le> n" and l: "l < n"
  shows "\<exists>L'. replaceCharacters cl r (Some str) (put L E s) =
      edited cl textLength NSTextStorageEditedCharacters r (int k - int (len r))
        (setTextChars r str (put L' E s)) \<and>
    replaces_runs l m k n (attr_of L (inherit_from r)) L L'"
proof -
  let ?st = "inherit_from r"
  have st: "?st < n" "?st \<le> l" using l by (auto simp: inherit_from_def l_def)
  have lm: "l \<le> m" "m = l + len r" by (simp_all add: l_def m_def NSMaxRange_def)
  obtain pre x post where L: "L = pre @ x # post" and x: "loc x \<le> ?st"
    and post: "\<And>y. y \<in> set post \<Longrightarrow> ?st < loc y" and attr: "attr_of L ?st = attrs x"
    using run_split[OF sane] by metis
  have e: "?st < end_of post n" using post st by (cases post) auto
  have sane1: "sanity (pre @ x # post) n" using sane L by simp
  let ?eff = "NSMakeRange (loc x) (end_of post n - loc x)"
  have find: "attributesAtIndexEffectiveRange ?st n L = Some (Inr (attrs x, ?eff, length pre))"
    using search_finds[OF sane small(1) st(1) L x e] .
  have eff: "NSMaxRange ?eff = end_of post n" using x e by simp
  obtain post' where trim: "trimFollowing ?eff r (length pre + 1) (put (pre @ x # post) E s) =
      Some (Inr (put (pre @ x # post') E s))" and ta: "trim_answer m n pre x post post'"
    using trimFollowing_spec[OF sane1 meta_eq_to_obj_eq[OF n_def] small(1) m[unfolded m_def] eff, of E] m_def by metis
  have sane': "sanity (pre @ x # post') n" and e': "m \<le> end_of post' n" "end_of post n \<le> end_of post' n"
    using ta by (simp_all add: trim_answer_def)
  have low: "i < end_of post' n" if "i < l" for i
    using that e e' by (auto simp: inherit_from_def l_def split: if_splits)
  have front: "attr_of (pre @ x # post') i = attr_of (pre @ x # post) i" if "i < l" for i
  proof -
    have i: "i < end_of post n" "i < end_of post' n"
      using that e e' by (auto simp: inherit_from_def l_def split: if_splits)
    have "attr_of ((pre @ [x]) @ p) i = attr_of (pre @ [x]) i" if "p = post \<or> p = post'" for p
      using that i sane1 sane'
      by (intro attr_of_left) (cases p; fastforce simp: sanity_def sorted_wrt_append)
    from this[of post] this[of post'] show ?thesis by simp
  qed
  have lift: "replaces_runs l m k n d L R" if "replaces_runs l m k n d (pre @ x # post') R" for d R
    using that front ta by (simp add: replaces_runs_def trim_answer_def L)
  have below: "m \<le> loc y \<and> loc y < 2 ^ 31" if "y \<in> set post'" for y
    using that sane' e' small(1) by (cases post'; fastforce simp: sanity_split sorted_wrt_append)
  have bounds: "l + k < 2 ^ 31" "s32 (int k - int (len r)) = int k - int (len r)"
      "u32 (int n) = n" "u32 (int l) = l" "range_ok r n"
    using m lm small l by (auto simp: s32_small range_ok_max m_def)
  have start: "(if len r = 0 \<and> 0 < l then u32 (int (location r) - 1)
      else u32 (int (location r))) = ?st"
    using l small(1) by (auto simp: inherit_from_def l_def u32_small nat_diff_distrib)
  have zero: "u64 (int k - int (len r) + int (len r)) = 0 \<longleftrightarrow> k = 0"
    using bounds by simp
  obtain A B where drop: "k = 0 \<longrightarrow> dropEmptyRun ?st r n (put (pre @ x # post') E s) =
      Some (Inr (length A, put (A @ B) E s))"
    and da: "if k = 0 then drop_answer l m n pre x post' A B else A = pre @ [x] \<and> B = post'"
  proof (cases "k = 0")
    case True
    then show ?thesis
      using that dropEmptyRun_spec[OF sane' small(1) m[unfolded m_def] st(1) x, of E s] e e'
      by (auto simp: l_def m_def)
  qed (use that in auto)
  have B: "m \<le> loc y \<and> loc y < 2 ^ 31" if "y \<in> set B" for y
    using that da below m small by (auto simp: drop_answer_def split: if_splits)
  let ?R = "A @ map (move_to m (l + k)) B"
  have move: "moveRuns (length A) (int k - int (len r)) (put (A @ B) E s) = put ?R E s"
    using moveRuns_put[of B m "l + k" "int k - int (len r)" A E s] B bounds lm by simp
  have "replaceCharacters cl r (Some str) (put L E s) =
      edited cl textLength NSTextStorageEditedCharacters r (int k - int (len r))
        (setTextChars r str (put ?R E s))"
  proof -
    have "textLength (put L E s) = n" by (simp add: n_def)
    then have "replaceCharacters cl r (Some str) (put L E s) =
        pbind (if k = 0 then dropEmptyRun ?st r n (put (pre @ x # post') E s)
               else Some (Inr (length pre + 1, put (pre @ x # post') E s))) (\<lambda>(i, s2).
          edited cl textLength NSTextStorageEditedCharacters r (int k - int (len r))
            (setTextChars r str (moveRuns i (int k - int (len r)) s2)))"
      using find trim [folded L] bounds start zero L1 l
      by (simp add: replaceCharacters_def k_def [symmetric] l_def [symmetric] Let_def
          split del: if_split)
    then show ?thesis
      using drop da move by (cases "k = 0") auto
  qed
  moreover have "replaces_runs l m k n (attrs x) L ?R"
  proof (cases "k = 0 \<and> loc x = l \<and> end_of post' n = m")
    case True
    then have "?R = (if pre @ post' \<noteq> [] then pre @ map (move_to m l) post'
        else map (move_to m l) [\<lparr>loc = m, attrs = blank\<rparr>])"
      using da by (auto simp: drop_answer_def)
    then show ?thesis
      using True lift replaces_runs_drop[OF sane' lm(1) m, of "attrs x"] by simp
  next
    case False
    then have AB: "A = pre @ [x]" "B = post'"
      using da by (auto simp: drop_answer_def split: if_splits)
    have "loc x \<le> l" using x st by simp
    then show ?thesis
      unfolding AB using False e'(1) low
      by (intro lift replaces_runs_keep[OF sane' lm(1) m]) auto
  qed
  ultimately show ?thesis using attr by auto
qed

lemma sanity_mono: "sanity L n \<Longrightarrow> n \<le> n' \<Longrightarrow> sanity L n'"
  by (auto simp: sanity_def intro: less_le_trans)

lemma attr_of_last:
  assumes "\<And>y. y \<in> set L \<Longrightarrow> loc y \<le> i"
  shows "attr_of L i = attrs (last L)"
  using assms by (simp add: attr_of_def takeWhile_eq_all_conv [THEN iffD2])

lemma sanity_le:
  assumes "sanity L n" and "y \<in> set L"
  shows "loc y \<le> n - 1"
  using assms by (cases L) (auto simp: sanity_def)

lemma replaces_runs_append:
  assumes sane: "sanity L n"
  shows "replaces_runs n n k n (attr_of L (n - 1)) L L"
proof -
  have last: "attr_of L j = attrs (last L)" if "n - 1 \<le> j" for j
  proof (rule attr_of_last)
    show "loc y \<le> j" if "y \<in> set L" for y
      using sanity_le[OF sane that] \<open>n - 1 \<le> j\<close> by linarith
  qed
  have new: "attr_of L i = attr_of L (n - 1)" if "n \<le> i" for i
    using last[of i] last[of "n - 1"] that by simp
  show ?thesis
    unfolding replaces_runs_def
  proof (intro conjI allI impI)
    show "sanity L (n - n + (n + k))"
      using sanity_mono[OF sane] by simp
    show "attr_of L i = attr_of L (n - 1)" if "n \<le> i \<and> i < n + k" for i
      using new that by blast
    show "attr_of L (j - n + (n + k)) = attr_of L j" if "n \<le> j \<and> j < n" for j
      using that by (meson leD)
  qed simp
qed

lemma replaces_runs_single:
  assumes "sanity [x] n"
  shows "replaces_runs l m k n (attr_of [x] i) [x] [x]"
proof -
  have "attr_of [x] j = attrs x" for j
    using assms by (simp add: sanity_def attr_of_def)
  moreover have "sanity [x] j" for j
    using assms by (simp add: sanity_def)
  ultimately show ?thesis by (simp add: replaces_runs_def)
qed

lemma replace_runs:
  fixes s :: "('m, 'v) text_storage" and r :: nsrange and str :: "unichar list"
  defines "l \<equiv> location r" and "m \<equiv> NSMaxRange r" and "k \<equiv> length str" and "n \<equiv> textLength s"
  assumes ok: "storage_ok E s" and small: "n < 2 ^ 31" "n - len r + k < 2 ^ 31" and m: "m \<le> n"
  shows "\<exists>L'. replaceCharacters cl r (Some str) s =
      edited cl textLength NSTextStorageEditedCharacters r (int k - int (len r))
        (setTextChars r str (put L' E s)) \<and>
    replaces_runs l m k n (attr_of (infoArray s) (inherit_from r)) (infoArray s) L'"
proof -
  let ?L = "infoArray s"
  have sane: "sanity ?L n" using ok by (simp add: storage_ok_def n_def)
  have same: "put ?L E s = s" using put_same[OF ok] .
  have m': "m = l + len r" by (simp add: l_def m_def NSMaxRange_def)
  have u: "u32 (int n) = n" using small by (intro u32_int) simp
  have ok_r: "range_ok r n" using m by (simp add: range_ok_max m_def)
  consider "l = n" | "l \<noteq> n" "length ?L = 1" | "l < n" "length ?L \<noteq> 1"
    using m m' by linarith
  then show ?thesis
  proof cases
    case 1
    then have "replaceText r str (textChars s) = textChars s @ str"
      using m m' by (simp add: replaceText_def l_def m_def n_def textLength_def)
    then have "replaceCharacters cl r (Some str) s =
        edited cl textLength NSTextStorageEditedCharacters r (int k - int (len r)) (setTextChars r str s)"
      using 1 u ok_r by (simp add: replaceCharacters_def setTextChars_def l_def n_def k_def Let_def)
    moreover have "inherit_from r = n - 1" "l = n" "m = n"
      using 1 m m' by (auto simp: inherit_from_def l_def)
    then have "replaces_runs l m k n (attr_of ?L (inherit_from r)) ?L ?L"
      using replaces_runs_append[OF sane] by simp
    ultimately show ?thesis by (intro exI[of _ ?L]) (simp add: same)
  next
    case 2
    then obtain x where L: "?L = [x]" by (cases ?L) auto
    have "replaceCharacters cl r (Some str) s =
        edited cl textLength NSTextStorageEditedCharacters r (int k - int (len r)) (setTextChars r str s)"
      using 2 u ok_r by (simp add: replaceCharacters_def l_def n_def k_def Let_def)
    moreover have "replaces_runs l m k n (attr_of ?L (inherit_from r)) ?L ?L"
      using sane unfolding L by (rule replaces_runs_single)
    ultimately show ?thesis by (intro exI[of _ ?L]) (simp add: same)
  next
    case 3
    show ?thesis
      using replace_runs_several[where s = s and L = ?L and r = r and str = str and E = E and cl = cl]
      using 3 sane small m unfolding same l_def m_def n_def k_def by blast
  qed
qed

subsection \<open>The abstract text\<close>

text \<open>What a storage stands for: its characters, each with its attributes.\<close>

definition styled :: "('m, 'v) text_storage \<Rightarrow> (unichar \<times> 'v attrs) list" where
  "styled s = map (\<lambda>i. (textChars s ! i, attr_of (infoArray s) i)) [0..<textLength s]"

definition set_styled ::
  "'v attrs \<Rightarrow> nsrange \<Rightarrow> (unichar \<times> 'v attrs) list \<Rightarrow> (unichar \<times> 'v attrs) list" where
  "set_styled d r xs =
     take (location r) xs @ map (\<lambda>(c, _). (c, d)) (take (len r) (drop (location r) xs)) @
     drop (NSMaxRange r) xs"

definition replace_styled ::
  "'v attrs \<Rightarrow> nsrange \<Rightarrow> unichar list \<Rightarrow> (unichar \<times> 'v attrs) list \<Rightarrow>
   (unichar \<times> 'v attrs) list" where
  "replace_styled d r str xs =
     take (location r) xs @ map (\<lambda>c. (c, d)) str @ drop (NSMaxRange r) xs"

lemma styled_length [simp]: "length (styled s) = textLength s"
  by (simp add: styled_def)

lemma styled_nth [simp]:
  "i < textLength s \<Longrightarrow> styled s ! i = (textChars s ! i, attr_of (infoArray s) i)"
  by (simp add: styled_def)

lemma styled_set:
  assumes "\<And>i. i < textLength s \<Longrightarrow>
      attr_of (infoArray s') i = (if NSLocationInRange i r then d else attr_of (infoArray s) i)"
    and "textChars s' = textChars s" and "NSMaxRange r \<le> textLength s"
  shows "styled s' = set_styled d r (styled s)"
proof (rule nth_equalityI)
  have n: "textLength s' = textLength s" using assms(2) by (simp add: textLength_def)
  show "length (styled s') = length (set_styled d r (styled s))"
    using assms(3) n by (simp add: set_styled_def NSMaxRange_def)
  fix i assume "i < length (styled s')"
  then have i: "i < textLength s" using n by simp
  show "styled s' ! i = set_styled d r (styled s) ! i"
    using i n assms(1)[OF i] assms(2,3)
    by (cases "i < location r"; cases "i - location r < len r")
       (auto simp: set_styled_def nth_append NSLocationInRange_def NSMaxRange_def)
qed

lemma styled_replace:
  assumes runs: "replaces_runs (location r) (NSMaxRange r) (length str) (textLength s) d
      (infoArray s) (infoArray s')"
    and chars: "textChars s' = replaceText r str (textChars s)" and m: "NSMaxRange r \<le> textLength s"
  shows "styled s' = replace_styled d r str (styled s)"
proof (rule nth_equalityI)
  let ?l = "location r" and ?m = "NSMaxRange r" and ?k = "length str" and ?n = "textLength s"
  have lm: "?l \<le> ?m" by (simp add: NSMaxRange_def)
  have n: "textLength s' = ?n - ?m + (?l + ?k)"
    using chars m lm by (simp add: textLength_def replaceText_def)
  show "length (styled s') = length (replace_styled d r str (styled s))"
    using n m lm by (simp add: replace_styled_def)
  fix i assume "i < length (styled s')"
  then have i: "i < ?n - ?m + (?l + ?k)" using n by simp
  consider "i < ?l" | "?l \<le> i" "i < ?l + ?k" | j where "?m \<le> j" "j < ?n" "i = j - ?m + (?l + ?k)"
  proof (cases "i < ?l + ?k")
    case False
    then show ?thesis using i m that(3)[of "i - (?l + ?k) + ?m"] by simp
  qed (use that in linarith)
  then show "styled s' ! i = replace_styled d r str (styled s) ! i"
  proof cases
    case 1
    then show ?thesis
      using i n m lm runs
      by (simp add: replace_styled_def nth_append replaces_runs_def chars replaceText_def textLength_def)
  next
    case 2
    then have "i - ?l < ?k" by linarith
    then show ?thesis
      using 2 i n m lm runs
      by (simp add: replace_styled_def nth_append replaces_runs_def chars replaceText_def textLength_def)
  next
    case (3 j)
    let ?cs = "textChars s"
    have len: "length ?cs = ?n" by (simp add: textLength_def)
    have i': "i = length (take ?l ?cs @ str) + (j - ?m)"
      using 3 m lm len by simp
    have "textChars s' ! i = ((take ?l ?cs @ str) @ drop ?m ?cs) ! i"
      by (simp add: chars replaceText_def)
    also have "\<dots> = ?cs ! j"
      unfolding i' nth_append_length_plus using 3 m len by simp
    finally have "styled s' ! i = (?cs ! j, attr_of (infoArray s) j)"
      using 3 i n runs by (simp add: replaces_runs_def)
    also have "\<dots> = ((take ?l (styled s) @ map (\<lambda>c. (c, d)) str) @ drop ?m (styled s)) ! i"
    proof -
      have "i = length (take ?l (styled s) @ map (\<lambda>c. (c, d)) str) + (j - ?m)"
        using 3 m lm by simp
      then show ?thesis
        using 3 m by (simp only: nth_append_length_plus) simp
    qed
    also have "\<dots> = replace_styled d r str (styled s) ! i"
      by (simp add: replace_styled_def)
    finally show ?thesis .
  qed
qed

end
