(* ===== verification/AttributedText.thy ===== *)
theory AttributedText
  imports TextStorage
begin

text \<open>
  The contract of the concrete storage, stated on the abstract text of \<open>TextStorage\<close>: what
  initialisation, lookup and the two mutating primitives do to the characters and their
  attributes, that the reference counts stay exact, and that the range recorded for the
  layout managers covers every edit of a bracketed session.
\<close>

subsection \<open>Storages made by the initialiser\<close>

definition plain :: "unichar list \<Rightarrow> 'v attrs \<Rightarrow> 'v cache \<Rightarrow> ('m, 'v) text_storage" where
  "plain cs d m = (allocStorage (cacheAttributes d m))\<lparr>infoArray := [\<lparr>loc = 0, attrs = d\<rparr>], textChars := cs\<rparr>"

lemma init_plain:
  "initWithString (PlainString str a) m =
     Some (plain (case str of None \<Rightarrow> [] | Some cs \<Rightarrow> cs) (case a of None \<Rightarrow> blank | Some d \<Rightarrow> d) m)"
  by (simp add: initWithString_def plain_def ADDOBJECT_def allocStorage_def Let_def)

lemma plain_sel [simp]:
  "infoArray (plain cs d m) = [\<lparr>loc = 0, attrs = d\<rparr>]" "textChars (plain cs d m) = cs"
  "textLength (plain cs d m) = length cs" "editCount (plain cs d m) = 0"
  "editedMask (plain cs d m) = 0" "editedDelta (plain cs d m) = 0"
  by (simp_all add: plain_def allocStorage_def textLength_def)

lemma plain_ok: "storage_ok E (plain cs d (tally E))"
  by (simp add: storage_ok_def sanity_def) (simp add: plain_def allocStorage_def)

lemma plain_ok0: "storage_ok {#} (plain cs d Map.empty)"
  using plain_ok[of "{#}" cs d] by (simp add: tally_def)

lemma styled_plain: "styled (plain cs d m) = map (\<lambda>c. (c, d)) cs"
  by (rule nth_equalityI) (simp_all add: attr_of_def)

text \<open>
  Copying the runs of another attributed string. Its lookup is the documented one: the range
  it answers starts at or before the index and ends behind it, inside the string, and all its
  positions have the answered attributes.
\<close>

definition lookup_of :: "nat \<Rightarrow> (nat \<Rightarrow> 'v attrs) \<Rightarrow> (nat \<Rightarrow> 'v attrs \<times> nsrange) \<Rightarrow> bool" where
  "lookup_of n f other \<longleftrightarrow>
     (\<forall>i<n. fst (other i) = f i \<and> NSLocationInRange i (snd (other i)) \<and>
        NSMaxRange (snd (other i)) \<le> n \<and>
        (\<forall>j. NSLocationInRange j (snd (other i)) \<longrightarrow> f j = f i))"

lemma lookup_ofD:
  assumes "lookup_of n f other" and "i < n"
  shows "fst (other i) = f i" and "location (snd (other i)) \<le> i" and "i < NSMaxRange (snd (other i))"
    and "NSMaxRange (snd (other i)) \<le> n"
    and "\<And>j. location (snd (other i)) \<le> j \<Longrightarrow> j < NSMaxRange (snd (other i)) \<Longrightarrow> f j = f i"
  using assms unfolding lookup_of_def NSLocationInRange_def by blast+

lemma addRunsFrom_spec:
  assumes other: "lookup_of n f other" and n: "n < 2 ^ 31"
    and L: "sanity (L @ [x]) n" "\<And>i. i < NSMaxRange rng \<Longrightarrow> attr_of (L @ [x]) i = f i"
      "loc x < NSMaxRange rng" "NSMaxRange rng \<le> n"
  shows "\<exists>L'. addRunsFrom other (NSMakeRange 0 n) rng (put (L @ [x]) E s) = Some (put L' E s) \<and>
    sanity L' n \<and> (\<forall>i<n. attr_of L' i = f i)"
  using L
proof (induction "n - NSMaxRange rng" arbitrary: L x rng rule: less_induct)
  case less
  let ?l = "NSMaxRange rng"
  have u: "u32 (int ?l) = ?l" "u32 (int ?l - 0) = ?l"
    using less.prems(4) n by (auto intro: u32_int)
  show ?case
  proof (cases "?l < n")
    case False
    then have "?l = n" using less.prems by simp
    then show ?thesis
      using False less.prems u by (subst addRunsFrom.simps) (auto simp: Let_def)
  next
    case True
    let ?r = "snd (other ?l)" and ?y = "\<lparr>loc = ?l, attrs = f ?l\<rparr>"
    note o = lookup_ofD[OF other True]
    have below: "loc y < ?l" if "y \<in> set (L @ [x])" for y
      using less.prems(1,3) that by (fastforce simp: sanity_def sorted_wrt_append)
    have "0 < ?l" using less.prems(3) by simp
    then have sane: "sanity ((L @ [x]) @ [?y]) n"
      using less.prems(1) below True by (cases L) (auto simp: sanity_def sorted_wrt_append)
    have at: "attr_of ((L @ [x]) @ [?y]) i = f i" if "i < NSMaxRange ?r" for i
    proof (cases "i < ?l")
      case True
      then have "attr_of ((L @ [x]) @ [?y]) i = attr_of (L @ [x]) i"
        by (intro attr_of_left) simp
      then show ?thesis using less.prems(2) True by simp
    next
      case False
      then have "\<And>y. y \<in> set (L @ [x]) \<Longrightarrow> loc y \<le> i"
        using below by fastforce
      then have "attr_of ((L @ [x]) @ [?y]) i = f ?l"
        using attr_of_mid[of "L @ [x]" i ?y "[]"] False by simp
      moreover have "f i = f ?l" using o(2) False that by (intro o(5)) simp_all
      ultimately show ?thesis by simp
    qed
    have step: "addRunsFrom other (NSMakeRange 0 n) rng (put (L @ [x]) E s) =
        addRunsFrom other (NSMakeRange 0 n) ?r (put ((L @ [x]) @ [?y]) E s)"
    proof -
      have "ADDOBJECT ?y (put (L @ [x]) (add_mset (f ?l) E) s) = put ((L @ [x]) @ [?y]) E s"
        by (simp add: ADDOBJECT_def put_def)
      then show ?thesis
        using True u o(1)
        by (subst addRunsFrom.simps) (simp add: Let_def del: put_sel(2))
    qed
    show ?thesis
      unfolding step using o(3,4) True sane at by (intro less.hyps) auto
  qed
qed

lemma init_copy:
  fixes other :: "nat \<Rightarrow> 'v attrs \<times> nsrange"
  assumes other: "lookup_of (length str) f other" and n: "length str < 2 ^ 31"
  shows "\<exists>s :: ('m, 'v) text_storage. initWithString (AttributedString str other) (tally E) = Some s \<and>
    storage_ok E s \<and> textChars s = str \<and> styled s = map (\<lambda>i. (str ! i, f i)) [0..<length str]"
proof -
  let ?n = "length str" and ?s = "put [] E (allocStorage (tally E)) :: ('m, 'v) text_storage"
  have alloc: "allocStorage (tally E) = ?s"
    by (simp_all add: put_def allocStorage_def)
  have start: "(ADDOBJECT \<lparr>loc = 0, attrs = d\<rparr> (?s\<lparr>attrMap := cacheAttributes d (attrMap ?s)\<rparr>)) =
      put [\<lparr>loc = 0, attrs = d\<rparr>] E ?s" for d
    by (simp add: ADDOBJECT_def put_def)
  have "\<exists>L'. setAttributesFrom other (NSMakeRange 0 ?n) ?s = Some (put L' E ?s) \<and>
      sanity L' ?n \<and> (\<forall>i<?n. attr_of L' i = f i)"
  proof (cases "?n = 0")
    case True
    then show ?thesis
      using start[of blank]
      by (intro exI[of _ "[\<lparr>loc = 0, attrs = blank\<rparr>]"])
         (simp add: setAttributesFrom_def Let_def addRunsFrom.simps sanity_def put_def)
  next
    case False
    let ?r = "snd (other 0)" and ?x = "\<lparr>loc = 0, attrs = f 0\<rparr>"
    have "0 < ?n" using False by simp
    note o = lookup_ofD[OF other this]
    have "setAttributesFrom other (NSMakeRange 0 ?n) ?s =
        addRunsFrom other (NSMakeRange 0 ?n) ?r (put ([] @ [?x]) E ?s)"
      using False o(1) start[of "f 0"]
      by (simp add: setAttributesFrom_def Let_def case_prod_unfold del: put_sel(2))
         (simp add: put_def ADDOBJECT_def allocStorage_def)
    moreover have "sanity ([] @ [?x]) ?n" by (simp add: sanity_def)
    moreover have "attr_of ([] @ [?x]) i = f i" if "i < NSMaxRange ?r" for i
      using o(2) o(5)[of i] that by (simp add: attr_of_def)
    ultimately show ?thesis
      using addRunsFrom_spec[OF other n, of "[]" ?x ?r E ?s] o(3,4)
      by (metis text_info.select_convs(1))
  qed
  then obtain L' where L': "setAttributesFrom other (NSMakeRange 0 ?n) ?s = Some (put L' E ?s)"
      "sanity L' ?n" "\<And>i. i < ?n \<Longrightarrow> attr_of L' i = f i" by blast
  let ?t = "(put L' E ?s)\<lparr>textChars := str\<rparr>"
  have "initWithString (AttributedString str other) (tally E) = Some ?t"
    using L'(1) by (simp add: initWithString_def alloc(1) [symmetric])
  moreover have "storage_ok E ?t"
    using L'(2) by (simp add: storage_ok_def textLength_def put_def)
  moreover have "styled ?t = map (\<lambda>i. (str ! i, f i)) [0..<?n]"
    using L'(3) by (simp add: styled_def textLength_def)
  ultimately show ?thesis by fastforce
qed

subsection \<open>Lookup\<close>

lemma lookup_inside:
  assumes ok: "storage_ok E s" and n: "textLength s < 2 ^ 31" and i: "i < textLength s"
  shows "\<exists>r. attributesAtIndex i s = Some (Inr (snd (styled s ! i), r)) \<and>
    NSLocationInRange i r \<and> NSMaxRange r \<le> textLength s \<and>
    (\<forall>j. NSLocationInRange j r \<longrightarrow> snd (styled s ! j) = snd (styled s ! i))"
proof -
  let ?n = "textLength s" and ?L = "infoArray s"
  have sane: "sanity ?L ?n" using ok by (simp add: storage_ok_def)
  obtain pre x post where L: "?L = pre @ x # post" and x: "loc x \<le> i"
    and pre: "\<And>y. y \<in> set pre \<Longrightarrow> loc y < loc x" and post: "\<And>y. y \<in> set post \<Longrightarrow> i < loc y"
    and attr: "attr_of ?L i = attrs x"
    using run_split[OF sane] by metis
  let ?e = "end_of post ?n"
  have e: "i < ?e" "?e \<le> ?n"
    using i post sane L by (cases post; fastforce simp: sanity_split)+
  have u: "u32 (int i) = i" "u32 (int ?n) = ?n" using i n by (auto intro!: u32_int)
  have "attributesAtIndex i s = Some (Inr (attrs x, NSMakeRange (loc x) (?e - loc x)))"
    using search_finds[OF sane n i L x e(1)] u by (simp add: attributesAtIndex_def)
  moreover have "attr_of ?L j = attrs x" if "loc x \<le> j" "j < ?e" for j
    unfolding L
  proof (intro attr_of_mid)
    show "j < loc y" if "y \<in> set post" for y
      using that \<open>j < ?e\<close> sane L by (cases post) (fastforce simp: sanity_def sorted_wrt_append)+
  qed (use that pre in fastforce)+
  ultimately show ?thesis
    using x e i attr by (intro exI[of _ "NSMakeRange (loc x) (?e - loc x)"]) (auto simp: NSLocationInRange_def)
qed

text \<open>C4: The attributes looked up at an index inside the text are those of that character, the
  range answered with them holds the index, lies inside the text and holds characters with the
  same attributes only; at the end of the text the last run answers, behind it a range exception
  is raised. The index is cut to 32 bits before it is checked.\<close>

theorem text_lookup:
  assumes "storage_ok E s" and "textLength s < 2 ^ 31"
  shows "(i < textLength s \<longrightarrow>
      (\<exists>r. attributesAtIndex i s = Some (Inr (snd (styled s ! i), r)) \<and>
         NSLocationInRange i r \<and> NSMaxRange r \<le> textLength s \<and>
         (\<forall>j. NSLocationInRange j r \<longrightarrow> snd (styled s ! j) = snd (styled s ! i)))) \<and>
    attributesAtIndex (textLength s) s =
      Some (Inr (attrs (last (infoArray s)),
                 NSMakeRange (loc (last (infoArray s))) (textLength s - loc (last (infoArray s))))) \<and>
    (textLength s < i \<and> i < 2 ^ 32 \<longrightarrow> attributesAtIndex i s = Some (Inl NSRangeException)) \<and>
    attributesAtIndex (i + 2 ^ 32) s = attributesAtIndex i s"
proof -
  have sane: "sanity (infoArray s) (textLength s)" and ne: "infoArray s \<noteq> []"
    using assms(1) by (simp_all add: storage_ok_def sanity_def)
  have u: "u32 (int (textLength s)) = textLength s" using assms(2) by (intro u32_int) simp
  have "u32 (int (i + 2 ^ 32)) = u32 (int i)" by (simp add: u32_def)
  then show ?thesis
    using lookup_inside[OF assms] search_end[OF sane assms(2)] search_beyond[OF ne, of "textLength s" i] u
    by (simp add: attributesAtIndex_def)
qed

theorem text_lookup_witness:
  "attributesAtIndex 5 (plain [104, 105] [''size'' \<mapsto> 12] Map.empty :: (unit, nat) text_storage) =
     Some (Inl NSRangeException)"
proof -
  have ok: "storage_ok {#} (plain [104, 105] [''size'' \<mapsto> 12] Map.empty :: (unit, nat) text_storage)"
    by (rule plain_ok0)
  show ?thesis using text_lookup[OF ok, of 5] by simp
qed

subsection \<open>The primitives\<close>

text \<open>C3: Setting attributes gives exactly the characters of the range the new attributes (blank
  ones for \<open>nil\<close>), changes no character and keeps the runs well formed and the reference
  counts exact; what follows is the recording of an edit of the attributes with length change 0.\<close>

theorem text_set_attributes:
  assumes "storage_ok E s" and "textLength s < 2 ^ 31"
    and "len r \<noteq> 0" and "NSMaxRange r \<le> textLength s"
  shows "\<exists>s'. setAttributes cl a r s = edited cl textLength NSTextStorageEditedAttributes r 0 s' \<and>
    storage_ok E s' \<and> textChars s' = textChars s \<and>
    styled s' = set_styled (case a of None \<Rightarrow> blank | Some d \<Rightarrow> d) r (styled s)"
proof -
  obtain L where L: "setAttributes cl a r s =
      edited cl textLength NSTextStorageEditedAttributes r 0 (put L E s)"
    "sanity L (textLength s)"
    "\<And>i. i < textLength s \<Longrightarrow> attr_of L i =
       (if NSLocationInRange i r then (case a of None \<Rightarrow> blank | Some d \<Rightarrow> d)
        else attr_of (infoArray s) i)"
    using set_runs[OF assms] by blast
  have "storage_ok E (put L E s)"
    using L(2) by (simp add: storage_ok_def)
  moreover have "styled (put L E s) = set_styled (case a of None \<Rightarrow> blank | Some d \<Rightarrow> d) r (styled s)"
    using L(3) assms(4) by (intro styled_set) simp_all
  ultimately show ?thesis using L(1) by (intro exI[of _ "put L E s"]) simp
qed

theorem text_set_attributes_witness:
  "\<exists>s'. setAttributes idle_clients (Some [''size'' \<mapsto> 9]) (NSMakeRange 1 1)
      (plain [104, 105] [''size'' \<mapsto> (12::nat)] Map.empty) =
      edited idle_clients textLength NSTextStorageEditedAttributes (NSMakeRange 1 1) 0 s' \<and>
    styled s' = [(104, [''size'' \<mapsto> 12]), (105, [''size'' \<mapsto> 9])]"
  using text_set_attributes[OF plain_ok0, of "[104, 105]" "[''size'' \<mapsto> 12 :: nat]" "NSMakeRange 1 1" idle_clients "Some [''size'' \<mapsto> 9]"]
  by (auto simp: styled_plain set_styled_def)

text \<open>C2: Replacing characters changes exactly the range: the characters in front and behind keep
  their attributes, and the new ones get those of the first character replaced or, when none is
  replaced, of the one before; runs stay well formed and reference counts exact. The recorded
  edit has the change in length.\<close>

theorem text_replace_characters:
  assumes "storage_ok E s" and "textLength s < 2 ^ 31"
    and "textLength s - len r + length str < 2 ^ 31" and "NSMaxRange r \<le> textLength s"
  shows "\<exists>s'. replaceCharacters cl r (Some str) s =
      edited cl textLength NSTextStorageEditedCharacters r (int (length str) - int (len r)) s' \<and>
    storage_ok E s' \<and> textChars s' = replaceText r str (textChars s) \<and>
    styled s' = replace_styled (attr_of (infoArray s) (inherit_from r)) r str (styled s)"
proof -
  obtain L where L: "replaceCharacters cl r (Some str) s =
      edited cl textLength NSTextStorageEditedCharacters r (int (length str) - int (len r))
        (setTextChars r str (put L E s))"
    and R: "replaces_runs (location r) (NSMaxRange r) (length str) (textLength s)
      (attr_of (infoArray s) (inherit_from r)) (infoArray s) L"
    using replace_runs[OF assms] by blast
  let ?s' = "setTextChars r str (put L E s)"
  have sel: "infoArray ?s' = L" "textChars ?s' = replaceText r str (textChars s)"
      "attrMap ?s' = tally (E + mset (map attrs L))"
    by (simp_all add: setTextChars_def)
  have "textLength ?s' = textLength s - NSMaxRange r + (location r + length str)"
    using assms(4) sel(2) by (simp add: textLength_def replaceText_def NSMaxRange_def)
  then have "storage_ok E ?s'"
    using R sel by (simp add: storage_ok_def replaces_runs_def)
  moreover have "styled ?s' = replace_styled (attr_of (infoArray s) (inherit_from r)) r str (styled s)"
    using R sel assms(4) by (intro styled_replace) simp_all
  ultimately show ?thesis using L sel(2) by (intro exI[of _ ?s']) simp
qed

theorem text_replace_characters_witness:
  "\<exists>s'. replaceCharacters idle_clients (NSMakeRange 1 1) (Some [106, 107])
      (plain [104, 105] [''size'' \<mapsto> (12::nat)] Map.empty) =
      edited idle_clients textLength NSTextStorageEditedCharacters (NSMakeRange 1 1) 1 s' \<and>
    styled s' = map (\<lambda>c. (c, [''size'' \<mapsto> 12])) [104, 106, 107]"
  using text_replace_characters[OF plain_ok0, of "[104, 105]" "[''size'' \<mapsto> 12 :: nat]" "NSMakeRange 1 1" "[106, 107]" idle_clients]
  by (auto simp: styled_plain replace_styled_def inherit_from_def attr_of_def)

text \<open>An attribute change with a range outside the text raises a range exception without touching
  the text, but only after it has taken a reference to the attributes that no run holds and
  nothing gives back: the reference count of the dictionary is one too high from then on.\<close>

lemma text_set_leaks:
  assumes "storage_ok E s" and "textLength s < 2 ^ 31"
    and "len r \<noteq> 0" and "textLength s < NSMaxRange r"
  shows "\<exists>s'. setAttributes cl (Some d) r s = Some (Inl (NSRangeException, s')) \<and>
    infoArray s' = infoArray s \<and> textChars s' = textChars s \<and>
    storage_ok (add_mset d E) s' \<and> \<not> storage_ok E s'"
proof -
  let ?s' = "put (infoArray s) (add_mset d E) s"
  have u: "u32 (int (textLength s)) = textLength s" using assms(2) by (intro u32_int) simp
  have "s\<lparr>attrMap := cacheAttributes d (attrMap s)\<rparr> = ?s'"
    using assms(1) by (simp add: storage_ok_def put_def)
  then have "setAttributes cl (Some d) r s = Some (Inl (NSRangeException, ?s'))"
    using assms(3,4) u by (simp add: setAttributes_def Let_def range_ok_max)
  moreover have "storage_ok (add_mset d E) ?s'"
    using assms(1) by (simp add: storage_ok_def)
  moreover have "\<not> storage_ok E ?s'"
  proof
    assume "storage_ok E ?s'"
    then have "tally (add_mset d (E + mset (map attrs (infoArray s)))) d =
        tally (E + mset (map attrs (infoArray s))) d"
      by (simp add: storage_ok_def)
    then show False by (auto simp: tally_def split: if_splits)
  qed
  ultimately show ?thesis by (intro exI[of _ ?s']) simp
qed

lemma text_set_leaks_example:
  "\<exists>s'. setAttributes idle_clients (Some [''size'' \<mapsto> 9]) (NSMakeRange 1 5)
      (plain [104, 105] [''size'' \<mapsto> (12::nat)] Map.empty) = Some (Inl (NSRangeException, s')) \<and>
    \<not> storage_ok {#} s'"
  using text_set_leaks[OF plain_ok0, of "[104, 105]" "[''size'' \<mapsto> 12 :: nat]" "NSMakeRange 1 5" idle_clients "[''size'' \<mapsto> 9]"]
  by auto

text \<open>A new storage made from a string or from another attributed string has its characters and
  attributes, well formed runs and exact reference counts.\<close>

lemma text_init:
  fixes other :: "nat \<Rightarrow> 'v attrs \<times> nsrange"
  assumes "lookup_of (length str) f other" and "length str < 2 ^ 31"
  shows "(\<exists>s :: ('m, 'v) text_storage.
      initWithString (AttributedString str other) (tally E) = Some s \<and> storage_ok E s \<and>
      styled s = map (\<lambda>i. (str ! i, f i)) [0..<length str]) \<and>
    (\<exists>s :: ('m, 'v) text_storage.
      initWithString (PlainString (Some str) a) (tally E) = Some s \<and> storage_ok E s \<and>
      styled s = map (\<lambda>c. (c, case a of None \<Rightarrow> blank | Some d \<Rightarrow> d)) str)"
proof (rule conjI)
  show "\<exists>s :: ('m, 'v) text_storage. initWithString (AttributedString str other) (tally E) = Some s \<and>
      storage_ok E s \<and> styled s = map (\<lambda>i. (str ! i, f i)) [0..<length str]"
    using init_copy[OF assms, of E] by blast
qed (simp add: init_plain plain_ok styled_plain)

lemma text_init_example:
  "\<exists>s :: (unit, nat) text_storage.
     initWithString (AttributedString [7, 8, 9]
       (\<lambda>i. if i < 2 then ([''a'' \<mapsto> 1], NSMakeRange 0 2) else ([''a'' \<mapsto> 2], NSMakeRange 2 1)))
       (tally {#}) = Some s \<and>
     styled s = [(7, [''a'' \<mapsto> 1]), (8, [''a'' \<mapsto> 1]), (9, [''a'' \<mapsto> 2])]"
proof -
  let ?f = "\<lambda>i::nat. if i < 2 then [''a'' \<mapsto> 1::nat] else [''a'' \<mapsto> 2]"
  let ?g = "\<lambda>i::nat. if i < 2 then ([''a'' \<mapsto> 1::nat], NSMakeRange 0 2)
      else ([''a'' \<mapsto> 2], NSMakeRange 2 1)"
  have "lookup_of (length [7::unichar, 8, 9]) ?f ?g"
    unfolding lookup_of_def NSLocationInRange_def by (intro allI impI conjI) (simp_all split: if_splits)
  from text_init[OF this, of "{#}"]
  obtain s :: "(unit, nat) text_storage" where
    "initWithString (AttributedString [7, 8, 9] ?g) (tally {#}) = Some s"
    "styled s = map (\<lambda>i. ([7, 8, 9] ! i, ?f i)) [0..<length [7::unichar, 8, 9]]"
    by auto
  moreover have "[0..<length [7::unichar, 8, 9]] = [0, 1, 2]"
    by (simp add: upt_rec)
  ultimately show ?thesis by auto
qed

subsection \<open>Edit sessions\<close>

text \<open>The calls a client makes between begin and end.\<close>

datatype 'v text_edit =
    SetAttributes "'v attrs option" nsrange
  | ReplaceCharacters nsrange "unichar list"

fun applyEdit ::
  "('m, ('m, 'v) text_storage) clients \<Rightarrow> 'v text_edit \<Rightarrow> ('m, 'v) text_storage \<Rightarrow>
   ('m, 'v) text_storage pstep" where
  "applyEdit cl (SetAttributes a r) s = setAttributes cl a r s"
| "applyEdit cl (ReplaceCharacters r str) s = replaceCharacters cl r (Some str) s"

fun applyEdits ::
  "('m, ('m, 'v) text_storage) clients \<Rightarrow> 'v text_edit list \<Rightarrow> ('m, 'v) text_storage \<Rightarrow>
   ('m, 'v) text_storage pstep" where
  "applyEdits cl [] s = Some (Inr s)"
| "applyEdits cl (e # es) s = pbind (applyEdit cl e s) (applyEdits cl es)"

text \<open>Edits inside a text of \<open>n\<close> characters that stays below \<open>2 ^ 31\<close> characters.\<close>

fun edits_fit :: "nat \<Rightarrow> 'v text_edit list \<Rightarrow> bool" where
  "edits_fit n [] = True"
| "edits_fit n (SetAttributes a r # es) \<longleftrightarrow> NSMaxRange r \<le> n \<and> edits_fit n es"
| "edits_fit n (ReplaceCharacters r str # es) \<longleftrightarrow>
     NSMaxRange r \<le> n \<and> n - len r + length str < 2 ^ 31 \<and>
     edits_fit (n - len r + length str) es"

lemma storage_ok_editing [simp]:
  "storage_ok E (s\<lparr>editedRange := r, editedMask := w, editedDelta := d\<rparr>) = storage_ok E s"
  by (simp add: storage_ok_def textLength_def)

lemma textLength_replace:
  "NSMaxRange r \<le> textLength s \<Longrightarrow>
     length (replaceText r str (textChars s)) = textLength s - len r + length str"
  by (simp add: replaceText_def textLength_def NSMaxRange_def)

text \<open>Recording one edit inside a bracket succeeds and keeps the promise of the recorded range.\<close>

lemma edited_covers:
  fixes s' :: "('m, 'v) text_storage"
  assumes ok: "storage_ok E s'" and chars: "textChars s' = replaceText r str (textChars s)"
    and editing: "editing.truncate s' = editing.truncate s"
    and count: "editCount s \<noteq> 0" and cov: "covers t0 (textChars s) s"
    and n: "textLength s < 2 ^ 31" "textLength s' < 2 ^ 31" and r: "NSMaxRange r \<le> textLength s"
    and d: "d = int (length str) - int (len r)"
    and flags: "flags \<noteq> 0" "flags AND NSTextStorageEditedCharacters = 0 \<longrightarrow> d = 0"
  shows "\<exists>s''. edited cl L flags r d s' = Some (Inr s'') \<and> storage_ok E s'' \<and>
    textChars s'' = textChars s' \<and> infoArray s'' = infoArray s' \<and> editCount s'' = editCount s \<and>
    covers t0 (textChars s'') s''"
proof -
  have same: "editCount s' = editCount s" "editedMask s' = editedMask s"
      "editedRange s' = editedRange s" "editedDelta s' = editedDelta s"
    using editing by (simp_all add: editing.truncate_def)
  define R where "R = (if editedMask s' = 0 then r else NSUnionRange (editedRange s') r)"
  let ?d = "if flags AND NSTextStorageEditedCharacters \<noteq> 0 then d else 0"
  have dd: "?d = d" using flags(2) by simp
  have neg: "0 \<le> d \<or> u32 (- d) \<le> len r"
    using d n(1) r by (cases "0 \<le> d") (auto simp: u32_small NSMaxRange_def)
  have len_r: "NSMaxRange R \<le> textLength s" "len r \<le> len R"
  proof -
    have "NSMaxRange (editedRange s) \<le> textLength s" if "editedMask s \<noteq> 0"
      using coversD(4)[OF cov that] by (simp add: textLength_def)
    then show "NSMaxRange R \<le> textLength s"
      using r by (auto simp: R_def same NSMaxRange_union)
    show "len r \<le> len R"
      by (auto simp: R_def NSUnionRange_def Let_def NSMaxRange_def)
  qed
  have u: "u64 (int (len R) + d) = nat (int (len R) + d)"
    using len_r d n chars textLength_replace[OF r, of str] r
    by (intro u64_small) (auto simp: NSMaxRange_def textLength_def)
  let ?s'' = "s'\<lparr>editedRange := R\<lparr>len := nat (int (len R) + d)\<rparr>,
      editedMask := editedMask s' OR flags, editedDelta := editedDelta s' + d\<rparr>"
  have "(if d = 0 then R else R\<lparr>len := u64 (int (len R) + d)\<rparr>) =
      R\<lparr>len := nat (int (len R) + d)\<rparr>"
    using u by simp
  then have "edited cl L flags r d s' = Some (Inr ?s'')"
    using edited_recorded[of s' flags d r cl L] count neg same(1) dd
    by (simp add: Let_def R_def [symmetric] split del: if_split)
  moreover have "covers t0 (textChars s') ?s''"
    using flags(1) same d r chars
    by (intro covers_replace[OF cov, of r _ str d R]) (simp_all add: R_def same textLength_def replaceText_def or_eq_0_iff)
  ultimately show ?thesis
    using ok same by (intro exI[of _ ?s'']) simp
qed

lemma edit_step:
  fixes s :: "('m, 'v) text_storage"
  assumes ok: "storage_ok E s" and count: "editCount s \<noteq> 0" and cov: "covers t0 (textChars s) s"
    and n: "textLength s < 2 ^ 31" and fit: "edits_fit (textLength s) (e # es)"
  shows "\<exists>s'. applyEdit cl e s = Some (Inr s') \<and> storage_ok E s' \<and> editCount s' = editCount s \<and>
    covers t0 (textChars s') s' \<and> textLength s' < 2 ^ 31 \<and> edits_fit (textLength s') es"
proof (cases e)
  case (SetAttributes a r)
  then have r: "NSMaxRange r \<le> textLength s" using fit by simp
  show ?thesis
  proof (cases "len r = 0")
    case True
    then show ?thesis
      using assms SetAttributes by (intro exI[of _ s]) (simp add: setAttributes_def)
  next
    case False
    obtain L where L: "setAttributes cl a r s =
        edited cl textLength NSTextStorageEditedAttributes r 0 (put L E s)" "sanity L (textLength s)"
      using set_runs[OF ok n False r] by blast
    let ?str = "take (len r) (drop (location r) (textChars s))"
    have "drop (NSMaxRange r) (textChars s) = drop (len r) (drop (location r) (textChars s))"
      by (simp add: NSMaxRange_def add.commute)
    then have same: "textChars (put L E s) = replaceText r ?str (textChars s)"
      by (simp only: replaceText_def append_take_drop_id put_sel)
    have "length ?str = len r"
      using r by (simp add: textLength_def NSMaxRange_def)
    then have d: "0 = int (length ?str) - int (len r)" by simp
    have put: "storage_ok E (put L E s)" "editing.truncate (put L E s) = editing.truncate s"
        "textLength (put L E s) < 2 ^ 31"
      using L(2) n by (simp_all add: storage_ok_def) (simp add: put_def editing.truncate_def)
    have flags: "NSTextStorageEditedAttributes \<noteq> 0" by (simp add: NSTextStorageEditedAttributes_def)
    obtain s'' where s'': "edited cl textLength NSTextStorageEditedAttributes r 0 (put L E s) = Some (Inr s'')"
      "storage_ok E s''" "textChars s'' = textChars (put L E s)" "editCount s'' = editCount s"
      "covers t0 (textChars s'') s''"
      using edited_covers[OF put(1) same put(2) count cov n put(3) r d flags, of cl textLength] by blast
    then have "textLength s'' = textLength s" by (simp add: textLength_def)
    then show ?thesis
      using s'' L(1) SetAttributes n fit by (intro exI[of _ s'']) simp
  qed
next
  case (ReplaceCharacters r str)
  then have r: "NSMaxRange r \<le> textLength s" and m: "textLength s - len r + length str < 2 ^ 31"
    and rest: "edits_fit (textLength s - len r + length str) es"
    using fit by simp_all
  obtain L where L: "replaceCharacters cl r (Some str) s =
      edited cl textLength NSTextStorageEditedCharacters r (int (length str) - int (len r))
        (setTextChars r str (put L E s))"
    and R: "replaces_runs (location r) (NSMaxRange r) (length str) (textLength s)
      (attr_of (infoArray s) (inherit_from r)) (infoArray s) L"
    using replace_runs[OF ok n m r] by blast
  let ?s' = "setTextChars r str (put L E s)"
  have chars: "textChars ?s' = replaceText r str (textChars s)"
    and trunc: "editing.truncate ?s' = editing.truncate s"
    by (simp_all add: setTextChars_def put_def editing.truncate_def)
  have len': "textLength ?s' = textLength s - len r + length str"
    using textLength_replace[OF r, of str] chars by (simp add: textLength_def)
  have "textLength s - len r + length str = textLength s - NSMaxRange r + (location r + length str)"
    using r by (simp add: NSMaxRange_def)
  then have ok': "storage_ok E ?s'"
    using R len' unfolding storage_ok_def replaces_runs_def
    by (simp add: setTextChars_def add.assoc)
  have flags: "NSTextStorageEditedCharacters AND NSTextStorageEditedCharacters \<noteq> 0"
      "NSTextStorageEditedCharacters \<noteq> 0"
    by (simp_all add: NSTextStorageEditedCharacters_def)
  have "textLength ?s' < 2 ^ 31" using m len' by simp
  then obtain s'' where s'': "edited cl textLength NSTextStorageEditedCharacters r
        (int (length str) - int (len r)) ?s' = Some (Inr s'')"
      "storage_ok E s''" "textChars s'' = textChars ?s'" "editCount s'' = editCount s"
      "covers t0 (textChars s'') s''"
    using edited_covers[OF ok' chars trunc count cov n _ r refl flags(2), of cl textLength] flags(1)
    by blast
  then have "textLength s'' = textLength s - len r + length str"
    using len' by (simp add: textLength_def)
  then show ?thesis
    using s'' L ReplaceCharacters m rest by (intro exI[of _ s'']) simp
qed

lemma edits_covered:
  fixes s :: "('m, 'v) text_storage"
  assumes "storage_ok E s" and "editCount s \<noteq> 0" and "covers t0 (textChars s) s"
    and "textLength s < 2 ^ 31" and "edits_fit (textLength s) es"
  shows "\<exists>s'. applyEdits cl es s = Some (Inr s') \<and> storage_ok E s' \<and> editCount s' = editCount s \<and>
    covers t0 (textChars s') s'"
  using assms
proof (induction es arbitrary: s)
  case Nil
  then show ?case by simp
next
  case (Cons e es)
  obtain s1 where "applyEdit cl e s = Some (Inr s1)" "storage_ok E s1" "editCount s1 = editCount s"
      "covers t0 (textChars s1) s1" "textLength s1 < 2 ^ 31" "edits_fit (textLength s1) es"
    using edit_step[OF Cons.prems] by blast
  then show ?case using Cons.IH[of s1] Cons.prems(2) by simp
qed

text \<open>C1: Any sequence of in-range edits made inside a bracket succeeds and keeps the storage well
  formed, and at its end the recorded range and change in length tell the whole truth: the old
  and the new text agree in front of the range and behind it, and differ in length by the delta.\<close>

theorem edit_session:
  fixes s :: "('m, 'v) text_storage"
  assumes "storage_ok E s" and "editCount s \<noteq> 0" and "editedMask s = 0" and "editedDelta s = 0"
    and "textLength s < 2 ^ 31" and "edits_fit (textLength s) es"
  shows "\<exists>s'. applyEdits cl es s = Some (Inr s') \<and> storage_ok E s' \<and> editCount s' = editCount s \<and>
    (editedMask s' = 0 \<longrightarrow> textChars s' = textChars s) \<and>
    (editedMask s' \<noteq> 0 \<longrightarrow> (\<exists>A X Y C. textChars s = A @ X @ C \<and> textChars s' = A @ Y @ C \<and>
       length A = location (editedRange s') \<and> length Y = len (editedRange s') \<and>
       int (length Y) - int (length X) = editedDelta s'))"
proof -
  have "covers (textChars s) (textChars s) s"
    using assms(3,4) by (simp add: covers_def)
  from edits_covered[OF assms(1,2) this assms(5,6), of cl]
  obtain s' where s': "applyEdits cl es s = Some (Inr s')" "storage_ok E s'"
      "editCount s' = editCount s" "covers (textChars s) (textChars s') s'"
    by blast
  moreover have "textChars s' = textChars s" if "editedMask s' = 0"
    using s'(4) that by (simp add: covers_def)
  ultimately show ?thesis
    using covers_split[OF s'(4)] by (intro exI[of _ s']) simp
qed

theorem edit_session_witness:
  "\<exists>s' :: (unit, nat) text_storage.
     applyEdits idle_clients [ReplaceCharacters (NSMakeRange 1 1) [5, 6], SetAttributes None (NSMakeRange 0 1)]
       (beginEditing (plain [1, 2, 3] Map.empty Map.empty)) = Some (Inr s') \<and> storage_ok {#} s'"
proof -
  let ?s = "beginEditing (plain [1, 2, 3] Map.empty Map.empty) :: (unit, nat) text_storage"
  have sel: "editCount ?s = 1" "editedMask ?s = 0" "editedDelta ?s = 0" "textLength ?s = length [1::nat, 2, 3]"
      "infoArray ?s = [\<lparr>loc = 0, attrs = Map.empty\<rparr>]"
      "attrMap ?s = attrMap (plain [1, 2, 3] Map.empty Map.empty :: (unit, nat) text_storage)"
    by (simp_all add: beginEditing_def textLength_def)
  have "storage_ok {#} ?s"
    using plain_ok0[of "[1, 2, 3]" Map.empty] sel by (simp add: storage_ok_def)
  then show ?thesis
    using edit_session[of "{#}" ?s "[ReplaceCharacters (NSMakeRange 1 1) [5, 6],
        SetAttributes None (NSMakeRange 0 1)]" idle_clients] sel by auto
qed

end
