(* ===== verification/AttrEdit.thy ===== *)
theory AttrEdit
  imports TextRuns
begin

text \<open>
  The methods \<open>Source/NSAttributedString.m\<close> adds to attributed strings: reading attributes of a
  range, finding the extent of a text block, list or table, super- and subscript, font traits,
  alignment and writing direction, and fixing fonts, paragraph styles and attachments. They run
  on any class of attributed string and reach it through a few methods only, which are the
  fields of a record here.
\<close>

subsection \<open>Values of attributes\<close>

record ('b, 'l) para_style =
  alignment :: int
  writingDirection :: int
  textBlocks :: "'b list"
  textLists :: "'l list"

datatype ('f, 'b, 'l) attr_value =
    Font 'f
  | Number int
  | Style "('b, 'l) para_style"
  | Attachment nat
  | Other nat

text \<open>A message a value does not understand raises.\<close>

fun intValue :: "('f, 'b, 'l) attr_value \<Rightarrow> int res" where
  "intValue (Number n) = Inr n"
| "intValue v = Inl NSInvalidArgumentException"

fun asFont :: "('f, 'b, 'l) attr_value \<Rightarrow> 'f res" where
  "asFont (Font f) = Inr f"
| "asFont v = Inl NSInvalidArgumentException"

fun asStyle :: "('f, 'b, 'l) attr_value \<Rightarrow> ('b, 'l) para_style res" where
  "asStyle (Style p) = Inr p"
| "asStyle v = Inl NSInvalidArgumentException"

definition NSFontAttributeName :: string where "NSFontAttributeName = ''NSFont''"
definition NSParagraphStyleAttributeName :: string where
  "NSParagraphStyleAttributeName = ''NSParagraphStyle''"
definition NSForegroundColorAttributeName :: string where "NSForegroundColorAttributeName = ''NSColor''"
definition NSBackgroundColorAttributeName :: string where
  "NSBackgroundColorAttributeName = ''NSBackgroundColor''"
definition NSUnderlineStyleAttributeName :: string where "NSUnderlineStyleAttributeName = ''NSUnderline''"
definition NSSuperscriptAttributeName :: string where "NSSuperscriptAttributeName = ''NSSuperScript''"
definition NSBaselineOffsetAttributeName :: string where
  "NSBaselineOffsetAttributeName = ''NSBaselineOffset''"
definition NSKernAttributeName :: string where "NSKernAttributeName = ''NSKern''"
definition NSLigatureAttributeName :: string where "NSLigatureAttributeName = ''NSLigature''"
definition NSAttachmentAttributeName :: string where "NSAttachmentAttributeName = ''NSAttachment''"

definition NSAttachmentCharacter :: unichar where
  "NSAttachmentCharacter = 0xfffc"

subsection \<open>The receiver\<close>

text \<open>
  The methods of the receiver: its characters, the lookups with the range they answer, and the
  three changes. A value of \<open>nil\<close> cannot be added.
\<close>

record ('s, 'v) attributed =
  string_of :: "'s \<Rightarrow> unichar list"
  attributesAt :: "nat \<Rightarrow> 's \<Rightarrow> ('v attrs \<times> nsrange) res option"
  attributeAt :: "string \<Rightarrow> nat \<Rightarrow> 's \<Rightarrow> ('v option \<times> nsrange) res option"
  longestAttributeAt :: "string \<Rightarrow> nat \<Rightarrow> nsrange \<Rightarrow> 's \<Rightarrow> ('v option \<times> nsrange) res option"
  addAttribute :: "string \<Rightarrow> 'v option \<Rightarrow> nsrange \<Rightarrow> 's \<Rightarrow> 's pstep"
  removeAttribute :: "string \<Rightarrow> nsrange \<Rightarrow> 's \<Rightarrow> 's pstep"
  deleteCharacters :: "nsrange \<Rightarrow> 's \<Rightarrow> 's pstep"

abbreviation length_of :: "('s, 'v) attributed \<Rightarrow> 's \<Rightarrow> nat" where
  "length_of V s \<equiv> length (string_of V s)"

subsection \<open>Reading\<close>

definition containsAttachments :: "('s, 'v) attributed \<Rightarrow> 's \<Rightarrow> bool" where
  "containsAttachments V s \<longleftrightarrow> NSAttachmentCharacter \<in> set (string_of V s)"

definition fontAttributeKeys :: "string list" where
  "fontAttributeKeys =
     [NSFontAttributeName, NSForegroundColorAttributeName, NSBackgroundColorAttributeName,
      NSUnderlineStyleAttributeName, NSSuperscriptAttributeName, NSBaselineOffsetAttributeName,
      NSKernAttributeName, NSLigatureAttributeName]"

definition fontAttributesInRange ::
  "('s, 'v) attributed \<Rightarrow> nsrange \<Rightarrow> 's \<Rightarrow> 'v attrs res option" where
  "fontAttributesInRange V r s =
     (if length_of V s < NSMaxRange r then Some (Inl NSRangeException)
      else map_option (map_sum id (\<lambda>(all, eff).
             fold (\<lambda>k m. case all k of None \<Rightarrow> m | Some v \<Rightarrow> m(k \<mapsto> v)) fontAttributeKeys Map.empty))
           (attributesAt V (location r) s))"

definition rulerAttributesInRange ::
  "('s, 'v) attributed \<Rightarrow> nsrange \<Rightarrow> 's \<Rightarrow> 'v attrs res option" where
  "rulerAttributesInRange V r s =
     (if length_of V s < NSMaxRange r then Some (Inl NSRangeException)
      else map_option (map_sum id (\<lambda>(style, eff).
             case style of None \<Rightarrow> Map.empty | Some v \<Rightarrow> [NSParagraphStyleAttributeName \<mapsto> v]))
           (attributeAt V NSParagraphStyleAttributeName (location r) s))"

subsection \<open>The extent of a block, a list and a table\<close>

text \<open>
  The three searches differ in the test \<open>P\<close> on the paragraph style only: they take the range
  around the index and extend it backward and forward as long as the neighbouring range passes.
\<close>

fun passes :: "(('b, 'l) para_style \<Rightarrow> bool) \<Rightarrow> ('f, 'b, 'l) attr_value option \<Rightarrow> bool res" where
  "passes P None = Inr False"
| "passes P (Some v) = map_sum id P (asStyle v)"

partial_function (option) extendBackward ::
  "('s, ('f, 'b, 'l) attr_value) attributed \<Rightarrow> (('b, 'l) para_style \<Rightarrow> bool) \<Rightarrow> 's \<Rightarrow> nsrange \<Rightarrow>
   nsrange res option" where
  "extendBackward V P s eff =
     (if 0 < location eff
      then (case attributeAt V NSParagraphStyleAttributeName (location eff - 1) s of
              None \<Rightarrow> None
            | Some (Inl e) \<Rightarrow> Some (Inl e)
            | Some (Inr (style, new)) \<Rightarrow>
                (case passes P style of
                   Inl e \<Rightarrow> Some (Inl e)
                 | Inr b \<Rightarrow>
                     if b then extendBackward V P s
                                 (NSMakeRange (location new) (len eff + len new))
                     else Some (Inr eff)))
      else Some (Inr eff))"

partial_function (option) extendForward ::
  "('s, ('f, 'b, 'l) attr_value) attributed \<Rightarrow> (('b, 'l) para_style \<Rightarrow> bool) \<Rightarrow> 's \<Rightarrow> nsrange \<Rightarrow>
   nsrange res option" where
  "extendForward V P s eff =
     (if NSMaxRange eff < length_of V s
      then (case attributeAt V NSParagraphStyleAttributeName (NSMaxRange eff) s of
              None \<Rightarrow> None
            | Some (Inl e) \<Rightarrow> Some (Inl e)
            | Some (Inr (style, new)) \<Rightarrow>
                (case passes P style of
                   Inl e \<Rightarrow> Some (Inl e)
                 | Inr b \<Rightarrow>
                     if b then extendForward V P s
                                 (NSMakeRange (location eff) (len eff + len new))
                     else Some (Inr eff)))
      else Some (Inr eff))"

definition rangeOfStyle ::
  "('s, ('f, 'b, 'l) attr_value) attributed \<Rightarrow> (('b, 'l) para_style \<Rightarrow> bool) \<Rightarrow> nat \<Rightarrow> 's \<Rightarrow>
   nsrange option res option" where
  "rangeOfStyle V P i s =
     (case attributeAt V NSParagraphStyleAttributeName i s of
        None \<Rightarrow> None
      | Some (Inl e) \<Rightarrow> Some (Inl e)
      | Some (Inr (style, eff)) \<Rightarrow>
          (case passes P style of
             Inl e \<Rightarrow> Some (Inl e)
           | Inr False \<Rightarrow> Some (Inr None)
           | Inr True \<Rightarrow>
               (case extendBackward V P s eff of
                  None \<Rightarrow> None
                | Some (Inl e) \<Rightarrow> Some (Inl e)
                | Some (Inr eff') \<Rightarrow> map_option (map_sum id Some) (extendForward V P s eff'))))"

definition rangeOfTextBlock ::
  "('s, ('f, 'b, 'l) attr_value) attributed \<Rightarrow> 'b \<Rightarrow> nat \<Rightarrow> 's \<Rightarrow> nsrange option res option" where
  "rangeOfTextBlock V block i s = rangeOfStyle V (\<lambda>p. block \<in> set (textBlocks p)) i s"

definition rangeOfTextList ::
  "('s, ('f, 'b, 'l) attr_value) attributed \<Rightarrow> 'l \<Rightarrow> nat \<Rightarrow> 's \<Rightarrow> nsrange option res option" where
  "rangeOfTextList V list i s = rangeOfStyle V (\<lambda>p. list \<in> set (textLists p)) i s"

definition containsTable :: "('b \<Rightarrow> 't) \<Rightarrow> 'b list \<Rightarrow> 't \<Rightarrow> bool" where
  "containsTable table_of blocks table \<longleftrightarrow> (\<exists>b \<in> set blocks. table = table_of b)"

definition rangeOfTextTable ::
  "('s, ('f, 'b, 'l) attr_value) attributed \<Rightarrow> ('b \<Rightarrow> 't) \<Rightarrow> 't \<Rightarrow> nat \<Rightarrow> 's \<Rightarrow>
   nsrange option res option" where
  "rangeOfTextTable V table_of table i s =
     rangeOfStyle V (\<lambda>p. containsTable table_of (textBlocks p) table) i s"

subsection \<open>Item numbers\<close>

text \<open>
  The loop over the characters of the list up to the location: a character that follows a
  newline begins an item when the innermost list there is the list asked for; a line feed behind
  a carriage return is passed over. \<open>rest\<close> holds the characters from position \<open>index - 1\<close> on.
\<close>

fun countItems ::
  "(unichar \<Rightarrow> bool) \<Rightarrow> (nat \<Rightarrow> bool res option) \<Rightarrow> unichar list \<Rightarrow> nat \<Rightarrow> nat \<Rightarrow> nat res option" where
  "countItems newline item (c # c' # rest) index itemNumber =
     (if newline c
      then (case item index of
              None \<Rightarrow> None
            | Some (Inl e) \<Rightarrow> Some (Inl e)
            | Some (Inr b) \<Rightarrow>
                let n = (if b then itemNumber + 1 else itemNumber)
                in if c = 13 \<and> c' = 10 then countItems newline item rest (index + 2) n
                   else countItems newline item (c' # rest) (index + 1) n)
      else countItems newline item (c' # rest) (index + 1) itemNumber)"
| "countItems newline item cs index itemNumber = Some (Inr itemNumber)"

fun lastListIs :: "'l \<Rightarrow> ('f, 'b, 'l) attr_value option \<Rightarrow> bool res" where
  "lastListIs list None = Inr False"
| "lastListIs list (Some v) = map_sum id (\<lambda>p. lastObject (textLists p) = Some list) (asStyle v)"

definition itemNumberInTextList ::
  "('s, ('f, 'b, 'l) attr_value) attributed \<Rightarrow> (unichar \<Rightarrow> bool) \<Rightarrow> 'l \<Rightarrow> nat \<Rightarrow> 's \<Rightarrow>
   nat res option" where
  "itemNumberInTextList V newline list i s =
     (case rangeOfTextList V list i s of
        None \<Rightarrow> None
      | Some (Inl e) \<Rightarrow> Some (Inl e)
      | Some (Inr None) \<Rightarrow> Some (Inr 0)
      | Some (Inr (Some listRange)) \<Rightarrow>
          let start = location listRange;
              buffer = take (i - start + 1) (drop start (string_of V s));
              item = (\<lambda>k. case attributeAt V NSParagraphStyleAttributeName (start + k) s of
                            None \<Rightarrow> None
                          | Some (Inl e) \<Rightarrow> Some (Inl e)
                          | Some (Inr (style, eff)) \<Rightarrow> Some (lastListIs list style))
          in countItems newline item buffer 1 1)"

subsection \<open>Super- and subscript\<close>

text \<open>The value of the first character, changed by \<open>step\<close>, is used for the whole range.\<close>

definition scriptRange ::
  "('s, ('f, 'b, 'l) attr_value) attributed \<Rightarrow> int \<Rightarrow> nsrange \<Rightarrow> 's \<Rightarrow> 's pstep" where
  "scriptRange V step r s =
     (if length_of V s < NSMaxRange r then Some (Inl (NSRangeException, s))
      else attempt s (attributeAt V NSSuperscriptAttributeName (location r) s) (\<lambda>(value, eff).
        attempt s (Some (case value of None \<Rightarrow> Inr step
                                     | Some v \<Rightarrow> map_sum id (\<lambda>n. s32 (n + step)) (intValue v)))
          (\<lambda>sValue. addAttribute V NSSuperscriptAttributeName (Some (Number sValue)) r s)))"

definition superscriptRange ::
  "('s, ('f, 'b, 'l) attr_value) attributed \<Rightarrow> nsrange \<Rightarrow> 's \<Rightarrow> 's pstep" where
  "superscriptRange V r s = scriptRange V 1 r s"

definition subscriptRange ::
  "('s, ('f, 'b, 'l) attr_value) attributed \<Rightarrow> nsrange \<Rightarrow> 's \<Rightarrow> 's pstep" where
  "subscriptRange V r s = scriptRange V (-1) r s"

definition unscriptRange :: "('s, 'v) attributed \<Rightarrow> nsrange \<Rightarrow> 's \<Rightarrow> 's pstep" where
  "unscriptRange V r s =
     (if length_of V s < NSMaxRange r then Some (Inl (NSRangeException, s))
      else removeAttribute V NSSuperscriptAttributeName r s)"

subsection \<open>Changing an attribute run by run\<close>

text \<open>
  The loop of \<open>applyFontTraits:range:\<close>, \<open>setAlignment:range:\<close> and
  \<open>setBaseWritingDirection:range:\<close>: every run of the attribute that meets the range gets the value
  \<open>change\<close> makes of its own, where \<open>change\<close> answers \<open>None\<close> to leave a run alone. A receiver that
  answers empty ranges keeps the loop going.
\<close>

partial_function (option) changeRuns ::
  "('s, 'v) attributed \<Rightarrow> string \<Rightarrow> ('v option \<Rightarrow> 'v option res) \<Rightarrow> nsrange \<Rightarrow> nat \<Rightarrow> 's \<Rightarrow> 's pstep" where
  "changeRuns V name change r i s =
     (if i < NSMaxRange r
      then attempt s (attributeAt V name i s) (\<lambda>(value, eff).
             attempt s (Some (change value)) (\<lambda>new.
               pbind (case new of
                        None \<Rightarrow> Some (Inr s)
                      | Some v \<Rightarrow> addAttribute V name (Some v) (NSIntersectionRange eff r) s)
                 (changeRuns V name change r (NSMaxRange eff))))
      else Some (Inr s))"

text \<open>\<open>convertFont:toHaveTrait:\<close> of the font manager is given; it answers \<open>nil\<close> when it has no font.\<close>

definition applyFontTraits ::
  "('s, ('f, 'b, 'l) attr_value) attributed \<Rightarrow> ('f \<Rightarrow> nat \<Rightarrow> 'f option) \<Rightarrow> nat \<Rightarrow> nsrange \<Rightarrow>
   's \<Rightarrow> 's pstep" where
  "applyFontTraits V convertFont traitMask r s =
     (if length_of V s < NSMaxRange r then Some (Inl (NSRangeException, s))
      else changeRuns V NSFontAttributeName
             (\<lambda>font. case font of
                       None \<Rightarrow> Inr None
                     | Some v \<Rightarrow> map_sum id (\<lambda>f. map_option Font (convertFont f traitMask)) (asFont v))
             r (location r) s)"

text \<open>The style of a run without one is a fresh default style.\<close>

definition changeStyle ::
  "('b, 'l) para_style \<Rightarrow> (('b, 'l) para_style \<Rightarrow> ('b, 'l) para_style) \<Rightarrow>
   ('f, 'b, 'l) attr_value option \<Rightarrow> ('f, 'b, 'l) attr_value option res" where
  "changeStyle defaultStyle f value =
     (case value of
        None \<Rightarrow> Inr (Some (Style (f defaultStyle)))
      | Some v \<Rightarrow> map_sum id (\<lambda>p. Some (Style (f p))) (asStyle v))"

definition setAlignment ::
  "('s, ('f, 'b, 'l) attr_value) attributed \<Rightarrow> ('b, 'l) para_style \<Rightarrow> int \<Rightarrow> nsrange \<Rightarrow> 's \<Rightarrow> 's pstep" where
  "setAlignment V defaultStyle a r s =
     (if length_of V s < NSMaxRange r then Some (Inl (NSRangeException, s))
      else changeRuns V NSParagraphStyleAttributeName
             (changeStyle defaultStyle (\<lambda>p. p\<lparr>alignment := a\<rparr>)) r (location r) s)"

definition setBaseWritingDirection ::
  "('s, ('f, 'b, 'l) attr_value) attributed \<Rightarrow> ('b, 'l) para_style \<Rightarrow> int \<Rightarrow> nsrange \<Rightarrow> 's \<Rightarrow> 's pstep" where
  "setBaseWritingDirection V defaultStyle d r s =
     (if length_of V s < NSMaxRange r then Some (Inl (NSRangeException, s))
      else changeRuns V NSParagraphStyleAttributeName
             (changeStyle defaultStyle (\<lambda>p. p\<lparr>writingDirection := d\<rparr>)) r (location r) s)"

subsection \<open>Substitute fonts\<close>

text \<open>
  The font system is given: conversion to a face, the characters a font covers, the lists of
  names and the descriptor that matches a character. The three static variables of the file
  are the cache.
\<close>

type_synonym char_set = "unichar \<Rightarrow> bool"

record 'f font_system =
  convertFace :: "'f \<Rightarrow> string \<Rightarrow> 'f option"
  coveredCharacterSet :: "'f \<Rightarrow> char_set option"
  preferredFontNames :: "string list"
  availableFonts :: "string list"
  descriptorFor :: "unichar \<Rightarrow> (string \<times> char_set) option"
  userFont :: 'f
  controlCharacterSet :: char_set

record font_cache =
  lastFont :: "string option"
  lastSet :: "char_set option"
  cachedCSets :: "(string \<times> char_set) list"

text \<open>A message to \<open>nil\<close> answers \<open>NO\<close> or \<open>nil\<close>.\<close>

definition isMember :: "unichar \<Rightarrow> char_set option \<Rightarrow> bool" where
  "isMember c charSet = (case charSet of None \<Rightarrow> False | Some S \<Rightarrow> S c)"

fun substituteFontFromList ::
  "'f font_system \<Rightarrow> unichar \<Rightarrow> 'f \<Rightarrow> string list \<Rightarrow> font_cache \<Rightarrow> 'f option \<times> font_cache" where
  "substituteFontFromList F c base [] cache = (None, cache)"
| "substituteFontFromList F c base (fName # fonts) cache =
     (case map_of (cachedCSets cache) fName of
        Some newSet \<Rightarrow>
          if newSet c
          then (convertFace F base fName, cache\<lparr>lastFont := Some fName, lastSet := Some newSet\<rparr>)
          else substituteFontFromList F c base fonts cache
      | None \<Rightarrow>
          let newFont = convertFace F base fName;
              newSet = (case newFont of None \<Rightarrow> None | Some f \<Rightarrow> coveredCharacterSet F f);
              cache' = (case newSet of
                          Some S \<Rightarrow> if length (cachedCSets cache) < 10
                                    then cache\<lparr>cachedCSets := (fName, S) # cachedCSets cache\<rparr>
                                    else cache
                        | None \<Rightarrow> cache)
          in if isMember c newSet
             then (newFont, cache'\<lparr>lastFont := Some fName, lastSet := newSet\<rparr>)
             else substituteFontFromList F c base fonts cache')"

definition substituteFont ::
  "'f font_system \<Rightarrow> unichar \<Rightarrow> 'f \<Rightarrow> font_cache \<Rightarrow> 'f option \<times> font_cache" where
  "substituteFont F c base cache =
     (if isMember c (lastSet cache)
      then (case lastFont cache of None \<Rightarrow> None | Some name \<Rightarrow> convertFace F base name, cache)
      else case substituteFontFromList F c base (preferredFontNames F) cache of
        (Some f, cache1) \<Rightarrow> (Some f, cache1)
      | (None, cache1) \<Rightarrow>
          (case descriptorFor F c of
             Some (fName, S) \<Rightarrow>
               if S c
               then (convertFace F base fName, cache1\<lparr>lastFont := Some fName, lastSet := Some S\<rparr>)
               else substituteFontFromList F c base (availableFonts F) cache1
           | None \<Rightarrow> substituteFontFromList F c base (availableFonts F) cache1))"

subsection \<open>Fixing fonts\<close>

text \<open>
  The local variables of the loop: the buffer of up to 64 characters with the positions it
  covers, and the run whose font was looked up last.
\<close>

record 'f font_scan =
  lastMax :: nat
  start :: nat
  chars :: "unichar list"
  fontRange :: "nsrange option"
  scanFont :: 'f
  charset :: "char_set option"

definition refill :: "unichar list \<Rightarrow> nsrange \<Rightarrow> nat \<Rightarrow> 'f font_scan \<Rightarrow> 'f font_scan" where
  "refill cs r i l =
     (if lastMax l \<le> i
      then let st = lastMax l; dist = min 64 (NSMaxRange r - st)
           in l\<lparr>start := st, lastMax := st + dist, chars := take dist (drop st cs)\<rparr>
      else l)"

definition surrogate :: "unichar \<Rightarrow> bool" where
  "surrogate c \<longleftrightarrow> 0xd800 \<le> c \<and> c \<le> 0xdfff"

text \<open>One turn of the loop; the number of turns is known when it starts.\<close>

fun fixFonts ::
  "('s, ('f, 'b, 'l) attr_value) attributed \<Rightarrow> 'f font_system \<Rightarrow> nsrange \<Rightarrow> nat \<Rightarrow> 'f font_scan \<Rightarrow>
   font_cache \<times> 's \<Rightarrow> (font_cache \<times> 's) pstep" where
  "fixFonts V F r 0 l cs = Some (Inr cs)"
| "fixFonts V F r (Suc n) l (cache, s) =
     (let i = NSMaxRange r - Suc n;
          l = refill (string_of V s) r i l;
          c = chars l ! (i - start l)
      in if surrogate c then fixFonts V F r n l (cache, s)
         else
           pbind
             (if (case fontRange l of None \<Rightarrow> True | Some q \<Rightarrow> \<not> NSLocationInRange i q)
              then attempt (cache, s) (attributeAt V NSFontAttributeName i s) (\<lambda>(value, q).
                     attempt (cache, s) (Some (case value of None \<Rightarrow> Inr (userFont F)
                                                           | Some v \<Rightarrow> asFont v)) (\<lambda>f.
                       Some (Inr (l\<lparr>fontRange := Some q, scanFont := f,
                                    charset := coveredCharacterSet F f\<rparr>))))
              else Some (Inr l))
             (\<lambda>l.
               if charset l \<noteq> None \<and> \<not> isMember c (charset l) \<and> c \<noteq> NSAttachmentCharacter \<and>
                  \<not> controlCharacterSet F c
               then (case substituteFont F c (scanFont l) cache of
                       (None, cache') \<Rightarrow> fixFonts V F r n l (cache', s)
                     | (Some f, cache') \<Rightarrow>
                         (case addAttribute V NSFontAttributeName (Some (Font f)) (NSMakeRange i 1) s of
                            None \<Rightarrow> None
                          | Some (Inl (e, s')) \<Rightarrow> Some (Inl (e, cache', s'))
                          | Some (Inr s') \<Rightarrow> fixFonts V F r n l (cache', s')))
               else fixFonts V F r n l (cache, s)))"

definition fixFontAttribute ::
  "('s, ('f, 'b, 'l) attr_value) attributed \<Rightarrow> 'f font_system \<Rightarrow> nsrange \<Rightarrow> font_cache \<times> 's \<Rightarrow>
   (font_cache \<times> 's) pstep" where
  "fixFontAttribute V F r cs =
     (if length_of V (snd cs) < NSMaxRange r then Some (Inl (NSRangeException, cs))
      else fixFonts V F r (len r)
             \<lparr>lastMax = location r, start = location r, chars = [], fontRange = None,
              scanFont = userFont F, charset = None\<rparr> cs)"

subsection \<open>Fixing paragraph styles\<close>

text \<open>
  \<open>lineRangeForRange:\<close> of the string is given. When a paragraph begins without a style, the code
  takes the style one position behind the end of the range without style.
\<close>

partial_function (option) fixStyles ::
  "('s, ('f, 'b, 'l) attr_value) attributed \<Rightarrow> ('b, 'l) para_style \<Rightarrow>
   (unichar list \<Rightarrow> nsrange \<Rightarrow> nsrange) \<Rightarrow> nsrange \<Rightarrow> nat \<Rightarrow> 's \<Rightarrow> 's pstep" where
  "fixStyles V defaultStyle lineRange r i s =
     (if i < NSMaxRange r
      then let p = lineRange (string_of V s) (NSMakeRange i 1); end = NSMaxRange p
           in attempt s (longestAttributeAt V NSParagraphStyleAttributeName (location p) p s)
                (\<lambda>(style, found).
                  pbind
                    (case style of
                       None \<Rightarrow>
                         if NSMaxRange found + 1 < end
                         then attempt s (attributeAt V NSParagraphStyleAttributeName
                                           (NSMaxRange found + 1) s)
                                (\<lambda>(style', q).
                                  addAttribute V NSParagraphStyleAttributeName style' p s)
                         else addAttribute V NSParagraphStyleAttributeName
                                (Some (Style defaultStyle)) p s
                     | Some v \<Rightarrow>
                         if NSMaxRange found < end
                         then addAttribute V NSParagraphStyleAttributeName (Some v)
                                (NSMakeRange (NSMaxRange found) (end - NSMaxRange found)) s
                         else Some (Inr s))
                    (fixStyles V defaultStyle lineRange r end))
      else Some (Inr s))"

definition fixParagraphStyleAttribute ::
  "('s, ('f, 'b, 'l) attr_value) attributed \<Rightarrow> ('b, 'l) para_style \<Rightarrow>
   (unichar list \<Rightarrow> nsrange \<Rightarrow> nsrange) \<Rightarrow> nsrange \<Rightarrow> 's \<Rightarrow> 's pstep" where
  "fixParagraphStyleAttribute V defaultStyle lineRange r s =
     (if length_of V s < NSMaxRange r then Some (Inl (NSRangeException, s))
      else fixStyles V defaultStyle lineRange r (location r) s)"

subsection \<open>Fixing attachments\<close>

text \<open>The first loop leaves the attachment on one character of a run only.\<close>

partial_function (option) trimAttachments ::
  "('s, 'v) attributed \<Rightarrow> nat \<Rightarrow> nat \<Rightarrow> 's \<Rightarrow> 's pstep" where
  "trimAttachments V end i s =
     (if i < end
      then attempt s (attributesAt V i s) (\<lambda>(attr, eRange).
             pbind
               (if attr NSAttachmentAttributeName \<noteq> None
                then let buf = take (len eRange) (drop (location eRange) (string_of V s));
                         pos = length (takeWhile (\<lambda>c. c \<noteq> NSAttachmentCharacter) buf)
                     in pbind (if pos \<noteq> 0
                               then removeAttribute V NSAttachmentAttributeName
                                      (NSMakeRange (location eRange) pos) s
                               else Some (Inr s))
                          (\<lambda>s1. if pos + 1 < len eRange
                                then removeAttribute V NSAttachmentAttributeName
                                       (NSMakeRange (location eRange + (pos + 1))
                                          (len eRange - (pos + 1))) s1
                                else Some (Inr s1))
                else Some (Inr s))
               (trimAttachments V end (NSMaxRange eRange)))
      else Some (Inr s))"

text \<open>The second loop deletes attachment characters without an attachment.\<close>

partial_function (option) deleteBareAttachments ::
  "('s, 'v) attributed \<Rightarrow> nat \<Rightarrow> nat \<Rightarrow> 's \<Rightarrow> 's pstep" where
  "deleteBareAttachments V end i s =
     (if i < end
      then (case find (\<lambda>j. string_of V s ! j = NSAttachmentCharacter) [i..<end] of
              None \<Rightarrow> Some (Inr s)
            | Some j \<Rightarrow>
                attempt s (attributeAt V NSAttachmentAttributeName j s) (\<lambda>(attachment, q).
                  if attachment = None
                  then pbind (deleteCharacters V (NSMakeRange j 1) s)
                         (deleteBareAttachments V (end - 1) j)
                  else deleteBareAttachments V end (j + 1) s))
      else Some (Inr s))"

definition fixAttachmentAttribute :: "('s, 'v) attributed \<Rightarrow> nsrange \<Rightarrow> 's \<Rightarrow> 's pstep" where
  "fixAttachmentAttribute V r s =
     (if length_of V s < NSMaxRange r then Some (Inl (NSRangeException, s))
      else pbind (trimAttachments V (NSMaxRange r) (location r) s)
             (deleteBareAttachments V (NSMaxRange r) (location r)))"

end
