(* ===== verification/WordScan.thy ===== *)
theory WordScan
  imports Foundation
begin

text \<open>
  Words in a text: the scanning methods of \<open>Source/NSAttributedString.m\<close>, which find a line break
  before an index, the range a double click selects and the next word in a direction. The
  character sets come from the base library, so the two sets the file builds its scans on are
  parameters; \<open>wordCSet\<close> and \<open>nonWhiteCSet\<close> are their complements as the file makes them.
\<close>

subsection \<open>Character sets and searches\<close>

record char_sets =
  wordBreakCSet :: "unichar \<Rightarrow> bool"
  whiteCSet :: "unichar \<Rightarrow> bool"

definition wordCSet :: "char_sets \<Rightarrow> unichar \<Rightarrow> bool" where
  "wordCSet K c \<longleftrightarrow> \<not> wordBreakCSet K c"

definition nonWhiteCSet :: "char_sets \<Rightarrow> unichar \<Rightarrow> bool" where
  "nonWhiteCSet K c \<longleftrightarrow> \<not> whiteCSet K c"

definition quote :: unichar where
  "quote = 39"

text \<open>
  \<open>rangeOfCharacterFromSet:options:range:\<close> of the base library: the position of the first, or
  with \<open>NSBackwardsSearch\<close> the last, character of the set in the positions from \<open>a\<close> up to \<open>b\<close>;
  the range found has length 1.
\<close>

definition findForward :: "(unichar \<Rightarrow> bool) \<Rightarrow> unichar list \<Rightarrow> nat \<Rightarrow> nat \<Rightarrow> nat option" where
  "findForward P cs a b = find (\<lambda>i. P (cs ! i)) [a..<b]"

definition findBackward :: "(unichar \<Rightarrow> bool) \<Rightarrow> unichar list \<Rightarrow> nat \<Rightarrow> nat \<Rightarrow> nat option" where
  "findBackward P cs a b = find (\<lambda>i. P (cs ! i)) (rev [a..<b])"

definition characterAtIndex :: "unichar list \<Rightarrow> nat \<Rightarrow> unichar res" where
  "characterAtIndex cs i = objectAtIndex cs i"

text \<open>What the searches find, for a property \<open>P\<close> of positions.\<close>

definition first_in :: "(nat \<Rightarrow> bool) \<Rightarrow> nat \<Rightarrow> nat \<Rightarrow> nat option \<Rightarrow> bool" where
  "first_in P a b r \<longleftrightarrow>
     (case r of None \<Rightarrow> \<forall>j. a \<le> j \<and> j < b \<longrightarrow> \<not> P j
      | Some i \<Rightarrow> a \<le> i \<and> i < b \<and> P i \<and> (\<forall>j. a \<le> j \<and> j < i \<longrightarrow> \<not> P j))"

definition last_in :: "(nat \<Rightarrow> bool) \<Rightarrow> nat \<Rightarrow> nat \<Rightarrow> nat option \<Rightarrow> bool" where
  "last_in P a b r \<longleftrightarrow>
     (case r of None \<Rightarrow> \<forall>j. a \<le> j \<and> j < b \<longrightarrow> \<not> P j
      | Some i \<Rightarrow> a \<le> i \<and> i < b \<and> P i \<and> (\<forall>j. i < j \<and> j < b \<longrightarrow> \<not> P j))"

lemma first_in_step:
  assumes "a < b" and "first_in P (Suc a) b r" and "\<not> P a"
  shows "first_in P a b r"
proof -
  have "a < j \<or> a = j" if "a \<le> j" for j using that by auto
  then show ?thesis
    using assms by (auto simp: first_in_def Suc_le_eq split: option.splits)
qed

lemma find_upt: "first_in P a b (find P [a..<b])"
proof (induction "b - a" arbitrary: a)
  case 0
  then show ?case by (auto simp: first_in_def)
next
  case (Suc n)
  then have "a < b" and IH: "first_in P (Suc a) b (find P [Suc a..<b])" by simp_all
  then show ?case
    by (cases "P a") (auto simp: upt_conv_Cons first_in_step, auto simp: first_in_def)
qed

lemma find_rev_upt: "last_in P a b (find P (rev [a..<b]))"
proof (induction b)
  case 0
  then show ?case by (auto simp: last_in_def)
next
  case (Suc b)
  then show ?case
    by (auto simp: last_in_def less_Suc_eq split: option.splits)
qed

lemma findForward_first: "first_in (\<lambda>i. P (cs ! i)) a b (findForward P cs a b)"
  by (simp add: findForward_def find_upt)

lemma findBackward_last: "last_in (\<lambda>i. P (cs ! i)) a b (findBackward P cs a b)"
  by (simp add: findBackward_def find_rev_upt)

lemma findBackward_less: "findBackward P cs a b = Some i \<Longrightarrow> i < b"
  using findBackward_last[of P cs a b] by (simp add: last_in_def)

lemma findForward_bounds: "findForward P cs a b = Some i \<Longrightarrow> a \<le> i \<and> i < b"
  using findForward_first[of P cs a b] by (simp add: first_in_def)

lemma first_in_unique: "first_in P a b r \<Longrightarrow> first_in P a b r' \<Longrightarrow> r = r'"
  by (cases r; cases r') (auto simp: first_in_def, metis linorder_cases)

lemma last_in_unique: "last_in P a b r \<Longrightarrow> last_in P a b r' \<Longrightarrow> r = r'"
  by (cases r; cases r') (auto simp: last_in_def, metis linorder_cases)

subsection \<open>Line breaks\<close>

text \<open>
  The loop that passes over single quotes behind a letter. It searches from the beginning of the
  text, whatever the range of the call.
\<close>

function lineBreakLoop :: "char_sets \<Rightarrow> unichar list \<Rightarrow> nat option \<Rightarrow> nat option" where
  "lineBreakLoop K cs None = None"
| "lineBreakLoop K cs (Some i) =
     (if 0 < i \<and> cs ! i = quote \<and> wordCSet K (cs ! (i - 1))
      then lineBreakLoop K cs (findBackward (wordBreakCSet K) cs 0 (i - 1))
      else Some i)"
  by pat_completeness auto
termination
  by (relation "measure (\<lambda>(K, cs, r). case r of None \<Rightarrow> 0 | Some i \<Rightarrow> Suc i)")
     (auto split: option.splits dest: findBackward_less)

definition lineBreakBeforeIndex ::
  "char_sets \<Rightarrow> unichar list \<Rightarrow> nat \<Rightarrow> nsrange \<Rightarrow> nat option res" where
  "lineBreakBeforeIndex K cs loc r =
     (if length cs < NSMaxRange r \<or> length cs < loc then Inl NSRangeException
      else if \<not> NSLocationInRange loc r then Inr None
      else Inr (map_option Suc
             (lineBreakLoop K cs (findBackward (wordBreakCSet K) cs (location r) loc))))"

definition lineBreakByHyphenating ::
  "char_sets \<Rightarrow> unichar list \<Rightarrow> nat \<Rightarrow> nsrange \<Rightarrow> nat option res" where
  "lineBreakByHyphenating K cs loc r = lineBreakBeforeIndex K cs loc r"

subsection \<open>Double clicks\<close>

text \<open>The test both loops make: a single quote with a letter on either side.\<close>

definition embeddedQuote :: "char_sets \<Rightarrow> unichar list \<Rightarrow> nat \<Rightarrow> bool" where
  "embeddedQuote K cs i \<longleftrightarrow>
     0 < i \<and> i < length cs - 1 \<and> cs ! i = quote \<and> wordCSet K (cs ! (i - 1)) \<and>
     wordCSet K (cs ! (i + 1))"

text \<open>The loops carry the location, which the second search starts from.\<close>

function startLoop ::
  "char_sets \<Rightarrow> unichar list \<Rightarrow> nat \<Rightarrow> nat option \<Rightarrow> nat \<times> nat option" where
  "startLoop K cs loc None = (loc, None)"
| "startLoop K cs loc (Some i) =
     (if embeddedQuote K cs i
      then startLoop K cs (i - 1) (findBackward (wordBreakCSet K) cs 0 (i - 1))
      else (loc, Some i))"
  by pat_completeness auto
termination
  by (relation "measure (\<lambda>(K, cs, loc, r). case r of None \<Rightarrow> 0 | Some i \<Rightarrow> Suc i)")
     (auto split: option.splits dest: findBackward_less)

function endLoop :: "char_sets \<Rightarrow> unichar list \<Rightarrow> nat option \<Rightarrow> nat option" where
  "endLoop K cs None = None"
| "endLoop K cs (Some i) =
     (if embeddedQuote K cs i
      then endLoop K cs (findForward (wordBreakCSet K) cs (i + 1) (length cs))
      else Some i)"
  by pat_completeness auto
termination
  by (relation "measure (\<lambda>(K, cs, r). case r of None \<Rightarrow> 0 | Some i \<Rightarrow> Suc (length cs) - i)")
     (auto simp: embeddedQuote_def split: option.splits dest!: findForward_bounds)

definition doubleClickAtIndex :: "char_sets \<Rightarrow> unichar list \<Rightarrow> nat \<Rightarrow> nsrange res" where
  "doubleClickAtIndex K cs loc =
     (if length cs < loc then Inl NSRangeException
      else case characterAtIndex cs loc of
        Inl e \<Rightarrow> Inl e
      | Inr c \<Rightarrow>
          if \<not> whiteCSet K c \<and> wordBreakCSet K c \<and>
             (loc = 0 \<or> loc = length cs - 1 \<or> c \<noteq> quote \<or>
              \<not> wordCSet K (cs ! (loc - 1)) \<or> \<not> wordCSet K (cs ! (loc + 1)))
          then Inr (NSMakeRange loc 1)
          else let breakCSet = (if whiteCSet K c then nonWhiteCSet K else wordBreakCSet K);
                   (loc', startRange) = startLoop K cs loc (findBackward breakCSet cs 0 loc);
                   endRange = endLoop K cs (findForward breakCSet cs loc' (length cs));
                   l = (case startRange of None \<Rightarrow> 0 | Some i \<Rightarrow> i + 1);
                   n = (case endRange of None \<Rightarrow> length cs - l | Some i \<Rightarrow> i - l)
               in Inr (NSMakeRange l n))"

subsection \<open>Word movement\<close>

definition nextWordFromIndex :: "char_sets \<Rightarrow> unichar list \<Rightarrow> nat \<Rightarrow> bool \<Rightarrow> nat res" where
  "nextWordFromIndex K cs loc isForward =
     (if length cs < loc then Inl NSRangeException
      else if isForward
      then if loc = length cs then Inr (length cs)
           else (case findForward (wordCSet K) cs loc (length cs) of
                   None \<Rightarrow> Inr (length cs)
                 | Some i \<Rightarrow> (case findForward (wordBreakCSet K) cs i (length cs) of
                                None \<Rightarrow> Inr (length cs)
                              | Some j \<Rightarrow> Inr j))
      else if loc = 0 then Inr 0
           else (case findBackward (wordCSet K) cs 0 loc of
                   None \<Rightarrow> Inr 0
                 | Some i \<Rightarrow> (case findBackward (wordBreakCSet K) cs 0 i of
                                None \<Rightarrow> Inr 0
                              | Some j \<Rightarrow> Inr (j + 1))))"

subsection \<open>What the loops find\<close>

text \<open>A position breaks a word when its character does and is no quote inside a word.\<close>

definition breaks :: "char_sets \<Rightarrow> unichar list \<Rightarrow> nat \<Rightarrow> bool" where
  "breaks K cs i \<longleftrightarrow> wordBreakCSet K (cs ! i) \<and> \<not> embeddedQuote K cs i"

lemma breaks_only: "breaks K cs j \<Longrightarrow> wordBreakCSet K (cs ! j)"
  by (simp add: breaks_def)

text \<open>
  The first loop ends at the last break in front of the location, and the location it leaves
  lies behind that break and in front of the given one.
\<close>

lemma last_inD:
  assumes "last_in P a b (Some i)"
  shows "a \<le> i" and "i < b" and "P i" and "\<And>j. i < j \<Longrightarrow> j < b \<Longrightarrow> \<not> P j"
  using assms by (simp_all add: last_in_def)

lemma last_in_NoneD: "last_in P a b None \<Longrightarrow> a \<le> j \<Longrightarrow> j < b \<Longrightarrow> \<not> P j"
  by (simp add: last_in_def)

lemma last_in_NoneI: "(\<And>j. a \<le> j \<Longrightarrow> j < b \<Longrightarrow> \<not> P j) \<Longrightarrow> last_in P a b None"
  by (simp add: last_in_def)

lemma last_in_SomeI:
  "a \<le> i \<Longrightarrow> i < b \<Longrightarrow> P i \<Longrightarrow> (\<And>j. i < j \<Longrightarrow> j < b \<Longrightarrow> \<not> P j) \<Longrightarrow> last_in P a b (Some i)"
  by (simp add: last_in_def)

lemma first_inD:
  assumes "first_in P a b (Some i)"
  shows "a \<le> i" and "i < b" and "P i" and "\<And>j. a \<le> j \<Longrightarrow> j < i \<Longrightarrow> \<not> P j"
  using assms by (simp_all add: first_in_def)

lemma embedded_breaks:
  assumes "embeddedQuote K cs i"
  shows "\<not> breaks K cs i" and "\<not> breaks K cs (i - 1)" and "\<not> breaks K cs (i + 1)" and "0 < i"
  using assms by (simp_all add: breaks_def embeddedQuote_def wordCSet_def)

lemma startLoop_spec:
  assumes "last_in (\<lambda>j. wordBreakCSet K (cs ! j)) 0 b r" and "b \<le> loc"
    and "\<And>j. b \<le> j \<Longrightarrow> j < loc \<Longrightarrow> \<not> breaks K cs j"
  shows "\<exists>loc' r'. startLoop K cs b r = (loc', r') \<and> last_in (breaks K cs) 0 loc r' \<and> loc' \<le> b \<and>
    (\<forall>j. loc' \<le> j \<and> j < loc \<longrightarrow> \<not> breaks K cs j)"
  using assms
proof (induction K cs b r rule: startLoop.induct)
  case (1 K cs b)
  have "\<not> breaks K cs j" if "j < loc" for j
  proof (cases "j < b")
    case True
    then show ?thesis using last_in_NoneD[OF 1(1), of j] breaks_only by blast
  next
    case False
    then show ?thesis using 1(3) that by simp
  qed
  then have "last_in (breaks K cs) 0 loc None" by (intro last_in_NoneI)
  then show ?case using 1(3) by simp
next
  case (2 K cs b i)
  note i = last_inD[OF 2(2)]
  have above: "\<not> breaks K cs j" if "i < j" "j < loc" for j
  proof (cases "j < b")
    case True
    then show ?thesis using i(4)[OF that(1)] breaks_only by blast
  next
    case False
    then show ?thesis using 2(4) that by simp
  qed
  show ?case
  proof (cases "embeddedQuote K cs i")
    case True
    have low: "\<not> breaks K cs j" if "i - 1 \<le> j" "j < loc" for j
    proof -
      have "j = i - 1 \<or> j = i \<or> i < j" using that(1) by auto
      then show ?thesis
        using embedded_breaks(1,2)[OF True] above[OF _ that(2)] by blast
    qed
    have "i - 1 \<le> loc" using i(2) 2(3) by simp
    from 2(1)[OF True findBackward_last this low]
    obtain loc' r' where "startLoop K cs (i - 1) (findBackward (wordBreakCSet K) cs 0 (i - 1)) = (loc', r')"
        "last_in (breaks K cs) 0 loc r'" "loc' \<le> i - 1"
        "\<forall>j. loc' \<le> j \<and> j < loc \<longrightarrow> \<not> breaks K cs j" by blast
    moreover have "startLoop K cs b (Some i) =
        startLoop K cs (i - 1) (findBackward (wordBreakCSet K) cs 0 (i - 1))"
      using True by simp
    moreover have "loc' \<le> b" using calculation(3) i(2) by linarith
    ultimately show ?thesis by (simp only:) blast
  next
    case False
    then have "last_in (breaks K cs) 0 loc (Some i)"
      using i above 2(3) by (intro last_in_SomeI) (simp_all add: breaks_def)
    moreover have "startLoop K cs b (Some i) = (b, Some i)"
      using False by simp
    ultimately show ?thesis using 2(4) by (simp only:) blast
  qed
qed

lemma endLoop_spec:
  assumes "first_in (\<lambda>j. wordBreakCSet K (cs ! j)) a (length cs) r"
    and "\<And>j. l \<le> j \<Longrightarrow> j < a \<Longrightarrow> \<not> breaks K cs j" and "l \<le> a"
  shows "first_in (breaks K cs) l (length cs) (endLoop K cs r)"
  using assms
proof (induction K cs r arbitrary: a rule: endLoop.induct)
  case (1 K cs)
  have "\<not> breaks K cs j" if "l \<le> j" "j < length cs" for j
    using 1 that by (cases "j < a") (auto simp: first_in_def breaks_def)
  then show ?case by (simp add: first_in_def)
next
  case (2 K cs i)
  have i: "a \<le> i" "i < length cs" "wordBreakCSet K (cs ! i)"
      "\<And>j. a \<le> j \<Longrightarrow> j < i \<Longrightarrow> \<not> wordBreakCSet K (cs ! j)"
    using 2(2) by (auto simp: first_in_def)
  have below: "\<not> breaks K cs j" if "l \<le> j" "j < i" for j
    using i(4)[of j] 2(3)[of j] that by (cases "j < a") (auto simp: breaks_def)
  show ?case
  proof (cases "embeddedQuote K cs i")
    case True
    have "\<not> breaks K cs j" if "l \<le> j" "j < i + 1" for j
      using below[of j] that True by (cases "j = i") (auto simp: breaks_def)
    then show ?thesis
      using 2(1)[OF True findForward_first] 2(4) i(1) True by simp
  next
    case False
    then show ?thesis
      using i below 2(4) by (auto simp: first_in_def breaks_def)
  qed
qed

subsection \<open>Properties of the scans\<close>

text \<open>The largest range around position \<open>i\<close> in which every position has the property.\<close>

definition run_around :: "(nat \<Rightarrow> bool) \<Rightarrow> nat \<Rightarrow> nat \<Rightarrow> nsrange \<Rightarrow> bool" where
  "run_around P n i r \<longleftrightarrow>
     NSLocationInRange i r \<and> NSMaxRange r \<le> n \<and> (\<forall>j. NSLocationInRange j r \<longrightarrow> P j) \<and>
     (0 < location r \<longrightarrow> \<not> P (location r - 1)) \<and> (NSMaxRange r < n \<longrightarrow> \<not> P (NSMaxRange r))"

lemma run_between:
  assumes "P i" and "i < n" and "last_in (\<lambda>j. \<not> P j) 0 i s" and "first_in (\<lambda>j. \<not> P j) i n e"
  shows "run_around P n i
    (let l = (case s of None \<Rightarrow> 0 | Some k \<Rightarrow> k + 1)
     in NSMakeRange l (case e of None \<Rightarrow> n - l | Some k \<Rightarrow> k - l))"
proof -
  let ?l = "case s of None \<Rightarrow> 0 | Some k \<Rightarrow> k + 1" and ?e = "case e of None \<Rightarrow> n | Some k \<Rightarrow> k"
  have l: "?l \<le> i" "\<And>j. ?l \<le> j \<Longrightarrow> j < i \<Longrightarrow> P j" "0 < ?l \<Longrightarrow> \<not> P (?l - 1)"
    using assms(3) by (cases s; force simp: last_in_def Suc_le_eq)+
  have e: "i < ?e" "?e \<le> n" "\<And>j. i \<le> j \<Longrightarrow> j < ?e \<Longrightarrow> P j" "?e < n \<Longrightarrow> \<not> P ?e"
    using assms(1,2,4) by (cases e; force simp: first_in_def le_less)+
  have all: "P j" if "?l \<le> j" "j < ?e" for j
    using l(2)[of j] e(3)[of j] that by (cases "j < i") auto
  have len: "(case e of None \<Rightarrow> n - ?l | Some k \<Rightarrow> k - ?l) = ?e - ?l"
    by (cases e) auto
  show ?thesis
    unfolding Let_def len run_around_def NSLocationInRange_def range_sel
    using l(1,3) e(1,2,4) all by auto
qed

lemma char_inside: "i < length cs \<Longrightarrow> characterAtIndex cs i = Inr (cs ! i)"
  by (simp add: characterAtIndex_def objectAtIndex_def)

lemma single_breaks:
  assumes "i < length cs"
  shows "wordBreakCSet K (cs ! i) \<and> (i = 0 \<or> i = length cs - 1 \<or> cs ! i \<noteq> quote \<or>
      \<not> wordCSet K (cs ! (i - 1)) \<or> \<not> wordCSet K (cs ! (i + 1))) \<longleftrightarrow> breaks K cs i"
  using assms by (auto simp: breaks_def embeddedQuote_def)

text \<open>In white space neither loop passes over a quote.\<close>

lemma doubleClick_white:
  assumes "\<And>c. whiteCSet K c \<Longrightarrow> wordBreakCSet K c" and i: "i < length cs" and white: "whiteCSet K (cs ! i)"
  shows "\<exists>r. doubleClickAtIndex K cs i = Inr r \<and> run_around (\<lambda>j. whiteCSet K (cs ! j)) (length cs) i r"
proof -
  let ?s = "findBackward (nonWhiteCSet K) cs 0 i"
  let ?e = "findForward (nonWhiteCSet K) cs i (length cs)"
  have s: "last_in (\<lambda>j. \<not> whiteCSet K (cs ! j)) 0 i ?s"
    and e: "first_in (\<lambda>j. \<not> whiteCSet K (cs ! j)) i (length cs) ?e"
    using findBackward_last[of "nonWhiteCSet K"] findForward_first[of "nonWhiteCSet K"]
    by (simp_all add: nonWhiteCSet_def)
  have notword: "\<not> wordCSet K c" if "whiteCSet K c" for c
    using assms(1)[OF that] by (simp add: wordCSet_def)
  have s': "startLoop K cs i ?s = (i, ?s)"
  proof (cases ?s)
    case (Some k)
    have "whiteCSet K (cs ! (k + 1))"
      using last_inD(2,4)[OF s[unfolded Some]] white by (cases "k + 1 = i") auto
    then show ?thesis using notword Some by (simp add: embeddedQuote_def)
  qed simp
  have e': "endLoop K cs ?e = ?e"
  proof (cases ?e)
    case (Some k)
    have "k \<noteq> i" using first_inD(3)[OF e[unfolded Some]] white by auto
    then have "whiteCSet K (cs ! (k - 1))"
      using first_inD(1)[OF e[unfolded Some]] first_inD(4)[OF e[unfolded Some], of "k - 1"] by auto
    then show ?thesis using notword Some by (simp add: embeddedQuote_def)
  qed simp
  have "doubleClickAtIndex K cs i = Inr (let l = (case ?s of None \<Rightarrow> 0 | Some k \<Rightarrow> k + 1)
      in NSMakeRange l (case ?e of None \<Rightarrow> length cs - l | Some k \<Rightarrow> k - l))"
    using i white s' e' char_inside[OF i] by (simp add: doubleClickAtIndex_def Let_def)
  then show ?thesis
    using run_between[OF _ i s e] white by simp
qed

text \<open>In a word the second search starts from the location the first loop leaves, and finds the first
  break behind the index all the same.\<close>

lemma first_break_behind:
  assumes "first_in P l n e" and "l \<le> i" and "\<forall>j. l \<le> j \<and> j < i \<longrightarrow> \<not> P j" and "\<not> P i"
  shows "first_in P i n e"
proof (cases e)
  case None
  then show ?thesis using assms(1,2) by (simp add: first_in_def)
next
  case (Some k)
  note k = first_inD[OF assms(1)[unfolded Some]]
  have "i < k"
  proof (rule ccontr)
    assume "\<not> i < k"
    then have "k < i \<or> k = i" by auto
    then show False using k(1,3) assms(3,4) by auto
  qed
  then show ?thesis using Some k assms(2) by (simp add: first_in_def)
qed

lemma doubleClick_word:
  assumes i: "i < length cs" and "\<not> whiteCSet K (cs ! i)" and word: "\<not> breaks K cs i"
  shows "\<exists>r. doubleClickAtIndex K cs i = Inr r \<and> run_around (\<lambda>j. \<not> breaks K cs j) (length cs) i r"
proof -
  obtain l s where s: "startLoop K cs i (findBackward (wordBreakCSet K) cs 0 i) = (l, s)"
    "last_in (breaks K cs) 0 i s" "l \<le> i" "\<forall>j. l \<le> j \<and> j < i \<longrightarrow> \<not> breaks K cs j"
    using startLoop_spec[OF findBackward_last[of "wordBreakCSet K" cs 0 i], of i] by auto
  let ?e = "endLoop K cs (findForward (wordBreakCSet K) cs l (length cs))"
  have "first_in (breaks K cs) l (length cs) ?e"
    by (rule endLoop_spec[OF findForward_first]) simp_all
  then have "first_in (\<lambda>j. \<not> \<not> breaks K cs j) i (length cs) ?e"
    using first_break_behind[OF _ s(3,4) word] by simp
  moreover have "last_in (\<lambda>j. \<not> \<not> breaks K cs j) 0 i s" using s(2) by simp
  ultimately have "run_around (\<lambda>j. \<not> breaks K cs j) (length cs) i
      (let l = (case s of None \<Rightarrow> 0 | Some k \<Rightarrow> k + 1)
       in NSMakeRange l (case ?e of None \<Rightarrow> length cs - l | Some k \<Rightarrow> k - l))"
    using word i by (intro run_between)
  moreover have "doubleClickAtIndex K cs i = Inr
      (let l = (case s of None \<Rightarrow> 0 | Some k \<Rightarrow> k + 1)
       in NSMakeRange l (case ?e of None \<Rightarrow> length cs - l | Some k \<Rightarrow> k - l))"
    unfolding doubleClickAtIndex_def char_inside[OF i] sum.case single_breaks[OF i]
    using i assms(2) word s(1) by (simp add: Let_def)
  ultimately show ?thesis by simp
qed

lemma doubleClick_break:
  assumes "i < length cs" and "\<not> whiteCSet K (cs ! i)" and "breaks K cs i"
  shows "doubleClickAtIndex K cs i = Inr (NSMakeRange i 1)"
  unfolding doubleClickAtIndex_def char_inside[OF assms(1)] sum.case single_breaks[OF assms(1)]
  using assms by simp

text \<open>C24: A double click inside the text selects the largest stretch of white space around the index,
  or the character alone when it separates words, or else the largest stretch around it without
  a word break, quotes inside words counting as letters. At the end of the text, which the guard
  lets through, it raises a range exception as it does behind it.\<close>

theorem doubleClick_selects:
  assumes "\<And>c. whiteCSet K c \<Longrightarrow> wordBreakCSet K c"
  shows "(i < length cs \<longrightarrow> (\<exists>r. doubleClickAtIndex K cs i = Inr r \<and>
      (if whiteCSet K (cs ! i) then run_around (\<lambda>j. whiteCSet K (cs ! j)) (length cs) i r
       else if breaks K cs i then r = NSMakeRange i 1
       else run_around (\<lambda>j. \<not> breaks K cs j) (length cs) i r))) \<and>
    (length cs \<le> i \<longrightarrow> doubleClickAtIndex K cs i = Inl NSRangeException)"
proof (intro conjI impI)
  assume "length cs \<le> i"
  then show "doubleClickAtIndex K cs i = Inl NSRangeException"
    by (simp add: doubleClickAtIndex_def characterAtIndex_def objectAtIndex_def)
next
  assume "i < length cs"
  then show "\<exists>r. doubleClickAtIndex K cs i = Inr r \<and>
      (if whiteCSet K (cs ! i) then run_around (\<lambda>j. whiteCSet K (cs ! j)) (length cs) i r
       else if breaks K cs i then r = NSMakeRange i 1
       else run_around (\<lambda>j. \<not> breaks K cs j) (length cs) i r)"
    using doubleClick_white[OF assms] doubleClick_word[of i cs K] doubleClick_break[of i cs K]
    by (cases "whiteCSet K (cs ! i)"; cases "breaks K cs i") simp_all
qed

text \<open>White space is the blank; words end at blanks and quotes.\<close>

definition plain_sets :: char_sets where
  "plain_sets = \<lparr>wordBreakCSet = (\<lambda>c. c = 32 \<or> c = quote), whiteCSet = (\<lambda>c. c = 32)\<rparr>"

theorem doubleClick_selects_witness:
  "let cs = [65, quote, 66, 32] in
     doubleClickAtIndex plain_sets cs 0 = Inr (NSMakeRange 0 3) \<and>
     run_around (\<lambda>j. \<not> breaks plain_sets cs j) (length cs) 0 (NSMakeRange 0 3)"
proof -
  let ?cs = "[65, quote, 66, 32]"
  have eval: "doubleClickAtIndex plain_sets ?cs 0 = Inr (NSMakeRange 0 3)"
    by (simp add: doubleClickAtIndex_def plain_sets_def characterAtIndex_def objectAtIndex_def
        quote_def Let_def findForward_def findBackward_def embeddedQuote_def wordCSet_def upt_rec)
  have letter: "\<not> whiteCSet plain_sets (?cs ! 0)" "\<not> breaks plain_sets ?cs 0"
    by (simp_all add: plain_sets_def breaks_def quote_def)
  have "whiteCSet plain_sets c \<Longrightarrow> wordBreakCSet plain_sets c" for c
    by (simp add: plain_sets_def)
  from doubleClick_selects[OF this, of 0 ?cs]
  have "run_around (\<lambda>j. \<not> breaks plain_sets ?cs j) (length ?cs) 0 (NSMakeRange 0 3)"
    unfolding eval using letter by (metis length_greater_0_conv list.distinct(1) sum.inject(2))
  then show ?thesis using eval by (simp only: Let_def)
qed

lemma nextWord_forward:
  assumes i: "i \<le> length cs"
  shows "\<exists>j. nextWordFromIndex K cs i True = Inr j \<and> i \<le> j \<and> j \<le> length cs \<and> (i < length cs \<longrightarrow> i < j) \<and>
      (j < length cs \<longrightarrow> wordBreakCSet K (cs ! j) \<and> wordCSet K (cs ! (j - 1)))"
proof (cases "findForward (wordCSet K) cs i (length cs)")
  case None
  then show ?thesis using i by (intro exI[of _ "length cs"]) (simp add: nextWordFromIndex_def)
next
  case (Some k)
  note k = first_inD[OF findForward_first[of "wordCSet K" cs i "length cs", unfolded Some]]
  show ?thesis
  proof (cases "findForward (wordBreakCSet K) cs k (length cs)")
    case None
    then show ?thesis
      using i Some by (intro exI[of _ "length cs"]) (simp add: nextWordFromIndex_def)
  next
    case (Some j)
    note j = first_inD[OF findForward_first[of "wordBreakCSet K" cs k "length cs", unfolded Some]]
    have "k \<noteq> j" using k(3) j(3) by (auto simp: wordCSet_def)
    then have "k < j" using j(1) by simp
    then have "wordCSet K (cs ! (j - 1))"
      using j(4)[of "j - 1"] by (simp add: wordCSet_def)
    then show ?thesis
      using i k j \<open>k < j\<close> Some \<open>findForward (wordCSet K) cs i (length cs) = Some k\<close>
      by (intro exI[of _ j]) (simp add: nextWordFromIndex_def)
  qed
qed

lemma nextWord_backward:
  assumes i: "i \<le> length cs"
  shows "\<exists>j. nextWordFromIndex K cs i False = Inr j \<and> j \<le> i \<and> (0 < i \<longrightarrow> j < i) \<and>
      (0 < j \<longrightarrow> wordBreakCSet K (cs ! (j - 1)) \<and> wordCSet K (cs ! j))"
proof (cases "findBackward (wordCSet K) cs 0 i")
  case None
  then show ?thesis using i by (intro exI[of _ 0]) (simp add: nextWordFromIndex_def)
next
  case (Some k)
  note k = last_inD[OF findBackward_last[of "wordCSet K" cs 0 i, unfolded Some]]
  show ?thesis
  proof (cases "findBackward (wordBreakCSet K) cs 0 k")
    case None
    then show ?thesis
      using i Some k(2) by (intro exI[of _ 0]) (simp add: nextWordFromIndex_def)
  next
    case (Some j)
    note j = last_inD[OF findBackward_last[of "wordBreakCSet K" cs 0 k, unfolded Some]]
    have "wordCSet K (cs ! (j + 1))"
      using j(2) j(4)[of "j + 1"] k(3) by (cases "j + 1 = k") (auto simp: wordCSet_def)
    then show ?thesis
      using i k j Some \<open>findBackward (wordCSet K) cs 0 i = Some k\<close>
      by (intro exI[of _ "j + 1"]) (simp add: nextWordFromIndex_def)
  qed
qed

text \<open>Moving by words never leaves the text and always moves on unless the end is reached:
  forward it stops behind a letter in front of a word break or at the end, backward in front of a
  letter behind a word break or at the beginning; an index behind the text raises.\<close>

lemma nextWord_moves:
  "(i \<le> length cs \<longrightarrow>
      (\<exists>j. nextWordFromIndex K cs i True = Inr j \<and> i \<le> j \<and> j \<le> length cs \<and>
         (i < length cs \<longrightarrow> i < j) \<and>
         (j < length cs \<longrightarrow> wordBreakCSet K (cs ! j) \<and> wordCSet K (cs ! (j - 1)))) \<and>
      (\<exists>j. nextWordFromIndex K cs i False = Inr j \<and> j \<le> i \<and> (0 < i \<longrightarrow> j < i) \<and>
         (0 < j \<longrightarrow> wordBreakCSet K (cs ! (j - 1)) \<and> wordCSet K (cs ! j)))) \<and>
   (length cs < i \<longrightarrow> nextWordFromIndex K cs i forward = Inl NSRangeException)"
  using nextWord_forward nextWord_backward by (simp add: nextWordFromIndex_def)

lemma nextWord_moves_example:
  "nextWordFromIndex plain_sets [65, 66, 32, 67] 5 True = Inl NSRangeException \<and>
   (\<exists>j. nextWordFromIndex plain_sets [65, 66, 32, 67] 0 True = Inr j \<and> 0 < j)"
  using nextWord_moves[of 5 "[65, 66, 32, 67]" plain_sets True]
    nextWord_moves[of 0 "[65, 66, 32, 67]" plain_sets True] by auto

text \<open>In a text without quotes the line break found before an index inside the range is the one
  behind the last word break between the beginning of the range and the index. A quote behind a
  letter makes the search go on in front of the range: the break answered can lie outside it.\<close>

lemma lineBreak_before:
  "(NSMaxRange r \<le> length cs \<and> NSLocationInRange i r \<and> quote \<notin> set cs \<longrightarrow>
      (\<exists>b. lineBreakBeforeIndex K cs i r = Inr (map_option Suc b) \<and>
         last_in (\<lambda>j. wordBreakCSet K (cs ! j)) (location r) i b)) \<and>
   (\<exists>(L :: char_sets) text q k b. NSMaxRange q \<le> length text \<and> NSLocationInRange k q \<and>
      lineBreakBeforeIndex L text k q = Inr (Some b) \<and> b < location q)"
proof (intro conjI impI)
  assume a: "NSMaxRange r \<le> length cs \<and> NSLocationInRange i r \<and> quote \<notin> set cs"
  let ?b = "findBackward (wordBreakCSet K) cs (location r) i"
  have "i \<le> length cs" using a by (auto simp: NSLocationInRange_def)
  then have "cs ! k \<noteq> quote" if "k < i" for k
    using a that by (metis nth_mem less_le_trans)
  then have "lineBreakLoop K cs ?b = ?b"
    using findBackward_less[of "wordBreakCSet K" cs "location r" i] by (cases ?b) auto
  then show "\<exists>b. lineBreakBeforeIndex K cs i r = Inr (map_option Suc b) \<and>
      last_in (\<lambda>j. wordBreakCSet K (cs ! j)) (location r) i b"
    using a \<open>i \<le> length cs\<close> findBackward_last[of "wordBreakCSet K" cs "location r" i]
    by (intro exI[of _ ?b]) (simp add: lineBreakBeforeIndex_def not_less)
next
  have "lineBreakBeforeIndex plain_sets [65, 32, 66, quote, 67, 68] 5 (NSMakeRange 3 3) = Inr (Some 2)"
    by (simp add: lineBreakBeforeIndex_def plain_sets_def quote_def findBackward_def wordCSet_def
        NSLocationInRange_def upt_rec)
  then show "\<exists>(L :: char_sets) text q k b. NSMaxRange q \<le> length text \<and> NSLocationInRange k q \<and>
      lineBreakBeforeIndex L text k q = Inr (Some b) \<and> b < location q"
    by (intro exI[of _ plain_sets] exI[of _ "[65, 32, 66, quote, 67, 68]"] exI[of _ "NSMakeRange 3 3"]
        exI[of _ 5] exI[of _ 2]) (simp add: NSLocationInRange_def)
qed

lemma lineBreak_before_example:
  "\<exists>b. lineBreakBeforeIndex plain_sets [65, 32, 66] 2 (NSMakeRange 0 3) = Inr (map_option Suc b) \<and>
     last_in (\<lambda>j. wordBreakCSet plain_sets ([65, 32, 66] ! j)) 0 2 b"
  using lineBreak_before[of "NSMakeRange 0 3" "[65, 32, 66]" 2 plain_sets]
  by (auto simp: NSLocationInRange_def quote_def)

end
