(* ===== verification/AttrText.thy ===== *)
theory AttrText
  imports AttrEdit AttributedText WordScan
begin

text \<open>
  The contract between an attributed string and the methods of \<open>AttrEdit\<close>, as a locale: what the
  lookups answer and what the changes do to the characters and their attributes. The methods
  are proved correct once inside it. The concrete storage of the repository meets the contract
  inside a bracket of edits, with the attribute methods the base library builds from the two
  primitives; the properties are about the methods running on that storage.
\<close>

subsection \<open>Changing the attributes of a range\<close>

definition modify ::
  "('v attrs \<Rightarrow> 'v attrs) \<Rightarrow> nsrange \<Rightarrow> (unichar \<times> 'v attrs) list \<Rightarrow> (unichar \<times> 'v attrs) list" where
  "modify g r xs =
     take (location r) xs @ map (\<lambda>(c, d). (c, g d)) (take (len r) (drop (location r) xs)) @
     drop (NSMaxRange r) xs"

lemma modify_length [simp]: "NSMaxRange r \<le> length xs \<Longrightarrow> length (modify g r xs) = length xs"
  by (simp add: modify_def NSMaxRange_def)

lemma modify_nth:
  assumes "NSMaxRange r \<le> length xs" and "i < length xs"
  shows "modify g r xs ! i =
    (if NSLocationInRange i r then (fst (xs ! i), g (snd (xs ! i))) else xs ! i)"
  using assms
  by (cases "i < location r"; cases "i - location r < len r")
     (auto simp: modify_def nth_append NSLocationInRange_def NSMaxRange_def split_beta)

lemma modify_fst [simp]:
  assumes "NSMaxRange r \<le> length xs"
  shows "map fst (modify g r xs) = map fst xs"
  using assms by (intro nth_equalityI) (simp_all add: modify_nth)

lemma set_styled_modify: "set_styled d r xs = modify (\<lambda>_. d) r xs"
  by (simp add: set_styled_def modify_def)

lemma modify_empty [simp]: "modify g (NSMakeRange i 0) xs = xs"
  by (simp add: modify_def NSMakeRange_def NSMaxRange_def)

text \<open>Two changes agree when they agree on the characters of the range.\<close>

lemma modify_eqI:
  assumes "NSMaxRange r \<le> length xs" and "length ys = length xs"
    and "\<And>i. i < length xs \<Longrightarrow>
      ys ! i = (if NSLocationInRange i r then (fst (xs ! i), g (snd (xs ! i))) else xs ! i)"
  shows "ys = modify g r xs"
  using assms by (intro nth_equalityI) (simp_all add: modify_nth)

text \<open>
  A change of one attribute, given by its new value or \<open>None\<close> to leave it. One turn of a loop
  over the runs: the text was changed up to \<open>i\<close>, and the run \<open>q\<close> around \<open>i\<close>, in which the
  attribute is constant, is changed where it meets \<open>r\<close>. As the run may reach back into
  characters changed before, the change has to be idempotent.
\<close>

definition change_attrs :: "string \<Rightarrow> ('v option \<Rightarrow> 'v option res) \<Rightarrow> 'v attrs \<Rightarrow> 'v attrs" where
  "change_attrs k change d =
     (case change (d k) of Inr (Some v) \<Rightarrow> d(k \<mapsto> v) | _ \<Rightarrow> d)"

definition well_changed :: "('v option \<Rightarrow> 'v option res) \<Rightarrow> 'v option \<Rightarrow> bool" where
  "well_changed change v \<longleftrightarrow>
     (\<exists>x. change v = Inr x \<and>
        (\<forall>w. x = Some w \<longrightarrow> change (Some w) = Inr None \<or> change (Some w) = Inr (Some w)))"

lemma change_again:
  assumes "well_changed change (d k)" and "change (change_attrs k change d k) = Inr (Some v)"
  shows "(change_attrs k change d)(k \<mapsto> v) = change_attrs k change d"
proof -
  obtain x where x: "change (d k) = Inr x"
      "\<And>w. x = Some w \<Longrightarrow> change (Some w) = Inr None \<or> change (Some w) = Inr (Some w)"
    using assms(1) by (auto simp: well_changed_def)
  show ?thesis
  proof (cases x)
    case None
    then show ?thesis using assms(2) x(1) by (simp add: change_attrs_def)
  next
    case (Some w)
    then have "change_attrs k change d = d(k \<mapsto> w)"
      using x(1) by (simp add: change_attrs_def)
    then show ?thesis using assms(2) x(2)[OF Some] by auto
  qed
qed

lemma range_until:
  "location r \<le> i \<Longrightarrow> NSLocationInRange j (NSMakeRange (location r) (i - location r)) \<longleftrightarrow>
     location r \<le> j \<and> j < i"
  by (auto simp: NSLocationInRange_def)

lemma intersection_bounds:
  assumes "NSLocationInRange i q" and "NSLocationInRange i r"
  shows "location (NSIntersectionRange q r) = max (location q) (location r)"
    and "NSMaxRange (NSIntersectionRange q r) = min (NSMaxRange q) (NSMaxRange r)"
proof -
  have "\<not> (NSMaxRange q < location r \<or> NSMaxRange r < location q)"
    and le: "max (location q) (location r) \<le> min (NSMaxRange q) (NSMaxRange r)"
    using assms by (auto simp: NSLocationInRange_def)
  then have eq: "NSIntersectionRange q r = NSMakeRange (max (location q) (location r))
      (min (NSMaxRange q) (NSMaxRange r) - max (location q) (location r))"
    by (simp add: NSIntersectionRange_def Let_def)
  show "location (NSIntersectionRange q r) = max (location q) (location r)"
    unfolding eq by simp
  show "NSMaxRange (NSIntersectionRange q r) = min (NSMaxRange q) (NSMaxRange r)"
    unfolding eq using le by simp
qed

lemma change_step:
  assumes r: "NSMaxRange r \<le> length xs" and i: "location r \<le> i" "i < NSMaxRange r"
    and q: "NSLocationInRange i q" "NSMaxRange q \<le> length xs"
    and ys: "ys = modify (change_attrs k change) (NSMakeRange (location r) (i - location r)) xs"
    and const: "\<And>j. NSLocationInRange j q \<Longrightarrow> snd (ys ! j) k = snd (ys ! i) k"
    and well: "\<And>j. NSLocationInRange j r \<Longrightarrow> well_changed change (snd (xs ! j) k)"
    and x: "change (snd (ys ! i) k) = Inr x"
  shows "(case x of None \<Rightarrow> ys | Some v \<Rightarrow> modify (\<lambda>d. d(k \<mapsto> v)) (NSIntersectionRange q r) ys) =
    modify (change_attrs k change)
      (NSMakeRange (location r) (min (NSMaxRange q) (NSMaxRange r) - location r)) xs"
proof (rule modify_eqI)
  let ?g = "change_attrs k change" and ?e = "min (NSMaxRange q) (NSMaxRange r)"
  let ?m = "NSIntersectionRange q r"
  have ir: "NSLocationInRange i r" using i by (simp add: NSLocationInRange_def)
  note m = intersection_bounds[OF q(1) ir]
  have e: "i < ?e" "location r \<le> ?e" using q(1) i by (auto simp: NSLocationInRange_def)
  have front: "NSMaxRange (NSMakeRange (location r) (i - location r)) \<le> length xs"
    using i r by simp
  have ly: "length ys = length xs" using front ys by simp
  have mn: "NSMaxRange ?m \<le> length ys" using m(2) r ly by simp
  show "NSMaxRange (NSMakeRange (location r) (?e - location r)) \<le> length xs"
    using e r by simp
  show "length (case x of None \<Rightarrow> ys | Some v \<Rightarrow> modify (\<lambda>d. d(k \<mapsto> v)) ?m ys) = length xs"
    using mn ly by (cases x) simp_all
  fix j assume j: "j < length xs"
  have yj: "ys ! j = (if location r \<le> j \<and> j < i then (fst (xs ! j), ?g (snd (xs ! j))) else xs ! j)"
    unfolding ys using modify_nth[OF front j] range_until[OF i(1)] by simp
  have zj: "(case x of None \<Rightarrow> ys | Some v \<Rightarrow> modify (\<lambda>d. d(k \<mapsto> v)) ?m ys) ! j =
      (case x of None \<Rightarrow> ys ! j
       | Some v \<Rightarrow> if NSLocationInRange j ?m then (fst (ys ! j), (snd (ys ! j))(k \<mapsto> v)) else ys ! j)"
    using modify_nth[OF mn, of j] j ly by (cases x) simp_all
  have inm: "NSLocationInRange j ?m \<longleftrightarrow> location q \<le> j \<and> location r \<le> j \<and> j < ?e"
    using m by (auto simp: NSLocationInRange_def)
  have "(case x of None \<Rightarrow> ys ! j
       | Some v \<Rightarrow> if NSLocationInRange j ?m then (fst (ys ! j), (snd (ys ! j))(k \<mapsto> v)) else ys ! j) =
      (if location r \<le> j \<and> j < ?e then (fst (xs ! j), ?g (snd (xs ! j))) else xs ! j)"
  proof (cases "NSLocationInRange j ?m")
    case False
    then have "\<not> (location r \<le> j \<and> j < ?e) \<or> j < i"
      using inm q(1) by (auto simp: NSLocationInRange_def)
    then show ?thesis using False yj e by (cases x) auto
  next
    case True
    then have jr: "location r \<le> j" "j < ?e" and jq: "NSLocationInRange j q"
      using inm by (auto simp: NSLocationInRange_def)
    have val: "change (snd (ys ! j) k) = Inr x" using const[OF jq] x by simp
    show ?thesis
    proof (cases "j < i")
      case True
      then have y: "ys ! j = (fst (xs ! j), ?g (snd (xs ! j)))" using yj jr by simp
      have "well_changed change (snd (xs ! j) k)"
        using well jr by (simp add: NSLocationInRange_def)
      then have "x = Some v \<Longrightarrow> (?g (snd (xs ! j)))(k \<mapsto> v) = ?g (snd (xs ! j))" for v
        using change_again[of change "snd (xs ! j)" k v] val y by simp
      then show ?thesis using y jr by (cases x) auto
    next
      case False
      then have y: "ys ! j = xs ! j" using yj by simp
      then have "?g (snd (xs ! j)) = (case x of None \<Rightarrow> snd (xs ! j) | Some v \<Rightarrow> (snd (xs ! j))(k \<mapsto> v))"
        using val by (cases x) (simp_all add: change_attrs_def)
      then show ?thesis using y jr \<open>NSLocationInRange j ?m\<close> by (cases x) simp_all
    qed
  qed
  then show "(case x of None \<Rightarrow> ys | Some v \<Rightarrow> modify (\<lambda>d. d(k \<mapsto> v)) ?m ys) ! j =
      (if NSLocationInRange j (NSMakeRange (location r) (?e - location r))
       then (fst (xs ! j), ?g (snd (xs ! j))) else xs ! j)"
    using zj range_until[OF e(2)] by simp
qed

subsection \<open>The contract\<close>

locale attributed_text =
  fixes V :: "('s, 'v) attributed"
    and ok :: "'s \<Rightarrow> bool"
    and content :: "'s \<Rightarrow> (unichar \<times> 'v attrs) list"
  assumes string_content: "ok s \<Longrightarrow> string_of V s = map fst (content s)"
    and attribute_content: "ok s \<Longrightarrow> i < length (content s) \<Longrightarrow>
      \<exists>r. attributeAt V k i s = Some (Inr (snd (content s ! i) k, r)) \<and> NSLocationInRange i r \<and>
        NSMaxRange r \<le> length (content s) \<and>
        (\<forall>j. NSLocationInRange j r \<longrightarrow> snd (content s ! j) k = snd (content s ! i) k)"
    and add_content: "ok s \<Longrightarrow> NSMaxRange r \<le> length (content s) \<Longrightarrow>
      \<exists>s'. addAttribute V k (Some v) r s = Some (Inr s') \<and> ok s' \<and>
        content s' = modify (\<lambda>d. d(k \<mapsto> v)) r (content s)"
    and remove_content: "ok s \<Longrightarrow> NSMaxRange r \<le> length (content s) \<Longrightarrow>
      \<exists>s'. removeAttribute V k r s = Some (Inr s') \<and> ok s' \<and>
        content s' = modify (\<lambda>d. d(k := None)) r (content s)"
    and add_nil: "addAttribute V k None r s = Some (Inl (NSInvalidArgumentException, s))"
begin

lemma string_length: "ok s \<Longrightarrow> length_of V s = length (content s)"
  by (simp add: string_content)

text \<open>Changing run by run is changing every character.\<close>

lemma changeRuns_modify:
  assumes ok: "ok s" and r: "NSMaxRange r \<le> length (content s)"
    and well: "\<And>j. NSLocationInRange j r \<Longrightarrow> well_changed change (snd (content s ! j) k)"
    and i: "location r \<le> i"
    and now: "ok t" "content t = modify (change_attrs k change)
        (NSMakeRange (location r) (min i (NSMaxRange r) - location r)) (content s)"
  shows "\<exists>s'. changeRuns V k change r i t = Some (Inr s') \<and> ok s' \<and>
    content s' = modify (change_attrs k change) r (content s)"
  using i now
proof (induction "NSMaxRange r - i" arbitrary: i t rule: less_induct)
  case less
  let ?g = "change_attrs k change" and ?n = "length (content s)"
  show ?case
  proof (cases "i < NSMaxRange r")
    case False
    then have "NSMakeRange (location r) (min i (NSMaxRange r) - location r) = r"
      by (simp add: NSMakeRange_def NSMaxRange_def)
    then show ?thesis
      using False less.prems by (subst changeRuns.simps) simp
  next
    case True
    have ct: "content t = modify ?g (NSMakeRange (location r) (i - location r)) (content s)"
      using less.prems(3) True by simp
    have front: "NSMaxRange (NSMakeRange (location r) (i - location r)) \<le> ?n"
      using less.prems(1) True r by simp
    then have nt: "length (content t) = ?n" using ct by simp
    have "i < length (content t)" using True r nt by simp
    from attribute_content[OF less.prems(2) this, of k]
    obtain q where q: "attributeAt V k i t = Some (Inr (snd (content t ! i) k, q))"
      "NSLocationInRange i q" "NSMaxRange q \<le> ?n"
      "\<And>j. NSLocationInRange j q \<Longrightarrow> snd (content t ! j) k = snd (content t ! i) k"
      using nt by metis
    have "content t ! i = content s ! i"
      using modify_nth[OF front, of i ?g] ct True r range_until[OF less.prems(1)] by simp
    moreover have ir: "NSLocationInRange i r" using True less.prems(1) by (simp add: NSLocationInRange_def)
    ultimately obtain x where x: "change (snd (content t ! i) k) = Inr x"
      using well[OF ir] by (auto simp: well_changed_def)
    let ?m = "NSIntersectionRange q r"
    have "NSMaxRange ?m \<le> length (content t)"
      using intersection_bounds(2)[OF q(2) ir] r nt by simp
    from add_content[OF less.prems(2) this, of k]
    obtain u where u: "(case x of None \<Rightarrow> Some (Inr t) | Some v \<Rightarrow> addAttribute V k (Some v) ?m t) =
        Some (Inr u)" "ok u"
      "content u = (case x of None \<Rightarrow> content t | Some v \<Rightarrow> modify (\<lambda>d. d(k \<mapsto> v)) ?m (content t))"
      using less.prems(2) by (cases x) force+
    have cu: "content u = modify ?g
        (NSMakeRange (location r) (min (NSMaxRange q) (NSMaxRange r) - location r)) (content s)"
      using change_step[OF r less.prems(1) True q(2,3) ct q(4) well x] u(3) by simp
    have "i < NSMaxRange q" using q(2) by (simp add: NSLocationInRange_def)
    then have "\<exists>s'. changeRuns V k change r (NSMaxRange q) u = Some (Inr s') \<and> ok s' \<and>
        content s' = modify ?g r (content s)"
      using True less.prems(1) u(2) cu by (intro less.hyps) simp_all
    moreover have "changeRuns V k change r i t = changeRuns V k change r (NSMaxRange q) u"
      using True q(1) x u(1) by (subst changeRuns.simps) simp
    ultimately show ?thesis by simp
  qed
qed

lemma changeRuns_all:
  assumes "ok s" and "NSMaxRange r \<le> length (content s)"
    and "\<And>j. NSLocationInRange j r \<Longrightarrow> well_changed change (snd (content s ! j) k)"
  shows "\<exists>s'. changeRuns V k change r (location r) s = Some (Inr s') \<and> ok s' \<and>
    content s' = modify (change_attrs k change) r (content s)"
  using assms by (intro changeRuns_modify) (simp_all add: NSMaxRange_def)

end

definition style_test ::
  "(('b, 'l) para_style \<Rightarrow> bool) \<Rightarrow> (unichar \<times> ('f, 'b, 'l) attr_value attrs) list \<Rightarrow> nat \<Rightarrow> bool" where
  "style_test P xs j \<longleftrightarrow>
     (case snd (xs ! j) NSParagraphStyleAttributeName of Some (Style p) \<Rightarrow> P p | _ \<Rightarrow> False)"

definition styles_only :: "(unichar \<times> ('f, 'b, 'l) attr_value attrs) list \<Rightarrow> bool" where
  "styles_only xs \<longleftrightarrow> (\<forall>j < length xs.
     case snd (xs ! j) NSParagraphStyleAttributeName of None \<Rightarrow> True
     | Some (Style p) \<Rightarrow> True | _ \<Rightarrow> False)"

lemma passes_test:
  assumes "styles_only xs" and "j < length xs"
  shows "passes P (snd (xs ! j) NSParagraphStyleAttributeName) = Inr (style_test P xs j)"
proof (cases "snd (xs ! j) NSParagraphStyleAttributeName")
  case None
  then show ?thesis by (simp add: style_test_def)
next
  case (Some v)
  then show ?thesis
    using assms by (cases v) (auto simp: styles_only_def style_test_def)
qed

text \<open>
  Some strings answer ranges that partition the text: every position of a range answers the same
  range. The searches for the extent of a style glue neighbouring ranges together and need that.
\<close>

definition agree_on :: "(nat \<Rightarrow> bool) \<Rightarrow> nsrange \<Rightarrow> bool \<Rightarrow> bool" where
  "agree_on T q b \<longleftrightarrow> (\<forall>j. NSLocationInRange j q \<longrightarrow> T j = b)"

lemma agree_onD: "agree_on T q b \<Longrightarrow> NSLocationInRange j q \<Longrightarrow> T j = b"
  by (simp add: agree_on_def)

locale partitioned_text = attributed_text V ok content
  for V :: "('s, ('f, 'b, 'l) attr_value) attributed" and ok and content +
  assumes partition: "ok s \<Longrightarrow> attributeAt V k i s = Some (Inr (v, q)) \<Longrightarrow> NSLocationInRange j q \<Longrightarrow>
    attributeAt V k j s = Some (Inr (v, q))"
begin

lemma style_run:
  assumes "ok s" and "styles_only (content s)" and "i < length (content s)"
  obtains v q where "attributeAt V NSParagraphStyleAttributeName i s = Some (Inr (v, q))"
    and "passes P v = Inr (style_test P (content s) i)" and "NSLocationInRange i q"
    and "NSMaxRange q \<le> length (content s)"
    and "agree_on (style_test P (content s)) q (style_test P (content s) i)"
proof -
  obtain q where q: "attributeAt V NSParagraphStyleAttributeName i s =
      Some (Inr (snd (content s ! i) NSParagraphStyleAttributeName, q))"
    "NSLocationInRange i q" "NSMaxRange q \<le> length (content s)"
    "\<And>j. NSLocationInRange j q \<Longrightarrow> snd (content s ! j) NSParagraphStyleAttributeName =
       snd (content s ! i) NSParagraphStyleAttributeName"
    using attribute_content[OF assms(1,3)] by blast
  have "agree_on (style_test P (content s)) q (style_test P (content s) i)"
    unfolding agree_on_def style_test_def using q(4) by simp
  then show ?thesis
    using that q(1) passes_test[OF assms(2,3)] q(2,3) by blast
qed

definition starts_run :: "'s \<Rightarrow> nat \<Rightarrow> bool" where
  "starts_run s i \<longleftrightarrow>
     (\<exists>v q. attributeAt V NSParagraphStyleAttributeName i s = Some (Inr (v, q)) \<and> location q = i)"

definition ends_run :: "'s \<Rightarrow> nat \<Rightarrow> bool" where
  "ends_run s e \<longleftrightarrow> (\<exists>v q i. i < e \<and> attributeAt V NSParagraphStyleAttributeName i s = Some (Inr (v, q)) \<and>
     NSLocationInRange i q \<and> NSMaxRange q = e)"

lemma run_before:
  assumes "ok s" and "starts_run s l" and "0 < l"
    and q: "attributeAt V NSParagraphStyleAttributeName (l - 1) s = Some (Inr (v, q))"
      "NSLocationInRange (l - 1) q"
  shows "NSMaxRange q = l" and "starts_run s (location q)"
proof -
  have "\<not> NSLocationInRange l q"
    using partition[OF assms(1) q(1), of l] assms(2,3) q(2)
    by (auto simp: starts_run_def NSLocationInRange_def)
  then show "NSMaxRange q = l" using q(2) assms(3) by (auto simp: NSLocationInRange_def)
  have "NSLocationInRange (location q) q" using q(2) by (auto simp: NSLocationInRange_def)
  then show "starts_run s (location q)"
    using partition[OF assms(1) q(1)] by (auto simp: starts_run_def)
qed

lemma run_behind:
  assumes "ok s" and "ends_run s e"
    and q: "attributeAt V NSParagraphStyleAttributeName e s = Some (Inr (v, q))" "NSLocationInRange e q"
  shows "location q = e" and "ends_run s (NSMaxRange q)"
proof -
  obtain v' q' i where i: "i < e" "attributeAt V NSParagraphStyleAttributeName i s = Some (Inr (v', q'))"
      "NSLocationInRange i q'" "NSMaxRange q' = e"
    using assms(2) by (auto simp: ends_run_def)
  have e1: "NSLocationInRange (e - 1) q'" using i by (auto simp: NSLocationInRange_def)
  have "\<not> NSLocationInRange (e - 1) q"
  proof
    assume "NSLocationInRange (e - 1) q"
    then have "q = q'" using partition[OF assms(1) q(1)] partition[OF assms(1) i(2) e1] by simp
    then show False using i(4) q(2) by (simp add: NSLocationInRange_def)
  qed
  then show "location q = e" using q(2) i(1) by (auto simp: NSLocationInRange_def)
  show "ends_run s (NSMaxRange q)"
    using q by (auto simp: ends_run_def NSLocationInRange_def)
qed

lemma extendBackward_spec:
  assumes "ok s" and "styles_only (content s)" and "starts_run s (location eff)"
    and "NSMaxRange eff \<le> length (content s)" and "location eff < NSMaxRange eff"
    and "\<And>j. NSLocationInRange j eff \<Longrightarrow> style_test P (content s) j"
  shows "\<exists>eff'. extendBackward V P s eff = Some (Inr eff') \<and> NSMaxRange eff' = NSMaxRange eff \<and>
    location eff' \<le> location eff \<and> (\<forall>j. NSLocationInRange j eff' \<longrightarrow> style_test P (content s) j) \<and>
    (0 < location eff' \<longrightarrow> \<not> style_test P (content s) (location eff' - 1))"
  using assms(3-6)
proof (induction "location eff" arbitrary: eff rule: less_induct)
  case less
  show ?case
  proof (cases "0 < location eff")
    case False
    then show ?thesis
      using less.prems by (subst extendBackward.simps) auto
  next
    case True
    then have idx: "location eff - 1 < length (content s)" using less.prems by simp
    obtain v q where
      q: "attributeAt V NSParagraphStyleAttributeName (location eff - 1) s = Some (Inr (v, q))"
      "passes P v = Inr (style_test P (content s) (location eff - 1))" "NSLocationInRange (location eff - 1) q"
      "NSMaxRange q \<le> length (content s)"
      "agree_on (style_test P (content s)) q (style_test P (content s) (location eff - 1))"
      by (rule style_run[OF assms(1,2) idx, where P = P]) (rule that)
    show ?thesis
    proof (cases "style_test P (content s) (location eff - 1)")
      case False
      then have "extendBackward V P s eff = Some (Inr eff)"
        using True q by (subst extendBackward.simps) simp
      then show ?thesis using less.prems False by auto
    next
      case test: True
      note b = run_before[OF assms(1) less.prems(1) True q(1,3)]
      let ?eff = "NSMakeRange (location q) (len eff + len q)"
      have lq: "location q < location eff" using q(3) True by (auto simp: NSLocationInRange_def)
      have max': "NSMaxRange ?eff = NSMaxRange eff"
        using b(1) by (simp add: NSMaxRange_def)
      have all: "style_test P (content s) j" if "NSLocationInRange j ?eff" for j
      proof (cases "j < location eff")
        case True
        then have "NSLocationInRange j q" using that b(1) by (simp add: NSLocationInRange_def)
        then show ?thesis using agree_onD[OF q(5)] test by blast
      next
        case False
        then have "NSLocationInRange j eff"
          using that max' unfolding NSLocationInRange_def by simp
        then show ?thesis using less.prems(4) by simp
      qed
      have "extendBackward V P s eff = extendBackward V P s ?eff"
        using True q test by (subst extendBackward.simps) simp
      moreover have "\<exists>eff'. extendBackward V P s ?eff = Some (Inr eff') \<and> NSMaxRange eff' = NSMaxRange ?eff \<and>
          location eff' \<le> location ?eff \<and> (\<forall>j. NSLocationInRange j eff' \<longrightarrow> style_test P (content s) j) \<and>
          (0 < location eff' \<longrightarrow> \<not> style_test P (content s) (location eff' - 1))"
      proof (rule less.hyps)
        show "location ?eff < location eff" using lq by simp
        show "starts_run s (location ?eff)" using b(2) by simp
        show "NSMaxRange ?eff \<le> length (content s)" using max' less.prems(2) by simp
        show "location ?eff < NSMaxRange ?eff" using max' lq less.prems(3) by simp
      qed (use all in blast)
      ultimately show ?thesis using max' lq by fastforce
    qed
  qed
qed

lemma extendForward_spec:
  assumes "ok s" and "styles_only (content s)" and "ends_run s (NSMaxRange eff)"
    and "NSMaxRange eff \<le> length (content s)"
    and "\<And>j. NSLocationInRange j eff \<Longrightarrow> style_test P (content s) j"
  shows "\<exists>eff'. extendForward V P s eff = Some (Inr eff') \<and> location eff' = location eff \<and>
    NSMaxRange eff \<le> NSMaxRange eff' \<and> NSMaxRange eff' \<le> length (content s) \<and>
    (\<forall>j. NSLocationInRange j eff' \<longrightarrow> style_test P (content s) j) \<and>
    (NSMaxRange eff' < length (content s) \<longrightarrow> \<not> style_test P (content s) (NSMaxRange eff'))"
  using assms(3-5)
proof (induction "length (content s) - NSMaxRange eff" arbitrary: eff rule: less_induct)
  case less
  have n: "length_of V s = length (content s)" using string_length[OF assms(1)] .
  show ?case
  proof (cases "NSMaxRange eff < length (content s)")
    case False
    then show ?thesis
      using less.prems n by (subst extendForward.simps) auto
  next
    case True
    obtain v q where
      q: "attributeAt V NSParagraphStyleAttributeName (NSMaxRange eff) s = Some (Inr (v, q))"
      "passes P v = Inr (style_test P (content s) (NSMaxRange eff))" "NSLocationInRange (NSMaxRange eff) q"
      "NSMaxRange q \<le> length (content s)"
      "agree_on (style_test P (content s)) q (style_test P (content s) (NSMaxRange eff))"
      by (rule style_run[OF assms(1,2) True, where P = P]) (rule that)
    show ?thesis
    proof (cases "style_test P (content s) (NSMaxRange eff)")
      case False
      then have "extendForward V P s eff = Some (Inr eff)"
        using True q n by (subst extendForward.simps) simp
      then show ?thesis using less.prems False by auto
    next
      case test: True
      note b = run_behind[OF assms(1) less.prems(1) q(1,3)]
      let ?eff = "NSMakeRange (location eff) (len eff + len q)"
      have max': "NSMaxRange ?eff = NSMaxRange q" using b(1) by (simp add: NSMaxRange_def)
      have lq: "NSMaxRange eff < NSMaxRange q" using q(3) by (simp add: NSLocationInRange_def)
      have all: "style_test P (content s) j" if "NSLocationInRange j ?eff" for j
      proof (cases "j < NSMaxRange eff")
        case True
        then have "NSLocationInRange j eff"
          using that by (simp add: NSLocationInRange_def)
        then show ?thesis using less.prems(3) by simp
      next
        case False
        then have "NSLocationInRange j q"
          using that max' b(1) unfolding NSLocationInRange_def by simp
        then show ?thesis using agree_onD[OF q(5)] test by blast
      qed
      have "extendForward V P s eff = extendForward V P s ?eff"
        using True q test n by (subst extendForward.simps) simp
      moreover have "\<exists>eff'. extendForward V P s ?eff = Some (Inr eff') \<and> location eff' = location ?eff \<and>
          NSMaxRange ?eff \<le> NSMaxRange eff' \<and> NSMaxRange eff' \<le> length (content s) \<and>
          (\<forall>j. NSLocationInRange j eff' \<longrightarrow> style_test P (content s) j) \<and>
          (NSMaxRange eff' < length (content s) \<longrightarrow> \<not> style_test P (content s) (NSMaxRange eff'))"
      proof (rule less.hyps)
        show "length (content s) - NSMaxRange ?eff < length (content s) - NSMaxRange eff"
          using max' lq True by simp
        show "ends_run s (NSMaxRange ?eff)" using b(2) max' by simp
        show "NSMaxRange ?eff \<le> length (content s)" using max' q(4) by simp
      qed (use all in blast)
      ultimately show ?thesis using max' lq by fastforce
    qed
  qed
qed

text \<open>The range found is the largest one around the index whose characters pass the test.\<close>

lemma rangeOfStyle_spec:
  assumes "ok s" and "styles_only (content s)" and "i < length (content s)"
  shows "\<exists>r. rangeOfStyle V P i s = Some (Inr r) \<and>
    (case r of None \<Rightarrow> \<not> style_test P (content s) i
     | Some q \<Rightarrow> run_around (style_test P (content s)) (length (content s)) i q)"
proof -
  obtain v q where
    q: "attributeAt V NSParagraphStyleAttributeName i s = Some (Inr (v, q))"
    "passes P v = Inr (style_test P (content s) i)" "NSLocationInRange i q" "NSMaxRange q \<le> length (content s)"
    "agree_on (style_test P (content s)) q (style_test P (content s) i)"
    by (rule style_run[OF assms, where P = P]) (rule that)
  show ?thesis
  proof (cases "style_test P (content s) i")
    case False
    then show ?thesis using q by (simp add: rangeOfStyle_def)
  next
    case True
    have "NSLocationInRange (location q) q" using q(3) by (auto simp: NSLocationInRange_def)
    then have st: "starts_run s (location q)"
      using partition[OF assms(1) q(1)] by (auto simp: starts_run_def)
    have en: "ends_run s (NSMaxRange q)"
      using q by (auto simp: ends_run_def NSLocationInRange_def)
    have ne: "location q < NSMaxRange q" using q(3) by (auto simp: NSLocationInRange_def)
    have all: "style_test P (content s) j" if "NSLocationInRange j q" for j
      using agree_onD[OF q(5) that] True by blast
    have "\<exists>b. extendBackward V P s q = Some (Inr b) \<and> NSMaxRange b = NSMaxRange q \<and>
      location b \<le> location q \<and> (\<forall>j. NSLocationInRange j b \<longrightarrow> style_test P (content s) j) \<and>
      (0 < location b \<longrightarrow> \<not> style_test P (content s) (location b - 1))"
      by (rule extendBackward_spec[OF assms(1,2) st q(4) ne]) (rule all)
    then obtain b where b: "extendBackward V P s q = Some (Inr b)" "NSMaxRange b = NSMaxRange q"
      "location b \<le> location q" "\<forall>j. NSLocationInRange j b \<longrightarrow> style_test P (content s) j"
      "0 < location b \<longrightarrow> \<not> style_test P (content s) (location b - 1)"
      by (elim exE conjE) (rule that)
    have "\<exists>f. extendForward V P s b = Some (Inr f) \<and> location f = location b \<and>
      NSMaxRange b \<le> NSMaxRange f \<and> NSMaxRange f \<le> length (content s) \<and>
      (\<forall>j. NSLocationInRange j f \<longrightarrow> style_test P (content s) j) \<and>
      (NSMaxRange f < length (content s) \<longrightarrow> \<not> style_test P (content s) (NSMaxRange f))"
      by (rule extendForward_spec[OF assms(1,2)]) (use en b(2) q(4) in simp, use b(2) q(4) in simp, use b(4) in blast)
    then obtain f where f: "extendForward V P s b = Some (Inr f)" "location f = location b"
      "NSMaxRange b \<le> NSMaxRange f" "NSMaxRange f \<le> length (content s)"
      "\<forall>j. NSLocationInRange j f \<longrightarrow> style_test P (content s) j"
      "NSMaxRange f < length (content s) \<longrightarrow> \<not> style_test P (content s) (NSMaxRange f)"
      by (elim exE conjE) (rule that)
    have "rangeOfStyle V P i s = Some (Inr (Some f))"
      using q True b f by (simp add: rangeOfStyle_def)
    moreover have "NSLocationInRange i f"
      using q(3) b f by (simp add: NSLocationInRange_def)
    ultimately show ?thesis
      using f b(5) by (auto simp: run_around_def)
  qed
qed

end

end
