(* ===== verification/StorageText.thy ===== *)
theory StorageText
  imports AttrText
begin

text \<open>
  The methods of \<open>AttrEdit\<close> running on the concrete storage \<open>GSTextStorage\<close>. The storage itself
  implements the lookup and the two mutating primitives; the single attribute lookups and
  changes it inherits from the base library, which builds them from these primitives. Inside a
  bracket of edits the storage meets the contracts of \<open>AttrText\<close>, and the properties follow.
\<close>

subsection \<open>The methods inherited from the base library\<close>

definition storedAttribute ::
  "string \<Rightarrow> nat \<Rightarrow> ('m, 'v) text_storage \<Rightarrow> ('v option \<times> nsrange) res option" where
  "storedAttribute name i s = map_option (map_sum id (\<lambda>(d, r). (d name, r))) (attributesAtIndex i s)"

text \<open>The longest range around the index, inside the given one, with one value.\<close>

definition storedLongest ::
  "string \<Rightarrow> nat \<Rightarrow> nsrange \<Rightarrow> ('m, 'v) text_storage \<Rightarrow> ('v option \<times> nsrange) res option" where
  "storedLongest name i limit s =
     map_option (map_sum id (\<lambda>(d, q).
         let same = (\<lambda>j. attr_of (infoArray s) j name = d name);
             front = length (takeWhile same (rev [location limit..<i]));
             behind = length (takeWhile same [i..<NSMaxRange limit])
         in (d name, NSMakeRange (i - front) (front + behind))))
       (attributesAtIndex i s)"

text \<open>Every run of the range gets its own dictionary back, changed.\<close>

partial_function (option) changeStored ::
  "('m, ('m, 'v) text_storage) clients \<Rightarrow> ('v attrs \<Rightarrow> 'v attrs) \<Rightarrow> nsrange \<Rightarrow> nat \<Rightarrow>
   ('m, 'v) text_storage \<Rightarrow> ('m, 'v) text_storage pstep" where
  "changeStored cl g r i s =
     (if i < NSMaxRange r
      then attempt s (attributesAtIndex i s) (\<lambda>(d, eff).
             pbind (setAttributes cl (Some (g d)) (NSIntersectionRange eff r) s)
               (changeStored cl g r (NSMaxRange eff)))
      else Some (Inr s))"

definition storage_text ::
  "('m, ('m, 'v) text_storage) clients \<Rightarrow> (('m, 'v) text_storage, 'v) attributed" where
  "storage_text cl =
     \<lparr>string_of = textChars,
      attributesAt = attributesAtIndex,
      attributeAt = storedAttribute,
      longestAttributeAt = storedLongest,
      addAttribute = (\<lambda>name value r s.
        case value of
          None \<Rightarrow> Some (Inl (NSInvalidArgumentException, s))
        | Some v \<Rightarrow> changeStored cl (\<lambda>d. d(name \<mapsto> v)) r (location r) s),
      removeAttribute = (\<lambda>name r s. changeStored cl (\<lambda>d. d(name := None)) r (location r) s),
      deleteCharacters = (\<lambda>r s. replaceCharacters cl r (Some []) s)\<rparr>"

lemma storage_text_sel [simp]:
  "string_of (storage_text cl) = textChars"
  "attributesAt (storage_text cl) = attributesAtIndex"
  "attributeAt (storage_text cl) = storedAttribute"
  "addAttribute (storage_text cl) k (Some v) r s = changeStored cl (\<lambda>d. d(k \<mapsto> v)) r (location r) s"
  "addAttribute (storage_text cl) k None r s = Some (Inl (NSInvalidArgumentException, s))"
  "removeAttribute (storage_text cl) k r s = changeStored cl (\<lambda>d. d(k := None)) r (location r) s"
  by (simp_all add: storage_text_def)

subsection \<open>One change of one run\<close>

text \<open>
  What holds between the calls of a bracket: the storage is well formed, the bracket is open,
  and the recorded range covers the changes since it was opened with the text \<open>t0\<close>.
\<close>

definition bracketed :: "'v attrs multiset \<Rightarrow> unichar list \<Rightarrow> ('m, 'v) text_storage \<Rightarrow> bool" where
  "bracketed E t0 s \<longleftrightarrow> storage_ok E s \<and> editCount s \<noteq> 0 \<and> covers t0 (textChars s) s \<and>
     textLength s < 2 ^ 31"

lemma styled_fst: "map fst (styled s) = textChars s"
  by (rule nth_equalityI) (simp_all add: textLength_def)

lemma set_inside:
  assumes "bracketed E t0 s" and range: "len r \<noteq> 0" "NSMaxRange r \<le> textLength s"
  shows "\<exists>s'. setAttributes cl (Some d) r s = Some (Inr s') \<and> bracketed E t0 s' \<and>
    styled s' = modify (\<lambda>_. d) r (styled s)"
proof -
  have ok: "storage_ok E s" and count: "editCount s \<noteq> 0" and cov: "covers t0 (textChars s) s"
    and n: "textLength s < 2 ^ 31" using assms(1) by (simp_all add: bracketed_def)
  obtain L where L: "setAttributes cl (Some d) r s =
      edited cl textLength NSTextStorageEditedAttributes r 0 (put L E s)" "sanity L (textLength s)"
    "\<forall>i < textLength s. attr_of L i = (if NSLocationInRange i r then d else attr_of (infoArray s) i)"
    using set_runs[OF ok n range] by force
  let ?str = "take (len r) (drop (location r) (textChars s))"
  have "drop (NSMaxRange r) (textChars s) = drop (len r) (drop (location r) (textChars s))"
    by (simp add: NSMaxRange_def add.commute)
  then have same: "textChars (put L E s) = replaceText r ?str (textChars s)"
    by (simp only: replaceText_def append_take_drop_id put_sel)
  have "length ?str = len r" using range by (simp add: textLength_def NSMaxRange_def)
  then have d: "0 = int (length ?str) - int (len r)" by simp
  have put: "storage_ok E (put L E s)" "editing.truncate (put L E s) = editing.truncate s"
      "textLength (put L E s) < 2 ^ 31"
    using L(2) n by (simp_all add: storage_ok_def) (simp add: put_def editing.truncate_def)
  have flags: "NSTextStorageEditedAttributes \<noteq> 0" by (simp add: NSTextStorageEditedAttributes_def)
  obtain s' where s': "edited cl textLength NSTextStorageEditedAttributes r 0 (put L E s) = Some (Inr s')"
    "storage_ok E s'" "textChars s' = textChars s" "infoArray s' = L" "editCount s' = editCount s"
    "covers t0 (textChars s') s'"
    using edited_covers[OF put(1) same put(2) count cov n put(3) range(2) d flags, of cl textLength]
    by (auto simp: put_def)
  have "textLength s' = textLength s" using s'(3) by (simp add: textLength_def)
  then have "bracketed E t0 s'"
    using s' n count by (simp add: bracketed_def)
  moreover have "styled s' = set_styled d r (styled s)"
    using L(3) s'(3,4) range(2) by (intro styled_set) simp_all
  ultimately show ?thesis
    using s'(1) L(1) by (simp add: set_styled_modify)
qed

subsection \<open>Lookups\<close>

lemma run_found:
  assumes "bracketed E t0 s" and L: "infoArray s = pre @ x # post"
    and k: "loc x \<le> k" "k < end_of post (textLength s)"
  shows "attributesAtIndex k s =
    Some (Inr (attrs x, NSMakeRange (loc x) (end_of post (textLength s) - loc x)))"
proof -
  let ?n = "textLength s"
  have sane: "sanity (infoArray s) ?n" and n: "?n < 2 ^ 31"
    using assms(1) by (simp_all add: bracketed_def storage_ok_def)
  have "end_of post ?n \<le> ?n"
    using sane L by (cases post) (auto simp: sanity_split)
  then have "k < ?n" using k by simp
  then show ?thesis
    using search_finds[OF sane n _ L k] n by (simp add: attributesAtIndex_def u32_int)
qed

text \<open>Also an index at the end of the text, or one cut to 32 bits, is answered with a whole run.\<close>

lemma lookup_run:
  assumes "bracketed E t0 s" and at: "attributesAtIndex i s = Some (Inr (d, q))"
  obtains pre x post where "infoArray s = pre @ x # post" and "d = attrs x"
    and "q = NSMakeRange (loc x) (end_of post (textLength s) - loc x)"
proof -
  let ?n = "textLength s" and ?i = "u32 (int i)"
  have sane: "sanity (infoArray s) ?n" and n: "?n < 2 ^ 31" and ne: "infoArray s \<noteq> []"
    using assms(1) by (simp_all add: bracketed_def storage_ok_def sanity_def)
  have un: "u32 (int ?n) = ?n" using n by (simp add: u32_int)
  consider "?i < ?n" | "?i = ?n" | "?n < ?i" by linarith
  then show ?thesis
  proof cases
    case 1
    obtain pre x post where L: "infoArray s = pre @ x # post" "loc x \<le> ?i"
      "\<And>y. y \<in> set post \<Longrightarrow> ?i < loc y"
      using run_split[OF sane] by metis
    have "?i < end_of post ?n" using 1 L(3) by (cases post) auto
    then show ?thesis
      using that[OF L(1)] search_finds[OF sane n 1 L(1,2)] at un
      by (simp add: attributesAtIndex_def)
  next
    case 2
    then show ?thesis
      using that[of "butlast (infoArray s)" "last (infoArray s)" "[]"] ne search_end[OF sane n] at un
      by (simp add: attributesAtIndex_def)
  next
    case 3
    then show ?thesis using search_beyond[OF ne 3] at un by (simp add: attributesAtIndex_def)
  qed
qed

lemma lookup_partition:
  assumes "bracketed E t0 s" and "attributesAtIndex i s = Some (Inr (d, q))"
    and "NSLocationInRange j q"
  shows "attributesAtIndex j s = Some (Inr (d, q))"
proof -
  from lookup_run[OF assms(1,2)] obtain pre x post where
    L: "infoArray s = pre @ x # post" "d = attrs x"
      "q = NSMakeRange (loc x) (end_of post (textLength s) - loc x)"
    by blast
  have "loc x \<le> j" "j < end_of post (textLength s)"
    using assms(3) by (auto simp: L(3) NSLocationInRange_def)
  then show ?thesis
    using run_found[OF assms(1) L(1), of j] L(2,3) by simp
qed

subsection \<open>Changing every run of a range\<close>

text \<open>One turn: the text was changed up to \<open>i\<close>, the run \<open>q\<close> has one dictionary.\<close>

lemma modify_run:
  assumes r: "NSMaxRange r \<le> length xs" and i: "location r \<le> i" "i < NSMaxRange r"
    and q: "NSLocationInRange i q" "NSMaxRange q \<le> length xs"
    and idem: "\<And>d. g (g d) = g d"
    and ys: "ys = modify g (NSMakeRange (location r) (i - location r)) xs"
    and const: "\<And>j. NSLocationInRange j q \<Longrightarrow> snd (ys ! j) = snd (ys ! i)"
  shows "modify (\<lambda>_. g (snd (ys ! i))) (NSIntersectionRange q r) ys =
    modify g (NSMakeRange (location r) (min (NSMaxRange q) (NSMaxRange r) - location r)) xs"
proof (rule modify_eqI)
  let ?e = "min (NSMaxRange q) (NSMaxRange r)" and ?m = "NSIntersectionRange q r"
  have ir: "NSLocationInRange i r" using i by (simp add: NSLocationInRange_def)
  note m = intersection_bounds[OF q(1) ir]
  have e: "i < ?e" "location r \<le> ?e" using q(1) i by (auto simp: NSLocationInRange_def)
  have front: "NSMaxRange (NSMakeRange (location r) (i - location r)) \<le> length xs"
    using i r by simp
  have ly: "length ys = length xs" using front ys by simp
  have mn: "NSMaxRange ?m \<le> length ys" using m(2) r ly by simp
  show "NSMaxRange (NSMakeRange (location r) (?e - location r)) \<le> length xs"
    using e r by simp
  show "length (modify (\<lambda>_. g (snd (ys ! i))) ?m ys) = length xs" using mn ly by simp
  fix j assume j: "j < length xs"
  have yj: "ys ! j = (if location r \<le> j \<and> j < i then (fst (xs ! j), g (snd (xs ! j))) else xs ! j)"
    unfolding ys using modify_nth[OF front j] range_until[OF i(1)] by simp
  have zj: "modify (\<lambda>_. g (snd (ys ! i))) ?m ys ! j =
      (if NSLocationInRange j ?m then (fst (ys ! j), g (snd (ys ! i))) else ys ! j)"
    using modify_nth[OF mn, of j] j ly by simp
  have inm: "NSLocationInRange j ?m \<longleftrightarrow> location q \<le> j \<and> location r \<le> j \<and> j < ?e"
    using m by (auto simp: NSLocationInRange_def)
  have "(if NSLocationInRange j ?m then (fst (ys ! j), g (snd (ys ! i))) else ys ! j) =
      (if location r \<le> j \<and> j < ?e then (fst (xs ! j), g (snd (xs ! j))) else xs ! j)"
  proof (cases "NSLocationInRange j ?m")
    case False
    then have "\<not> (location r \<le> j \<and> j < ?e) \<or> j < i"
      using inm q(1) by (auto simp: NSLocationInRange_def)
    then show ?thesis using False yj e by auto
  next
    case True
    then have jr: "location r \<le> j" "j < ?e" and jq: "NSLocationInRange j q"
      using inm by (auto simp: NSLocationInRange_def)
    have "g (snd (ys ! i)) = g (snd (xs ! j))"
      using yj jr const[OF jq] idem[of "snd (xs ! j)"] by (cases "j < i") auto
    then show ?thesis using True jr yj by auto
  qed
  then show "modify (\<lambda>_. g (snd (ys ! i))) ?m ys ! j =
      (if NSLocationInRange j (NSMakeRange (location r) (?e - location r))
       then (fst (xs ! j), g (snd (xs ! j))) else xs ! j)"
    using zj range_until[OF e(2)] by simp
qed

lemma changeStored_modify:
  assumes s: "bracketed E t0 s" and r: "NSMaxRange r \<le> textLength s" and idem: "\<And>d. g (g d) = g d"
    and i: "location r \<le> i"
    and now: "bracketed E t0 t" "styled t = modify g
        (NSMakeRange (location r) (min i (NSMaxRange r) - location r)) (styled s)"
  shows "\<exists>s'. changeStored cl g r i t = Some (Inr s') \<and> bracketed E t0 s' \<and>
    styled s' = modify g r (styled s)"
  using i now
proof (induction "NSMaxRange r - i" arbitrary: i t rule: less_induct)
  case less
  show ?case
  proof (cases "i < NSMaxRange r")
    case False
    then have "NSMakeRange (location r) (min i (NSMaxRange r) - location r) = r"
      by (simp add: NSMakeRange_def NSMaxRange_def)
    then show ?thesis
      using False less.prems by (subst changeStored.simps) simp
  next
    case True
    have ct: "styled t = modify g (NSMakeRange (location r) (i - location r)) (styled s)"
      using less.prems(3) True by simp
    have rn: "NSMaxRange r \<le> length (styled s)" using r by simp
    have "NSMaxRange (NSMakeRange (location r) (i - location r)) \<le> length (styled s)"
      using less.prems(1) True r by simp
    then have "length (styled t) = length (styled s)" unfolding ct by (rule modify_length)
    then have nt: "textLength t = textLength s" by simp
    have t: "storage_ok E t" "textLength t < 2 ^ 31"
      using less.prems(2) by (simp_all add: bracketed_def)
    have it: "i < textLength t" using True r nt by simp
    obtain q where q: "attributesAtIndex i t = Some (Inr (snd (styled t ! i), q))"
      "NSLocationInRange i q" "NSMaxRange q \<le> textLength s"
      "\<forall>j. NSLocationInRange j q \<longrightarrow> snd (styled t ! j) = snd (styled t ! i)"
      using lookup_inside[OF t it] unfolding nt by blast
    have ir: "NSLocationInRange i r" using True less.prems(1) by (simp add: NSLocationInRange_def)
    let ?m = "NSIntersectionRange q r"
    have "len ?m \<noteq> 0"
      using intersection_bounds[OF q(2) ir] q(2) ir by (auto simp: NSLocationInRange_def NSMaxRange_def)
    moreover have "NSMaxRange ?m \<le> textLength t"
      using intersection_bounds(2)[OF q(2) ir] r nt by simp
    ultimately obtain u where u:
      "setAttributes cl (Some (g (snd (styled t ! i)))) ?m t = Some (Inr u)" "bracketed E t0 u"
      "styled u = modify (\<lambda>_. g (snd (styled t ! i))) ?m (styled t)"
      using set_inside[OF less.prems(2)] by blast
    have cu: "styled u = modify g
        (NSMakeRange (location r) (min (NSMaxRange q) (NSMaxRange r) - location r)) (styled s)"
      unfolding u(3)
      by (rule modify_run[OF rn less.prems(1) True q(2) _ idem ct]) (use q(3) in simp, rule q(4)[rule_format])
    have "i < NSMaxRange q" using q(2) by (simp add: NSLocationInRange_def)
    then have "\<exists>s'. changeStored cl g r (NSMaxRange q) u = Some (Inr s') \<and> bracketed E t0 s' \<and>
        styled s' = modify g r (styled s)"
      using True less.prems(1) u(2) cu by (intro less.hyps) simp_all
    moreover have "changeStored cl g r i t = changeStored cl g r (NSMaxRange q) u"
      by (subst changeStored.simps) (simp only: True if_True q(1) attempt.simps case_prod_conv u(1) pbind.simps)
    ultimately show ?thesis by simp
  qed
qed

lemma changeStored_all:
  assumes "bracketed E t0 s" and "NSMaxRange r \<le> textLength s" and "\<And>d. g (g d) = g d"
  shows "\<exists>s'. changeStored cl g r (location r) s = Some (Inr s') \<and> bracketed E t0 s' \<and>
    styled s' = modify g r (styled s)"
  using assms by (intro changeStored_modify[OF assms]) simp_all

subsection \<open>The storage meets the contracts\<close>

interpretation storage: partitioned_text "storage_text cl" "bracketed E t0" styled for cl E t0
proof unfold_locales
  show "string_of (storage_text cl) s = map fst (styled s)" for s
    by (simp add: styled_fst)
next
  fix s :: "('a, ('b, 'c, 'd) attr_value) text_storage" and i k
  assume s: "bracketed E t0 s" and i: "i < length (styled s)"
  then have "storage_ok E s" "textLength s < 2 ^ 31" "i < textLength s" by (simp_all add: bracketed_def)
  from lookup_inside[OF this] obtain q where
    q: "attributesAtIndex i s = Some (Inr (snd (styled s ! i), q))" "NSLocationInRange i q"
    "NSMaxRange q \<le> textLength s"
    "\<forall>j. NSLocationInRange j q \<longrightarrow> snd (styled s ! j) = snd (styled s ! i)" by blast
  show "\<exists>r. attributeAt (storage_text cl) k i s = Some (Inr (snd (styled s ! i) k, r)) \<and>
      NSLocationInRange i r \<and> NSMaxRange r \<le> length (styled s) \<and>
      (\<forall>j. NSLocationInRange j r \<longrightarrow> snd (styled s ! j) k = snd (styled s ! i) k)"
  proof (intro exI[of _ q] conjI allI impI)
    show "snd (styled s ! j) k = snd (styled s ! i) k" if "NSLocationInRange j q" for j
      using q(4) that by (metis (no_types))
  qed (use q(1,2,3) in \<open>simp_all add: storedAttribute_def\<close>)
next
  fix s :: "('a, ('b, 'c, 'd) attr_value) text_storage" and k i j v q
  assume s: "bracketed E t0 s" and q: "NSLocationInRange j q"
    and "attributeAt (storage_text cl) k i s = Some (Inr (v, q))"
  then obtain d where d: "attributesAtIndex i s = Some (Inr (d, q))" "v = d k"
    by (cases "attributesAtIndex i s"; cases "the (attributesAtIndex i s)")
       (auto simp: storedAttribute_def)
  show "attributeAt (storage_text cl) k j s = Some (Inr (v, q))"
    using lookup_partition[OF s d(1) q] d(2) by (simp add: storedAttribute_def)
qed (auto intro!: changeStored_all)

lemma bracketed_start:
  assumes "storage_ok E s" and "editCount s \<noteq> 0" and "editedMask s = 0" and "editedDelta s = 0"
    and "textLength s < 2 ^ 31"
  shows "bracketed E (textChars s) s"
  using assms by (simp add: bracketed_def covers_def)

lemma begun_plain:
  "storage_ok {#} (beginEditing (plain cs d Map.empty))"
  "editCount (beginEditing (plain cs d Map.empty)) \<noteq> 0"
  "editedMask (beginEditing (plain cs d Map.empty)) = 0"
  "editedDelta (beginEditing (plain cs d Map.empty)) = 0"
  "textLength (beginEditing (plain cs d Map.empty)) = length cs"
  "styled (beginEditing (plain cs d Map.empty)) = map (\<lambda>c. (c, d)) cs"
  using plain_ok0[of cs d] styled_plain[of cs d Map.empty]
  by (simp_all add: beginEditing_def textLength_def storage_ok_def styled_def)

lemma bracketed_ok: "bracketed E t0 s \<Longrightarrow> storage_ok E s"
  by (simp add: bracketed_def)

lemma styled_modify:
  assumes "styled s' = modify g r (styled s)" and "NSMaxRange r \<le> textLength s"
  shows "textChars s' = textChars s"
    and "i < textLength s \<Longrightarrow> snd (styled s' ! i) =
      (if NSLocationInRange i r then g (snd (styled s ! i)) else snd (styled s ! i))"
proof -
  have r: "NSMaxRange r \<le> length (styled s)" using assms(2) by simp
  show "textChars s' = textChars s"
    using modify_fst[OF r, of g] unfolding assms(1) [symmetric] styled_fst .
  show "snd (styled s' ! i) = (if NSLocationInRange i r then g (snd (styled s ! i)) else snd (styled s ! i))"
    if "i < textLength s"
    unfolding assms(1) using modify_nth[OF r, of i g] that by simp
qed

subsection \<open>Paragraph styles\<close>

fun style_or :: "('b, 'l) para_style \<Rightarrow> ('f, 'b, 'l) attr_value option \<Rightarrow> ('b, 'l) para_style" where
  "style_or dflt (Some (Style p)) = p"
| "style_or dflt v = dflt"

lemma changeStyle_well:
  assumes "\<And>p. f (f p) = f p" and "case v of None \<Rightarrow> True | Some (Style p) \<Rightarrow> True | _ \<Rightarrow> False"
  shows "well_changed (changeStyle dflt f) v"
    and "changeStyle dflt f v = Inr (Some (Style (f (style_or dflt v))))"
  using assms by (auto simp: well_changed_def changeStyle_def split: option.splits attr_value.splits)

lemma change_styles:
  assumes s: "bracketed E t0 s" and styles: "styles_only (styled s)" and r: "NSMaxRange r \<le> textLength s"
    and idem: "\<And>p. f (f p) = f p"
  shows "\<exists>s'. changeRuns (storage_text cl) NSParagraphStyleAttributeName (changeStyle dflt f) r (location r) s =
      Some (Inr s') \<and> bracketed E t0 s' \<and> textChars s' = textChars s \<and>
    (\<forall>i<textLength s. snd (styled s' ! i) =
       (if NSLocationInRange i r
        then (snd (styled s ! i))(NSParagraphStyleAttributeName \<mapsto>
               Style (f (style_or dflt (snd (styled s ! i) NSParagraphStyleAttributeName))))
        else snd (styled s ! i)))"
proof -
  let ?k = NSParagraphStyleAttributeName
  have style: "case snd (styled s ! j) ?k of None \<Rightarrow> True | Some (Style p) \<Rightarrow> True | _ \<Rightarrow> False"
    if "j < textLength s" for j
    using styles that unfolding styles_only_def by (simp only: styled_length)
  have inr: "j < textLength s" if "NSLocationInRange j r" for j
    using that r by (simp add: NSLocationInRange_def)
  obtain s' where s': "changeRuns (storage_text cl) ?k (changeStyle dflt f) r (location r) s = Some (Inr s')"
      "bracketed E t0 s'" "styled s' = modify (change_attrs ?k (changeStyle dflt f)) r (styled s)"
    using storage.changeRuns_all[OF s, of r "changeStyle dflt f" ?k cl]
      changeStyle_well(1)[OF idem style[OF inr]] r by auto
  moreover have "change_attrs ?k (changeStyle dflt f) (snd (styled s ! i)) =
      (snd (styled s ! i))(?k \<mapsto> Style (f (style_or dflt (snd (styled s ! i) ?k))))"
    if "i < textLength s" for i
    using changeStyle_well(2)[where f = f and dflt = dflt, OF idem style[OF that]]
    by (simp add: change_attrs_def)
  ultimately show ?thesis
    using styled_modify[OF s'(3) r] by (intro exI[of _ s'] conjI allI impI) (simp_all only:)
qed

text \<open>Setting the alignment of a range inside a bracket of edits succeeds and gives exactly the
  characters of the range the new alignment, in their own paragraph style or in the default one when
  they have none; every other attribute and every character stays, and the storage stays well formed.
  A range that leaves the text raises and changes nothing.\<close>

lemma text_set_alignment:
  fixes s :: "('m, ('f, 'b, 'l) attr_value) text_storage"
  assumes "storage_ok E s" and "editCount s \<noteq> 0" and "editedMask s = 0" and "editedDelta s = 0"
    and "textLength s < 2 ^ 31" and "styles_only (styled s)"
  shows "(NSMaxRange r \<le> textLength s \<longrightarrow>
      (\<exists>s'. setAlignment (storage_text cl) dflt a r s = Some (Inr s') \<and> storage_ok E s' \<and>
         textChars s' = textChars s \<and>
         (\<forall>i<textLength s. snd (styled s' ! i) =
            (if NSLocationInRange i r
             then (snd (styled s ! i))(NSParagraphStyleAttributeName \<mapsto>
                    Style ((style_or dflt (snd (styled s ! i) NSParagraphStyleAttributeName))\<lparr>alignment := a\<rparr>))
             else snd (styled s ! i))))) \<and>
    (textLength s < NSMaxRange r \<longrightarrow>
       setAlignment (storage_text cl) dflt a r s = Some (Inl (NSRangeException, s)))"
proof -
  note s = bracketed_start[OF assms(1-5)]
  show ?thesis
    using change_styles[OF s assms(6), of r "\<lambda>p. p\<lparr>alignment := a\<rparr>" cl dflt]
    using bracketed_ok by (fastforce simp: setAlignment_def textLength_def)
qed

lemma text_set_alignment_example:
  "\<exists>s'. setAlignment (storage_text idle_clients) \<lparr>alignment = 4, writingDirection = 0, textBlocks = [], textLists = []\<rparr>
      2 (NSMakeRange 1 1)
      (beginEditing (plain [104, 105] Map.empty Map.empty) :: (unit, (nat, nat, nat) attr_value) text_storage) =
      Some (Inr s') \<and>
    snd (styled s' ! 1) NSParagraphStyleAttributeName =
      Some (Style \<lparr>alignment = 2, writingDirection = 0, textBlocks = [], textLists = []\<rparr>) \<and>
    snd (styled s' ! 0) = Map.empty"
proof -
  let ?s = "beginEditing (plain [104, 105] Map.empty Map.empty) :: (unit, (nat, nat, nat) attr_value) text_storage"
  have "textLength ?s < 2 ^ 31" "styles_only (styled ?s)"
    by (simp_all add: begun_plain styles_only_def nth_Cons split: nat.splits)
  from text_set_alignment[OF begun_plain(1-4) this, of "NSMakeRange 1 1" idle_clients
      "\<lparr>alignment = 4, writingDirection = 0, textBlocks = [], textLists = []\<rparr>" 2]
  show ?thesis
    by (fastforce simp: begun_plain NSLocationInRange_def All_less_Suc numeral_2_eq_2)
qed

subsection \<open>Extents\<close>

text \<open>The range answered for a text block at an index holds the index, all its paragraphs are in
  the block, and it cannot be extended on either side; no range is answered when the index is not in
  the block. The search over the runs always ends.\<close>

lemma text_block_extent:
  fixes s :: "('m, ('f, 'b, 'l) attr_value) text_storage"
  assumes "storage_ok E s" and "editCount s \<noteq> 0" and "editedMask s = 0" and "editedDelta s = 0"
    and "textLength s < 2 ^ 31" and "styles_only (styled s)" and "i < textLength s"
  shows "\<exists>q. rangeOfTextBlock (storage_text cl) block i s = Some (Inr q) \<and>
    (case q of
       None \<Rightarrow> \<not> style_test (\<lambda>p. block \<in> set (textBlocks p)) (styled s) i
     | Some q \<Rightarrow> run_around (style_test (\<lambda>p. block \<in> set (textBlocks p)) (styled s)) (textLength s) i q)"
  using storage.rangeOfStyle_spec[OF bracketed_start[OF assms(1-5)] assms(6), of i cl
      "\<lambda>p. block \<in> set (textBlocks p)"] assms(7)
  unfolding styled_length rangeOfTextBlock_def by blast

lemma text_block_extent_example:
  "\<exists>q. rangeOfTextBlock (storage_text idle_clients) (7::nat) 1
      (beginEditing (plain [104, 105] [NSParagraphStyleAttributeName \<mapsto>
         Style \<lparr>alignment = 4, writingDirection = 0, textBlocks = [7], textLists = []\<rparr>] Map.empty)
       :: (unit, (nat, nat, nat) attr_value) text_storage) = Some (Inr (Some q)) \<and>
    NSLocationInRange 1 q"
proof -
  let ?d = "[NSParagraphStyleAttributeName \<mapsto>
         Style \<lparr>alignment = 4, writingDirection = 0, textBlocks = [7], textLists = []\<rparr>]
       :: (nat, nat, nat) attr_value attrs"
  let ?s = "beginEditing (plain [104, 105] ?d Map.empty) :: (unit, (nat, nat, nat) attr_value) text_storage"
  have 1: "textLength ?s < 2 ^ 31" "styles_only (styled ?s)" "1 < textLength ?s"
    by (simp_all add: begun_plain styles_only_def nth_Cons split: nat.splits)
  have "style_test (\<lambda>p. 7 \<in> set (textBlocks p)) (styled ?s) 1"
    by (simp add: begun_plain style_test_def)
  then show ?thesis
    using text_block_extent[OF begun_plain(1-4) 1, of idle_clients 7]
    by (auto simp: run_around_def split: option.splits)
qed

subsection \<open>Super- and subscript\<close>

text \<open>Superscripting a range inside a bracket raises the level of its first character by one (a
  text without level counts as 0) and gives all characters of the range that level, wrapped to
  32 bits; a range that leaves the text raises an exception and changes nothing.\<close>

lemma text_superscript:
  fixes s :: "('m, ('f, 'b, 'l) attr_value) text_storage"
  assumes "storage_ok E s" and "editCount s \<noteq> 0" and "editedMask s = 0" and "editedDelta s = 0"
    and "textLength s < 2 ^ 31" and "location r < NSMaxRange r"
    and "case snd (styled s ! location r) NSSuperscriptAttributeName of
           None \<Rightarrow> level = 0 | Some v \<Rightarrow> v = Number level"
    and "s32 (level + 1) = n"
  shows "(NSMaxRange r \<le> textLength s \<longrightarrow>
      (\<exists>s'. superscriptRange (storage_text cl) r s = Some (Inr s') \<and> storage_ok E s' \<and>
         textChars s' = textChars s \<and>
         (\<forall>i<textLength s. snd (styled s' ! i) =
            (if NSLocationInRange i r
             then (snd (styled s ! i))(NSSuperscriptAttributeName \<mapsto> Number n)
             else snd (styled s ! i))))) \<and>
    (textLength s < NSMaxRange r \<longrightarrow>
       superscriptRange (storage_text cl) r s = Some (Inl (NSRangeException, s)))"
proof -
  note s = bracketed_start[OF assms(1-5)]
  let ?k = NSSuperscriptAttributeName
  have "\<exists>s'. superscriptRange (storage_text cl) r s = Some (Inr s') \<and> bracketed E (textChars s) s' \<and>
      styled s' = modify (\<lambda>d. d(?k \<mapsto> Number n)) r (styled s)"
    if r: "NSMaxRange r \<le> textLength s"
  proof -
    have "location r < length (styled s)" using r assms(6) by simp
    from storage.attribute_content[OF s this, of cl ?k] obtain q where
      q: "attributeAt (storage_text cl) ?k (location r) s = Some (Inr (snd (styled s ! location r) ?k, q))"
      by blast
    have new: "(case snd (styled s ! location r) ?k of None \<Rightarrow> Inr 1
        | Some v \<Rightarrow> map_sum id (\<lambda>n. s32 (n + 1)) (intValue v)) = Inr n"
      using assms(7,8) by (cases "snd (styled s ! location r) ?k") (auto simp: s32_def)
    show ?thesis
      using storage.add_content[OF s, of r cl ?k "Number n"] r q new
      by (simp add: superscriptRange_def scriptRange_def textLength_def del: storage_text_sel(3,4))
  qed
  moreover have "superscriptRange (storage_text cl) r s = Some (Inl (NSRangeException, s))"
    if "textLength s < NSMaxRange r"
    using that by (simp add: superscriptRange_def scriptRange_def textLength_def)
  ultimately show ?thesis
    using styled_modify bracketed_ok by (metis (no_types, lifting))
qed

lemma text_superscript_example:
  "\<exists>s'. superscriptRange (storage_text idle_clients) (NSMakeRange 0 1)
      (beginEditing (plain [104, 105] [NSSuperscriptAttributeName \<mapsto> Number 2] Map.empty)
       :: (unit, (nat, nat, nat) attr_value) text_storage) = Some (Inr s') \<and>
    snd (styled s' ! 0) NSSuperscriptAttributeName = Some (Number 3) \<and>
    snd (styled s' ! 1) NSSuperscriptAttributeName = Some (Number 2)"
proof -
  let ?d = "[NSSuperscriptAttributeName \<mapsto> Number 2] :: (nat, nat, nat) attr_value attrs"
  let ?s = "beginEditing (plain [104, 105] ?d Map.empty) :: (unit, (nat, nat, nat) attr_value) text_storage"
  have 1: "textLength ?s < 2 ^ 31" "location (NSMakeRange 0 1) < NSMaxRange (NSMakeRange 0 1)"
    "case snd (styled ?s ! location (NSMakeRange 0 1)) NSSuperscriptAttributeName of
       None \<Rightarrow> (2::int) = 0 | Some v \<Rightarrow> v = Number 2" "s32 (2 + 1) = 3"
    by (simp_all add: begun_plain s32_def)
  show ?thesis
    using text_superscript[OF begun_plain(1-4) 1, of idle_clients]
    by (auto simp: begun_plain NSLocationInRange_def All_less_Suc numeral_2_eq_2)
qed

end
