(* ===== verification/GraphicsTable.thy ===== *)
theory GraphicsTable
  imports Prelude
begin

text \<open>
  The signatures around the drawing operators: the method table of graphics contexts
  (\<open>Headers/Additions/GNUstepGUI/GSMethodTable.h\<close>), the selectors the table is filled with
  (\<open>Source/NSGraphicsContext.m\<close>), the methods contexts declare
  (\<open>Headers/AppKit/NSGraphicsContext.h\<close>), and the prototypes of the functions of
  \<open>Headers/AppKit/DPSOperators.h\<close> and \<open>Headers/AppKit/PSOperators.h\<close>. Each list has the entries of one
  section of its file, in the order of the file; the behaviour is in \<open>GraphicsOps\<close>.
\<close>

subsection \<open>C types\<close>

datatype ctype =
    void_t | char_t | uchar_t | short_t | int_t | unsigned_t | size_t | va_list
  | CGFloat | NSInteger | BOOL | NSPoint | NSSize | NSRect | NSGlyph
  | GSTextDrawingMode | NSCompositingOperation
  | Object string | Ptr ctype | Const ctype | Array5 ctype | Variadic

text \<open>A member of the table with the types of its arguments behind receiver and selector, and its result.\<close>

type_synonym slot = "string \<times> ctype list \<times> ctype"
type_synonym prototype = "string \<times> (ctype \<times> string) list \<times> ctype"

subsection \<open>The method table\<close>

definition slots_color :: "slot list" where
  "slots_color = [
     (''DPScurrentalpha_'', [Ptr CGFloat], void_t),
     (''DPScurrentcmykcolor____'', [Ptr CGFloat, Ptr CGFloat, Ptr CGFloat, Ptr CGFloat], void_t),
     (''DPScurrentgray_'', [Ptr CGFloat], void_t),
     (''DPScurrenthsbcolor___'', [Ptr CGFloat, Ptr CGFloat, Ptr CGFloat], void_t),
     (''DPScurrentrgbcolor___'', [Ptr CGFloat, Ptr CGFloat, Ptr CGFloat], void_t),
     (''DPSsetalpha_'', [CGFloat], void_t),
     (''DPSsetcmykcolor____'', [CGFloat, CGFloat, CGFloat, CGFloat], void_t),
     (''DPSsetgray_'', [CGFloat], void_t),
     (''DPSsethsbcolor___'', [CGFloat, CGFloat, CGFloat], void_t),
     (''DPSsetrgbcolor___'', [CGFloat, CGFloat, CGFloat], void_t),
     (''GSSetFillColorspace_'', [Ptr (Object ''NSDictionary'')], void_t),
     (''GSSetStrokeColorspace_'', [Ptr (Object ''NSDictionary'')], void_t),
     (''GSSetFillColor_'', [Ptr CGFloat], void_t),
     (''GSSetStrokeColor_'', [Ptr CGFloat], void_t)]"

definition slots_text :: "slot list" where
  "slots_text = [
     (''DPSashow___'', [CGFloat, CGFloat, Ptr (Const char_t)], void_t),
     (''DPSawidthshow______'', [CGFloat, CGFloat, int_t, CGFloat, CGFloat, Ptr (Const char_t)], void_t),
     (''DPScharpath__'', [Ptr (Const char_t), int_t], void_t),
     (''DPSshow_'', [Ptr (Const char_t)], void_t),
     (''DPSwidthshow____'', [CGFloat, CGFloat, int_t, Ptr (Const char_t)], void_t),
     (''DPSxshow___'', [Ptr (Const char_t), Ptr (Const CGFloat), int_t], void_t),
     (''DPSxyshow___'', [Ptr (Const char_t), Ptr (Const CGFloat), int_t], void_t),
     (''DPSyshow___'', [Ptr (Const char_t), Ptr (Const CGFloat), int_t], void_t),
     (''GSSetCharacterSpacing_'', [CGFloat], void_t),
     (''GSSetFont_'', [Ptr (Object ''NSFont'')], void_t),
     (''GSSetFontSize_'', [CGFloat], void_t),
     (''GSGetTextCTM'', [], Ptr (Object ''NSAffineTransform'')),
     (''GSGetTextPosition'', [], NSPoint),
     (''GSSetTextCTM_'', [Ptr (Object ''NSAffineTransform'')], void_t),
     (''GSSetTextDrawingMode_'', [GSTextDrawingMode], void_t),
     (''GSSetTextPosition_'', [NSPoint], void_t),
     (''GSShowText__'', [Ptr (Const char_t), size_t], void_t),
     (''GSShowGlyphs__'', [Ptr (Const NSGlyph), size_t], void_t),
     (''GSShowGlyphsWithAdvances___'', [Ptr (Const NSGlyph), Ptr (Const NSSize), size_t], void_t)]"

definition slots_gstate :: "slot list" where
  "slots_gstate = [
     (''DPSgrestore'', [], void_t),
     (''DPSgsave'', [], void_t),
     (''DPSinitgraphics'', [], void_t),
     (''DPSsetgstate_'', [NSInteger], void_t),
     (''GSDefineGState'', [], NSInteger),
     (''GSUndefineGState_'', [NSInteger], void_t),
     (''GSReplaceGState_'', [NSInteger], void_t)]"

definition slots_gsops :: "slot list" where
  "slots_gsops = [
     (''DPScurrentflat_'', [Ptr CGFloat], void_t),
     (''DPScurrentlinecap_'', [Ptr int_t], void_t),
     (''DPScurrentlinejoin_'', [Ptr int_t], void_t),
     (''DPScurrentlinewidth_'', [Ptr CGFloat], void_t),
     (''DPScurrentmiterlimit_'', [Ptr CGFloat], void_t),
     (''DPScurrentpoint__'', [Ptr CGFloat, Ptr CGFloat], void_t),
     (''DPScurrentstrokeadjust_'', [Ptr int_t], void_t),
     (''DPSsetdash___'', [Ptr (Const CGFloat), NSInteger, CGFloat], void_t),
     (''DPSsetflat_'', [CGFloat], void_t),
     (''DPSsethalftonephase__'', [CGFloat, CGFloat], void_t),
     (''DPSsetlinecap_'', [int_t], void_t),
     (''DPSsetlinejoin_'', [int_t], void_t),
     (''DPSsetlinewidth_'', [CGFloat], void_t),
     (''DPSsetmiterlimit_'', [CGFloat], void_t),
     (''DPSsetstrokeadjust_'', [int_t], void_t)]"

definition slots_matrix :: "slot list" where
  "slots_matrix = [
     (''DPSconcat_'', [Ptr (Const CGFloat)], void_t),
     (''DPSinitmatrix'', [], void_t),
     (''DPSrotate_'', [CGFloat], void_t),
     (''DPSscale__'', [CGFloat, CGFloat], void_t),
     (''DPStranslate__'', [CGFloat, CGFloat], void_t),
     (''GSCurrentCTM'', [], Ptr (Object ''NSAffineTransform'')),
     (''GSSetCTM_'', [Ptr (Object ''NSAffineTransform'')], void_t),
     (''GSConcatCTM_'', [Ptr (Object ''NSAffineTransform'')], void_t)]"

definition slots_paint :: "slot list" where
  "slots_paint = [
     (''DPSarc_____'', [CGFloat, CGFloat, CGFloat, CGFloat, CGFloat], void_t),
     (''DPSarcn_____'', [CGFloat, CGFloat, CGFloat, CGFloat, CGFloat], void_t),
     (''DPSarct_____'', [CGFloat, CGFloat, CGFloat, CGFloat, CGFloat], void_t),
     (''DPSclip'', [], void_t),
     (''DPSclosepath'', [], void_t),
     (''DPScurveto______'', [CGFloat, CGFloat, CGFloat, CGFloat, CGFloat, CGFloat], void_t),
     (''DPSeoclip'', [], void_t),
     (''DPSeofill'', [], void_t),
     (''DPSfill'', [], void_t),
     (''DPSflattenpath'', [], void_t),
     (''DPSinitclip'', [], void_t),
     (''DPSlineto__'', [CGFloat, CGFloat], void_t),
     (''DPSmoveto__'', [CGFloat, CGFloat], void_t),
     (''DPSnewpath'', [], void_t),
     (''DPSpathbbox____'', [Ptr CGFloat, Ptr CGFloat, Ptr CGFloat, Ptr CGFloat], void_t),
     (''DPSrcurveto______'', [CGFloat, CGFloat, CGFloat, CGFloat, CGFloat, CGFloat], void_t),
     (''DPSrectclip____'', [CGFloat, CGFloat, CGFloat, CGFloat], void_t),
     (''DPSrectfill____'', [CGFloat, CGFloat, CGFloat, CGFloat], void_t),
     (''DPSrectstroke____'', [CGFloat, CGFloat, CGFloat, CGFloat], void_t),
     (''DPSreversepath'', [], void_t),
     (''DPSrlineto__'', [CGFloat, CGFloat], void_t),
     (''DPSrmoveto__'', [CGFloat, CGFloat], void_t),
     (''DPSstroke'', [], void_t),
     (''GSSendBezierPath_'', [Ptr (Object ''NSBezierPath'')], void_t),
     (''GSRectClipList__'', [Ptr (Const NSRect), int_t], void_t),
     (''GSRectFillList__'', [Ptr (Const NSRect), int_t], void_t)]"

definition slots_window :: "slot list" where
  "slots_window = [
     (''GSCurrentDevice___'', [Ptr (Ptr void_t), Ptr int_t, Ptr int_t], void_t),
     (''DPScurrentoffset__'', [Ptr int_t, Ptr int_t], void_t),
     (''GSSetDevice___'', [Ptr void_t, int_t, int_t], void_t),
     (''DPSsetoffset__'', [short_t, short_t], void_t)]"

definition slots_ext :: "slot list" where
  "slots_ext = [
     (''DPScomposite________'', [CGFloat, CGFloat, CGFloat, CGFloat, NSInteger, CGFloat, CGFloat, NSCompositingOperation], void_t),
     (''DPScompositerect_____'', [CGFloat, CGFloat, CGFloat, CGFloat, NSCompositingOperation], void_t),
     (''DPSdissolve________'', [CGFloat, CGFloat, CGFloat, CGFloat, NSInteger, CGFloat, CGFloat, CGFloat], void_t),
     (''GSDrawImage__'', [NSRect, Ptr void_t], void_t)]"

definition slots_client :: "slot list" where
  "slots_client = [
     (''DPSPrintf__'', [Ptr (Const char_t), va_list], void_t),
     (''DPSWriteData__'', [Ptr (Const char_t), unsigned_t], void_t)]"

definition slots_nsg :: "slot list" where
  "slots_nsg = [
     (''GSReadRect_'', [NSRect], Ptr (Object ''NSDictionary'')),
     (''NSBeep'', [], void_t),
     (''GSWSetViewIsFlipped_'', [BOOL], void_t),
     (''GSWViewIsFlipped'', [], BOOL),
     (''NSDrawBitmap___________'', [NSRect, NSInteger, NSInteger, NSInteger, NSInteger, NSInteger, NSInteger, BOOL, BOOL, Ptr (Object ''NSString''), Array5 (Const (Ptr (Const uchar_t)))], void_t),
     (''DPSshfill_'', [Ptr (Object ''NSDictionary'')], void_t)]"

definition gsMethodTable :: "slot list" where
  "gsMethodTable = slots_color @ slots_text @ slots_gstate @ slots_gsops @ slots_matrix @
     slots_paint @ slots_window @ slots_ext @ slots_client @ slots_nsg"

subsection \<open>Filling the table\<close>

definition init_color :: "(string \<times> string) list" where
  "init_color = [
     (''DPScurrentalpha_'', ''DPScurrentalpha:''),
     (''DPScurrentcmykcolor____'', ''DPScurrentcmykcolor::::''),
     (''DPScurrentgray_'', ''DPScurrentgray:''),
     (''DPScurrenthsbcolor___'', ''DPScurrenthsbcolor:::''),
     (''DPScurrentrgbcolor___'', ''DPScurrentrgbcolor:::''),
     (''DPSsetalpha_'', ''DPSsetalpha:''),
     (''DPSsetcmykcolor____'', ''DPSsetcmykcolor::::''),
     (''DPSsetgray_'', ''DPSsetgray:''),
     (''DPSsethsbcolor___'', ''DPSsethsbcolor:::''),
     (''DPSsetrgbcolor___'', ''DPSsetrgbcolor:::''),
     (''GSSetFillColorspace_'', ''GSSetFillColorspace:''),
     (''GSSetStrokeColorspace_'', ''GSSetStrokeColorspace:''),
     (''GSSetFillColor_'', ''GSSetFillColor:''),
     (''GSSetStrokeColor_'', ''GSSetStrokeColor:'')]"

definition init_text :: "(string \<times> string) list" where
  "init_text = [
     (''DPSashow___'', ''DPSashow:::''),
     (''DPSawidthshow______'', ''DPSawidthshow::::::''),
     (''DPScharpath__'', ''DPScharpath::''),
     (''DPSshow_'', ''DPSshow:''),
     (''DPSwidthshow____'', ''DPSwidthshow::::''),
     (''DPSxshow___'', ''DPSxshow:::''),
     (''DPSxyshow___'', ''DPSxyshow:::''),
     (''DPSyshow___'', ''DPSyshow:::''),
     (''GSSetCharacterSpacing_'', ''GSSetCharacterSpacing:''),
     (''GSSetFont_'', ''GSSetFont:''),
     (''GSSetFontSize_'', ''GSSetFontSize:''),
     (''GSGetTextCTM'', ''GSGetTextCTM''),
     (''GSGetTextPosition'', ''GSGetTextPosition''),
     (''GSSetTextCTM_'', ''GSSetTextCTM:''),
     (''GSSetTextDrawingMode_'', ''GSSetTextDrawingMode:''),
     (''GSSetTextPosition_'', ''GSSetTextPosition:''),
     (''GSShowText__'', ''GSShowText::''),
     (''GSShowGlyphs__'', ''GSShowGlyphs::''),
     (''GSShowGlyphsWithAdvances___'', ''GSShowGlyphsWithAdvances:::'')]"

definition init_gstate :: "(string \<times> string) list" where
  "init_gstate = [
     (''DPSgrestore'', ''DPSgrestore''),
     (''DPSgsave'', ''DPSgsave''),
     (''DPSinitgraphics'', ''DPSinitgraphics''),
     (''DPSsetgstate_'', ''DPSsetgstate:''),
     (''GSDefineGState'', ''GSDefineGState''),
     (''GSUndefineGState_'', ''GSUndefineGState:''),
     (''GSReplaceGState_'', ''GSReplaceGState:'')]"

definition init_gsops :: "(string \<times> string) list" where
  "init_gsops = [
     (''DPScurrentflat_'', ''DPScurrentflat:''),
     (''DPScurrentlinecap_'', ''DPScurrentlinecap:''),
     (''DPScurrentlinejoin_'', ''DPScurrentlinejoin:''),
     (''DPScurrentlinewidth_'', ''DPScurrentlinewidth:''),
     (''DPScurrentmiterlimit_'', ''DPScurrentmiterlimit:''),
     (''DPScurrentpoint__'', ''DPScurrentpoint::''),
     (''DPScurrentstrokeadjust_'', ''DPScurrentstrokeadjust:''),
     (''DPSsetdash___'', ''DPSsetdash:::''),
     (''DPSsetflat_'', ''DPSsetflat:''),
     (''DPSsethalftonephase__'', ''DPSsethalftonephase::''),
     (''DPSsetlinecap_'', ''DPSsetlinecap:''),
     (''DPSsetlinejoin_'', ''DPSsetlinejoin:''),
     (''DPSsetlinewidth_'', ''DPSsetlinewidth:''),
     (''DPSsetmiterlimit_'', ''DPSsetmiterlimit:''),
     (''DPSsetstrokeadjust_'', ''DPSsetstrokeadjust:'')]"

definition init_matrix :: "(string \<times> string) list" where
  "init_matrix = [
     (''DPSconcat_'', ''DPSconcat:''),
     (''DPSinitmatrix'', ''DPSinitmatrix''),
     (''DPSrotate_'', ''DPSrotate:''),
     (''DPSscale__'', ''DPSscale::''),
     (''DPStranslate__'', ''DPStranslate::''),
     (''GSCurrentCTM'', ''GSCurrentCTM''),
     (''GSSetCTM_'', ''GSSetCTM:''),
     (''GSConcatCTM_'', ''GSConcatCTM:'')]"

definition init_paint :: "(string \<times> string) list" where
  "init_paint = [
     (''DPSarc_____'', ''DPSarc:::::''),
     (''DPSarcn_____'', ''DPSarcn:::::''),
     (''DPSarct_____'', ''DPSarct:::::''),
     (''DPSclip'', ''DPSclip''),
     (''DPSclosepath'', ''DPSclosepath''),
     (''DPScurveto______'', ''DPScurveto::::::''),
     (''DPSeoclip'', ''DPSeoclip''),
     (''DPSeofill'', ''DPSeofill''),
     (''DPSfill'', ''DPSfill''),
     (''DPSflattenpath'', ''DPSflattenpath''),
     (''DPSinitclip'', ''DPSinitclip''),
     (''DPSlineto__'', ''DPSlineto::''),
     (''DPSmoveto__'', ''DPSmoveto::''),
     (''DPSnewpath'', ''DPSnewpath''),
     (''DPSpathbbox____'', ''DPSpathbbox::::''),
     (''DPSrcurveto______'', ''DPSrcurveto::::::''),
     (''DPSrectclip____'', ''DPSrectclip::::''),
     (''DPSrectfill____'', ''DPSrectfill::::''),
     (''DPSrectstroke____'', ''DPSrectstroke::::''),
     (''DPSreversepath'', ''DPSreversepath''),
     (''DPSrlineto__'', ''DPSrlineto::''),
     (''DPSrmoveto__'', ''DPSrmoveto::''),
     (''DPSstroke'', ''DPSstroke''),
     (''DPSshfill_'', ''DPSshfill:''),
     (''GSSendBezierPath_'', ''GSSendBezierPath:''),
     (''GSRectClipList__'', ''GSRectClipList::''),
     (''GSRectFillList__'', ''GSRectFillList::'')]"

definition init_window :: "(string \<times> string) list" where
  "init_window = [
     (''GSCurrentDevice___'', ''GSCurrentDevice:::''),
     (''DPScurrentoffset__'', ''DPScurrentoffset::''),
     (''GSSetDevice___'', ''GSSetDevice:::''),
     (''DPSsetoffset__'', ''DPSsetoffset::'')]"

definition init_ext :: "(string \<times> string) list" where
  "init_ext = [
     (''DPScomposite________'', ''DPScomposite::::::::''),
     (''DPScompositerect_____'', ''DPScompositerect:::::''),
     (''DPSdissolve________'', ''DPSdissolve::::::::''),
     (''GSDrawImage__'', ''GSDrawImage::'')]"

definition init_client :: "(string \<times> string) list" where
  "init_client = [
     (''DPSPrintf__'', ''DPSPrintf::''),
     (''DPSWriteData__'', ''DPSWriteData::'')]"

definition init_nsg :: "(string \<times> string) list" where
  "init_nsg = [
     (''GSReadRect_'', ''GSReadRect:''),
     (''NSBeep'', ''NSBeep''),
     (''GSWSetViewIsFlipped_'', ''GSWSetViewIsFlipped:''),
     (''GSWViewIsFlipped'', ''GSWViewIsFlipped''),
     (''NSDrawBitmap___________'', ''NSDrawBitmap:::::::::::'')]"

definition init_table :: "(string \<times> string) list" where
  "init_table = init_color @ init_text @ init_gstate @ init_gsops @ init_matrix @
     init_paint @ init_window @ init_ext @ init_client @ init_nsg"

subsection \<open>The methods of a context\<close>

definition ops_color :: "slot list" where
  "ops_color = [
     (''DPScurrentalpha:'', [Ptr CGFloat], void_t),
     (''DPScurrentcmykcolor::::'', [Ptr CGFloat, Ptr CGFloat, Ptr CGFloat, Ptr CGFloat], void_t),
     (''DPScurrentgray:'', [Ptr CGFloat], void_t),
     (''DPScurrenthsbcolor:::'', [Ptr CGFloat, Ptr CGFloat, Ptr CGFloat], void_t),
     (''DPScurrentrgbcolor:::'', [Ptr CGFloat, Ptr CGFloat, Ptr CGFloat], void_t),
     (''DPSsetalpha:'', [CGFloat], void_t),
     (''DPSsetcmykcolor::::'', [CGFloat, CGFloat, CGFloat, CGFloat], void_t),
     (''DPSsetgray:'', [CGFloat], void_t),
     (''DPSsethsbcolor:::'', [CGFloat, CGFloat, CGFloat], void_t),
     (''DPSsetrgbcolor:::'', [CGFloat, CGFloat, CGFloat], void_t),
     (''GSSetPatterColor:'', [Ptr (Object ''NSImage'')], void_t),
     (''GSSetFillColorspace:'', [Ptr void_t], void_t),
     (''GSSetStrokeColorspace:'', [Ptr void_t], void_t),
     (''GSSetFillColor:'', [Ptr (Const CGFloat)], void_t),
     (''GSSetStrokeColor:'', [Ptr (Const CGFloat)], void_t)]"

definition ops_text :: "slot list" where
  "ops_text = [
     (''DPSashow:::'', [CGFloat, CGFloat, Ptr (Const char_t)], void_t),
     (''DPSawidthshow::::::'', [CGFloat, CGFloat, int_t, CGFloat, CGFloat, Ptr (Const char_t)], void_t),
     (''DPScharpath::'', [Ptr (Const char_t), int_t], void_t),
     (''appendBezierPathWithPackedGlyphs:path:'', [Ptr (Const char_t), Ptr (Object ''NSBezierPath'')], void_t),
     (''DPSshow:'', [Ptr (Const char_t)], void_t),
     (''DPSwidthshow::::'', [CGFloat, CGFloat, int_t, Ptr (Const char_t)], void_t),
     (''DPSxshow:::'', [Ptr (Const char_t), Ptr (Const CGFloat), int_t], void_t),
     (''DPSxyshow:::'', [Ptr (Const char_t), Ptr (Const CGFloat), int_t], void_t),
     (''DPSyshow:::'', [Ptr (Const char_t), Ptr (Const CGFloat), int_t], void_t),
     (''GSSetCharacterSpacing:'', [CGFloat], void_t),
     (''GSSetFont:'', [Ptr void_t], void_t),
     (''GSSetFontSize:'', [CGFloat], void_t),
     (''GSGetTextCTM'', [], Ptr (Object ''NSAffineTransform'')),
     (''GSGetTextPosition'', [], NSPoint),
     (''GSSetTextCTM:'', [Ptr (Object ''NSAffineTransform'')], void_t),
     (''GSSetTextDrawingMode:'', [GSTextDrawingMode], void_t),
     (''GSSetTextPosition:'', [NSPoint], void_t),
     (''GSShowText::'', [Ptr (Const char_t), size_t], void_t),
     (''GSShowGlyphs::'', [Ptr (Const NSGlyph), size_t], void_t),
     (''GSShowGlyphsWithAdvances:::'', [Ptr (Const NSGlyph), Ptr (Const NSSize), size_t], void_t)]"

definition ops_gstate :: "slot list" where
  "ops_gstate = [
     (''DPSgrestore'', [], void_t),
     (''DPSgsave'', [], void_t),
     (''DPSinitgraphics'', [], void_t),
     (''DPSsetgstate:'', [NSInteger], void_t),
     (''GSDefineGState'', [], NSInteger),
     (''GSUndefineGState:'', [NSInteger], void_t),
     (''GSReplaceGState:'', [NSInteger], void_t)]"

definition ops_gsops :: "slot list" where
  "ops_gsops = [
     (''DPScurrentflat:'', [Ptr CGFloat], void_t),
     (''DPScurrentlinecap:'', [Ptr int_t], void_t),
     (''DPScurrentlinejoin:'', [Ptr int_t], void_t),
     (''DPScurrentlinewidth:'', [Ptr CGFloat], void_t),
     (''DPScurrentmiterlimit:'', [Ptr CGFloat], void_t),
     (''DPScurrentpoint::'', [Ptr CGFloat, Ptr CGFloat], void_t),
     (''DPScurrentstrokeadjust:'', [Ptr int_t], void_t),
     (''DPSsetdash:::'', [Ptr (Const CGFloat), NSInteger, CGFloat], void_t),
     (''DPSsetflat:'', [CGFloat], void_t),
     (''DPSsethalftonephase::'', [CGFloat, CGFloat], void_t),
     (''DPSsetlinecap:'', [int_t], void_t),
     (''DPSsetlinejoin:'', [int_t], void_t),
     (''DPSsetlinewidth:'', [CGFloat], void_t),
     (''DPSsetmiterlimit:'', [CGFloat], void_t),
     (''DPSsetstrokeadjust:'', [int_t], void_t)]"

definition ops_matrix :: "slot list" where
  "ops_matrix = [
     (''DPSconcat:'', [Ptr (Const CGFloat)], void_t),
     (''DPSinitmatrix'', [], void_t),
     (''DPSrotate:'', [CGFloat], void_t),
     (''DPSscale::'', [CGFloat, CGFloat], void_t),
     (''DPStranslate::'', [CGFloat, CGFloat], void_t),
     (''GSCurrentCTM'', [], Ptr (Object ''NSAffineTransform'')),
     (''GSSetCTM:'', [Ptr (Object ''NSAffineTransform'')], void_t),
     (''GSConcatCTM:'', [Ptr (Object ''NSAffineTransform'')], void_t)]"

definition ops_paint :: "slot list" where
  "ops_paint = [
     (''DPSarc:::::'', [CGFloat, CGFloat, CGFloat, CGFloat, CGFloat], void_t),
     (''DPSarcn:::::'', [CGFloat, CGFloat, CGFloat, CGFloat, CGFloat], void_t),
     (''DPSarct:::::'', [CGFloat, CGFloat, CGFloat, CGFloat, CGFloat], void_t),
     (''DPSclip'', [], void_t),
     (''DPSclosepath'', [], void_t),
     (''DPScurveto::::::'', [CGFloat, CGFloat, CGFloat, CGFloat, CGFloat, CGFloat], void_t),
     (''DPSeoclip'', [], void_t),
     (''DPSeofill'', [], void_t),
     (''DPSfill'', [], void_t),
     (''DPSflattenpath'', [], void_t),
     (''DPSinitclip'', [], void_t),
     (''DPSlineto::'', [CGFloat, CGFloat], void_t),
     (''DPSmoveto::'', [CGFloat, CGFloat], void_t),
     (''DPSnewpath'', [], void_t),
     (''DPSpathbbox::::'', [Ptr CGFloat, Ptr CGFloat, Ptr CGFloat, Ptr CGFloat], void_t),
     (''DPSrcurveto::::::'', [CGFloat, CGFloat, CGFloat, CGFloat, CGFloat, CGFloat], void_t),
     (''DPSrectclip::::'', [CGFloat, CGFloat, CGFloat, CGFloat], void_t),
     (''DPSrectfill::::'', [CGFloat, CGFloat, CGFloat, CGFloat], void_t),
     (''DPSrectstroke::::'', [CGFloat, CGFloat, CGFloat, CGFloat], void_t),
     (''DPSreversepath'', [], void_t),
     (''DPSrlineto::'', [CGFloat, CGFloat], void_t),
     (''DPSrmoveto::'', [CGFloat, CGFloat], void_t),
     (''DPSstroke'', [], void_t),
     (''DPSshfill:'', [Ptr (Object ''NSDictionary'')], void_t),
     (''GSSendBezierPath:'', [Ptr (Object ''NSBezierPath'')], void_t),
     (''GSRectClipList::'', [Ptr (Const NSRect), int_t], void_t),
     (''GSRectFillList::'', [Ptr (Const NSRect), int_t], void_t)]"

definition ops_window :: "slot list" where
  "ops_window = [
     (''GSCurrentDevice:::'', [Ptr (Ptr void_t), Ptr int_t, Ptr int_t], void_t),
     (''GSSetDevice:::'', [Ptr void_t, int_t, int_t], void_t),
     (''DPScurrentoffset::'', [Ptr int_t, Ptr int_t], void_t),
     (''DPSsetoffset::'', [short_t, short_t], void_t)]"

definition ops_ext :: "slot list" where
  "ops_ext = [
     (''DPScomposite::::::::'', [CGFloat, CGFloat, CGFloat, CGFloat, NSInteger, CGFloat, CGFloat, NSCompositingOperation], void_t),
     (''DPScompositerect:::::'', [CGFloat, CGFloat, CGFloat, CGFloat, NSCompositingOperation], void_t),
     (''DPSdissolve::::::::'', [CGFloat, CGFloat, CGFloat, CGFloat, NSInteger, CGFloat, CGFloat, CGFloat], void_t),
     (''GScomposite:toPoint:fromRect:operation:fraction:'', [NSInteger, NSPoint, NSRect, NSCompositingOperation, CGFloat], void_t),
     (''supportsDrawGState'', [], BOOL),
     (''GSdraw:toPoint:fromRect:operation:fraction:'', [NSInteger, NSPoint, NSRect, NSCompositingOperation, CGFloat], void_t),
     (''GSDrawImage::'', [NSRect, Ptr void_t], void_t)]"

definition ops_client :: "slot list" where
  "ops_client = [
     (''DPSPrintf::'', [Ptr (Const char_t), va_list], void_t),
     (''DPSWriteData::'', [Ptr (Const char_t), unsigned_t], void_t)]"

definition ops_nsg :: "slot list" where
  "ops_nsg = [
     (''GSReadRect:'', [NSRect], Ptr (Object ''NSDictionary'')),
     (''NSDrawBitmap:::::::::::'', [NSRect, NSInteger, NSInteger, NSInteger, NSInteger, NSInteger, NSInteger, BOOL, BOOL, Ptr (Object ''NSString''), Array5 (Const (Ptr (Const uchar_t)))], void_t),
     (''NSBeep'', [], void_t),
     (''GSWSetViewIsFlipped:'', [BOOL], void_t),
     (''GSWViewIsFlipped'', [], BOOL)]"

definition declared_ops :: "slot list" where
  "declared_ops = ops_color @ ops_text @ ops_gstate @ ops_gsops @ ops_matrix @
     ops_paint @ ops_window @ ops_ext @ ops_client @ ops_nsg"

subsection \<open>Prototypes of the operators with a context\<close>

definition dps_proto_color :: "prototype list" where
  "dps_proto_color = [
     (''DPScurrentalpha'', [(Ptr (Object ''NSGraphicsContext''), ''ctxt''), (Ptr CGFloat, ''a'')], void_t),
     (''DPScurrentcmykcolor'', [(Ptr (Object ''NSGraphicsContext''), ''ctxt''), (Ptr CGFloat, ''c''), (Ptr CGFloat, ''m''), (Ptr CGFloat, ''y''), (Ptr CGFloat, ''k'')], void_t),
     (''DPScurrentgray'', [(Ptr (Object ''NSGraphicsContext''), ''ctxt''), (Ptr CGFloat, ''gray'')], void_t),
     (''DPScurrenthsbcolor'', [(Ptr (Object ''NSGraphicsContext''), ''ctxt''), (Ptr CGFloat, ''h''), (Ptr CGFloat, ''s''), (Ptr CGFloat, ''b'')], void_t),
     (''DPScurrentrgbcolor'', [(Ptr (Object ''NSGraphicsContext''), ''ctxt''), (Ptr CGFloat, ''r''), (Ptr CGFloat, ''g''), (Ptr CGFloat, ''b'')], void_t),
     (''DPSsetalpha'', [(Ptr (Object ''NSGraphicsContext''), ''ctxt''), (CGFloat, ''a'')], void_t),
     (''DPSsetcmykcolor'', [(Ptr (Object ''NSGraphicsContext''), ''ctxt''), (CGFloat, ''c''), (CGFloat, ''m''), (CGFloat, ''y''), (CGFloat, ''k'')], void_t),
     (''DPSsetgray'', [(Ptr (Object ''NSGraphicsContext''), ''ctxt''), (CGFloat, ''gray'')], void_t),
     (''DPSsethsbcolor'', [(Ptr (Object ''NSGraphicsContext''), ''ctxt''), (CGFloat, ''h''), (CGFloat, ''s''), (CGFloat, ''b'')], void_t),
     (''DPSsetrgbcolor'', [(Ptr (Object ''NSGraphicsContext''), ''ctxt''), (CGFloat, ''r''), (CGFloat, ''g''), (CGFloat, ''b'')], void_t),
     (''GSSetFillColorspace'', [(Ptr (Object ''NSGraphicsContext''), ''ctxt''), (Ptr (Object ''NSDictionary''), ''dict'')], void_t),
     (''GSSetStrokeColorspace'', [(Ptr (Object ''NSGraphicsContext''), ''ctxt''), (Ptr (Object ''NSDictionary''), ''dict'')], void_t),
     (''GSSetFillColor'', [(Ptr (Object ''NSGraphicsContext''), ''ctxt''), (Ptr CGFloat, ''values'')], void_t),
     (''GSSetStrokeColor'', [(Ptr (Object ''NSGraphicsContext''), ''ctxt''), (Ptr CGFloat, ''values'')], void_t)]"

definition dps_proto_text :: "prototype list" where
  "dps_proto_text = [
     (''DPSashow'', [(Ptr (Object ''NSGraphicsContext''), ''ctxt''), (CGFloat, ''x''), (CGFloat, ''y''), (Ptr (Const char_t), ''s'')], void_t),
     (''DPSawidthshow'', [(Ptr (Object ''NSGraphicsContext''), ''ctxt''), (CGFloat, ''cx''), (CGFloat, ''cy''), (int_t, ''c''), (CGFloat, ''ax''), (CGFloat, ''ay''), (Ptr (Const char_t), ''s'')], void_t),
     (''DPScharpath'', [(Ptr (Object ''NSGraphicsContext''), ''ctxt''), (Ptr (Const char_t), ''s''), (int_t, ''b'')], void_t),
     (''DPSshow'', [(Ptr (Object ''NSGraphicsContext''), ''ctxt''), (Ptr (Const char_t), ''s'')], void_t),
     (''DPSwidthshow'', [(Ptr (Object ''NSGraphicsContext''), ''ctxt''), (CGFloat, ''x''), (CGFloat, ''y''), (int_t, ''c''), (Ptr (Const char_t), ''s'')], void_t),
     (''DPSxshow'', [(Ptr (Object ''NSGraphicsContext''), ''ctxt''), (Ptr (Const char_t), ''s''), (Ptr (Const CGFloat), ''numarray''), (int_t, ''size'')], void_t),
     (''DPSxyshow'', [(Ptr (Object ''NSGraphicsContext''), ''ctxt''), (Ptr (Const char_t), ''s''), (Ptr (Const CGFloat), ''numarray''), (int_t, ''size'')], void_t),
     (''DPSyshow'', [(Ptr (Object ''NSGraphicsContext''), ''ctxt''), (Ptr (Const char_t), ''s''), (Ptr (Const CGFloat), ''numarray''), (int_t, ''size'')], void_t),
     (''GSSetCharacterSpacing'', [(Ptr (Object ''NSGraphicsContext''), ''ctxt''), (CGFloat, ''extra'')], void_t),
     (''GSSetFont'', [(Ptr (Object ''NSGraphicsContext''), ''ctxt''), (Ptr (Object ''NSFont''), ''font'')], void_t),
     (''GSSetFontSize'', [(Ptr (Object ''NSGraphicsContext''), ''ctxt''), (CGFloat, ''size'')], void_t),
     (''GSGetTextCTM'', [(Ptr (Object ''NSGraphicsContext''), ''ctxt'')], Ptr (Object ''NSAffineTransform'')),
     (''GSGetTextPosition'', [(Ptr (Object ''NSGraphicsContext''), ''ctxt'')], NSPoint),
     (''GSSetTextCTM'', [(Ptr (Object ''NSGraphicsContext''), ''ctxt''), (Ptr (Object ''NSAffineTransform''), ''ctm'')], void_t),
     (''GSSetTextDrawingMode'', [(Ptr (Object ''NSGraphicsContext''), ''ctxt''), (GSTextDrawingMode, ''mode'')], void_t),
     (''GSSetTextPosition'', [(Ptr (Object ''NSGraphicsContext''), ''ctxt''), (NSPoint, ''loc'')], void_t),
     (''GSShowText'', [(Ptr (Object ''NSGraphicsContext''), ''ctxt''), (Ptr (Const char_t), ''string''), (size_t, ''length'')], void_t),
     (''GSShowGlyphs'', [(Ptr (Object ''NSGraphicsContext''), ''ctxt''), (Ptr (Const NSGlyph), ''glyphs''), (size_t, ''length'')], void_t),
     (''GSShowGlyphsWithAdvances'', [(Ptr (Object ''NSGraphicsContext''), ''ctxt''), (Ptr (Const NSGlyph), ''glyphs''), (Ptr (Const NSSize), ''advances''), (size_t, ''length'')], void_t)]"

definition dps_proto_gstate :: "prototype list" where
  "dps_proto_gstate = [
     (''DPSgrestore'', [(Ptr (Object ''NSGraphicsContext''), ''ctxt'')], void_t),
     (''DPSgsave'', [(Ptr (Object ''NSGraphicsContext''), ''ctxt'')], void_t),
     (''DPSinitgraphics'', [(Ptr (Object ''NSGraphicsContext''), ''ctxt'')], void_t),
     (''DPSsetgstate'', [(Ptr (Object ''NSGraphicsContext''), ''ctxt''), (NSInteger, ''gst'')], void_t),
     (''GSDefineGState'', [(Ptr (Object ''NSGraphicsContext''), ''ctxt'')], NSInteger),
     (''GSUndefineGState'', [(Ptr (Object ''NSGraphicsContext''), ''ctxt''), (NSInteger, ''gst'')], void_t),
     (''GSReplaceGState'', [(Ptr (Object ''NSGraphicsContext''), ''ctxt''), (NSInteger, ''gst'')], void_t)]"

definition dps_proto_gsops :: "prototype list" where
  "dps_proto_gsops = [
     (''DPScurrentflat'', [(Ptr (Object ''NSGraphicsContext''), ''ctxt''), (Ptr CGFloat, ''flatness'')], void_t),
     (''DPScurrentlinecap'', [(Ptr (Object ''NSGraphicsContext''), ''ctxt''), (Ptr int_t, ''linecap'')], void_t),
     (''DPScurrentlinejoin'', [(Ptr (Object ''NSGraphicsContext''), ''ctxt''), (Ptr int_t, ''linejoin'')], void_t),
     (''DPScurrentlinewidth'', [(Ptr (Object ''NSGraphicsContext''), ''ctxt''), (Ptr CGFloat, ''width'')], void_t),
     (''DPScurrentmiterlimit'', [(Ptr (Object ''NSGraphicsContext''), ''ctxt''), (Ptr CGFloat, ''limit'')], void_t),
     (''DPScurrentpoint'', [(Ptr (Object ''NSGraphicsContext''), ''ctxt''), (Ptr CGFloat, ''x''), (Ptr CGFloat, ''y'')], void_t),
     (''DPScurrentstrokeadjust'', [(Ptr (Object ''NSGraphicsContext''), ''ctxt''), (Ptr int_t, ''b'')], void_t),
     (''DPSsetdash'', [(Ptr (Object ''NSGraphicsContext''), ''ctxt''), (Ptr (Const CGFloat), ''pat''), (NSInteger, ''size''), (CGFloat, ''offset'')], void_t),
     (''DPSsetflat'', [(Ptr (Object ''NSGraphicsContext''), ''ctxt''), (CGFloat, ''flatness'')], void_t),
     (''DPSsethalftonephase'', [(Ptr (Object ''NSGraphicsContext''), ''ctxt''), (CGFloat, ''x''), (CGFloat, ''y'')], void_t),
     (''DPSsetlinecap'', [(Ptr (Object ''NSGraphicsContext''), ''ctxt''), (int_t, ''linecap'')], void_t),
     (''DPSsetlinejoin'', [(Ptr (Object ''NSGraphicsContext''), ''ctxt''), (int_t, ''linejoin'')], void_t),
     (''DPSsetlinewidth'', [(Ptr (Object ''NSGraphicsContext''), ''ctxt''), (CGFloat, ''width'')], void_t),
     (''DPSsetmiterlimit'', [(Ptr (Object ''NSGraphicsContext''), ''ctxt''), (CGFloat, ''limit'')], void_t),
     (''DPSsetstrokeadjust'', [(Ptr (Object ''NSGraphicsContext''), ''ctxt''), (int_t, ''b'')], void_t)]"

definition dps_proto_matrix :: "prototype list" where
  "dps_proto_matrix = [
     (''DPSconcat'', [(Ptr (Object ''NSGraphicsContext''), ''ctxt''), (Ptr (Const CGFloat), ''m'')], void_t),
     (''DPSinitmatrix'', [(Ptr (Object ''NSGraphicsContext''), ''ctxt'')], void_t),
     (''DPSrotate'', [(Ptr (Object ''NSGraphicsContext''), ''ctxt''), (CGFloat, ''angle'')], void_t),
     (''DPSscale'', [(Ptr (Object ''NSGraphicsContext''), ''ctxt''), (CGFloat, ''x''), (CGFloat, ''y'')], void_t),
     (''DPStranslate'', [(Ptr (Object ''NSGraphicsContext''), ''ctxt''), (CGFloat, ''x''), (CGFloat, ''y'')], void_t),
     (''GSCurrentCTM'', [(Ptr (Object ''NSGraphicsContext''), ''ctxt'')], Ptr (Object ''NSAffineTransform'')),
     (''GSSetCTM'', [(Ptr (Object ''NSGraphicsContext''), ''ctxt''), (Ptr (Object ''NSAffineTransform''), ''ctm'')], void_t),
     (''GSConcatCTM'', [(Ptr (Object ''NSGraphicsContext''), ''ctxt''), (Ptr (Object ''NSAffineTransform''), ''ctm'')], void_t)]"

definition dps_proto_paint :: "prototype list" where
  "dps_proto_paint = [
     (''DPSarc'', [(Ptr (Object ''NSGraphicsContext''), ''ctxt''), (CGFloat, ''x''), (CGFloat, ''y''), (CGFloat, ''r''), (CGFloat, ''angle1''), (CGFloat, ''angle2'')], void_t),
     (''DPSarcn'', [(Ptr (Object ''NSGraphicsContext''), ''ctxt''), (CGFloat, ''x''), (CGFloat, ''y''), (CGFloat, ''r''), (CGFloat, ''angle1''), (CGFloat, ''angle2'')], void_t),
     (''DPSarct'', [(Ptr (Object ''NSGraphicsContext''), ''ctxt''), (CGFloat, ''x1''), (CGFloat, ''y1''), (CGFloat, ''x2''), (CGFloat, ''y2''), (CGFloat, ''r'')], void_t),
     (''DPSclip'', [(Ptr (Object ''NSGraphicsContext''), ''ctxt'')], void_t),
     (''DPSclosepath'', [(Ptr (Object ''NSGraphicsContext''), ''ctxt'')], void_t),
     (''DPScurveto'', [(Ptr (Object ''NSGraphicsContext''), ''ctxt''), (CGFloat, ''x1''), (CGFloat, ''y1''), (CGFloat, ''x2''), (CGFloat, ''y2''), (CGFloat, ''x3''), (CGFloat, ''y3'')], void_t),
     (''DPSeoclip'', [(Ptr (Object ''NSGraphicsContext''), ''ctxt'')], void_t),
     (''DPSeofill'', [(Ptr (Object ''NSGraphicsContext''), ''ctxt'')], void_t),
     (''DPSfill'', [(Ptr (Object ''NSGraphicsContext''), ''ctxt'')], void_t),
     (''DPSflattenpath'', [(Ptr (Object ''NSGraphicsContext''), ''ctxt'')], void_t),
     (''DPSinitclip'', [(Ptr (Object ''NSGraphicsContext''), ''ctxt'')], void_t),
     (''DPSlineto'', [(Ptr (Object ''NSGraphicsContext''), ''ctxt''), (CGFloat, ''x''), (CGFloat, ''y'')], void_t),
     (''DPSmoveto'', [(Ptr (Object ''NSGraphicsContext''), ''ctxt''), (CGFloat, ''x''), (CGFloat, ''y'')], void_t),
     (''DPSnewpath'', [(Ptr (Object ''NSGraphicsContext''), ''ctxt'')], void_t),
     (''DPSpathbbox'', [(Ptr (Object ''NSGraphicsContext''), ''ctxt''), (Ptr CGFloat, ''llx''), (Ptr CGFloat, ''lly''), (Ptr CGFloat, ''urx''), (Ptr CGFloat, ''ury'')], void_t),
     (''DPSrcurveto'', [(Ptr (Object ''NSGraphicsContext''), ''ctxt''), (CGFloat, ''x1''), (CGFloat, ''y1''), (CGFloat, ''x2''), (CGFloat, ''y2''), (CGFloat, ''x3''), (CGFloat, ''y3'')], void_t),
     (''DPSrectclip'', [(Ptr (Object ''NSGraphicsContext''), ''ctxt''), (CGFloat, ''x''), (CGFloat, ''y''), (CGFloat, ''w''), (CGFloat, ''h'')], void_t),
     (''DPSrectfill'', [(Ptr (Object ''NSGraphicsContext''), ''ctxt''), (CGFloat, ''x''), (CGFloat, ''y''), (CGFloat, ''w''), (CGFloat, ''h'')], void_t),
     (''DPSrectstroke'', [(Ptr (Object ''NSGraphicsContext''), ''ctxt''), (CGFloat, ''x''), (CGFloat, ''y''), (CGFloat, ''w''), (CGFloat, ''h'')], void_t),
     (''DPSreversepath'', [(Ptr (Object ''NSGraphicsContext''), ''ctxt'')], void_t),
     (''DPSrlineto'', [(Ptr (Object ''NSGraphicsContext''), ''ctxt''), (CGFloat, ''x''), (CGFloat, ''y'')], void_t),
     (''DPSrmoveto'', [(Ptr (Object ''NSGraphicsContext''), ''ctxt''), (CGFloat, ''x''), (CGFloat, ''y'')], void_t),
     (''DPSstroke'', [(Ptr (Object ''NSGraphicsContext''), ''ctxt'')], void_t),
     (''DPSshfill'', [(Ptr (Object ''NSGraphicsContext''), ''ctxt''), (Ptr (Object ''NSDictionary''), ''shaderDictionary'')], void_t),
     (''GSSendBezierPath'', [(Ptr (Object ''NSGraphicsContext''), ''ctxt''), (Ptr (Object ''NSBezierPath''), ''path'')], void_t),
     (''GSRectClipList'', [(Ptr (Object ''NSGraphicsContext''), ''ctxt''), (Ptr (Const NSRect), ''rects''), (int_t, ''count'')], void_t),
     (''GSRectFillList'', [(Ptr (Object ''NSGraphicsContext''), ''ctxt''), (Ptr (Const NSRect), ''rects''), (int_t, ''count'')], void_t)]"

definition dps_proto_window :: "prototype list" where
  "dps_proto_window = [
     (''GSCurrentDevice'', [(Ptr (Object ''NSGraphicsContext''), ''ctxt''), (Ptr (Ptr void_t), ''device''), (Ptr int_t, ''x''), (Ptr int_t, ''y'')], void_t),
     (''DPScurrentoffset'', [(Ptr (Object ''NSGraphicsContext''), ''ctxt''), (Ptr int_t, ''x''), (Ptr int_t, ''y'')], void_t),
     (''GSSetDevice'', [(Ptr (Object ''NSGraphicsContext''), ''ctxt''), (Ptr void_t, ''device''), (int_t, ''x''), (int_t, ''y'')], void_t),
     (''DPSsetoffset'', [(Ptr (Object ''NSGraphicsContext''), ''ctxt''), (short_t, ''x''), (short_t, ''y'')], void_t)]"

definition dps_proto_ext :: "prototype list" where
  "dps_proto_ext = [
     (''DPScomposite'', [(Ptr (Object ''NSGraphicsContext''), ''ctxt''), (CGFloat, ''x''), (CGFloat, ''y''), (CGFloat, ''w''), (CGFloat, ''h''), (NSInteger, ''gstateNum''), (CGFloat, ''dx''), (CGFloat, ''dy''), (NSCompositingOperation, ''op'')], void_t),
     (''DPScompositerect'', [(Ptr (Object ''NSGraphicsContext''), ''ctxt''), (CGFloat, ''x''), (CGFloat, ''y''), (CGFloat, ''w''), (CGFloat, ''h''), (NSCompositingOperation, ''op'')], void_t),
     (''DPSdissolve'', [(Ptr (Object ''NSGraphicsContext''), ''ctxt''), (CGFloat, ''x''), (CGFloat, ''y''), (CGFloat, ''w''), (CGFloat, ''h''), (NSInteger, ''gstateNum''), (CGFloat, ''dx''), (CGFloat, ''dy''), (CGFloat, ''delta'')], void_t),
     (''GSDrawImage'', [(Ptr (Object ''NSGraphicsContext''), ''ctxt''), (NSRect, ''rect''), (Ptr void_t, ''imageref'')], void_t)]"

definition dps_proto_client :: "prototype list" where
  "dps_proto_client = [
     (''DPSPrintf'', [(Ptr (Object ''NSGraphicsContext''), ''ctxt''), (Ptr (Const char_t), ''fmt''), (Variadic, '''')], void_t),
     (''DPSWriteData'', [(Ptr (Object ''NSGraphicsContext''), ''ctxt''), (Ptr (Const char_t), ''buf''), (unsigned_t, ''count'')], void_t)]"

definition dps_prototypes :: "prototype list" where
  "dps_prototypes = dps_proto_color @ dps_proto_text @ dps_proto_gstate @ dps_proto_gsops @ dps_proto_matrix @
     dps_proto_paint @ dps_proto_window @ dps_proto_ext @ dps_proto_client"

subsection \<open>Prototypes of the operators on the current context\<close>

definition ps_proto_color :: "prototype list" where
  "ps_proto_color = [
     (''PScurrentalpha'', [(Ptr CGFloat, ''a'')], void_t),
     (''PScurrentcmykcolor'', [(Ptr CGFloat, ''c''), (Ptr CGFloat, ''m''), (Ptr CGFloat, ''y''), (Ptr CGFloat, ''k'')], void_t),
     (''PScurrentgray'', [(Ptr CGFloat, ''gray'')], void_t),
     (''PScurrenthsbcolor'', [(Ptr CGFloat, ''h''), (Ptr CGFloat, ''s''), (Ptr CGFloat, ''b'')], void_t),
     (''PScurrentrgbcolor'', [(Ptr CGFloat, ''r''), (Ptr CGFloat, ''g''), (Ptr CGFloat, ''b'')], void_t),
     (''PSsetalpha'', [(CGFloat, ''a'')], void_t),
     (''PSsetcmykcolor'', [(CGFloat, ''c''), (CGFloat, ''m''), (CGFloat, ''y''), (CGFloat, ''k'')], void_t),
     (''PSsetgray'', [(CGFloat, ''gray'')], void_t),
     (''PSsethsbcolor'', [(CGFloat, ''h''), (CGFloat, ''s''), (CGFloat, ''b'')], void_t),
     (''PSsetrgbcolor'', [(CGFloat, ''r''), (CGFloat, ''g''), (CGFloat, ''b'')], void_t)]"

definition ps_proto_text :: "prototype list" where
  "ps_proto_text = [
     (''PSashow'', [(CGFloat, ''x''), (CGFloat, ''y''), (Ptr (Const char_t), ''s'')], void_t),
     (''PSawidthshow'', [(CGFloat, ''cx''), (CGFloat, ''cy''), (int_t, ''c''), (CGFloat, ''ax''), (CGFloat, ''ay''), (Ptr (Const char_t), ''s'')], void_t),
     (''PScharpath'', [(Ptr (Const char_t), ''s''), (int_t, ''b'')], void_t),
     (''PSshow'', [(Ptr (Const char_t), ''s'')], void_t),
     (''PSwidthshow'', [(CGFloat, ''x''), (CGFloat, ''y''), (int_t, ''c''), (Ptr (Const char_t), ''s'')], void_t),
     (''PSxshow'', [(Ptr (Const char_t), ''s''), (Ptr (Const CGFloat), ''numarray''), (int_t, ''size'')], void_t),
     (''PSxyshow'', [(Ptr (Const char_t), ''s''), (Ptr (Const CGFloat), ''numarray''), (int_t, ''size'')], void_t),
     (''PSyshow'', [(Ptr (Const char_t), ''s''), (Ptr (Const CGFloat), ''numarray''), (int_t, ''size'')], void_t)]"

definition ps_proto_gstate :: "prototype list" where
  "ps_proto_gstate = [
     (''PSgrestore'', [], void_t),
     (''PSgsave'', [], void_t),
     (''PSinitgraphics'', [], void_t),
     (''PSsetgstate'', [(NSInteger, ''gst'')], void_t)]"

definition ps_proto_gsops :: "prototype list" where
  "ps_proto_gsops = [
     (''PScurrentflat'', [(Ptr CGFloat, ''flatness'')], void_t),
     (''PScurrentlinecap'', [(Ptr int_t, ''linecap'')], void_t),
     (''PScurrentlinejoin'', [(Ptr int_t, ''linejoin'')], void_t),
     (''PScurrentlinewidth'', [(Ptr CGFloat, ''width'')], void_t),
     (''PScurrentmiterlimit'', [(Ptr CGFloat, ''limit'')], void_t),
     (''PScurrentpoint'', [(Ptr CGFloat, ''x''), (Ptr CGFloat, ''y'')], void_t),
     (''PScurrentstrokeadjust'', [(Ptr int_t, ''b'')], void_t),
     (''PSsetdash'', [(Ptr (Const CGFloat), ''pat''), (NSInteger, ''size''), (CGFloat, ''offset'')], void_t),
     (''PSsetflat'', [(CGFloat, ''flatness'')], void_t),
     (''PSsethalftonephase'', [(CGFloat, ''x''), (CGFloat, ''y'')], void_t),
     (''PSsetlinecap'', [(int_t, ''linecap'')], void_t),
     (''PSsetlinejoin'', [(int_t, ''linejoin'')], void_t),
     (''PSsetlinewidth'', [(CGFloat, ''width'')], void_t),
     (''PSsetmiterlimit'', [(CGFloat, ''limit'')], void_t),
     (''PSsetstrokeadjust'', [(int_t, ''b'')], void_t)]"

definition ps_proto_matrix :: "prototype list" where
  "ps_proto_matrix = [
     (''PSconcat'', [(Ptr (Const CGFloat), ''m'')], void_t),
     (''PSinitmatrix'', [], void_t),
     (''PSrotate'', [(CGFloat, ''angle'')], void_t),
     (''PSscale'', [(CGFloat, ''x''), (CGFloat, ''y'')], void_t),
     (''PStranslate'', [(CGFloat, ''x''), (CGFloat, ''y'')], void_t)]"

definition ps_proto_paint :: "prototype list" where
  "ps_proto_paint = [
     (''PSarc'', [(CGFloat, ''x''), (CGFloat, ''y''), (CGFloat, ''r''), (CGFloat, ''angle1''), (CGFloat, ''angle2'')], void_t),
     (''PSarcn'', [(CGFloat, ''x''), (CGFloat, ''y''), (CGFloat, ''r''), (CGFloat, ''angle1''), (CGFloat, ''angle2'')], void_t),
     (''PSarct'', [(CGFloat, ''x1''), (CGFloat, ''y1''), (CGFloat, ''x2''), (CGFloat, ''y2''), (CGFloat, ''r'')], void_t),
     (''PSclip'', [], void_t),
     (''PSclosepath'', [], void_t),
     (''PScurveto'', [(CGFloat, ''x1''), (CGFloat, ''y1''), (CGFloat, ''x2''), (CGFloat, ''y2''), (CGFloat, ''x3''), (CGFloat, ''y3'')], void_t),
     (''PSeoclip'', [], void_t),
     (''PSeofill'', [], void_t),
     (''PSfill'', [], void_t),
     (''PSflattenpath'', [], void_t),
     (''PSinitclip'', [], void_t),
     (''PSlineto'', [(CGFloat, ''x''), (CGFloat, ''y'')], void_t),
     (''PSmoveto'', [(CGFloat, ''x''), (CGFloat, ''y'')], void_t),
     (''PSnewpath'', [], void_t),
     (''PSpathbbox'', [(Ptr CGFloat, ''llx''), (Ptr CGFloat, ''lly''), (Ptr CGFloat, ''urx''), (Ptr CGFloat, ''ury'')], void_t),
     (''PSrcurveto'', [(CGFloat, ''x1''), (CGFloat, ''y1''), (CGFloat, ''x2''), (CGFloat, ''y2''), (CGFloat, ''x3''), (CGFloat, ''y3'')], void_t),
     (''PSrectclip'', [(CGFloat, ''x''), (CGFloat, ''y''), (CGFloat, ''w''), (CGFloat, ''h'')], void_t),
     (''PSrectfill'', [(CGFloat, ''x''), (CGFloat, ''y''), (CGFloat, ''w''), (CGFloat, ''h'')], void_t),
     (''PSrectstroke'', [(CGFloat, ''x''), (CGFloat, ''y''), (CGFloat, ''w''), (CGFloat, ''h'')], void_t),
     (''PSreversepath'', [], void_t),
     (''PSrlineto'', [(CGFloat, ''x''), (CGFloat, ''y'')], void_t),
     (''PSrmoveto'', [(CGFloat, ''x''), (CGFloat, ''y'')], void_t),
     (''PSstroke'', [], void_t),
     (''PSshfill'', [(Ptr (Object ''NSDictionary''), ''shaderDictionary'')], void_t)]"

definition ps_proto_ext :: "prototype list" where
  "ps_proto_ext = [
     (''PScomposite'', [(CGFloat, ''x''), (CGFloat, ''y''), (CGFloat, ''w''), (CGFloat, ''h''), (NSInteger, ''gstateNum''), (CGFloat, ''dx''), (CGFloat, ''dy''), (NSCompositingOperation, ''op'')], void_t),
     (''PScompositerect'', [(CGFloat, ''x''), (CGFloat, ''y''), (CGFloat, ''w''), (CGFloat, ''h''), (NSCompositingOperation, ''op'')], void_t),
     (''PSdissolve'', [(CGFloat, ''x''), (CGFloat, ''y''), (CGFloat, ''w''), (CGFloat, ''h''), (NSInteger, ''gstateNum''), (CGFloat, ''dx''), (CGFloat, ''dy''), (CGFloat, ''delta'')], void_t)]"

definition ps_proto_client :: "prototype list" where
  "ps_proto_client = [
     (''PSPrintf'', [(Ptr (Const char_t), ''fmt''), (va_list, ''args'')], void_t),
     (''PSWriteData'', [(Ptr (Const char_t), ''buf''), (unsigned_t, ''count'')], void_t)]"

definition ps_prototypes :: "prototype list" where
  "ps_prototypes = ps_proto_color @ ps_proto_text @ ps_proto_gstate @ ps_proto_gsops @ ps_proto_matrix @
     ps_proto_paint @ ps_proto_ext @ ps_proto_client"

end
