(* ===== verification/GraphicsOps.thy ===== *)
theory GraphicsOps
  imports GraphicsTable
begin

text \<open>
  The drawing operators as C functions: the inline functions of \<open>Headers/AppKit/DPSOperators.h\<close>, which
  call through the method table of a context, and those of \<open>Headers/AppKit/PSOperators.h\<close>, which call
  them on the current context. The methods themselves belong to the backend, a different program:
  a class is a function from selectors to implementations, and an implementation gets the receiver,
  the selector and the arguments; \<open>'r\<close> is whatever it does and returns.
\<close>

subsection \<open>Contexts and calls\<close>

datatype 'v cval = Val 'v | Null | VaList "'v cval list"

type_synonym ('v, 'r) imp = "nat \<Rightarrow> string \<Rightarrow> 'v cval list \<Rightarrow> 'r"

text \<open>\<open>instanceMethodForSelector:\<close> of the runtime, for every class.\<close>

type_synonym ('v, 'r) runtime = "nat \<Rightarrow> string \<Rightarrow> ('v, 'r) imp"

record ('v, 'r) gcontext =
  ident :: nat
  isa :: nat
  methods :: "(string \<times> ('v, 'r) imp) list"

text \<open>
  A call may be undefined (a null pointer or a member never set), do nothing, or run a method.
\<close>

datatype 'r call = Undefined | NoOp | Ran 'r

definition callSlot ::
  "('v, 'r) gcontext option \<Rightarrow> string \<Rightarrow> string \<Rightarrow> 'v cval list \<Rightarrow> 'r call" where
  "callSlot ctxt slot sel vs =
     (case ctxt of
        None \<Rightarrow> Undefined
      | Some c \<Rightarrow> (case map_of (methods c) slot of
                    None \<Rightarrow> Undefined
                  | Some imp \<Rightarrow> Ran (imp (ident c) sel vs)))"

text \<open>A message expression; a message to \<open>nil\<close> does nothing.\<close>

definition message ::
  "('v, 'r) runtime \<Rightarrow> ('v, 'r) gcontext option \<Rightarrow> string \<Rightarrow> 'v cval list \<Rightarrow> 'r call" where
  "message rt ctxt sel vs =
     (case ctxt of None \<Rightarrow> NoOp | Some c \<Rightarrow> Ran (rt (isa c) sel (ident c) sel vs))"

text \<open>\<open>_initializeMethodTable\<close>: every member is set from the class.\<close>

definition methodTable :: "('v, 'r) runtime \<Rightarrow> nat \<Rightarrow> (string \<times> ('v, 'r) imp) list" where
  "methodTable rt cls = map (\<lambda>(slot, sel). (slot, rt cls sel)) init_table"

subsection \<open>The macros\<close>

datatype dps_macro =
    DPS_FUNCTION ctype string
  | DPS_METHOD string
  | DPS_METHOD_1 string "ctype \<times> string"
  | DPS_METHOD_2 string "ctype \<times> string" "ctype \<times> string"
  | DPS_METHOD_3 string "ctype \<times> string" "ctype \<times> string" "ctype \<times> string"
  | DPS_METHOD_4 string "ctype \<times> string" "ctype \<times> string" "ctype \<times> string" "ctype \<times> string"
  | DPS_METHOD_5 string "ctype \<times> string" "ctype \<times> string" "ctype \<times> string" "ctype \<times> string"
      "ctype \<times> string"
  | DPS_METHOD_6 string "ctype \<times> string" "ctype \<times> string" "ctype \<times> string" "ctype \<times> string"
      "ctype \<times> string" "ctype \<times> string"
  | DPS_METHOD_8 string "ctype \<times> string" "ctype \<times> string" "ctype \<times> string" "ctype \<times> string"
      "ctype \<times> string" "ctype \<times> string" "ctype \<times> string" "ctype \<times> string"

text \<open>The function a macro defines: its name, its parameters behind the context, and its body.\<close>

record ('v, 'r) cfunction =
  fname :: string
  result :: ctype
  params :: "(ctype \<times> string) list"
  body :: "('v, 'r) gcontext option \<Rightarrow> 'v cval list \<Rightarrow> 'r call"

abbreviation inline_fun ::
  "string \<Rightarrow> ctype \<Rightarrow> (ctype \<times> string) list \<Rightarrow>
   (('v, 'r) gcontext option \<Rightarrow> 'v cval list \<Rightarrow> 'r call) \<Rightarrow> ('v, 'r) cfunction" where
  "inline_fun name t ps b \<equiv> \<lparr>fname = name, result = t, params = ps, body = b\<rparr>"

text \<open>Both definitions of the macros: for compilers of Microsoft a message, for others the table.\<close>

fun expand_msc :: "('v, 'r) runtime \<Rightarrow> dps_macro \<Rightarrow> ('v, 'r) cfunction" where
  "expand_msc rt (DPS_FUNCTION t name) = inline_fun name t [] (\<lambda>ctxt. message rt ctxt name)"
| "expand_msc rt (DPS_METHOD name) = inline_fun name void_t [] (\<lambda>ctxt. message rt ctxt name)"
| "expand_msc rt (DPS_METHOD_1 name a) =
     inline_fun name void_t [a] (\<lambda>ctxt. message rt ctxt (name @ '':''))"
| "expand_msc rt (DPS_METHOD_2 name a b) =
     inline_fun name void_t [a, b] (\<lambda>ctxt. message rt ctxt (name @ ''::''))"
| "expand_msc rt (DPS_METHOD_3 name a b c) =
     inline_fun name void_t [a, b, c] (\<lambda>ctxt. message rt ctxt (name @ '':::''))"
| "expand_msc rt (DPS_METHOD_4 name a b c d) =
     inline_fun name void_t [a, b, c, d] (\<lambda>ctxt. message rt ctxt (name @ ''::::''))"
| "expand_msc rt (DPS_METHOD_5 name a b c d e) =
     inline_fun name void_t [a, b, c, d, e] (\<lambda>ctxt. message rt ctxt (name @ '':::::''))"
| "expand_msc rt (DPS_METHOD_6 name a b c d e f) =
     inline_fun name void_t [a, b, c, d, e, f] (\<lambda>ctxt. message rt ctxt (name @ ''::::::''))"
| "expand_msc rt (DPS_METHOD_8 name a b c d e f g h) =
     inline_fun name void_t [a, b, c, d, e, f, g, h] (\<lambda>ctxt. message rt ctxt (name @ ''::::::::''))"

fun expand :: "dps_macro \<Rightarrow> ('v, 'r) cfunction" where
  "expand (DPS_FUNCTION t name) = inline_fun name t [] (\<lambda>ctxt. callSlot ctxt name name)"
| "expand (DPS_METHOD name) = inline_fun name void_t [] (\<lambda>ctxt. callSlot ctxt name name)"
| "expand (DPS_METHOD_1 name a) =
     inline_fun name void_t [a] (\<lambda>ctxt. callSlot ctxt (name @ ''_'') (name @ '':''))"
| "expand (DPS_METHOD_2 name a b) =
     inline_fun name void_t [a, b] (\<lambda>ctxt. callSlot ctxt (name @ ''__'') (name @ ''::''))"
| "expand (DPS_METHOD_3 name a b c) =
     inline_fun name void_t [a, b, c] (\<lambda>ctxt. callSlot ctxt (name @ ''___'') (name @ '':::''))"
| "expand (DPS_METHOD_4 name a b c d) =
     inline_fun name void_t [a, b, c, d] (\<lambda>ctxt. callSlot ctxt (name @ ''____'') (name @ ''::::''))"
| "expand (DPS_METHOD_5 name a b c d e) =
     inline_fun name void_t [a, b, c, d, e]
       (\<lambda>ctxt. callSlot ctxt (name @ ''_____'') (name @ '':::::''))"
| "expand (DPS_METHOD_6 name a b c d e f) =
     inline_fun name void_t [a, b, c, d, e, f]
       (\<lambda>ctxt. callSlot ctxt (name @ ''______'') (name @ ''::::::''))"
| "expand (DPS_METHOD_8 name a b c d e f g h) =
     inline_fun name void_t [a, b, c, d, e, f, g, h]
       (\<lambda>ctxt. callSlot ctxt (name @ ''________'') (name @ ''::::::::''))"

subsection \<open>The operators with a context\<close>

definition dps_color :: "dps_macro list" where
  "dps_color = [
     DPS_METHOD_1 ''DPScurrentalpha'' (Ptr CGFloat, ''a''),
     DPS_METHOD_4 ''DPScurrentcmykcolor'' (Ptr CGFloat, ''c'') (Ptr CGFloat, ''m'') (Ptr CGFloat, ''y'') (Ptr CGFloat, ''k''),
     DPS_METHOD_1 ''DPScurrentgray'' (Ptr CGFloat, ''gray''),
     DPS_METHOD_3 ''DPScurrenthsbcolor'' (Ptr CGFloat, ''h'') (Ptr CGFloat, ''s'') (Ptr CGFloat, ''b''),
     DPS_METHOD_3 ''DPScurrentrgbcolor'' (Ptr CGFloat, ''r'') (Ptr CGFloat, ''g'') (Ptr CGFloat, ''b''),
     DPS_METHOD_1 ''DPSsetalpha'' (CGFloat, ''a''),
     DPS_METHOD_4 ''DPSsetcmykcolor'' (CGFloat, ''c'') (CGFloat, ''m'') (CGFloat, ''y'') (CGFloat, ''k''),
     DPS_METHOD_1 ''DPSsetgray'' (CGFloat, ''gray''),
     DPS_METHOD_3 ''DPSsethsbcolor'' (CGFloat, ''h'') (CGFloat, ''s'') (CGFloat, ''b''),
     DPS_METHOD_3 ''DPSsetrgbcolor'' (CGFloat, ''r'') (CGFloat, ''g'') (CGFloat, ''b''),
     DPS_METHOD_1 ''GSSetFillColorspace'' (Ptr (Object ''NSDictionary''), ''dict''),
     DPS_METHOD_1 ''GSSetStrokeColorspace'' (Ptr (Object ''NSDictionary''), ''dict''),
     DPS_METHOD_1 ''GSSetFillColor'' (Ptr CGFloat, ''values''),
     DPS_METHOD_1 ''GSSetStrokeColor'' (Ptr CGFloat, ''values'')]"

definition dps_text :: "dps_macro list" where
  "dps_text = [
     DPS_METHOD_3 ''DPSashow'' (CGFloat, ''x'') (CGFloat, ''y'') (Ptr (Const char_t), ''s''),
     DPS_METHOD_6 ''DPSawidthshow'' (CGFloat, ''cx'') (CGFloat, ''cy'') (int_t, ''c'') (CGFloat, ''ax'') (CGFloat, ''ay'') (Ptr (Const char_t), ''s''),
     DPS_METHOD_2 ''DPScharpath'' (Ptr (Const char_t), ''s'') (int_t, ''b''),
     DPS_METHOD_1 ''DPSshow'' (Ptr (Const char_t), ''s''),
     DPS_METHOD_4 ''DPSwidthshow'' (CGFloat, ''x'') (CGFloat, ''y'') (int_t, ''c'') (Ptr (Const char_t), ''s''),
     DPS_METHOD_3 ''DPSxshow'' (Ptr (Const char_t), ''s'') (Ptr (Const CGFloat), ''numarray'') (int_t, ''size''),
     DPS_METHOD_3 ''DPSxyshow'' (Ptr (Const char_t), ''s'') (Ptr (Const CGFloat), ''numarray'') (int_t, ''size''),
     DPS_METHOD_3 ''DPSyshow'' (Ptr (Const char_t), ''s'') (Ptr (Const CGFloat), ''numarray'') (int_t, ''size''),
     DPS_METHOD_1 ''GSSetCharacterSpacing'' (CGFloat, ''extra''),
     DPS_METHOD_1 ''GSSetFont'' (Ptr (Object ''NSFont''), ''font''),
     DPS_METHOD_1 ''GSSetFontSize'' (CGFloat, ''size''),
     DPS_FUNCTION (Ptr (Object ''NSAffineTransform'')) ''GSGetTextCTM'',
     DPS_FUNCTION NSPoint ''GSGetTextPosition'',
     DPS_METHOD_1 ''GSSetTextCTM'' (Ptr (Object ''NSAffineTransform''), ''ctm''),
     DPS_METHOD_1 ''GSSetTextDrawingMode'' (GSTextDrawingMode, ''mode''),
     DPS_METHOD_1 ''GSSetTextPosition'' (NSPoint, ''loc''),
     DPS_METHOD_2 ''GSShowText'' (Ptr (Const char_t), ''string'') (size_t, ''length''),
     DPS_METHOD_2 ''GSShowGlyphs'' (Ptr (Const NSGlyph), ''glyphs'') (size_t, ''length''),
     DPS_METHOD_3 ''GSShowGlyphsWithAdvances'' (Ptr (Const NSGlyph), ''glyphs'') (Ptr (Const NSSize), ''advances'') (size_t, ''length'')]"

definition dps_gstate :: "dps_macro list" where
  "dps_gstate = [
     DPS_METHOD ''DPSgrestore'',
     DPS_METHOD ''DPSgsave'',
     DPS_METHOD ''DPSinitgraphics'',
     DPS_METHOD_1 ''DPSsetgstate'' (NSInteger, ''gst''),
     DPS_FUNCTION NSInteger ''GSDefineGState'',
     DPS_METHOD_1 ''GSUndefineGState'' (NSInteger, ''gst''),
     DPS_METHOD_1 ''GSReplaceGState'' (NSInteger, ''gst'')]"

definition dps_gsops :: "dps_macro list" where
  "dps_gsops = [
     DPS_METHOD_1 ''DPScurrentflat'' (Ptr CGFloat, ''flatness''),
     DPS_METHOD_1 ''DPScurrentlinecap'' (Ptr int_t, ''linecap''),
     DPS_METHOD_1 ''DPScurrentlinejoin'' (Ptr int_t, ''linejoin''),
     DPS_METHOD_1 ''DPScurrentlinewidth'' (Ptr CGFloat, ''width''),
     DPS_METHOD_1 ''DPScurrentmiterlimit'' (Ptr CGFloat, ''limit''),
     DPS_METHOD_2 ''DPScurrentpoint'' (Ptr CGFloat, ''x'') (Ptr CGFloat, ''y''),
     DPS_METHOD_1 ''DPScurrentstrokeadjust'' (Ptr int_t, ''b''),
     DPS_METHOD_3 ''DPSsetdash'' (Ptr (Const CGFloat), ''pat'') (NSInteger, ''size'') (CGFloat, ''offset''),
     DPS_METHOD_1 ''DPSsetflat'' (CGFloat, ''flatness''),
     DPS_METHOD_2 ''DPSsethalftonephase'' (CGFloat, ''x'') (CGFloat, ''y''),
     DPS_METHOD_1 ''DPSsetlinecap'' (int_t, ''linecap''),
     DPS_METHOD_1 ''DPSsetlinejoin'' (int_t, ''linejoin''),
     DPS_METHOD_1 ''DPSsetlinewidth'' (CGFloat, ''width''),
     DPS_METHOD_1 ''DPSsetmiterlimit'' (CGFloat, ''limit''),
     DPS_METHOD_1 ''DPSsetstrokeadjust'' (int_t, ''b'')]"

definition dps_matrix :: "dps_macro list" where
  "dps_matrix = [
     DPS_METHOD_1 ''DPSconcat'' (Ptr (Const CGFloat), ''m''),
     DPS_METHOD ''DPSinitmatrix'',
     DPS_METHOD_1 ''DPSrotate'' (CGFloat, ''angle''),
     DPS_METHOD_2 ''DPSscale'' (CGFloat, ''x'') (CGFloat, ''y''),
     DPS_METHOD_2 ''DPStranslate'' (CGFloat, ''x'') (CGFloat, ''y''),
     DPS_FUNCTION (Ptr (Object ''NSAffineTransform'')) ''GSCurrentCTM'',
     DPS_METHOD_1 ''GSSetCTM'' (Ptr (Object ''NSAffineTransform''), ''ctm''),
     DPS_METHOD_1 ''GSConcatCTM'' (Ptr (Object ''NSAffineTransform''), ''ctm'')]"

definition dps_paint :: "dps_macro list" where
  "dps_paint = [
     DPS_METHOD_5 ''DPSarc'' (CGFloat, ''x'') (CGFloat, ''y'') (CGFloat, ''r'') (CGFloat, ''angle1'') (CGFloat, ''angle2''),
     DPS_METHOD_5 ''DPSarcn'' (CGFloat, ''x'') (CGFloat, ''y'') (CGFloat, ''r'') (CGFloat, ''angle1'') (CGFloat, ''angle2''),
     DPS_METHOD_5 ''DPSarct'' (CGFloat, ''x1'') (CGFloat, ''y1'') (CGFloat, ''x2'') (CGFloat, ''y2'') (CGFloat, ''r''),
     DPS_METHOD ''DPSclip'',
     DPS_METHOD ''DPSclosepath'',
     DPS_METHOD_6 ''DPScurveto'' (CGFloat, ''x1'') (CGFloat, ''y1'') (CGFloat, ''x2'') (CGFloat, ''y2'') (CGFloat, ''x3'') (CGFloat, ''y3''),
     DPS_METHOD ''DPSeoclip'',
     DPS_METHOD ''DPSeofill'',
     DPS_METHOD ''DPSfill'',
     DPS_METHOD ''DPSflattenpath'',
     DPS_METHOD ''DPSinitclip'',
     DPS_METHOD_2 ''DPSlineto'' (CGFloat, ''x'') (CGFloat, ''y''),
     DPS_METHOD_2 ''DPSmoveto'' (CGFloat, ''x'') (CGFloat, ''y''),
     DPS_METHOD ''DPSnewpath'',
     DPS_METHOD_4 ''DPSpathbbox'' (Ptr CGFloat, ''llx'') (Ptr CGFloat, ''lly'') (Ptr CGFloat, ''urx'') (Ptr CGFloat, ''ury''),
     DPS_METHOD_6 ''DPSrcurveto'' (CGFloat, ''x1'') (CGFloat, ''y1'') (CGFloat, ''x2'') (CGFloat, ''y2'') (CGFloat, ''x3'') (CGFloat, ''y3''),
     DPS_METHOD_4 ''DPSrectclip'' (CGFloat, ''x'') (CGFloat, ''y'') (CGFloat, ''w'') (CGFloat, ''h''),
     DPS_METHOD_4 ''DPSrectfill'' (CGFloat, ''x'') (CGFloat, ''y'') (CGFloat, ''w'') (CGFloat, ''h''),
     DPS_METHOD_4 ''DPSrectstroke'' (CGFloat, ''x'') (CGFloat, ''y'') (CGFloat, ''w'') (CGFloat, ''h''),
     DPS_METHOD ''DPSreversepath'',
     DPS_METHOD_2 ''DPSrlineto'' (CGFloat, ''x'') (CGFloat, ''y''),
     DPS_METHOD_2 ''DPSrmoveto'' (CGFloat, ''x'') (CGFloat, ''y''),
     DPS_METHOD ''DPSstroke'',
     DPS_METHOD_1 ''DPSshfill'' (Ptr (Object ''NSDictionary''), ''shaderDictionary''),
     DPS_METHOD_1 ''GSSendBezierPath'' (Ptr (Object ''NSBezierPath''), ''path''),
     DPS_METHOD_2 ''GSRectClipList'' (Ptr (Const NSRect), ''rects'') (int_t, ''count''),
     DPS_METHOD_2 ''GSRectFillList'' (Ptr (Const NSRect), ''rects'') (int_t, ''count'')]"

definition dps_window :: "dps_macro list" where
  "dps_window = [
     DPS_METHOD_3 ''GSCurrentDevice'' (Ptr (Ptr void_t), ''device'') (Ptr int_t, ''x'') (Ptr int_t, ''y''),
     DPS_METHOD_2 ''DPScurrentoffset'' (Ptr int_t, ''x'') (Ptr int_t, ''y''),
     DPS_METHOD_3 ''GSSetDevice'' (Ptr void_t, ''device'') (int_t, ''x'') (int_t, ''y''),
     DPS_METHOD_2 ''DPSsetoffset'' (short_t, ''x'') (short_t, ''y'')]"

definition dps_ext :: "dps_macro list" where
  "dps_ext = [
     DPS_METHOD_8 ''DPScomposite'' (CGFloat, ''x'') (CGFloat, ''y'') (CGFloat, ''w'') (CGFloat, ''h'') (NSInteger, ''gstateNum'') (CGFloat, ''dx'') (CGFloat, ''dy'') (NSCompositingOperation, ''op''),
     DPS_METHOD_5 ''DPScompositerect'' (CGFloat, ''x'') (CGFloat, ''y'') (CGFloat, ''w'') (CGFloat, ''h'') (NSCompositingOperation, ''op''),
     DPS_METHOD_8 ''DPSdissolve'' (CGFloat, ''x'') (CGFloat, ''y'') (CGFloat, ''w'') (CGFloat, ''h'') (NSInteger, ''gstateNum'') (CGFloat, ''dx'') (CGFloat, ''dy'') (CGFloat, ''delta''),
     DPS_METHOD_2 ''GSDrawImage'' (NSRect, ''rect'') (Ptr void_t, ''imageref'')]"

definition dps_macros :: "dps_macro list" where
  "dps_macros = dps_color @ dps_text @ dps_gstate @ dps_gsops @ dps_matrix @ dps_paint @ dps_window @ dps_ext"

text \<open>The two client functions are written out; the variable arguments of the first become a list.\<close>

definition DPSPrintf :: "('v, 'r) cfunction" where
  "DPSPrintf = inline_fun ''DPSPrintf'' void_t [(Ptr (Const char_t), ''fmt''), (Variadic, '''')]
     (\<lambda>ctxt vs. case vs of
        fmt # rest \<Rightarrow>
          if fmt \<noteq> Null then callSlot ctxt ''DPSPrintf__'' ''DPSPrintf::'' [fmt, VaList rest] else NoOp
      | [] \<Rightarrow> Undefined)"

definition DPSWriteData :: "('v, 'r) cfunction" where
  "DPSWriteData = inline_fun ''DPSWriteData'' void_t
     [(Ptr (Const char_t), ''buf''), (unsigned_t, ''count'')]
     (\<lambda>ctxt. callSlot ctxt ''DPSWriteData__'' ''DPSWriteData::'')"

definition dps_functions :: "('v, 'r) cfunction list" where
  "dps_functions = map expand dps_macros @ [DPSPrintf, DPSWriteData]"

definition dps_function :: "string \<Rightarrow> ('v, 'r) cfunction option" where
  "dps_function name = find (\<lambda>f. fname f = name) dps_functions"

subsection \<open>The operators on the current context\<close>

text \<open>
  A body either calls an operator on the current context with some of its parameters, or is empty.
\<close>

datatype ps_body = Forward string "string list" | Empty

type_synonym ps_function = "string \<times> (ctype \<times> string) list \<times> ps_body"

definition ps_color :: "ps_function list" where
  "ps_color = [
     (''PScurrentalpha'', [(Ptr CGFloat, ''a'')], Forward ''DPScurrentalpha'' [''a'']),
     (''PScurrentcmykcolor'', [(Ptr CGFloat, ''c''), (Ptr CGFloat, ''m''), (Ptr CGFloat, ''y''), (Ptr CGFloat, ''k'')], Forward ''DPScurrentcmykcolor'' [''c'', ''m'', ''y'', ''k'']),
     (''PScurrentgray'', [(Ptr CGFloat, ''gray'')], Forward ''DPScurrentgray'' [''gray'']),
     (''PScurrenthsbcolor'', [(Ptr CGFloat, ''h''), (Ptr CGFloat, ''s''), (Ptr CGFloat, ''b'')], Forward ''DPScurrenthsbcolor'' [''h'', ''s'', ''b'']),
     (''PScurrentrgbcolor'', [(Ptr CGFloat, ''r''), (Ptr CGFloat, ''g''), (Ptr CGFloat, ''b'')], Forward ''DPScurrentrgbcolor'' [''r'', ''g'', ''b'']),
     (''PSsetalpha'', [(CGFloat, ''a'')], Forward ''DPSsetalpha'' [''a'']),
     (''PSsetcmykcolor'', [(CGFloat, ''c''), (CGFloat, ''m''), (CGFloat, ''y''), (CGFloat, ''k'')], Forward ''DPSsetcmykcolor'' [''c'', ''m'', ''y'', ''k'']),
     (''PSsetgray'', [(CGFloat, ''gray'')], Forward ''DPSsetgray'' [''gray'']),
     (''PSsethsbcolor'', [(CGFloat, ''h''), (CGFloat, ''s''), (CGFloat, ''b'')], Forward ''DPSsethsbcolor'' [''h'', ''s'', ''b'']),
     (''PSsetrgbcolor'', [(CGFloat, ''r''), (CGFloat, ''g''), (CGFloat, ''b'')], Forward ''DPSsetrgbcolor'' [''r'', ''g'', ''b'']),
     (''PScountwindowlist'', [(int_t, ''d''), (Ptr int_t, ''c'')], Empty),
     (''PSwindowlist'', [(int_t, ''d''), (int_t, ''c''), (Ptr int_t, ''array'')], Empty)]"

definition ps_text :: "ps_function list" where
  "ps_text = [
     (''PSashow'', [(CGFloat, ''x''), (CGFloat, ''y''), (Ptr (Const char_t), ''s'')], Forward ''DPSashow'' [''x'', ''y'', ''s'']),
     (''PSawidthshow'', [(CGFloat, ''cx''), (CGFloat, ''cy''), (int_t, ''c''), (CGFloat, ''ax''), (CGFloat, ''ay''), (Ptr (Const char_t), ''s'')], Forward ''DPSawidthshow'' [''cx'', ''cy'', ''c'', ''ax'', ''ay'', ''s'']),
     (''PScharpath'', [(Ptr (Const char_t), ''s''), (int_t, ''b'')], Forward ''DPScharpath'' [''s'', ''b'']),
     (''PSshow'', [(Ptr (Const char_t), ''s'')], Forward ''DPSshow'' [''s'']),
     (''PSwidthshow'', [(CGFloat, ''x''), (CGFloat, ''y''), (int_t, ''c''), (Ptr (Const char_t), ''s'')], Forward ''DPSwidthshow'' [''x'', ''y'', ''c'', ''s'']),
     (''PSxshow'', [(Ptr (Const char_t), ''s''), (Ptr (Const CGFloat), ''numarray''), (int_t, ''size'')], Forward ''DPSxshow'' [''s'', ''numarray'', ''size'']),
     (''PSxyshow'', [(Ptr (Const char_t), ''s''), (Ptr (Const CGFloat), ''numarray''), (int_t, ''size'')], Forward ''DPSxyshow'' [''s'', ''numarray'', ''size'']),
     (''PSyshow'', [(Ptr (Const char_t), ''s''), (Ptr (Const CGFloat), ''numarray''), (int_t, ''size'')], Forward ''DPSyshow'' [''s'', ''numarray'', ''size''])]"

definition ps_gstate :: "ps_function list" where
  "ps_gstate = [
     (''PSgsave'', [], Forward ''DPSgsave'' []),
     (''PSgrestore'', [], Forward ''DPSgrestore'' []),
     (''PSinitgraphics'', [], Forward ''DPSinitgraphics'' []),
     (''PSsetgstate'', [(NSInteger, ''gst'')], Forward ''DPSsetgstate'' [''gst''])]"

definition ps_gsops :: "ps_function list" where
  "ps_gsops = [
     (''PScurrentflat'', [(Ptr CGFloat, ''flatness'')], Forward ''DPScurrentflat'' [''flatness'']),
     (''PScurrentlinecap'', [(Ptr int_t, ''linecap'')], Forward ''DPScurrentlinecap'' [''linecap'']),
     (''PScurrentlinejoin'', [(Ptr int_t, ''linejoin'')], Forward ''DPScurrentlinejoin'' [''linejoin'']),
     (''PScurrentlinewidth'', [(Ptr CGFloat, ''width'')], Forward ''DPScurrentlinewidth'' [''width'']),
     (''PScurrentmiterlimit'', [(Ptr CGFloat, ''limit'')], Forward ''DPScurrentmiterlimit'' [''limit'']),
     (''PScurrentpoint'', [(Ptr CGFloat, ''x''), (Ptr CGFloat, ''y'')], Forward ''DPScurrentpoint'' [''x'', ''y'']),
     (''PScurrentstrokeadjust'', [(Ptr int_t, ''b'')], Forward ''DPScurrentstrokeadjust'' [''b'']),
     (''PSsetdash'', [(Ptr (Const CGFloat), ''pat''), (NSInteger, ''size''), (CGFloat, ''offset'')], Forward ''DPSsetdash'' [''pat'', ''size'', ''offset'']),
     (''PSsetflat'', [(CGFloat, ''flatness'')], Forward ''DPSsetflat'' [''flatness'']),
     (''PSsethalftonephase'', [(CGFloat, ''x''), (CGFloat, ''y'')], Forward ''DPSsethalftonephase'' [''x'', ''y'']),
     (''PSsetlinecap'', [(int_t, ''linecap'')], Forward ''DPSsetlinecap'' [''linecap'']),
     (''PSsetlinejoin'', [(int_t, ''linejoin'')], Forward ''DPSsetlinejoin'' [''linejoin'']),
     (''PSsetlinewidth'', [(CGFloat, ''width'')], Forward ''DPSsetlinewidth'' [''width'']),
     (''PSsetmiterlimit'', [(CGFloat, ''limit'')], Forward ''DPSsetmiterlimit'' [''limit'']),
     (''PSsetstrokeadjust'', [(int_t, ''b'')], Forward ''DPSsetstrokeadjust'' [''b''])]"

definition ps_matrix :: "ps_function list" where
  "ps_matrix = [
     (''PSconcat'', [(Ptr (Const CGFloat), ''m'')], Forward ''DPSconcat'' [''m'']),
     (''PSinitmatrix'', [], Forward ''DPSinitmatrix'' []),
     (''PSrotate'', [(CGFloat, ''angle'')], Forward ''DPSrotate'' [''angle'']),
     (''PSscale'', [(CGFloat, ''x''), (CGFloat, ''y'')], Forward ''DPSscale'' [''x'', ''y'']),
     (''PStranslate'', [(CGFloat, ''x''), (CGFloat, ''y'')], Forward ''DPStranslate'' [''x'', ''y''])]"

definition ps_paint :: "ps_function list" where
  "ps_paint = [
     (''PSarc'', [(CGFloat, ''x''), (CGFloat, ''y''), (CGFloat, ''r''), (CGFloat, ''angle1''), (CGFloat, ''angle2'')], Forward ''DPSarc'' [''x'', ''y'', ''r'', ''angle1'', ''angle2'']),
     (''PSarcn'', [(CGFloat, ''x''), (CGFloat, ''y''), (CGFloat, ''r''), (CGFloat, ''angle1''), (CGFloat, ''angle2'')], Forward ''DPSarcn'' [''x'', ''y'', ''r'', ''angle1'', ''angle2'']),
     (''PSarct'', [(CGFloat, ''x1''), (CGFloat, ''y1''), (CGFloat, ''x2''), (CGFloat, ''y2''), (CGFloat, ''r'')], Forward ''DPSarct'' [''x1'', ''y1'', ''x2'', ''y2'', ''r'']),
     (''PSclip'', [], Forward ''DPSclip'' []),
     (''PSclosepath'', [], Forward ''DPSclosepath'' []),
     (''PScurveto'', [(CGFloat, ''x1''), (CGFloat, ''y1''), (CGFloat, ''x2''), (CGFloat, ''y2''), (CGFloat, ''x3''), (CGFloat, ''y3'')], Forward ''DPScurveto'' [''x1'', ''y1'', ''x2'', ''y2'', ''x3'', ''y3'']),
     (''PSeoclip'', [], Forward ''DPSeoclip'' []),
     (''PSeofill'', [], Forward ''DPSeofill'' []),
     (''PSfill'', [], Forward ''DPSfill'' []),
     (''PSflattenpath'', [], Forward ''DPSflattenpath'' []),
     (''PSinitclip'', [], Forward ''DPSinitclip'' []),
     (''PSlineto'', [(CGFloat, ''x''), (CGFloat, ''y'')], Forward ''DPSlineto'' [''x'', ''y'']),
     (''PSmoveto'', [(CGFloat, ''x''), (CGFloat, ''y'')], Forward ''DPSmoveto'' [''x'', ''y'']),
     (''PSnewpath'', [], Forward ''DPSnewpath'' []),
     (''PSpathbbox'', [(Ptr CGFloat, ''llx''), (Ptr CGFloat, ''lly''), (Ptr CGFloat, ''urx''), (Ptr CGFloat, ''ury'')], Forward ''DPSpathbbox'' [''llx'', ''lly'', ''urx'', ''ury'']),
     (''PSrcurveto'', [(CGFloat, ''x1''), (CGFloat, ''y1''), (CGFloat, ''x2''), (CGFloat, ''y2''), (CGFloat, ''x3''), (CGFloat, ''y3'')], Forward ''DPSrcurveto'' [''x1'', ''y1'', ''x2'', ''y2'', ''x3'', ''y3'']),
     (''PSrectclip'', [(CGFloat, ''x''), (CGFloat, ''y''), (CGFloat, ''w''), (CGFloat, ''h'')], Forward ''DPSrectclip'' [''x'', ''y'', ''w'', ''h'']),
     (''PSrectfill'', [(CGFloat, ''x''), (CGFloat, ''y''), (CGFloat, ''w''), (CGFloat, ''h'')], Forward ''DPSrectfill'' [''x'', ''y'', ''w'', ''h'']),
     (''PSrectstroke'', [(CGFloat, ''x''), (CGFloat, ''y''), (CGFloat, ''w''), (CGFloat, ''h'')], Forward ''DPSrectstroke'' [''x'', ''y'', ''w'', ''h'']),
     (''PSreversepath'', [], Forward ''DPSreversepath'' []),
     (''PSrlineto'', [(CGFloat, ''x''), (CGFloat, ''y'')], Forward ''DPSrlineto'' [''x'', ''y'']),
     (''PSrmoveto'', [(CGFloat, ''x''), (CGFloat, ''y'')], Forward ''DPSrmoveto'' [''x'', ''y'']),
     (''PSstroke'', [], Forward ''DPSstroke'' []),
     (''PSshfill'', [(Ptr (Object ''NSDictionary''), ''shaderDictionary'')], Forward ''DPSshfill'' [''shaderDictionary''])]"

definition ps_ext :: "ps_function list" where
  "ps_ext = [
     (''PScomposite'', [(CGFloat, ''x''), (CGFloat, ''y''), (CGFloat, ''w''), (CGFloat, ''h''), (NSInteger, ''gstateNum''), (CGFloat, ''dx''), (CGFloat, ''dy''), (NSCompositingOperation, ''op'')], Forward ''DPScomposite'' [''x'', ''y'', ''w'', ''h'', ''gstateNum'', ''dx'', ''dy'', ''op'']),
     (''PScompositerect'', [(CGFloat, ''x''), (CGFloat, ''y''), (CGFloat, ''w''), (CGFloat, ''h''), (NSCompositingOperation, ''op'')], Forward ''DPScompositerect'' [''x'', ''y'', ''w'', ''h'', ''op'']),
     (''PSdissolve'', [(CGFloat, ''x''), (CGFloat, ''y''), (CGFloat, ''w''), (CGFloat, ''h''), (NSInteger, ''gstateNum''), (CGFloat, ''dx''), (CGFloat, ''dy''), (CGFloat, ''delta'')], Forward ''DPSdissolve'' [''x'', ''y'', ''w'', ''h'', ''gstateNum'', ''dx'', ''dy'', ''delta''])]"

definition ps_client :: "ps_function list" where
  "ps_client = [
     (''PSPrintf'', [(Ptr (Const char_t), ''fmt''), (va_list, ''args'')], Forward ''DPSPrintf'' [''fmt'', ''args'']),
     (''PSWriteData'', [(Ptr (Const char_t), ''buf''), (unsigned_t, ''count'')], Forward ''DPSWriteData'' [''buf'', ''count'']),
     (''PSWait'', [], Empty)]"

definition ps_functions :: "ps_function list" where
  "ps_functions = ps_color @ ps_text @ ps_gstate @ ps_gsops @ ps_matrix @ ps_paint @ ps_ext @ ps_client"

fun run_ps ::
  "ps_function \<Rightarrow> ('v, 'r) gcontext option \<Rightarrow> 'v cval list \<Rightarrow> 'r call" where
  "run_ps (name, ps, Empty) current vs = NoOp"
| "run_ps (name, ps, Forward callee actuals) current vs =
     (case dps_function callee of
        None \<Rightarrow> Undefined
      | Some f \<Rightarrow> body f current (map (\<lambda>a. the (map_of (zip (map snd ps) vs) a)) actuals))"

end
