(* ===== verification/GraphicsDispatch.thy ===== *)
theory GraphicsDispatch
  imports GraphicsOps
begin

text \<open>
  What the operators do: the two definitions of the macros agree on contexts with an initialised
  table, the table has a member of the right type for each of them, and the operators without a
  context are the ones with a context applied to the current one, \<open>PSPrintf\<close> excepted.
\<close>

subsection \<open>Members and selectors\<close>

fun name_of :: "dps_macro \<Rightarrow> string" where
  "name_of (DPS_FUNCTION t name) = name"
| "name_of (DPS_METHOD name) = name"
| "name_of (DPS_METHOD_1 name a) = name"
| "name_of (DPS_METHOD_2 name a b) = name"
| "name_of (DPS_METHOD_3 name a b c) = name"
| "name_of (DPS_METHOD_4 name a b c d) = name"
| "name_of (DPS_METHOD_5 name a b c d e) = name"
| "name_of (DPS_METHOD_6 name a b c d e f) = name"
| "name_of (DPS_METHOD_8 name a b c d e f g h) = name"

fun types_of :: "dps_macro \<Rightarrow> (ctype \<times> string) list \<times> ctype" where
  "types_of (DPS_FUNCTION t name) = ([], t)"
| "types_of (DPS_METHOD name) = ([], void_t)"
| "types_of (DPS_METHOD_1 name a) = ([a], void_t)"
| "types_of (DPS_METHOD_2 name a b) = ([a, b], void_t)"
| "types_of (DPS_METHOD_3 name a b c) = ([a, b, c], void_t)"
| "types_of (DPS_METHOD_4 name a b c d) = ([a, b, c, d], void_t)"
| "types_of (DPS_METHOD_5 name a b c d e) = ([a, b, c, d, e], void_t)"
| "types_of (DPS_METHOD_6 name a b c d e f) = ([a, b, c, d, e, f], void_t)"
| "types_of (DPS_METHOD_8 name a b c d e f g h) = ([a, b, c, d, e, f, g, h], void_t)"

text \<open>Pasting one underscore for every argument names the member, one colon each the selector.\<close>

definition slot_of :: "dps_macro \<Rightarrow> string" where
  "slot_of m = name_of m @ replicate (length (fst (types_of m))) (CHR ''_'')"

definition selector_of :: "dps_macro \<Rightarrow> string" where
  "selector_of m = name_of m @ replicate (length (fst (types_of m))) (CHR '':'')"

named_theorems op_lists

lemmas op_defs = name_of.simps types_of.simps slot_of_def selector_of_def

lemma expand_parts:
  "fname (expand m) = name_of m" "params (expand m) = fst (types_of m)"
  "result (expand m) = snd (types_of m)"
  "body (expand m) ctxt vs = callSlot ctxt (slot_of m) (selector_of m) vs"
  "body (expand_msc rt m) ctxt vs = message rt ctxt (selector_of m) vs"
  by (cases m; simp add: slot_of_def selector_of_def numeral_eq_Suc)+

subsection \<open>The lists, section by section\<close>

text \<open>The members and selectors the macros paste are the ones the table is filled with.\<close>

abbreviation "filled ms \<equiv> map (\<lambda>m. (slot_of m, selector_of m)) ms"

lemma filled_sections:
  "filled dps_color = init_color" "filled dps_text = init_text" "filled dps_gstate = init_gstate"
  "filled dps_gsops = init_gsops" "filled dps_matrix = init_matrix" "filled dps_paint = init_paint"
  "filled dps_window = init_window" "filled dps_ext = init_ext"
  unfolding dps_color_def dps_text_def dps_gstate_def dps_gsops_def dps_matrix_def dps_paint_def
    dps_window_def dps_ext_def init_color_def init_text_def init_gstate_def init_gsops_def
    init_matrix_def init_paint_def init_window_def init_ext_def
  by (simp_all add: op_defs)

lemma filled_all: "init_table = filled dps_macros @ init_client @ init_nsg"
  by (simp only: init_table_def dps_macros_def map_append filled_sections append_assoc)

lemma distinct_names: "distinct (map (\<lambda>(slot, sel). takeWhile (\<lambda>c. c \<noteq> CHR ''_'') slot) init_table)"
  by (simp add: init_table_def init_color_def init_text_def init_gstate_def init_gsops_def
      init_matrix_def init_paint_def init_window_def init_ext_def init_client_def init_nsg_def)

lemma distinct_slots: "distinct (map fst init_table)"
proof -
  have "map (\<lambda>(slot, sel). takeWhile (\<lambda>c. c \<noteq> CHR ''_'') slot) init_table =
      map (takeWhile (\<lambda>c. c \<noteq> CHR ''_'')) (map fst init_table)"
    by (simp add: case_prod_unfold)
  then show ?thesis using distinct_names by (metis distinct_map)
qed

lemma plain_names: "list_all (\<lambda>m. CHR ''_'' \<notin> set (name_of m)) dps_macros"
  by (simp add: dps_macros_def dps_color_def dps_text_def dps_gstate_def dps_gsops_def
      dps_matrix_def dps_paint_def dps_window_def dps_ext_def)

lemma takeWhile_slot:
  "CHR ''_'' \<notin> set (name_of m) \<Longrightarrow> takeWhile (\<lambda>c. c \<noteq> CHR ''_'') (slot_of m) = name_of m"
  unfolding slot_of_def
  by (subst takeWhile_append2) (auto simp: takeWhile_replicate)

lemma function_names:
  "map fname (dps_functions :: ('v, 'r) cfunction list) =
     map (\<lambda>(slot, sel). takeWhile (\<lambda>c. c \<noteq> CHR ''_'') slot) (filled dps_macros @ init_client)"
proof -
  have "map (\<lambda>m. takeWhile (\<lambda>c. c \<noteq> CHR ''_'') (slot_of m)) dps_macros = map name_of dps_macros"
    using plain_names by (intro map_cong) (auto simp: list_all_iff takeWhile_slot)
  then show ?thesis
    by (simp add: dps_functions_def comp_def expand_parts DPSPrintf_def DPSWriteData_def init_client_def)
qed

lemma distinct_functions: "distinct (map fname (dps_functions :: ('v, 'r) cfunction list))"
  using distinct_names unfolding function_names filled_all append_assoc [symmetric]
  by (subst (asm) map_append) (simp only: distinct_append)

lemma find_distinct: "distinct (map f xs) \<Longrightarrow> x \<in> set xs \<Longrightarrow> find (\<lambda>y. f y = f x) xs = Some x"
  by (induction xs) auto

lemma dps_function_found: "f \<in> set dps_functions \<Longrightarrow> dps_function (fname f) = Some f"
  unfolding dps_function_def by (rule find_distinct[OF distinct_functions])

lemma macro_found: "m \<in> set dps_macros \<Longrightarrow> dps_function (name_of m) = Some (expand m)"
  using dps_function_found[of "expand m"] by (simp add: dps_functions_def expand_parts)

subsection \<open>Dispatch\<close>

lemma table_lookup:
  assumes "(slot, sel) \<in> set init_table"
  shows "map_of (methodTable rt cls) slot = Some (rt cls sel)"
proof -
  have "map_of (map (\<lambda>(slot, sel). (slot, rt cls sel)) xs) slot = map_option (rt cls) (map_of xs slot)"
    for xs by (induction xs) auto
  moreover have "map_of init_table slot = Some sel"
    using assms distinct_slots by (simp add: map_of_eq_Some_iff)
  ultimately show ?thesis by (simp add: methodTable_def)
qed

text \<open>A context whose table was made for its class.\<close>

definition tabled :: "('v, 'r) runtime \<Rightarrow> ('v, 'r) gcontext \<Rightarrow> bool" where
  "tabled rt c \<longleftrightarrow> methods c = methodTable rt (isa c)"

lemma slot_message:
  "tabled rt c \<Longrightarrow> (slot, sel) \<in> set init_table \<Longrightarrow>
     callSlot (Some c) slot sel vs = message rt (Some c) sel vs"
  by (simp add: callSlot_def message_def tabled_def table_lookup)

lemma macro_in_table: "m \<in> set dps_macros \<Longrightarrow> (slot_of m, selector_of m) \<in> set init_table"
  unfolding filled_all by auto

text \<open>C21: On a context whose table was initialised from its class, every operator defined through the
  method table runs exactly the method the message of the other definition of the macros would
  run, with the same receiver, selector and arguments. On a null context they differ: calling
  through the table is undefined, the message does nothing.\<close>

theorem dps_dispatch:
  assumes "m \<in> set dps_macros" and "tabled rt c"
  shows "body (expand m) (Some c) vs = body (expand_msc rt m) (Some c) vs \<and>
    body (expand m) None vs = Undefined \<and> body (expand_msc rt m) None vs = NoOp"
  using slot_message[OF assms(2) macro_in_table[OF assms(1)]]
  by (simp add: expand_parts) (simp add: callSlot_def message_def)

theorem dps_dispatch_witness:
  "body (expand (DPS_METHOD_1 ''DPSsetgray'' (CGFloat, ''gray'')))
      (Some \<lparr>ident = 3, isa = 0, methods = methodTable (\<lambda>cls sel i s vs. (sel, i, s, vs)) 0\<rparr>) [Val 5] =
    Ran (''DPSsetgray:'', 3, ''DPSsetgray:'', [Val 5 :: nat cval])"
proof -
  let ?rt = "\<lambda>(cls :: nat) sel (i :: nat) (s :: string) (vs :: nat cval list). (sel :: string, i, s, vs)"
  have "DPS_METHOD_1 ''DPSsetgray'' (CGFloat, ''gray'') \<in> set dps_macros"
    by (simp add: dps_macros_def dps_color_def)
  from dps_dispatch[THEN conjunct1, OF this, of ?rt "\<lparr>ident = 3, isa = 0, methods = methodTable ?rt 0\<rparr>" "[Val 5]"]
  show ?thesis by (simp add: tabled_def message_def)
qed

subsection \<open>Types\<close>

abbreviation "typed ms \<equiv> map (\<lambda>m. (slot_of m, map fst (fst (types_of m)), snd (types_of m))) ms"
abbreviation "proto_of ms \<equiv>
  map (\<lambda>m. (name_of m, (Ptr (Object ''NSGraphicsContext''), ''ctxt'') # fst (types_of m), snd (types_of m))) ms"

lemma typed_sections:
  "typed dps_color = slots_color" "typed dps_text = slots_text" "typed dps_gstate = slots_gstate"
  "typed dps_gsops = slots_gsops" "typed dps_matrix = slots_matrix"
  "set (typed dps_paint) = insert (last slots_nsg) (set slots_paint)"
  "typed dps_window = slots_window" "typed dps_ext = slots_ext"
  unfolding dps_color_def dps_text_def dps_gstate_def dps_gsops_def dps_matrix_def dps_paint_def
    dps_window_def dps_ext_def slots_color_def slots_text_def slots_gstate_def slots_gsops_def
    slots_matrix_def slots_paint_def slots_window_def slots_ext_def slots_nsg_def
  by (simp_all add: op_defs insert_commute)

lemma proto_sections:
  "proto_of dps_color = dps_proto_color" "proto_of dps_text = dps_proto_text"
  "proto_of dps_gstate = dps_proto_gstate" "proto_of dps_gsops = dps_proto_gsops"
  "proto_of dps_matrix = dps_proto_matrix" "proto_of dps_paint = dps_proto_paint"
  "proto_of dps_window = dps_proto_window" "proto_of dps_ext = dps_proto_ext"
  unfolding dps_color_def dps_text_def dps_gstate_def dps_gsops_def dps_matrix_def dps_paint_def
    dps_window_def dps_ext_def dps_proto_color_def dps_proto_text_def dps_proto_gstate_def
    dps_proto_gsops_def dps_proto_matrix_def dps_proto_paint_def dps_proto_window_def dps_proto_ext_def
  by (simp_all add: op_defs)

text \<open>Operators and members of the table.\<close>

lemma operators_and_members:
  "set (typed dps_macros) \<subseteq> set gsMethodTable"
  "proto_of dps_macros @ dps_proto_client = dps_prototypes"
  "set (map fst init_table) = set (map fst gsMethodTable)" "distinct (map fst init_table)"
proof -
  show "set (typed dps_macros) \<subseteq> set gsMethodTable"
    using typed_sections by (simp only: dps_macros_def gsMethodTable_def map_append set_append)
      (auto simp: slots_nsg_def)
  show "proto_of dps_macros @ dps_proto_client = dps_prototypes"
    by (simp only: dps_macros_def dps_prototypes_def map_append proto_sections append_assoc)
  have "map fst (typed ms) = map fst (filled ms)" for ms by simp
  then have "set (map fst (typed dps_paint)) = set (map fst init_paint)"
    using filled_sections(6) by metis
  then have paint: "insert (fst (last slots_nsg)) (fst ` set slots_paint) = fst ` set init_paint"
    using typed_sections(6) by (metis image_insert set_map)
  have "map fst slots_color = map fst init_color" "map fst slots_text = map fst init_text"
    "map fst slots_gstate = map fst init_gstate" "map fst slots_gsops = map fst init_gsops"
    "map fst slots_matrix = map fst init_matrix" "map fst slots_window = map fst init_window"
    "map fst slots_ext = map fst init_ext"
    by (simp_all only: typed_sections [symmetric] filled_sections [symmetric] map_map comp_def fst_conv)
  moreover have "map fst slots_client = map fst init_client"
    "map fst slots_nsg = map fst init_nsg @ [fst (last slots_nsg)]"
    by (simp_all add: slots_client_def init_client_def slots_nsg_def init_nsg_def)
  ultimately show "set (map fst init_table) = set (map fst gsMethodTable)"
    using paint by (simp only: init_table_def gsMethodTable_def map_append set_append set_map) auto
qed (rule distinct_slots)

subsection \<open>Declarations\<close>

text \<open>The members whose methods are declared with another type.\<close>

definition misdeclared :: "string list" where
  "misdeclared = [''GSSetFillColorspace_'', ''GSSetStrokeColorspace_'', ''GSSetFillColor_'',
     ''GSSetStrokeColor_'', ''GSSetFont_'']"

definition declared_as :: "slot list \<Rightarrow> slot \<Rightarrow> string \<times> string \<Rightarrow> bool" where
  "declared_as ops = (\<lambda>(slot, ts, r) (slot', sel).
     slot' = slot \<and> ((sel, ts, r) \<in> set ops \<longleftrightarrow> slot \<notin> set misdeclared))"

lemma declared_sections:
  "list_all2 (declared_as ops_color) slots_color init_color"
  "list_all2 (declared_as ops_text) slots_text init_text"
  "list_all2 (declared_as ops_gstate) slots_gstate init_gstate"
  "list_all2 (declared_as ops_gsops) slots_gsops init_gsops"
  "list_all2 (declared_as ops_matrix) slots_matrix init_matrix"
  "list_all2 (declared_as ops_window) slots_window init_window"
  "list_all2 (declared_as ops_ext) slots_ext init_ext"
  "list_all2 (declared_as ops_client) slots_client init_client"
  unfolding ops_color_def ops_text_def ops_gstate_def ops_gsops_def ops_matrix_def ops_window_def
    ops_ext_def ops_client_def slots_color_def slots_text_def slots_gstate_def slots_gsops_def
    slots_matrix_def slots_window_def slots_ext_def slots_client_def init_color_def init_text_def
    init_gstate_def init_gsops_def init_matrix_def init_window_def init_ext_def init_client_def
  by (simp_all add: declared_as_def misdeclared_def)

lemma declared_shading:
  "list_all2 (declared_as ops_paint) slots_paint
     (filter (\<lambda>(slot, sel). slot \<noteq> ''DPSshfill_'') init_paint)"
  "list_all2 (declared_as ops_nsg) (butlast slots_nsg) init_nsg"
  "declared_as ops_paint (last slots_nsg) (''DPSshfill_'', ''DPSshfill:'')"
  "(''DPSshfill_'', ''DPSshfill:'') \<in> set init_paint"
  unfolding ops_paint_def slots_paint_def init_paint_def ops_nsg_def slots_nsg_def init_nsg_def
  by (simp_all add: declared_as_def misdeclared_def)

lemma set_last: "xs \<noteq> [] \<Longrightarrow> set xs = insert (last xs) (set (butlast xs))"
  by (induction xs) auto

lemma declared_in:
  assumes "list_all2 (declared_as ops) slots inits" and "set inits \<subseteq> set init_table"
    and "set ops \<subseteq> set declared_ops" and "(slot, ts, r) \<in> set slots"
  shows "\<exists>sel. (slot, sel) \<in> set init_table \<and>
    (slot \<notin> set misdeclared \<longrightarrow> (sel, ts, r) \<in> set declared_ops)"
proof -
  obtain y where "y \<in> set inits" "declared_as ops (slot, ts, r) y"
    using assms(1,4) by (metis in_set_conv_nth list_all2_conv_all_nth)
  then show ?thesis
    using assms(2,3) by (cases y) (auto simp: declared_as_def)
qed

lemma section_subsets:
  "set init_color \<subseteq> set init_table" "set init_text \<subseteq> set init_table" "set init_gstate \<subseteq> set init_table"
  "set init_gsops \<subseteq> set init_table" "set init_matrix \<subseteq> set init_table" "set init_paint \<subseteq> set init_table"
  "set init_window \<subseteq> set init_table" "set init_ext \<subseteq> set init_table"
  "set init_client \<subseteq> set init_table" "set init_nsg \<subseteq> set init_table"
  "set ops_color \<subseteq> set declared_ops" "set ops_text \<subseteq> set declared_ops"
  "set ops_gstate \<subseteq> set declared_ops" "set ops_gsops \<subseteq> set declared_ops"
  "set ops_matrix \<subseteq> set declared_ops" "set ops_paint \<subseteq> set declared_ops"
  "set ops_window \<subseteq> set declared_ops" "set ops_ext \<subseteq> set declared_ops"
  "set ops_client \<subseteq> set declared_ops" "set ops_nsg \<subseteq> set declared_ops"
  unfolding init_table_def declared_ops_def by auto

lemma filled_paint: "set (filter (\<lambda>(slot, sel). slot \<noteq> ''DPSshfill_'') init_paint) \<subseteq> set init_table"
  using section_subsets(6) by auto

lemma declared_all:
  assumes "(slot, ts, r) \<in> set gsMethodTable"
  shows "\<exists>sel. (slot, sel) \<in> set init_table \<and>
    (slot \<notin> set misdeclared \<longrightarrow> (sel, ts, r) \<in> set declared_ops)"
proof -
  have nsg: "slots_nsg \<noteq> []" by (simp add: slots_nsg_def)
  then have "set slots_nsg = insert (last slots_nsg) (set (butlast slots_nsg))"
    by (rule set_last)
  with assms have "(slot, ts, r) \<in> set slots_color \<or> (slot, ts, r) \<in> set slots_text \<or>
    (slot, ts, r) \<in> set slots_gstate \<or>
    (slot, ts, r) \<in> set slots_gsops \<or> (slot, ts, r) \<in> set slots_matrix \<or>
    (slot, ts, r) \<in> set slots_paint \<or> (slot, ts, r) \<in> set slots_window \<or>
    (slot, ts, r) \<in> set slots_ext \<or> (slot, ts, r) \<in> set slots_client \<or>
    (slot, ts, r) = last slots_nsg \<or> (slot, ts, r) \<in> set (butlast slots_nsg)"
    by (simp only: gsMethodTable_def set_append Un_iff insert_iff disj_assoc)
  then show ?thesis
  proof (elim disjE)
    assume "(slot, ts, r) = last slots_nsg"
    then have "declared_as ops_paint (slot, ts, r) (''DPSshfill_'', ''DPSshfill:'')"
      using declared_shading(3) by simp
    moreover have "(''DPSshfill_'', ''DPSshfill:'') \<in> set init_table"
      using declared_shading(4) section_subsets(6) by blast
    ultimately show ?thesis
      using section_subsets(16) by (auto simp: declared_as_def)
  qed (erule declared_in[OF declared_sections(1) section_subsets(1,11)],
       erule declared_in[OF declared_sections(2) section_subsets(2,12)],
       erule declared_in[OF declared_sections(3) section_subsets(3,13)],
       erule declared_in[OF declared_sections(4) section_subsets(4,14)],
       erule declared_in[OF declared_sections(5) section_subsets(5,15)],
       erule declared_in[OF declared_shading(1) filled_paint section_subsets(16)],
       erule declared_in[OF declared_sections(6) section_subsets(7,17)],
       erule declared_in[OF declared_sections(7) section_subsets(8,18)],
       erule declared_in[OF declared_sections(8) section_subsets(9,19)],
       erule declared_in[OF declared_shading(2) section_subsets(10,20)])
qed

lemma undeclared:
  "(''GSSetFillColorspace:'', [Ptr (Object ''NSDictionary'')], void_t) \<notin> set declared_ops"
  "(''GSSetStrokeColorspace:'', [Ptr (Object ''NSDictionary'')], void_t) \<notin> set declared_ops"
  "(''GSSetFillColor:'', [Ptr CGFloat], void_t) \<notin> set declared_ops"
  "(''GSSetStrokeColor:'', [Ptr CGFloat], void_t) \<notin> set declared_ops"
  "(''GSSetFont:'', [Ptr (Object ''NSFont'')], void_t) \<notin> set declared_ops"
  by (simp_all add: declared_ops_def ops_color_def ops_text_def ops_gstate_def ops_gsops_def
      ops_matrix_def ops_paint_def ops_window_def ops_ext_def ops_client_def ops_nsg_def)

text \<open>The methods of the table are declared in the class at the type of their member, with exactly
  five exceptions, which set colour spaces, colours and fonts: they are called with an object or a
  pointer to mutable numbers where the method is declared with a \<open>void\<close> or \<open>const\<close> pointer.\<close>

lemma misdeclared_methods:
  "{slot. \<exists>ts r sel. (slot, ts, r) \<in> set gsMethodTable \<and> (slot, sel) \<in> set init_table \<and>
      (sel, ts, r) \<notin> set declared_ops} = set misdeclared" (is "?L = ?R")
proof
  show "?L \<subseteq> ?R"
  proof
    fix slot assume "slot \<in> ?L"
    then obtain ts r sel where s: "(slot, ts, r) \<in> set gsMethodTable" "(slot, sel) \<in> set init_table"
        "(sel, ts, r) \<notin> set declared_ops" by blast
    obtain sel' where sel': "(slot, sel') \<in> set init_table"
        "slot \<notin> ?R \<longrightarrow> (sel', ts, r) \<in> set declared_ops"
      using declared_all[OF s(1)] by blast
    then have "sel' = sel"
      using s(2) distinct_slots by (simp add: eq_key_imp_eq_value)
    then show "slot \<in> ?R" using sel'(2) s(3) by blast
  qed
  have "\<exists>ts r sel. (slot, ts, r) \<in> set gsMethodTable \<and> (slot, sel) \<in> set init_table \<and>
      (sel, ts, r) \<notin> set declared_ops"
    if "(slot, ts, r) \<in> set slots_color \<union> set slots_text" "(slot, sel) \<in> set init_color \<union> set init_text"
      "(sel, ts, r) \<notin> set declared_ops" for slot ts r sel
    using that by (auto simp: gsMethodTable_def init_table_def)
  note found = this
  show "?R \<subseteq> ?L"
  proof
    fix slot assume "slot \<in> ?R"
    then consider "slot = ''GSSetFillColorspace_''" | "slot = ''GSSetStrokeColorspace_''"
      | "slot = ''GSSetFillColor_''" | "slot = ''GSSetStrokeColor_''" | "slot = ''GSSetFont_''"
      unfolding misdeclared_def by auto
    then show "slot \<in> ?L"
    proof cases
      case 1
      show ?thesis unfolding 1 mem_Collect_eq
        by (rule found[of _ "[Ptr (Object ''NSDictionary'')]" void_t "''GSSetFillColorspace:''"])
           (simp_all add: slots_color_def slots_text_def init_color_def init_text_def undeclared)
    next
      case 2
      show ?thesis unfolding 2 mem_Collect_eq
        by (rule found[of _ "[Ptr (Object ''NSDictionary'')]" void_t "''GSSetStrokeColorspace:''"])
           (simp_all add: slots_color_def slots_text_def init_color_def init_text_def undeclared)
    next
      case 3
      show ?thesis unfolding 3 mem_Collect_eq
        by (rule found[of _ "[Ptr CGFloat]" void_t "''GSSetFillColor:''"])
           (simp_all add: slots_color_def slots_text_def init_color_def init_text_def undeclared)
    next
      case 4
      show ?thesis unfolding 4 mem_Collect_eq
        by (rule found[of _ "[Ptr CGFloat]" void_t "''GSSetStrokeColor:''"])
           (simp_all add: slots_color_def slots_text_def init_color_def init_text_def undeclared)
    next
      case 5
      show ?thesis unfolding 5 mem_Collect_eq
        by (rule found[of _ "[Ptr (Object ''NSFont'')]" void_t "''GSSetFont:''"])
           (simp_all add: slots_color_def slots_text_def init_color_def init_text_def undeclared)
    qed
  qed
qed

text \<open>C22: Every operator calls the method table through a member the table has, at exactly the type of
  that member, and its prototype in the header is the function the macro defines; the table is filled
  in every member and in no other; and the methods it is filled from are declared at the types of
  their members, with exactly five exceptions.\<close>

theorem dps_types:
  "set (typed dps_macros) \<subseteq> set gsMethodTable \<and>
   proto_of dps_macros @ dps_proto_client = dps_prototypes \<and>
   set (map fst init_table) = set (map fst gsMethodTable) \<and> distinct (map fst init_table) \<and>
   {slot. \<exists>ts r sel. (slot, ts, r) \<in> set gsMethodTable \<and> (slot, sel) \<in> set init_table \<and>
      (sel, ts, r) \<notin> set declared_ops} = set misdeclared"
  by (intro conjI operators_and_members misdeclared_methods)

end
