(* ===== verification/GraphicsCurrent.thy ===== *)
theory GraphicsCurrent
  imports GraphicsDispatch
begin

text \<open>
  The operators without a context, and the current context they use
  (\<open>Source/NSGraphicsContext.m\<close>): the context of the thread, the stack of contexts of
  \<open>saveGraphicsState\<close>, and the table of method tables a new context takes its own from.
\<close>

subsection \<open>Forwarding\<close>

text \<open>A function that hands all its parameters, in their order, to the operator of the same name.\<close>

definition forwards :: "dps_macro list \<Rightarrow> ps_function \<Rightarrow> bool" where
  "forwards ms = (\<lambda>(name, ps, b).
     (\<exists>m \<in> set ms. name_of m = CHR ''D'' # name \<and> fst (types_of m) = ps) \<and>
     b = Forward (CHR ''D'' # name) (map snd ps) \<and> distinct (map snd ps))"

lemma forward_sections:
  "list_all (\<lambda>p. snd (snd p) = Empty \<or> forwards dps_color p) ps_color"
  "list_all (\<lambda>p. snd (snd p) = Empty \<or> forwards dps_text p) ps_text"
  "list_all (\<lambda>p. snd (snd p) = Empty \<or> forwards dps_gstate p) ps_gstate"
  "list_all (\<lambda>p. snd (snd p) = Empty \<or> forwards dps_gsops p) ps_gsops"
  "list_all (\<lambda>p. snd (snd p) = Empty \<or> forwards dps_matrix p) ps_matrix"
  "list_all (\<lambda>p. snd (snd p) = Empty \<or> forwards dps_ext p) ps_ext"
  unfolding dps_color_def dps_text_def dps_gstate_def dps_gsops_def dps_matrix_def dps_ext_def
    ps_color_def ps_text_def ps_gstate_def ps_gsops_def ps_matrix_def ps_ext_def
  by (simp_all add: forwards_def)

lemma forward_paint: "list_all (forwards dps_paint) ps_paint"
  unfolding dps_paint_def ps_paint_def by (simp add: forwards_def)

lemma forwards_mono: "forwards ms p \<Longrightarrow> set ms \<subseteq> set ms' \<Longrightarrow> forwards ms' p"
  unfolding forwards_def by (cases p) blast

lemma forward_all:
  assumes "p \<in> set ps_functions"
  shows "snd (snd p) = Empty \<or> forwards dps_macros p \<or> p \<in> set ps_client"
proof -
  have sub: "set dps_color \<subseteq> set dps_macros" "set dps_text \<subseteq> set dps_macros"
    "set dps_gstate \<subseteq> set dps_macros" "set dps_gsops \<subseteq> set dps_macros"
    "set dps_matrix \<subseteq> set dps_macros" "set dps_paint \<subseteq> set dps_macros"
    "set dps_ext \<subseteq> set dps_macros"
    unfolding dps_macros_def by auto
  show ?thesis
    using assms forward_sections forward_paint unfolding ps_functions_def set_append Un_iff list_all_iff
    by (elim disjE) (use forwards_mono sub in blast)+
qed

lemma actuals_in_order:
  assumes "distinct xs" and "length vs = length xs"
  shows "map (\<lambda>a. the (map_of (zip xs vs) a)) xs = vs"
  using assms by (intro nth_equalityI) (simp_all add: map_of_zip_nth)

lemma client_found:
  "dps_function ''DPSPrintf'' = Some DPSPrintf" "dps_function ''DPSWriteData'' = Some DPSWriteData"
  using dps_function_found[of DPSPrintf] dps_function_found[of DPSWriteData]
  by (simp_all add: dps_functions_def) (simp_all add: DPSPrintf_def DPSWriteData_def)

text \<open>An operator without a context has the parameters of the operator with a context of the same
  name and is that operator on the current context with the same arguments in the same order;
  without a current context it is undefined.\<close>

lemma ps_on_current:
  fixes vs :: "'v cval list" and ctxt :: "('v, 'r) gcontext option"
  assumes "(name, ps, Forward callee actuals) \<in> set ps_functions" and "callee \<noteq> ''DPSPrintf''"
    and "length vs = length ps"
  shows "\<exists>f. dps_function (CHR ''D'' # name) = Some f \<and> params f = ps \<and>
    run_ps (name, ps, Forward callee actuals) ctxt vs = body f ctxt vs \<and>
    run_ps (name, ps, Forward callee actuals) None vs = (Undefined :: 'r call)"
proof -
  let ?p = "(name, ps, Forward callee actuals)"
  have "\<exists>f :: ('v, 'r) cfunction. dps_function (CHR ''D'' # name) = Some f \<and> params f = ps \<and>
      callee = CHR ''D'' # name \<and> actuals = map snd ps \<and> distinct (map snd ps) \<and>
      (\<forall>vs. body f None vs = Undefined)"
  proof (cases "?p \<in> set ps_client")
    case True
    then have "?p = (''PSWriteData'', [(Ptr (Const char_t), ''buf''), (unsigned_t, ''count'')],
        Forward ''DPSWriteData'' [''buf'', ''count''])"
      using assms(2) by (auto simp: ps_client_def)
    moreover have "dps_function ''DPSWriteData'' = Some (DPSWriteData :: ('v, 'r) cfunction)"
      by (rule client_found)
    ultimately show ?thesis by (simp add: DPSWriteData_def callSlot_def)
  next
    case False
    then obtain m where m: "m \<in> set dps_macros" "name_of m = CHR ''D'' # name" "fst (types_of m) = ps"
      "callee = CHR ''D'' # name" "actuals = map snd ps" "distinct (map snd ps)"
      using forward_all[OF assms(1)] by (auto simp: forwards_def)
    then show ?thesis
      using macro_found[OF m(1)] by (intro exI[of _ "expand m"]) (simp add: expand_parts callSlot_def)
  qed
  then obtain f :: "('v, 'r) cfunction" where f: "dps_function (CHR ''D'' # name) = Some f" "params f = ps"
    "callee = CHR ''D'' # name" "actuals = map snd ps" "distinct (map snd ps)"
    "body f None vs = Undefined" by blast
  have run: "run_ps ?p c vs = body f c vs" for c
    using f(1,3,4) actuals_in_order[OF f(5), of vs] assms(3) by (simp del: map_map)
  then show ?thesis using f(1,2) trans[OF run f(6)] by blast
qed

lemma ps_on_current_example:
  "run_ps (''PSmoveto'', [(CGFloat, ''x''), (CGFloat, ''y'')], Forward ''DPSmoveto'' [''x'', ''y'']) None
     [Val (1 :: nat), Val 2] = (Undefined :: nat call)"
  using ps_on_current[of "''PSmoveto''" "[(CGFloat, ''x''), (CGFloat, ''y'')]" "''DPSmoveto''"
      "[''x'', ''y'']" "[Val (1 :: nat), Val 2]", where 'r = nat]
  by (auto simp: ps_functions_def ps_paint_def simp del: run_ps.simps)

text \<open>\<open>PSPrintf\<close> takes an argument list and hands it as one argument to the operator with a context,
  which takes variable arguments: the method is given a list that holds the list of the caller. Called
  with the arguments themselves the operator gives the method their list.\<close>

lemma psprintf_nests:
  assumes "tabled rt c"
  shows "run_ps (''PSPrintf'', [(Ptr (Const char_t), ''fmt''), (va_list, ''args'')],
      Forward ''DPSPrintf'' [''fmt'', ''args'']) (Some c) [Val fmt, VaList vs] =
    message rt (Some c) ''DPSPrintf::'' [Val fmt, VaList [VaList vs]]"
    and "body DPSPrintf (Some c) (Val fmt # vs) = message rt (Some c) ''DPSPrintf::'' [Val fmt, VaList vs]"
proof -
  have "(''DPSPrintf__'', ''DPSPrintf::'') \<in> set init_table"
    by (simp add: init_table_def init_client_def)
  note slot = slot_message[OF assms this]
  show "body DPSPrintf (Some c) (Val fmt # vs) = message rt (Some c) ''DPSPrintf::'' [Val fmt, VaList vs]"
    by (simp add: DPSPrintf_def slot)
  show "run_ps (''PSPrintf'', [(Ptr (Const char_t), ''fmt''), (va_list, ''args'')],
      Forward ''DPSPrintf'' [''fmt'', ''args'']) (Some c) [Val fmt, VaList vs] =
    message rt (Some c) ''DPSPrintf::'' [Val fmt, VaList [VaList vs]]"
    by (simp add: client_found(1)) (simp add: DPSPrintf_def slot)
qed

text \<open>An instance, with implementations that return their arguments.\<close>

lemma psprintf_example:
  "run_ps (''PSPrintf'', [(Ptr (Const char_t), ''fmt''), (va_list, ''args'')],
      Forward ''DPSPrintf'' [''fmt'', ''args''])
     (Some \<lparr>ident = 1, isa = 0, methods = methodTable (\<lambda>cls sel i s vs. vs) 0\<rparr>)
     [Val (7 :: nat), VaList [Val 8]] =
   Ran [Val 7, VaList [VaList [Val 8]]]"
  using psprintf_nests(1)[of "\<lambda>cls sel i s vs. vs"
      "\<lparr>ident = 1, isa = 0, methods = methodTable (\<lambda>cls sel i s vs. vs) 0\<rparr>" "7 :: nat" "[Val 8]"]
  by (simp add: tabled_def message_def)

subsection \<open>The context of a thread\<close>

text \<open>
  The method tables by class, the current context of the thread, the stack of \<open>saveGraphicsState\<close>,
  absent until first used, and the messages the contexts were sent, in order.
\<close>

record ('v, 'r) graphics =
  classMethodTable :: "(nat \<times> (string \<times> ('v, 'r) imp) list) list"
  current :: "('v, 'r) gcontext option"
  stack :: "('v, 'r) gcontext list option"
  trace :: "(string \<times> nat) list"

definition initWithContextInfo ::
  "('v, 'r) runtime \<Rightarrow> nat \<Rightarrow> nat \<Rightarrow> ('v, 'r) graphics \<Rightarrow> ('v, 'r) gcontext \<times> ('v, 'r) graphics" where
  "initWithContextInfo rt self cls s =
     (case map_of (classMethodTable s) cls of
        Some table \<Rightarrow> (\<lparr>ident = self, isa = cls, methods = table\<rparr>, s)
      | None \<Rightarrow>
          let table = methodTable rt cls
          in (\<lparr>ident = self, isa = cls, methods = table\<rparr>,
              s\<lparr>classMethodTable := (cls, table) # classMethodTable s\<rparr>))"

definition setCurrentContext ::
  "('v, 'r) gcontext option \<Rightarrow> ('v, 'r) graphics \<Rightarrow> ('v, 'r) graphics" where
  "setCurrentContext c s = s\<lparr>current := c\<rparr>"

definition sendTo :: "string \<Rightarrow> ('v, 'r) gcontext \<Rightarrow> ('v, 'r) graphics \<Rightarrow> ('v, 'r) graphics" where
  "sendTo sel c s = s\<lparr>trace := trace s @ [(sel, ident c)]\<rparr>"

definition saveGraphicsState :: "('v, 'r) graphics \<Rightarrow> ('v, 'r) graphics" where
  "saveGraphicsState s =
     (let st = (case stack s of None \<Rightarrow> [] | Some st \<Rightarrow> st)
      in case current s of
           None \<Rightarrow> s\<lparr>stack := Some st\<rparr>
         | Some c \<Rightarrow> (sendTo ''DPSgsave'' c s)\<lparr>stack := Some (st @ [c])\<rparr>)"

definition restoreGraphicsState :: "('v, 'r) graphics \<Rightarrow> ('v, 'r) graphics res" where
  "restoreGraphicsState s =
     (case stack s of
        None \<Rightarrow> Inl NSGenericException
      | Some [] \<Rightarrow> Inr (setCurrentContext None s)
      | Some st \<Rightarrow>
          Inr (sendTo ''DPSgrestore'' (last st)
            ((setCurrentContext (Some (last st)) s)\<lparr>stack := Some (butlast st)\<rparr>)))"

subsection \<open>Contexts get the table of their class\<close>

definition tables_ok :: "('v, 'r) runtime \<Rightarrow> ('v, 'r) graphics \<Rightarrow> bool" where
  "tables_ok rt s \<longleftrightarrow> (\<forall>(cls, table) \<in> set (classMethodTable s). table = methodTable rt cls)"

text \<open>Creating contexts of the given classes one after the other.\<close>

fun createContexts ::
  "('v, 'r) runtime \<Rightarrow> (nat \<times> nat) list \<Rightarrow> ('v, 'r) graphics \<Rightarrow>
   ('v, 'r) gcontext list \<times> ('v, 'r) graphics" where
  "createContexts rt [] s = ([], s)"
| "createContexts rt ((self, cls) # xs) s =
     (let (c, s') = initWithContextInfo rt self cls s; (cs, s'') = createContexts rt xs s' in (c # cs, s''))"

lemma initWithContextInfo_ok:
  assumes "tables_ok rt s" and "distinct (map fst (classMethodTable s))"
    and "initWithContextInfo rt self cls s = (c, s')"
  shows "tabled rt c" and "isa c = cls" and "ident c = self" and "tables_ok rt s'"
    and "distinct (map fst (classMethodTable s'))" and "current s' = current s"
  using assms
  by (auto simp: initWithContextInfo_def tabled_def tables_ok_def Let_def map_of_eq_None_iff
      split: option.splits dest!: map_of_SomeD)

text \<open>However many contexts of whatever classes are created, each has the method table of its own
  class, so the operators run the methods of that class, and the shared dictionary never holds two
  tables of a class.\<close>

lemma contexts_tabled:
  assumes "createContexts rt xs s = (cs, s')" and "tables_ok rt s"
    and "distinct (map fst (classMethodTable s))"
  shows "(\<forall>c \<in> set cs. tabled rt c) \<and> map (\<lambda>c. (ident c, isa c)) cs = xs \<and> tables_ok rt s' \<and>
    distinct (map fst (classMethodTable s'))"
  using assms
proof (induction rt xs s arbitrary: cs s' rule: createContexts.induct)
  case (2 rt self cls xs s)
  obtain c s1 where c: "initWithContextInfo rt self cls s = (c, s1)" by fastforce
  obtain cs1 s2 where cs: "createContexts rt xs s1 = (cs1, s2)" by fastforce
  note ok = initWithContextInfo_ok[OF 2(3,4) c]
  show ?case
    using 2(1)[OF c [symmetric] refl cs ok(4,5)] 2(2) ok(1,2,3) c cs by auto
qed simp

definition fresh_graphics :: "('v, 'r) graphics" where
  "fresh_graphics = \<lparr>classMethodTable = [], current = None, stack = None, trace = []\<rparr>"

lemma contexts_tabled_example:
  "list_all (\<lambda>c. methods c = methodTable (\<lambda>cls sel i s vs. (cls, sel)) (isa c))
     (fst (createContexts (\<lambda>cls sel i s vs. (cls, sel)) [(1, 5), (2, 5), (3, 6)]
       (fresh_graphics :: (nat, nat \<times> string) graphics)))"
proof -
  let ?rt = "\<lambda>cls sel i s vs. (cls, sel)"
  obtain cs s' where c: "createContexts ?rt [(1, 5), (2, 5), (3, 6)]
      (fresh_graphics :: (nat, nat \<times> string) graphics) = (cs, s')" by fastforce
  have "tables_ok ?rt (fresh_graphics :: (nat, nat \<times> string) graphics)"
    "distinct (map fst (classMethodTable (fresh_graphics :: (nat, nat \<times> string) graphics)))"
    by (simp_all add: fresh_graphics_def tables_ok_def)
  from contexts_tabled[THEN conjunct1, OF c this] show ?thesis unfolding c by (simp add: tabled_def list_all_iff)
qed

subsection \<open>Saving and restoring\<close>

datatype ('v, 'r) state_op = Save | Restore | SetCurrent "('v, 'r) gcontext option"

fun runOps :: "('v, 'r) state_op list \<Rightarrow> ('v, 'r) graphics \<Rightarrow> ('v, 'r) graphics res" where
  "runOps [] s = Inr s"
| "runOps (Save # ops) s = runOps ops (saveGraphicsState s)"
| "runOps (Restore # ops) s = (case restoreGraphicsState s of Inl e \<Rightarrow> Inl e | Inr s' \<Rightarrow> runOps ops s')"
| "runOps (SetCurrent c # ops) s = runOps ops (setCurrentContext c s)"

lemma runOps_append:
  "runOps (xs @ ys) s = (case runOps xs s of Inl e \<Rightarrow> Inl e | Inr s' \<Rightarrow> runOps ys s')"
  by (induction xs s rule: runOps.induct) (auto split: sum.splits)

text \<open>Programs in which every save has its restore and no context is ever set to \<open>nil\<close>.\<close>

inductive balanced :: "('v, 'r) state_op list \<Rightarrow> bool" where
  balanced_nil: "balanced []"
| balanced_set: "balanced ops \<Longrightarrow> balanced (SetCurrent (Some c) # ops)"
| balanced_save: "balanced xs \<Longrightarrow> balanced ys \<Longrightarrow> balanced (Save # xs @ Restore # ys)"

lemma restore_saved:
  assumes "stack s = Some (st @ [c])"
  shows "restoreGraphicsState s = Inr (sendTo ''DPSgrestore'' c (s\<lparr>current := Some c, stack := Some st\<rparr>))"
  using assms by (cases st) (simp_all add: restoreGraphicsState_def setCurrentContext_def)

definition saved :: "('v, 'r) graphics \<Rightarrow> ('v, 'r) gcontext list" where
  "saved s = (case stack s of None \<Rightarrow> [] | Some st \<Rightarrow> st)"

lemma balanced_runs:
  assumes "balanced ops" and "current s \<noteq> None"
  shows "\<exists>s'. runOps ops s = Inr s' \<and> saved s' = saved s \<and> current s' \<noteq> None"
  using assms
proof (induction arbitrary: s rule: balanced.induct)
  case balanced_nil
  then show ?case by simp
next
  case (balanced_set ops c)
  then show ?case
    using balanced_set.IH[of "setCurrentContext (Some c) s"] by (simp add: setCurrentContext_def saved_def)
next
  case (balanced_save xs ys)
  obtain c where c: "current s = Some c" using balanced_save.prems by blast
  let ?s = "saveGraphicsState s"
  have save: "stack ?s = Some (saved s @ [c])" "current ?s = Some c"
    using c by (simp_all add: saveGraphicsState_def sendTo_def saved_def Let_def)
  then obtain s1 where s1: "runOps xs ?s = Inr s1" "saved s1 = saved s @ [c]"
    using balanced_save.IH(1)[of ?s] by (auto simp: saved_def)
  then have "stack s1 = Some (saved s @ [c])" by (auto simp: saved_def split: option.splits)
  note restore = restore_saved[OF this]
  let ?s2 = "sendTo ''DPSgrestore'' c (s1\<lparr>current := Some c, stack := Some (saved s)\<rparr>)"
  have "saved ?s2 = saved s" "current ?s2 = Some c" by (simp_all add: sendTo_def saved_def)
  then show ?case
    using balanced_save.IH(2)[of ?s2] s1(1) restore by (simp add: runOps_append)
qed

text \<open>C32: With a current context, a save and its restore around any balanced program that sets contexts
  only, never \<open>nil\<close>, bring the current context and the stack back, and the restored context was sent
  the message to restore; without one the restore takes a context an outer save had pushed.\<close>

theorem save_restore:
  "(balanced ops \<longrightarrow> current s = Some c \<longrightarrow>
    (\<exists>s'. runOps (Save # ops @ [Restore]) s = Inr s' \<and> current s' = current s \<and> saved s' = saved s \<and>
      last (trace s') = (''DPSgrestore'', ident c))) \<and>
   (current s = None \<longrightarrow> stack s = Some (st @ [d]) \<longrightarrow>
      (\<exists>s'. runOps [Save, Restore] s = Inr s' \<and> current s' = Some d \<and> saved s' = st))"
proof (intro conjI impI)
  assume ops: "balanced ops" and c: "current s = Some c"
  let ?s = "saveGraphicsState s"
  have "stack ?s = Some (saved s @ [c])" "current ?s = Some c"
    using c by (simp_all add: saveGraphicsState_def sendTo_def saved_def Let_def)
  then obtain s1 where s1: "runOps ops ?s = Inr s1" "saved s1 = saved s @ [c]"
    using balanced_runs[OF ops, of ?s] by (auto simp: saved_def)
  then have "stack s1 = Some (saved s @ [c])" by (auto simp: saved_def split: option.splits)
  from restore_saved[OF this] show "\<exists>s'. runOps (Save # ops @ [Restore]) s = Inr s' \<and>
      current s' = current s \<and> saved s' = saved s \<and> last (trace s') = (''DPSgrestore'', ident c)"
    using s1(1) c by (simp add: runOps_append sendTo_def saved_def)
next
  assume s: "current s = None" "stack s = Some (st @ [d])"
  then have "saveGraphicsState s = s" by (simp add: saveGraphicsState_def Let_def)
  then show "\<exists>s'. runOps [Save, Restore] s = Inr s' \<and> current s' = Some d \<and> saved s' = st"
    using restore_saved[OF s(2)] by (simp add: sendTo_def saved_def)
qed

theorem save_restore_witness:
  "\<exists>s'. runOps [Save, SetCurrent (Some \<lparr>ident = 2, isa = 0, methods = []\<rparr>), Restore]
      (fresh_graphics\<lparr>current := Some \<lparr>ident = 1, isa = 0, methods = []\<rparr>\<rparr> :: (nat, nat) graphics) = Inr s' \<and>
    current s' = Some \<lparr>ident = 1, isa = 0, methods = []\<rparr> \<and> last (trace s') = (''DPSgrestore'', 1)"
  using save_restore[THEN conjunct1, rule_format, OF balanced_set[OF balanced_nil, of "\<lparr>ident = 2, isa = 0, methods = []\<rparr>"],
      of "fresh_graphics\<lparr>current := Some \<lparr>ident = 1, isa = 0, methods = []\<rparr>\<rparr> :: (nat, nat) graphics"]
  by fastforce

end
