(* ===== verification/BitFields.thy ===== *)
theory BitFields
  imports "HOL-Library.Word"
begin

text \<open>
  Structures of bit fields, overlaid with one word of 32 bits as the unions of the coding flags do.
  The fields of a structure are listed in the order of their declaration. Compilers for little endian
  machines give the first field the lowest bits, those for big endian machines the highest.
\<close>

unbundle bit_operations_syntax

type_synonym layout = "(string \<times> nat) list"

definition width :: "layout \<Rightarrow> nat" where
  "width L = sum_list (map snd L)"

fun offset :: "layout \<Rightarrow> string \<Rightarrow> nat" where
  "offset [] name = 0"
| "offset ((f, w) # L) name = (if f = name then 0 else w + offset L name)"

fun width_of :: "layout \<Rightarrow> string \<Rightarrow> nat" where
  "width_of [] name = 0"
| "width_of ((f, w) # L) name = (if f = name then w else width_of L name)"

definition read_le :: "layout \<Rightarrow> string \<Rightarrow> 32 word \<Rightarrow> 32 word" where
  "read_le L name v = take_bit (width_of L name) (drop_bit (offset L name) v)"

definition write_le :: "layout \<Rightarrow> string \<Rightarrow> 32 word \<Rightarrow> 32 word \<Rightarrow> 32 word" where
  "write_le L name x v =
     (v AND NOT (push_bit (offset L name) (mask (width_of L name)))) OR
     push_bit (offset L name) (take_bit (width_of L name) x)"

definition read_be :: "layout \<Rightarrow> string \<Rightarrow> 32 word \<Rightarrow> 32 word" where
  "read_be L name v =
     take_bit (width_of L name) (drop_bit (32 - offset L name - width_of L name) v)"

subsection \<open>Where fields lie\<close>

fun has_field :: "layout \<Rightarrow> string \<Rightarrow> bool" where
  "has_field [] name = False"
| "has_field ((f, w) # L) name \<longleftrightarrow> f = name \<or> has_field L name"

fun well_named :: "layout \<Rightarrow> bool" where
  "well_named [] = True"
| "well_named ((f, w) # L) \<longleftrightarrow> \<not> has_field L f \<and> well_named L"

lemma width_simps [simp]: "width [] = 0" "width ((f, w) # L) = w + width L"
  by (simp_all add: width_def)

lemma width_append [simp]: "width (A @ B) = width A + width B"
  by (simp add: width_def)

lemma width_rev [simp]: "width (rev L) = width L"
  by (induction L) auto

lemma field_inside: "has_field L name \<Longrightarrow> offset L name + width_of L name \<le> width L"
  by (induction L name rule: has_field.induct) auto

lemma field_append [simp]: "has_field (A @ B) name \<longleftrightarrow> has_field A name \<or> has_field B name"
  by (induction A name rule: has_field.induct) auto

lemma field_rev [simp]: "has_field (rev L) name \<longleftrightarrow> has_field L name"
  by (induction L name rule: has_field.induct) auto

lemma offset_append:
  "offset (A @ B) name = (if has_field A name then offset A name else width A + offset B name)"
  by (induction A name rule: has_field.induct) auto

lemma width_of_append:
  "width_of (A @ B) name = (if has_field A name then width_of A name else width_of B name)"
  by (induction A name rule: has_field.induct) auto

lemma rev_layout:
  assumes "well_named L" and "has_field L name"
  shows "width_of (rev L) name = width_of L name"
    and "offset (rev L) name + offset L name + width_of L name = width L"
  using assms by (induction L name rule: has_field.induct) (auto simp: offset_append width_of_append)

lemma read_mirrored:
  assumes "well_named L" and "has_field L name" and "width L = 32"
  shows "read_be L name v = read_le (rev L) name v"
proof -
  have "offset (rev L) name = 32 - offset L name - width_of L name"
    using rev_layout(2)[OF assms(1,2)] assms(3) by simp
  then show ?thesis
    by (simp add: read_be_def read_le_def rev_layout(1)[OF assms(1,2)])
qed

text \<open>The fields of a structure do not overlap.\<close>

lemma fields_apart:
  assumes "well_named L" and "has_field L a" and "has_field L b" and "a \<noteq> b"
  shows "offset L a + width_of L a \<le> offset L b \<or> offset L b + width_of L b \<le> offset L a"
  using assms by (induction L rule: well_named.induct) (auto dest: field_inside)

lemma read_written:
  assumes "has_field L name" and "width L = 32"
  shows "read_le L name (write_le L name x v) = take_bit (width_of L name) x"
proof -
  have "offset L name + width_of L name \<le> 32" using field_inside[OF assms(1)] assms(2) by simp
  then show ?thesis
    by (intro bit_word_eqI) (auto simp: read_le_def write_le_def bit_simps)
qed

lemma read_other:
  assumes "well_named L" and "has_field L name" and "has_field L other"
    and "other \<noteq> name" and "width L = 32"
  shows "read_le L other (write_le L name x v) = read_le L other v"
  using fields_apart[OF assms(1,3,2,4)] field_inside[OF assms(3)] assms(5)
  by (intro bit_word_eqI) (auto simp: read_le_def write_le_def bit_simps)

end
