(* ===== verification/CodingFlags.thy ===== *)
theory CodingFlags
  imports BitFields
begin

text \<open>
  The bit fields of \<open>Source/GSCodingFlags.h\<close> and \<open>Headers/Additions/GNUstepGUI/GSNibLoading.h\<close>, in
  which cells, controls, views and windows archive their flags in one word. Each structure is declared
  twice, once for each byte order of the machine, so that the word of an archive means the same on both.
\<close>

definition GSCellFlags_be :: layout where
  "GSCellFlags_be = [
     (''state'', 1), (''highlighted'', 1), (''disabled'', 1), (''editable'', 1), (''type'', 2),
     (''vCentered'', 1), (''hCentered'', 1), (''bordered'', 1), (''bezeled'', 1),
     (''selectable'', 1), (''scrollable'', 1), (''continuous'', 1), (''actOnMouseDown'', 1),
     (''isLeaf'', 1), (''invalidObjectValue'', 1), (''invalidFont'', 1), (''lineBreakMode'', 3),
     (''weakTargetHelperFlag'', 1), (''allowsAppearanceEffects'', 1), (''singleLineMode'', 1),
     (''actOnMouseDragged'', 1), (''isLoaded'', 1), (''truncateLastLine'', 1),
     (''dontActOnMouseUp'', 1), (''isWhite'', 1), (''useUserKeyEquivalent'', 1),
     (''showsFirstResponder'', 1), (''focusRingType'', 2)]"

definition GSCellFlags_le :: layout where
  "GSCellFlags_le = [
     (''focusRingType'', 2), (''showsFirstResponder'', 1), (''useUserKeyEquivalent'', 1),
     (''isWhite'', 1), (''dontActOnMouseUp'', 1), (''truncateLastLine'', 1), (''isLoaded'', 1),
     (''actOnMouseDragged'', 1), (''singleLineMode'', 1), (''allowsAppearanceEffects'', 1),
     (''weakTargetHelperFlag'', 1), (''lineBreakMode'', 3), (''invalidFont'', 1),
     (''invalidObjectValue'', 1), (''isLeaf'', 1), (''actOnMouseDown'', 1), (''continuous'', 1),
     (''scrollable'', 1), (''selectable'', 1), (''bezeled'', 1), (''bordered'', 1),
     (''hCentered'', 1), (''vCentered'', 1), (''type'', 2), (''editable'', 1), (''disabled'', 1),
     (''highlighted'', 1), (''state'', 1)]"

definition GSCellFlags2_be :: layout where
  "GSCellFlags2_be = [
     (''unused1'', 1), (''allowsEditingTextAttributes'', 1), (''importsGraphics'', 1),
     (''alignment'', 3), (''refusesFirstResponder'', 1), (''allowsMixedState'', 1),
     (''unused2'', 1), (''sendsActionOnEndEditing'', 1), (''unused3'', 2), (''controlSize'', 3),
     (''unused4'', 4), (''doesNotAllowUndo'', 1), (''lineBreakMode'', 3), (''unused5'', 1),
     (''controlTint'', 3), (''unused6'', 5)]"

definition GSCellFlags2_le :: layout where
  "GSCellFlags2_le = [
     (''unused6'', 5), (''controlTint'', 3), (''unused5'', 1), (''lineBreakMode'', 3),
     (''doesNotAllowUndo'', 1), (''unused4'', 4), (''controlSize'', 3), (''unused3'', 2),
     (''sendsActionOnEndEditing'', 1), (''unused2'', 1), (''allowsMixedState'', 1),
     (''refusesFirstResponder'', 1), (''alignment'', 3), (''importsGraphics'', 1),
     (''allowsEditingTextAttributes'', 1), (''unused1'', 1)]"

definition GSButtonCellFlags_be :: layout where
  "GSButtonCellFlags_be = [
     (''isPushin'', 1), (''changeContents'', 1), (''changeBackground'', 1), (''changeGray'', 1),
     (''highlightByContents'', 1), (''highlightByBackground'', 1), (''highlightByGray'', 1),
     (''drawing'', 1), (''isBordered'', 1), (''imageDoesOverlap'', 1), (''isHorizontal'', 1),
     (''isBottomOrLeft'', 1), (''isImageAndText'', 1), (''isImageSizeDiff'', 1),
     (''hasKeyEquiv'', 1), (''lastState'', 1), (''isTransparent'', 1), (''inset'', 2),
     (''doesNotDimImage'', 1), (''gradient'', 3), (''useButtonImageSource'', 1), (''unused2'', 8)]"

definition GSButtonCellFlags_le :: layout where
  "GSButtonCellFlags_le = [
     (''unused2'', 8), (''useButtonImageSource'', 1), (''gradient'', 3), (''doesNotDimImage'', 1),
     (''inset'', 2), (''isTransparent'', 1), (''lastState'', 1), (''hasKeyEquiv'', 1),
     (''isImageSizeDiff'', 1), (''isImageAndText'', 1), (''isBottomOrLeft'', 1),
     (''isHorizontal'', 1), (''imageDoesOverlap'', 1), (''isBordered'', 1), (''drawing'', 1),
     (''highlightByGray'', 1), (''highlightByBackground'', 1), (''highlightByContents'', 1),
     (''changeGray'', 1), (''changeBackground'', 1), (''changeContents'', 1), (''isPushin'', 1)]"

definition GSButtonCellFlags2_be :: layout where
  "GSButtonCellFlags2_be = [
     (''keyEquivalentModifierMask'', 24), (''imageScaling'', 2), (''bezelStyle2'', 1),
     (''mouseInside'', 1), (''showsBorderOnlyWhileMouseInside'', 1), (''bezelStyle'', 3)]"

definition GSButtonCellFlags2_le :: layout where
  "GSButtonCellFlags2_le = [
     (''bezelStyle'', 3), (''showsBorderOnlyWhileMouseInside'', 1), (''mouseInside'', 1),
     (''bezelStyle2'', 1), (''imageScaling'', 2), (''keyEquivalentModifierMask'', 24)]"

definition GSvFlags_be :: layout where
  "GSvFlags_be = [
     (''isHidden'', 1), (''unused1'', 3), (''unused2'', 4), (''unused3'', 4), (''unused4'', 4),
     (''unused5'', 4), (''unused6'', 3), (''autoresizesSubviews'', 1), (''unused7'', 2),
     (''autoresizingMask'', 6)]"

definition GSvFlags_le :: layout where
  "GSvFlags_le = [
     (''autoresizingMask'', 6), (''unused7'', 2), (''autoresizesSubviews'', 1), (''unused6'', 3),
     (''unused5'', 4), (''unused4'', 4), (''unused3'', 4), (''unused2'', 4), (''unused1'', 3),
     (''isHidden'', 1)]"

definition GSTabViewTypeFlags_be :: layout where
  "GSTabViewTypeFlags_be = [
     (''reserved1'', 1), (''controlTint'', 3), (''controlSize'', 2), (''reserved2'', 18),
     (''tabPosition'', 5), (''tabViewBorderType'', 3)]"

definition GSTabViewTypeFlags_le :: layout where
  "GSTabViewTypeFlags_le = [
     (''tabViewBorderType'', 3), (''tabPosition'', 5), (''reserved2'', 18), (''controlSize'', 2),
     (''controlTint'', 3), (''reserved1'', 1)]"

definition GSTableViewFlags_be :: layout where
  "GSTableViewFlags_be = [
     (''columnOrdering'', 1), (''columnResizing'', 1), (''drawsGrid'', 1), (''emptySelection'', 1),
     (''multipleSelection'', 1), (''columnSelection'', 1), (''unknown1'', 1),
     (''columnAutosave'', 1), (''alternatingRowBackgroundColors'', 1), (''unknown2'', 3),
     (''_unused'', 20)]"

definition GSTableViewFlags_le :: layout where
  "GSTableViewFlags_le = [
     (''_unused'', 20), (''unknown2'', 3), (''alternatingRowBackgroundColors'', 1),
     (''columnAutosave'', 1), (''unknown1'', 1), (''columnSelection'', 1),
     (''multipleSelection'', 1), (''emptySelection'', 1), (''drawsGrid'', 1),
     (''columnResizing'', 1), (''columnOrdering'', 1)]"

definition GSMatrixFlags_be :: layout where
  "GSMatrixFlags_be = [
     (''isHighlight'', 1), (''isRadio'', 1), (''isList'', 1), (''allowsEmptySelection'', 1),
     (''autoScroll'', 1), (''selectionByRect'', 1), (''drawCellBackground'', 1),
     (''drawBackground'', 1), (''autosizesCells'', 1), (''drawingAncestor'', 1),
     (''tabKeyTraversesCells'', 1), (''tabKeyTraversesCellsExplicitly'', 1),
     (''canSearchIncrementally'', 1), (''unused'', 19)]"

definition GSMatrixFlags_le :: layout where
  "GSMatrixFlags_le = [
     (''unused'', 19), (''canSearchIncrementally'', 1), (''tabKeyTraversesCellsExplicitly'', 1),
     (''tabKeyTraversesCells'', 1), (''drawingAncestor'', 1), (''autosizesCells'', 1),
     (''drawBackground'', 1), (''drawCellBackground'', 1), (''selectionByRect'', 1),
     (''autoScroll'', 1), (''allowsEmptySelection'', 1), (''isList'', 1), (''isRadio'', 1),
     (''isHighlight'', 1)]"

definition GSWindowTemplateFlags_be :: layout where
  "GSWindowTemplateFlags_be = [
     (''isHiddenOnDeactivate'', 1), (''isNotReleasedOnClose'', 1), (''isDeferred'', 1),
     (''isOneShot'', 1), (''isVisible'', 1), (''wantsToBeColor'', 1), (''dynamicDepthLimit'', 1),
     (''autoPositionMask'', 6), (''savePosition'', 1), (''style'', 2), (''_unused2'', 3),
     (''isNotShadowed'', 1), (''autorecalculatesKeyViewLoop'', 1), (''_unused'', 11)]"

definition GSWindowTemplateFlags_le :: layout where
  "GSWindowTemplateFlags_le = [
     (''_unused'', 11), (''autorecalculatesKeyViewLoop'', 1), (''isNotShadowed'', 1),
     (''_unused2'', 3), (''style'', 2), (''savePosition'', 1), (''autoPositionMask'', 6),
     (''dynamicDepthLimit'', 1), (''wantsToBeColor'', 1), (''isVisible'', 1), (''isOneShot'', 1),
     (''isDeferred'', 1), (''isNotReleasedOnClose'', 1), (''isHiddenOnDeactivate'', 1)]"

text \<open>All structures, with the fields for big and for little endian machines.\<close>

definition coding_structs :: "(layout \<times> layout) list" where
  "coding_structs = [
     (GSCellFlags_be, GSCellFlags_le),
     (GSCellFlags2_be, GSCellFlags2_le),
     (GSButtonCellFlags_be, GSButtonCellFlags_le),
     (GSButtonCellFlags2_be, GSButtonCellFlags2_le),
     (GSvFlags_be, GSvFlags_le),
     (GSTabViewTypeFlags_be, GSTabViewTypeFlags_le),
     (GSTableViewFlags_be, GSTableViewFlags_le),
     (GSMatrixFlags_be, GSMatrixFlags_le),
     (GSWindowTemplateFlags_be, GSWindowTemplateFlags_le)]"

lemmas layout_defs =
  GSCellFlags_be_def GSCellFlags_le_def GSCellFlags2_be_def GSCellFlags2_le_def
  GSButtonCellFlags_be_def GSButtonCellFlags_le_def GSButtonCellFlags2_be_def
  GSButtonCellFlags2_le_def GSvFlags_be_def GSvFlags_le_def GSTabViewTypeFlags_be_def
  GSTabViewTypeFlags_le_def GSTableViewFlags_be_def GSTableViewFlags_le_def GSMatrixFlags_be_def
  GSMatrixFlags_le_def GSWindowTemplateFlags_be_def GSWindowTemplateFlags_le_def

lemma structs_mirrored: "list_all (\<lambda>(be, le). le = rev be \<and> well_named be \<and> well_named le \<and> width le = 32) coding_structs"
  unfolding coding_structs_def layout_defs by simp

text \<open>C28: Every archived structure fills 32 bits exactly, and reading a field out of an archived word
  gives the same value on a big endian machine as on a little endian one. A field reads back what was
  written to it, cut to its width, and writing it leaves every other field alone.\<close>

theorem coding_flags_portable:
  assumes "(be, le) \<in> set coding_structs" and "has_field be name"
  shows "width be = 32 \<and> read_be be name v = read_le le name v \<and>
    read_le le name (write_le le name x v) = take_bit (width_of le name) x \<and>
    (has_field be other \<longrightarrow> other \<noteq> name \<longrightarrow>
      read_le le other (write_le le name x v) = read_le le other v)"
  using assms structs_mirrored read_mirrored[of be name v] read_written[of le name x v]
    read_other[of le name other x v]
  by (auto simp: list_all_iff)

theorem coding_flags_portable_witness:
  "read_be GSvFlags_be ''autoresizingMask'' 0x8000013F = 0x3F \<and>
   read_le GSMatrixFlags_le ''isRadio'' (write_le GSMatrixFlags_le ''isList'' 1 0x40000000) = 1"
proof -
  have "(GSvFlags_be, GSvFlags_le) \<in> set coding_structs"
    and matrix: "(GSMatrixFlags_be, GSMatrixFlags_le) \<in> set coding_structs"
    by (simp_all add: coding_structs_def)
  moreover have "has_field GSvFlags_be ''autoresizingMask''" by (simp add: GSvFlags_be_def)
  ultimately have "read_be GSvFlags_be ''autoresizingMask'' 0x8000013F =
      read_le GSvFlags_le ''autoresizingMask'' 0x8000013F"
    using coding_flags_portable by blast
  moreover have "has_field GSMatrixFlags_be ''isList''" "has_field GSMatrixFlags_be ''isRadio''"
    by (simp_all add: GSMatrixFlags_be_def)
  then have "read_le GSMatrixFlags_le ''isRadio'' (write_le GSMatrixFlags_le ''isList'' 1 0x40000000) =
      read_le GSMatrixFlags_le ''isRadio'' 0x40000000"
    using coding_flags_portable[OF matrix, of "''isList''" "0x40000000" 1 "''isRadio''"] by simp
  ultimately show ?thesis
    by (simp add: read_le_def GSvFlags_le_def GSMatrixFlags_le_def mask_eq_exp_minus_1 take_bit_eq_mask)
qed

end
