(* ===== verification/EventQueue.thy ===== *)
theory EventQueue
  imports Events
begin

text \<open>
  The event queue of \<open>GSDisplayServer (EventOps)\<close>, in \<open>Source/GSDisplayServer.m\<close>, and the filter on
  events of windows that ignore the mouse in \<open>Source/NSWindow.m\<close>. Running the run loop lets input
  handlers change the queue; it and the clock are parameters, with a state of their own.
\<close>

type_synonym ('p, 't) queue = "('p, 't) event list"

definition NSAnyMask32 :: "32 word" where
  "NSAnyMask32 = ucast NSAnyEventMask"

text \<open>The test \<open>mask & NSEventMaskFromType([event type])\<close> on a mask of 32 bits.\<close>

definition mask_meets :: "32 word \<Rightarrow> 64 word \<Rightarrow> bool option" where
  "mask_meets m type = map_option (\<lambda>k. ucast m AND k \<noteq> 0) (NSEventMaskFromType type)"

text \<open>The scan of the events not seen yet: how many were passed, and the event that ended it.\<close>

fun scan :: "32 word \<Rightarrow> ('p, 't) queue \<Rightarrow> (nat \<times> ('p, 't) event option) option" where
  "scan m [] = Some (0, None)"
| "scan m (e # es) =
     (case mask_meets m (event_type e) of
        None \<Rightarrow> None
      | Some True \<Rightarrow> Some (0, Some e)
      | Some False \<Rightarrow> map_option (\<lambda>(i, r). (Suc i, r)) (scan m es))"

definition look :: "32 word \<Rightarrow> nat \<Rightarrow> ('p, 't) queue \<Rightarrow> (nat \<times> ('p, 't) event option) option" where
  "look m pos q =
     (if q = [] then Some (0, None)
      else if m = NSAnyMask32 then Some (0, Some (q ! 0))
      else if length q > pos then scan m (drop pos q)
      else Some (0, None))"

text \<open>
  A run of the loop either has a behaviour the language does not define, or answers an event or \<open>nil\<close>
  with the queue and the state of the surroundings it leaves.
\<close>

datatype ('p, 't, 'e) answer =
    UndefinedShift
  | Answer "('p, 't) event option" "('p, 't) queue" 'e

definition remove_at :: "nat \<Rightarrow> 'a list \<Rightarrow> 'a list" where
  "remove_at i q = take i q @ drop (Suc i) q"

partial_function (option) getEventMatchingMask ::
  "('e \<Rightarrow> ('p, 't) queue \<Rightarrow> bool \<times> ('p, 't) queue \<times> 'e) \<Rightarrow> ('e \<Rightarrow> bool) \<Rightarrow>
     32 word \<Rightarrow> bool \<Rightarrow> nat \<Rightarrow> ('p, 't) queue \<Rightarrow> 'e \<Rightarrow> ('p, 't, 'e) answer option" where
  "getEventMatchingMask runMode timeLeft m flag pos q env =
     (case look m pos q of
        None \<Rightarrow> Some UndefinedShift
      | Some (i, Some e) \<Rightarrow>
          Some (Answer (Some e) (if flag then remove_at (pos + i) q else q) env)
      | Some (i, None) \<Rightarrow>
          (case runMode env q of (ok, q', env') \<Rightarrow>
             if \<not> ok \<or> \<not> timeLeft env' then Some (Answer None q' env')
             else getEventMatchingMask runMode timeLeft m flag (pos + i) q' env'))"

text \<open>The loop of \<open>discardEventsMatchingMask:beforeEvent:\<close>, over a copy of the queue, from its end.\<close>

fun discard_from ::
  "32 word \<Rightarrow> 't::linorder \<Rightarrow> ('p, 't) queue \<Rightarrow> nat \<Rightarrow> ('p, 't) queue \<Rightarrow> ('p, 't) queue option" where
  "discard_from m when events 0 q = Some q"
| "discard_from m when events (Suc i) q =
     (if event_time (events ! i) < when
      then (case (if m = NSAnyMask32 then Some True else mask_meets m (event_type (events ! i))) of
              None \<Rightarrow> None
            | Some hit \<Rightarrow> discard_from m when events i (if hit then remove_at i q else q))
      else discard_from m when events i q)"

definition discardEventsMatchingMask ::
  "32 word \<Rightarrow> ('p, 't::linorder) event \<Rightarrow> ('p, 't) queue \<Rightarrow> ('p, 't) queue option" where
  "discardEventsMatchingMask m limit q = discard_from m (event_time limit) q (length q) q"

definition postEvent :: "('p, 't) event \<Rightarrow> bool \<Rightarrow> ('p, 't) queue \<Rightarrow> ('p, 't) queue" where
  "postEvent e atStart q = (if atStart then e # q else q @ [e])"

text \<open>
  \<open>sendEvent:\<close> of a window that ignores the mouse drops an event when the group of all mouse events
  \<^emph>\<open>equals\<close> the mask of its type.
\<close>

definition dropped_by_window :: "bool \<Rightarrow> 64 word \<Rightarrow> bool option" where
  "dropped_by_window ignoresMouse type =
     (if ignoresMouse then map_option (\<lambda>k. GSMouseEventMask = k) (NSEventMaskFromType type)
      else Some False)"

subsection \<open>Which event is found\<close>

definition wanted :: "32 word \<Rightarrow> ('p, 't) event \<Rightarrow> bool" where
  "wanted m e \<longleftrightarrow> mask_meets m (event_type e) = Some True"

definition shiftable :: "('p, 't) queue \<Rightarrow> bool" where
  "shiftable q \<longleftrightarrow> (\<forall>e \<in> set q. event_type e < 32)"

lemma shiftable_simps [simp]:
  "shiftable []"
  "shiftable (e # q) \<longleftrightarrow> event_type e < 32 \<and> shiftable q"
  "shiftable (q @ q') \<longleftrightarrow> shiftable q \<and> shiftable q'"
  by (auto simp: shiftable_def)

lemma shiftable_drop [simp]: "shiftable q \<Longrightarrow> shiftable (drop n q)"
  by (auto simp: shiftable_def dest: in_set_dropD)

lemma mask_meets_wanted: "event_type e < 32 \<Longrightarrow> mask_meets m (event_type e) = Some (wanted m e)"
  by (simp add: wanted_def mask_meets_def NSEventMaskFromType_def)

lemma any_wanted:
  assumes "event_type e < 32"
  shows "wanted NSAnyMask32 e"
proof -
  have n: "unat (event_type e) < 32" using assms by (simp add: word_less_nat_alt)
  define k :: "64 word" where "k = scast (push_bit (unat (event_type e)) (1 :: 32 word))"
  have kb: "bit k i \<longleftrightarrow> i < 64 \<and> (i = unat (event_type e) \<or> unat (event_type e) = 31 \<and> 31 \<le> i)" for i
    unfolding k_def by (rule shift_bit[OF n])
  have "(ucast NSAnyMask32 :: 64 word) = mask 32"
    by (simp add: NSAnyMask32_def mask_eq_exp_minus_1)
  then have "bit (ucast NSAnyMask32 AND k) (unat (event_type e))"
    using n by (simp add: bit_and_iff bit_mask_iff kb)
  then have "ucast NSAnyMask32 AND k \<noteq> 0" by auto
  then show ?thesis
    using assms by (simp only: wanted_def mask_meets_def NSEventMaskFromType_def if_True option.map k_def
      not_False_eq_True)
qed

lemma scan_first:
  assumes "shiftable q"
  shows "scan m q = Some (length (takeWhile (\<lambda>e. \<not> wanted m e) q), find (wanted m) q)"
  using assms by (induction q) (auto simp: mask_meets_wanted split: option.splits bool.splits)

lemma look_none:
  assumes "shiftable q" and "look m pos q = Some (i, None)"
    and "pos \<le> length q" and "\<forall>e \<in> set (take pos q). \<not> wanted m e"
  shows "pos + i = length q \<and> (\<forall>e \<in> set q. \<not> wanted m e)"
proof (cases "q = [] \<or> length q = pos")
  case True
  then show ?thesis using assms by (auto simp: look_def split: if_splits)
next
  case False
  then have scan: "scan m (drop pos q) = Some (i, None)" and q: "q \<noteq> []" "pos < length q"
    using assms(2,3) by (auto simp: look_def split: if_splits)
  then have "find (wanted m) (drop pos q) = None"
    and i: "i = length (takeWhile (\<lambda>e. \<not> wanted m e) (drop pos q))"
    using scan_first[of "drop pos q" m] assms(1) by auto
  then have none: "\<forall>e \<in> set (drop pos q). \<not> wanted m e" by (auto simp: find_None_iff)
  then have "i = length (drop pos q)" by (simp add: i takeWhile_eq_all_conv[THEN iffD2])
  then have "pos + i = length q" using q by simp
  moreover have "\<forall>e \<in> set q. \<not> wanted m e"
    using assms(4) none by (metis append_take_drop_id Un_iff set_append)
  ultimately show ?thesis by simp
qed

lemma find_takeWhile:
  "find P xs = Some x \<Longrightarrow>
     length (takeWhile (\<lambda>x. \<not> P x) xs) < length xs \<and>
     xs ! length (takeWhile (\<lambda>x. \<not> P x) xs) = x \<and> P x"
proof (induction xs)
  case (Cons y ys)
  then show ?case by (cases "P y") simp_all
qed simp

lemma look_some:
  assumes "shiftable q" and "look m pos q = Some (i, Some e)" and "m = NSAnyMask32 \<Longrightarrow> pos = 0"
    and "\<forall>x \<in> set (take pos q). \<not> wanted m x"
  shows "pos + i < length q" and "q ! (pos + i) = e" and "wanted m e"
    and "\<forall>x \<in> set (take (pos + i) q). \<not> wanted m x"
proof -
  have "pos + i < length q \<and> q ! (pos + i) = e \<and> wanted m e \<and> (\<forall>x \<in> set (take (pos + i) q). \<not> wanted m x)"
  proof (cases "m = NSAnyMask32")
    case True
    then have "q \<noteq> []" "pos = 0" "i = 0" "e = q ! 0"
      using assms(2,3) by (auto simp: look_def split: if_splits)
    then show ?thesis using assms(1) True any_wanted[of e] by (cases q) auto
  next
    case False
    then have scan: "scan m (drop pos q) = Some (i, Some e)" and q: "pos < length q"
      using assms(2) by (auto simp: look_def split: if_splits)
    have f: "find (wanted m) (drop pos q) = Some e"
      and i: "i = length (takeWhile (\<lambda>e. \<not> wanted m e) (drop pos q))"
      using scan scan_first[of "drop pos q" m] assms(1) by auto
    have "take i (drop pos q) = takeWhile (\<lambda>e. \<not> wanted m e) (drop pos q)"
      unfolding i by (rule takeWhile_eq_take[symmetric])
    then have "\<forall>x \<in> set (take i (drop pos q)). \<not> wanted m x"
      by (auto dest: set_takeWhileD)
    then have "\<forall>x \<in> set (take (pos + i) q). \<not> wanted m x"
      using assms(4) by (auto simp: take_add)
    moreover have "pos + i < length q \<and> q ! (pos + i) = e \<and> wanted m e"
      using find_takeWhile[OF f] q unfolding i[symmetric] by (simp add: add.commute less_diff_conv)
    ultimately show ?thesis by blast
  qed
  then show "pos + i < length q" "q ! (pos + i) = e" "wanted m e"
    "\<forall>x \<in> set (take (pos + i) q). \<not> wanted m x" by blast+
qed

lemma look_defined: "shiftable q \<Longrightarrow> look m pos q \<noteq> None"
  using scan_first[of "drop pos q" m] by (auto simp: look_def)

text \<open>Input handlers that only append to the queue, events of types below 32.\<close>

definition appends :: "('e \<Rightarrow> ('p, 't) queue \<Rightarrow> bool \<times> ('p, 't) queue \<times> 'e) \<Rightarrow> bool" where
  "appends runMode \<longleftrightarrow>
     (\<forall>env q. \<exists>new. fst (snd (runMode env q)) = q @ new \<and> shiftable new)"

text \<open>What a call promises: the first wanted event, taken off the queue if asked for.\<close>

fun first_wanted ::
  "32 word \<Rightarrow> bool \<Rightarrow> ('p, 't) queue \<Rightarrow> ('p, 't, 'e) answer \<Rightarrow> bool" where
  "first_wanted m flag q UndefinedShift = False"
| "first_wanted m flag q (Answer None q' env) \<longleftrightarrow>
     (\<exists>new. q' = q @ new) \<and> (\<forall>e \<in> set q. \<not> wanted m e)"
| "first_wanted m flag q (Answer (Some e) q' env) \<longleftrightarrow>
     wanted m e \<and>
     (\<exists>new pre post. q @ new = pre @ e # post \<and> (\<forall>x \<in> set pre. \<not> wanted m x) \<and>
        q' = (if flag then pre @ post else pre @ e # post))"

lemma first_wanted_found:
  assumes "i < length q" and "q ! i = e" and "wanted m e" and "\<forall>x \<in> set (take i q). \<not> wanted m x"
  shows "first_wanted m flag q (Answer (Some e) (if flag then remove_at i q else q) env)"
proof -
  have q: "q = take i q @ e # drop (Suc i) q"
    using id_take_nth_drop[OF assms(1)] assms(2) by simp
  have "q @ [] = take i q @ e # drop (Suc i) q" using q by simp
  moreover have "(if flag then remove_at i q else q) =
      (if flag then take i q @ drop (Suc i) q else take i q @ e # drop (Suc i) q)"
    using q by (simp add: remove_at_def)
  ultimately show ?thesis
    unfolding first_wanted.simps using assms(3,4) by blast
qed

lemma first_wanted_later:
  assumes "first_wanted m flag (q @ new) r" and "\<forall>e \<in> set q. \<not> wanted m e"
  shows "first_wanted m flag q r"
  using assms
proof (induction m flag "q @ new" r rule: first_wanted.induct)
  case (3 m flag e q' env)
  then obtain more pre post where "q @ (new @ more) = pre @ e # post" "\<forall>x \<in> set pre. \<not> wanted m x"
    "q' = (if flag then pre @ post else pre @ e # post)" "wanted m e"
    by auto
  then show ?case unfolding first_wanted.simps by blast
qed auto

lemma getEvent_first:
  assumes "getEventMatchingMask runMode timeLeft m flag pos q env = Some r"
    and "appends runMode" and "shiftable q" and "pos \<le> length q" and "m = NSAnyMask32 \<longrightarrow> pos = 0"
    and "\<forall>x \<in> set (take pos q). \<not> wanted m x"
  shows "first_wanted m flag q r"
  using assms
proof (induction rule: getEventMatchingMask.raw_induct[rotated, consumes 1, case_names step])
  case (step get runMode timeLeft m flag pos q env r)
  show ?case
  proof (cases "look m pos q")
    case None
    then show ?thesis using look_defined[OF step.prems(2)] by blast
  next
    case (Some res)
    obtain i found where res: "res = (i, found)" by (cases res)
    show ?thesis
    proof (cases found)
      case None
      obtain ok q' env' where run: "runMode env q = (ok, q', env')" by (metis prod_cases3)
      obtain new where new: "q' = q @ new" "shiftable new"
        using step.prems(1) run unfolding appends_def by (metis fst_conv snd_conv)
      have none: "pos + i = length q" "\<forall>e \<in> set q. \<not> wanted m e"
        using look_none[OF step.prems(2) _ step.prems(3,5)] Some res None by auto
      show ?thesis
      proof (cases "\<not> ok \<or> \<not> timeLeft env'")
        case True
        then have "r = Answer None q' env'" using step.hyps Some res None run by auto
        then show ?thesis using new none by auto
      next
        case False
        then have get: "get runMode timeLeft m flag (pos + i) q' env' = Some r"
          using step.hyps Some res None run by auto
        have "first_wanted m flag q' r"
        proof (rule step.IH[OF get step.prems(1)])
          show "shiftable q'" "pos + i \<le> length q'" "\<forall>x \<in> set (take (pos + i) q'). \<not> wanted m x"
            using new none step.prems(2) by auto
          show "m = NSAnyMask32 \<longrightarrow> pos + i = 0"
            using Some res None none by (auto simp: look_def split: if_splits)
        qed
        then show ?thesis using first_wanted_later new none(2) by blast
      qed
    next
      case (Some e)
      have "r = Answer (Some e) (if flag then remove_at (pos + i) q else q) env"
        using step.hyps \<open>look m pos q = Some res\<close> res Some by auto
      moreover have "look m pos q = Some (i, Some e)"
        using \<open>look m pos q = Some res\<close> res Some by simp
      note found = look_some[OF step.prems(2) this _ step.prems(5)]
      ultimately show ?thesis
        using first_wanted_found[OF found] step.prems(4) by simp
    qed
  qed
qed

subsection \<open>When a call returns\<close>

text \<open>The state and the queue after the run loop ran \<open>n\<close> times.\<close>

fun rounds ::
  "('e \<Rightarrow> ('p, 't) queue \<Rightarrow> bool \<times> ('p, 't) queue \<times> 'e) \<Rightarrow> nat \<Rightarrow> 'e \<Rightarrow> ('p, 't) queue \<Rightarrow>
     'e \<times> ('p, 't) queue" where
  "rounds runMode 0 env q = (env, q)"
| "rounds runMode (Suc n) env q = (case runMode env q of (ok, q', env') \<Rightarrow> rounds runMode n env' q')"

definition goes_on ::
  "('e \<Rightarrow> ('p, 't) queue \<Rightarrow> bool \<times> ('p, 't) queue \<times> 'e) \<Rightarrow> ('e \<Rightarrow> bool) \<Rightarrow>
     'e \<times> ('p, 't) queue \<Rightarrow> bool" where
  "goes_on runMode timeLeft s =
     (case s of (env, q) \<Rightarrow> case runMode env q of (ok, q', env') \<Rightarrow> ok \<and> timeLeft env')"

text \<open>One round that finds nothing, and goes on or not.\<close>

lemma getEvent_step:
  assumes "look m pos q = Some (i, None)" and "runMode env q = (ok, q', env')"
  shows "getEventMatchingMask runMode timeLeft m flag pos q env =
    (if goes_on runMode timeLeft (env, q)
     then getEventMatchingMask runMode timeLeft m flag (pos + i) q' env'
     else Some (Answer None q' env'))"
  using assms by (subst getEventMatchingMask.simps) (simp add: goes_on_def)

lemma getEvent_hit:
  assumes "look m pos q = Some (i, Some e)"
  shows "getEventMatchingMask runMode timeLeft m flag pos q env =
    Some (Answer (Some e) (if flag then remove_at (pos + i) q else q) env)"
  using assms by (subst getEventMatchingMask.simps) simp

lemma appends_new:
  assumes "appends runMode" and "runMode env q = (ok, q', env')"
  obtains new where "q' = q @ new" and "shiftable new"
  using assms unfolding appends_def by (metis fst_conv snd_conv)

text \<open>The position a call may be in: everything before it was seen and is not wanted.\<close>

definition seen :: "32 word \<Rightarrow> nat \<Rightarrow> ('p, 't) queue \<Rightarrow> bool" where
  "seen m pos q \<longleftrightarrow> shiftable q \<and> pos \<le> length q \<and> (m = NSAnyMask32 \<longrightarrow> pos = 0) \<and>
     (\<forall>x \<in> set (take pos q). \<not> wanted m x)"

lemma seen_start: "shiftable q \<Longrightarrow> seen m 0 q"
  by (simp add: seen_def)

lemma seen_look:
  assumes "seen m pos q"
  obtains i e where "look m pos q = Some (i, Some e)"
    | i where "look m pos q = Some (i, None)" and "pos + i = length q" and "\<forall>e \<in> set q. \<not> wanted m e"
proof -
  obtain i found where look: "look m pos q = Some (i, found)"
    using look_defined assms unfolding seen_def by fastforce
  show thesis
  proof (cases found)
    case None
    then have "pos + i = length q \<and> (\<forall>e \<in> set q. \<not> wanted m e)"
      using look_none[of q m pos i] look assms unfolding seen_def by blast
    then show thesis using that(2) look None by blast
  next
    case (Some e)
    then show thesis using that(1) look by blast
  qed
qed

lemma getEvent_rounds:
  assumes "appends runMode"
  shows "seen m pos q \<Longrightarrow> \<forall>k < n. goes_on runMode timeLeft (rounds runMode k env q) \<Longrightarrow>
    (\<exists>e q' env'. getEventMatchingMask runMode timeLeft m flag pos q env = Some (Answer (Some e) q' env')) \<or>
    (\<exists>p. seen m p (snd (rounds runMode n env q)) \<and>
      getEventMatchingMask runMode timeLeft m flag pos q env =
      getEventMatchingMask runMode timeLeft m flag p (snd (rounds runMode n env q))
        (fst (rounds runMode n env q)))"
proof (induction n arbitrary: pos q env)
  case 0
  then show ?case by auto
next
  case (Suc n)
  obtain ok q' env' where run: "runMode env q = (ok, q', env')" by (metis prod_cases3)
  obtain new where new: "q' = q @ new" "shiftable new" using appends_new[OF assms run] .
  from Suc.prems(1) show ?case
  proof (cases rule: seen_look)
    case (1 i e)
    then show ?thesis by (simp add: getEvent_hit)
  next
    case (2 i)
    have "goes_on runMode timeLeft (env, q)" using Suc.prems(2) by force
    then have get: "getEventMatchingMask runMode timeLeft m flag pos q env =
        getEventMatchingMask runMode timeLeft m flag (pos + i) q' env'"
      by (simp add: getEvent_step[where runMode = runMode, OF 2(1) run])
    have "m = NSAnyMask32 \<longrightarrow> pos + i = 0"
      using 2 by (auto simp: look_def split: if_splits)
    then have "seen m (pos + i) q'"
      using 2 new Suc.prems(1) by (auto simp: seen_def)
    moreover have "\<forall>k < n. goes_on runMode timeLeft (rounds runMode k env' q')"
    proof safe
      fix k assume "k < n"
      then show "goes_on runMode timeLeft (rounds runMode k env' q')"
        using Suc.prems(2)[rule_format, of "Suc k"] run by simp
    qed
    ultimately show ?thesis using Suc.IH[of "pos + i" q' env'] run unfolding get by simp
  qed
qed

lemma getEvent_stops:
  assumes "appends runMode" and "shiftable q"
    and "\<not> goes_on runMode timeLeft (rounds runMode n env q)"
  shows "getEventMatchingMask runMode timeLeft m flag 0 q env \<noteq> None"
proof -
  define k where "k = (LEAST n. \<not> goes_on runMode timeLeft (rounds runMode n env q))"
  have stop: "\<not> goes_on runMode timeLeft (rounds runMode k env q)"
    unfolding k_def by (rule LeastI) (rule assms(3))
  have "\<forall>j < k. goes_on runMode timeLeft (rounds runMode j env q)"
    unfolding k_def using not_less_Least by blast
  from getEvent_rounds[OF assms(1) seen_start[OF assms(2)] this, of m flag] show ?thesis
  proof (elim disjE exE conjE)
    fix p
    assume p: "seen m p (snd (rounds runMode k env q))"
      and get: "getEventMatchingMask runMode timeLeft m flag 0 q env =
        getEventMatchingMask runMode timeLeft m flag p (snd (rounds runMode k env q))
          (fst (rounds runMode k env q))"
    obtain ok q' env' where run:
      "runMode (fst (rounds runMode k env q)) (snd (rounds runMode k env q)) = (ok, q', env')"
      by (metis prod_cases3)
    from p show ?thesis
      unfolding get by (cases rule: seen_look) (use stop getEvent_step[where runMode = runMode, OF _ run] in \<open>simp_all add: getEvent_hit\<close>)
  qed simp
qed

lemma getEvent_delivers:
  assumes "appends runMode" and "shiftable q"
    and "\<forall>k < n. goes_on runMode timeLeft (rounds runMode k env q)"
    and "e \<in> set (snd (rounds runMode n env q))" and "wanted m e"
  shows "\<exists>e q' env'. getEventMatchingMask runMode timeLeft m flag 0 q env = Some (Answer (Some e) q' env')"
  using getEvent_rounds[OF assms(1) seen_start[OF assms(2)] assms(3), of m flag]
proof (elim disjE exE conjE)
  fix p
  assume p: "seen m p (snd (rounds runMode n env q))"
    and get: "getEventMatchingMask runMode timeLeft m flag 0 q env =
      getEventMatchingMask runMode timeLeft m flag p (snd (rounds runMode n env q))
        (fst (rounds runMode n env q))"
  from p show ?thesis
    unfolding get by (cases rule: seen_look) (use assms(4,5) in \<open>auto simp: getEvent_hit\<close>)
qed blast

subsection \<open>Discarding\<close>

definition outlives :: "32 word \<Rightarrow> ('p, 't::linorder) event \<Rightarrow> ('p, 't) event \<Rightarrow> bool" where
  "outlives m limit e \<longleftrightarrow> \<not> (event_time e < event_time limit \<and> wanted m e)"

lemma remove_at_append: "remove_at (length xs) (xs @ y # ys) = xs @ ys"
  by (simp add: remove_at_def)

lemma discard_from_filter:
  assumes "shiftable events"
  shows "i \<le> length events \<Longrightarrow>
    discard_from m (event_time limit) events i (take i events @ rest) =
      Some (filter (outlives m limit) (take i events) @ rest)"
proof (induction i arbitrary: rest)
  case 0
  then show ?case by simp
next
  case (Suc i)
  let ?e = "events ! i"
  have split: "take (Suc i) events = take i events @ [?e]"
    using Suc.prems by (simp add: take_Suc_conv_app_nth)
  have type: "event_type ?e < 32" using assms Suc.prems by (auto simp: shiftable_def)
  have hit: "(if m = NSAnyMask32 then Some True else mask_meets m (event_type ?e)) = Some (wanted m ?e)"
    using any_wanted[OF type] mask_meets_wanted[OF type] by auto
  have removed: "remove_at i (take (Suc i) events @ rest) = take i events @ rest"
    using remove_at_append[of "take i events" ?e rest] Suc.prems by (simp add: split)
  show ?case
  proof (cases "outlives m limit ?e")
    case True
    then show ?thesis
      using Suc.IH[of "?e # rest"] Suc.prems hit by (auto simp: split outlives_def)
  next
    case False
    then show ?thesis
      using Suc.IH[of rest] Suc.prems hit removed by (simp add: outlives_def) (simp add: split outlives_def)
  qed
qed

subsection \<open>The properties of the queue\<close>

text \<open>The input of one key event, for the examples.\<close>

definition key_event :: "(nat, nat) event" where
  "key_event = \<lparr>event_type = NSKeyDown, location_point = 0, modifier_flags = 0, event_time = 2,
     window_num = 1, event_context = 0, event_data = zero_data\<rparr>"

definition mouse_event :: "(nat, nat) event" where
  "mouse_event = \<lparr>event_type = NSLeftMouseDown, location_point = 0, modifier_flags = 0, event_time = 1,
     window_num = 1, event_context = 0, event_data = zero_data\<rparr>"

definition one_key :: "bool \<Rightarrow> nat \<Rightarrow> (nat, nat) queue \<Rightarrow> bool \<times> (nat, nat) queue \<times> nat" where
  "one_key atStart n q = (n < 2, if n = 1 then postEvent key_event atStart q else q, Suc n)"

lemma one_key_appends: "appends (one_key False)"
  by (auto simp: appends_def one_key_def postEvent_def key_event_def)

lemma example_shiftable: "shiftable [mouse_event]"
  by (simp add: mouse_event_def)

lemma key_meets: "wanted 0x400 key_event" "\<not> wanted 0x400 mouse_event"
  by (simp_all add: wanted_def mask_meets_def NSEventMaskFromType_def key_event_def mouse_event_def)

text \<open>C6: While input handlers only append events of types below 32, a call that asks for the events of
  a mask answers the first such event of the queue, the oldest, and takes exactly it off the queue if
  asked to; it answers nil only if the queue it was called with has none, and leaves that queue alone.\<close>

theorem event_queue_answer:
  assumes "appends runMode" and "shiftable q"
    and "getEventMatchingMask runMode timeLeft m flag 0 q env = Some r"
  shows "first_wanted m flag q r"
  using getEvent_first[OF assms(3,1,2)] by simp

text \<open>C7: For a run loop whose handlers only append to the queue (an event they post to its start while the
  call waits is missed, see \<open>posted_at_start_missed\<close>), and a queue of event types below 32, for which the
  mask of a type is defined, a call returns once the run loop has no input handlers or the time is up;
  if an event of the mask is in the queue before that, the call returns an event.\<close>

theorem event_queue_returns:
  assumes "appends runMode" and "shiftable q"
  shows "(\<not> goes_on runMode timeLeft (rounds runMode n env q) \<longrightarrow>
      getEventMatchingMask runMode timeLeft m flag 0 q env \<noteq> None) \<and>
    ((\<forall>k < n. goes_on runMode timeLeft (rounds runMode k env q)) \<longrightarrow>
      e \<in> set (snd (rounds runMode n env q)) \<longrightarrow> wanted m e \<longrightarrow>
      (\<exists>e q' env'. getEventMatchingMask runMode timeLeft m flag 0 q env = Some (Answer (Some e) q' env')))"
  using getEvent_stops[OF assms] getEvent_delivers[OF assms] by blast+

theorem event_queue_returns_witness:
  "\<exists>e q' env'. getEventMatchingMask (one_key False) (\<lambda>n. True) 0x400 True 0 [mouse_event] 0 =
     Some (Answer (Some e) q' env')"
proof (rule event_queue_returns[OF one_key_appends example_shiftable, THEN conjunct2, THEN mp,
      THEN mp, THEN mp, of 2 _ _ key_event])
  show "\<forall>k < 2. goes_on (one_key False) (\<lambda>n. True) (rounds (one_key False) k 0 [mouse_event])"
    by (auto simp: less_2_cases_iff goes_on_def one_key_def)
  show "key_event \<in> set (snd (rounds (one_key False) 2 0 [mouse_event]))"
    by (simp add: numeral_2_eq_2 one_key_def postEvent_def)
qed (rule key_meets)

theorem event_queue_answer_witness:
  "\<exists>r. getEventMatchingMask (one_key False) (\<lambda>n. True) 0x400 True 0 [mouse_event] 0 = Some r \<and>
     first_wanted 0x400 True [mouse_event] r"
proof -
  have "\<not> goes_on (one_key False) (\<lambda>n. True) (rounds (one_key False) 2 0 [mouse_event])"
    by (simp add: numeral_2_eq_2 goes_on_def one_key_def)
  then obtain r where "getEventMatchingMask (one_key False) (\<lambda>n. True) 0x400 True 0 [mouse_event] 0 = Some r"
    using getEvent_stops[OF one_key_appends example_shiftable] by blast
  then show ?thesis using event_queue_answer[OF one_key_appends example_shiftable] by blast
qed

text \<open>
  An event posted to the start of the queue while a call waits is not found by the call: the scan goes
  on behind the position it reached, where the last event it saw has moved to.
\<close>

lemma posted_at_start_missed:
  "getEventMatchingMask (one_key True) (\<lambda>n. True) 0x400 True 0 [mouse_event] 0 =
     Some (Answer None [key_event, mouse_event] 3)"
proof -
  have any: "(0x400 :: 32 word) \<noteq> NSAnyMask32" by (simp add: NSAnyMask32_def)
  have meets: "mask_meets 0x400 (event_type key_event) = Some True"
    "mask_meets 0x400 (event_type mouse_event) = Some False"
    by (simp_all add: mask_meets_def NSEventMaskFromType_def key_event_def mouse_event_def)
  show ?thesis
    by (subst getEventMatchingMask.simps, simp add: look_def any meets one_key_def postEvent_def,
        subst getEventMatchingMask.simps, simp add: look_def any meets one_key_def postEvent_def,
        subst getEventMatchingMask.simps, simp add: look_def any meets one_key_def postEvent_def)
qed

text \<open>Discarding removes exactly the events of the mask with an earlier time than the limit, and
  keeps the order of the others.\<close>

lemma event_queue_discard:
  assumes "shiftable q"
  shows "discardEventsMatchingMask m limit q = Some (filter (outlives m limit) q)"
  using discard_from_filter[OF assms, of "length q" m limit "[]"]
  by (simp add: discardEventsMatchingMask_def)

lemma event_queue_discard_example:
  "discardEventsMatchingMask NSAnyMask32 key_event [mouse_event, key_event] = Some [key_event]"
proof -
  have q: "shiftable [mouse_event, key_event]" by (simp add: mouse_event_def key_event_def)
  have "outlives NSAnyMask32 key_event key_event" "\<not> outlives NSAnyMask32 key_event mouse_event"
    using any_wanted[of mouse_event] by (simp_all add: outlives_def key_event_def mouse_event_def)
  then show ?thesis by (simp add: event_queue_discard[OF q])
qed

text \<open>No mask of one type is the mask of all mouse events, so a window that ignores the mouse drops
  nothing.\<close>

lemma mouse_never_dropped: "dropped_by_window ignoresMouse type \<noteq> Some True"
proof (cases "type < 32")
  case True
  define k :: "64 word" where "k = scast (push_bit (unat type) (1 :: 32 word))"
  have n: "unat type < 32" using True by (simp add: word_less_nat_alt)
  have kb: "bit k i \<longleftrightarrow> i < 64 \<and> (i = unat type \<or> unat type = 31 \<and> 31 \<le> i)" for i
    unfolding k_def by (rule shift_bit[OF n])
  have bits: "bit GSMouseEventMask 1" "bit GSMouseEventMask 2" by simp_all
  have "GSMouseEventMask \<noteq> k"
  proof
    assume eq: "GSMouseEventMask = k"
    show False using bits unfolding eq kb by simp
  qed
  then have "dropped_by_window True type = Some False"
    using True by (simp only: dropped_by_window_def NSEventMaskFromType_def k_def if_True option.map)
  moreover have "dropped_by_window False type = Some False" by (simp add: dropped_by_window_def)
  ultimately show ?thesis by (cases ignoresMouse) simp_all
next
  case False
  then show ?thesis by (simp add: dropped_by_window_def NSEventMaskFromType_def)
qed

end
