(* ===== verification/Keystrokes.thy ===== *)
theory Keystrokes
  imports Events Foundation
begin

text \<open>
  Names of keystrokes (\<open>Source/NSInputManager.m\<close>): \<open>parseKey:intoCharacter:andModifiers:\<close> reads a key
  such as \<open>Control-Shift-LeftArrow\<close> as a character and modifier flags,
  \<open>describeKeyStroke:withModifiers:\<close> writes one. Both use the table of character names.
\<close>

subsection \<open>Characters and their names\<close>

definition text_characters :: enum_decl where
  "text_characters = [
     (''NSParagraphSeparatorCharacter'', Some (Lit 8233)),
     (''NSLineSeparatorCharacter'', Some (Lit 8232)), (''NSTabCharacter'', Some (Lit 9)),
     (''NSFormFeedCharacter'', Some (Lit 12)), (''NSNewlineCharacter'', Some (Lit 10)),
     (''NSCarriageReturnCharacter'', Some (Lit 13)), (''NSEnterCharacter'', Some (Lit 3)),
     (''NSBackspaceCharacter'', Some (Lit 8)), (''NSBackTabCharacter'', Some (Lit 25)),
     (''NSDeleteCharacter'', Some (Lit 127))]"

definition character_names :: "(string \<times> cexp) list" where
  "character_names = [
     (''UpArrow'', Name ''NSUpArrowFunctionKey''),
     (''DownArrow'', Name ''NSDownArrowFunctionKey''),
     (''LeftArrow'', Name ''NSLeftArrowFunctionKey''),
     (''RightArrow'', Name ''NSRightArrowFunctionKey''), (''F1'', Name ''NSF1FunctionKey''),
     (''F2'', Name ''NSF2FunctionKey''), (''F3'', Name ''NSF3FunctionKey''),
     (''F4'', Name ''NSF4FunctionKey''), (''F5'', Name ''NSF5FunctionKey''),
     (''F6'', Name ''NSF6FunctionKey''), (''F7'', Name ''NSF7FunctionKey''),
     (''F8'', Name ''NSF8FunctionKey''), (''F9'', Name ''NSF9FunctionKey''),
     (''F10'', Name ''NSF10FunctionKey''), (''F11'', Name ''NSF11FunctionKey''),
     (''F12'', Name ''NSF12FunctionKey''), (''F13'', Name ''NSF13FunctionKey''),
     (''F14'', Name ''NSF14FunctionKey''), (''F15'', Name ''NSF15FunctionKey''),
     (''F16'', Name ''NSF16FunctionKey''), (''F17'', Name ''NSF17FunctionKey''),
     (''F18'', Name ''NSF18FunctionKey''), (''F19'', Name ''NSF19FunctionKey''),
     (''F20'', Name ''NSF20FunctionKey''), (''F21'', Name ''NSF21FunctionKey''),
     (''F22'', Name ''NSF22FunctionKey''), (''F23'', Name ''NSF23FunctionKey''),
     (''F24'', Name ''NSF24FunctionKey''), (''F25'', Name ''NSF25FunctionKey''),
     (''F26'', Name ''NSF26FunctionKey''), (''F27'', Name ''NSF27FunctionKey''),
     (''F28'', Name ''NSF28FunctionKey''), (''F29'', Name ''NSF29FunctionKey''),
     (''F30'', Name ''NSF30FunctionKey''), (''F31'', Name ''NSF31FunctionKey''),
     (''F32'', Name ''NSF32FunctionKey''), (''F33'', Name ''NSF33FunctionKey''),
     (''F34'', Name ''NSF34FunctionKey''), (''F35'', Name ''NSF35FunctionKey''),
     (''Insert'', Name ''NSInsertFunctionKey''), (''Delete'', Name ''NSDeleteFunctionKey''),
     (''Home'', Name ''NSHomeFunctionKey''), (''Begin'', Name ''NSBeginFunctionKey''),
     (''End'', Name ''NSEndFunctionKey''), (''PageUp'', Name ''NSPageUpFunctionKey''),
     (''PageDown'', Name ''NSPageDownFunctionKey''),
     (''PrintScreen'', Name ''NSPrintScreenFunctionKey''),
     (''ScrollLock'', Name ''NSScrollLockFunctionKey''),
     (''Pause'', Name ''NSPauseFunctionKey''), (''SysReq'', Name ''NSSysReqFunctionKey''),
     (''Break'', Name ''NSBreakFunctionKey''), (''Reset'', Name ''NSResetFunctionKey''),
     (''Stop'', Name ''NSStopFunctionKey''), (''Menu'', Name ''NSMenuFunctionKey''),
     (''User'', Name ''NSUserFunctionKey''), (''System'', Name ''NSSystemFunctionKey''),
     (''Print'', Name ''NSPrintFunctionKey''), (''ClearLine'', Name ''NSClearLineFunctionKey''),
     (''ClearDisplay'', Name ''NSClearDisplayFunctionKey''),
     (''InsertLine'', Name ''NSInsertLineFunctionKey''),
     (''DeleteLine'', Name ''NSDeleteLineFunctionKey''),
     (''InsertChar'', Name ''NSInsertCharFunctionKey''),
     (''DeleteChar'', Name ''NSDeleteCharFunctionKey''), (''Prev'', Name ''NSPrevFunctionKey''),
     (''Next'', Name ''NSNextFunctionKey''), (''Select'', Name ''NSSelectFunctionKey''),
     (''Execute'', Name ''NSExecuteFunctionKey''), (''Undo'', Name ''NSUndoFunctionKey''),
     (''Redo'', Name ''NSRedoFunctionKey''), (''Find'', Name ''NSFindFunctionKey''),
     (''Help'', Name ''NSHelpFunctionKey''), (''ModeSwitch'', Name ''NSModeSwitchFunctionKey''),
     (''Backspace'', Name ''NSDeleteCharacter''), (''BackTab'', Name ''NSBackTabCharacter''),
     (''Tab'', Name ''NSTabCharacter''), (''Enter'', Name ''NSEnterCharacter''),
     (''FormFeed'', Name ''NSFormFeedCharacter''),
     (''CarriageReturn'', Name ''NSCarriageReturnCharacter''), (''Escape'', Lit 27)]"

definition unichars :: "string \<Rightarrow> unichar list" where
  "unichars = map of_char"

definition key_enumerators :: enumerators where
  "key_enumerators = enumerators_of [function_keys, text_characters]"

definition character_of :: "cexp \<Rightarrow> unichar" where
  "character_of e = (case ceval key_enumerators e of None \<Rightarrow> 0 | Some v \<Rightarrow> word_of_int v)"

definition character_table :: "(unichar list \<times> unichar) list" where
  "character_table = map (\<lambda>(name, e). (unichars name, character_of e)) character_names"

lemma key_enumerators_eq:
  "key_enumerators = [
   (''NSUpArrowFunctionKey'', 63232), (''NSDownArrowFunctionKey'', 63233),
   (''NSLeftArrowFunctionKey'', 63234), (''NSRightArrowFunctionKey'', 63235),
   (''NSF1FunctionKey'', 63236), (''NSF2FunctionKey'', 63237), (''NSF3FunctionKey'', 63238),
   (''NSF4FunctionKey'', 63239), (''NSF5FunctionKey'', 63240), (''NSF6FunctionKey'', 63241),
   (''NSF7FunctionKey'', 63242), (''NSF8FunctionKey'', 63243), (''NSF9FunctionKey'', 63244),
   (''NSF10FunctionKey'', 63245), (''NSF11FunctionKey'', 63246), (''NSF12FunctionKey'', 63247),
   (''NSF13FunctionKey'', 63248), (''NSF14FunctionKey'', 63249), (''NSF15FunctionKey'', 63250),
   (''NSF16FunctionKey'', 63251), (''NSF17FunctionKey'', 63252), (''NSF18FunctionKey'', 63253),
   (''NSF19FunctionKey'', 63254), (''NSF20FunctionKey'', 63255), (''NSF21FunctionKey'', 63256),
   (''NSF22FunctionKey'', 63257), (''NSF23FunctionKey'', 63258), (''NSF24FunctionKey'', 63259),
   (''NSF25FunctionKey'', 63260), (''NSF26FunctionKey'', 63261), (''NSF27FunctionKey'', 63262),
   (''NSF28FunctionKey'', 63263), (''NSF29FunctionKey'', 63264), (''NSF30FunctionKey'', 63265),
   (''NSF31FunctionKey'', 63266), (''NSF32FunctionKey'', 63267), (''NSF33FunctionKey'', 63268),
   (''NSF34FunctionKey'', 63269), (''NSF35FunctionKey'', 63270),
   (''NSInsertFunctionKey'', 63271), (''NSDeleteFunctionKey'', 63272),
   (''NSHomeFunctionKey'', 63273), (''NSBeginFunctionKey'', 63274),
   (''NSEndFunctionKey'', 63275), (''NSPageUpFunctionKey'', 63276),
   (''NSPageDownFunctionKey'', 63277), (''NSPrintScreenFunctionKey'', 63278),
   (''NSScrollLockFunctionKey'', 63279), (''NSPauseFunctionKey'', 63280),
   (''NSSysReqFunctionKey'', 63281), (''NSBreakFunctionKey'', 63282),
   (''NSResetFunctionKey'', 63283), (''NSStopFunctionKey'', 63284),
   (''NSMenuFunctionKey'', 63285), (''NSUserFunctionKey'', 63286),
   (''NSSystemFunctionKey'', 63287), (''NSPrintFunctionKey'', 63288),
   (''NSClearLineFunctionKey'', 63289), (''NSClearDisplayFunctionKey'', 63290),
   (''NSInsertLineFunctionKey'', 63291), (''NSDeleteLineFunctionKey'', 63292),
   (''NSInsertCharFunctionKey'', 63293), (''NSDeleteCharFunctionKey'', 63294),
   (''NSPrevFunctionKey'', 63295), (''NSNextFunctionKey'', 63296),
   (''NSSelectFunctionKey'', 63297), (''NSExecuteFunctionKey'', 63298),
   (''NSUndoFunctionKey'', 63299), (''NSRedoFunctionKey'', 63300),
   (''NSFindFunctionKey'', 63301), (''NSHelpFunctionKey'', 63302),
   (''NSModeSwitchFunctionKey'', 63303), (''NSParagraphSeparatorCharacter'', 8233),
   (''NSLineSeparatorCharacter'', 8232), (''NSTabCharacter'', 9), (''NSFormFeedCharacter'', 12),
   (''NSNewlineCharacter'', 10), (''NSCarriageReturnCharacter'', 13), (''NSEnterCharacter'', 3),
   (''NSBackspaceCharacter'', 8), (''NSBackTabCharacter'', 25), (''NSDeleteCharacter'', 127)]"
  by code_simp

lemma characters_eq:
  "map (\<lambda>(name, e). character_of e) character_names = [
   63232, 63233, 63234, 63235, 63236, 63237, 63238, 63239, 63240, 63241, 63242, 63243, 63244,
   63245, 63246, 63247, 63248, 63249, 63250, 63251, 63252, 63253, 63254, 63255, 63256, 63257,
   63258, 63259, 63260, 63261, 63262, 63263, 63264, 63265, 63266, 63267, 63268, 63269, 63270,
   63271, 63272, 63273, 63274, 63275, 63276, 63277, 63278, 63279, 63280, 63281, 63282, 63283,
   63284, 63285, 63286, 63287, 63288, 63289, 63290, 63291, 63292, 63293, 63294, 63295, 63296,
   63297, 63298, 63299, 63300, 63301, 63302, 63303, 127, 25, 9, 3, 12, 13, 27]"
  unfolding character_of_def key_enumerators_eq character_names_def by code_simp

lemma snd_character_table: "map snd character_table = map (\<lambda>(name, e). character_of e) character_names"
  by (simp add: character_table_def case_prod_unfold comp_def)

lemma distinct_characters: "distinct (map snd character_table)"
  unfolding snd_character_table characters_eq by simp

lemma no_hyphen: "45 \<notin> set (map snd character_table)"
  unfolding snd_character_table characters_eq by simp

lemma inj_of_char: "inj (of_char :: char \<Rightarrow> unichar)"
proof (rule injI)
  fix c d :: char
  assume "(of_char c :: unichar) = of_char d"
  then have "unat (of_char c :: unichar) = unat (of_char d :: unichar)" by simp
  moreover have "unat (of_char c :: unichar) = of_char c" for c
    by (simp add: of_char_def) 
  ultimately show "c = d" by simp
qed

lemma distinct_key_names: "distinct (map fst character_names)"
  by (simp add: character_names_def)


subsection \<open>Parsing\<close>

text \<open>The components of a string between hyphens; there is at least one.\<close>

fun components :: "unichar list \<Rightarrow> unichar list list" where
  "components [] = [[]]"
| "components (c # cs) =
     (if c = 45 then [] # components cs
      else (c # hd (components cs)) # tl (components cs))"

definition modifier_flag :: "unichar list \<Rightarrow> 32 word option" where
  "modifier_flag m =
     (if m = unichars ''Control'' \<or> m = unichars ''Ctrl'' \<or> m = unichars ''C''
      then Some (ucast NSControlKeyMask)
      else if m = unichars ''Alternate'' \<or> m = unichars ''Alt'' \<or> m = unichars ''A'' \<or>
        m = unichars ''Meta'' \<or> m = unichars ''M''
      then Some (ucast NSAlternateKeyMask)
      else if m = unichars ''Shift'' \<or> m = unichars ''S''
      then Some (ucast NSShiftKeyMask)
      else if m = unichars ''NumericPad'' \<or> m = unichars ''Numeric'' \<or> m = unichars ''N''
      then Some (ucast NSNumericPadKeyMask)
      else None)"

fun parse_modifiers :: "unichar list list \<Rightarrow> 32 word \<Rightarrow> 32 word option" where
  "parse_modifiers [] flags = Some flags"
| "parse_modifiers (m # ms) flags =
     (case modifier_flag m of
        None \<Rightarrow> None
      | Some f \<Rightarrow> parse_modifiers ms (flags OR f))"

definition parseKey :: "unichar list \<Rightarrow> (unichar \<times> 32 word) option" where
  "parseKey key =
     (case parse_modifiers (butlast (components key)) 0 of
        None \<Rightarrow> None
      | Some flags \<Rightarrow>
          let name = last (components key)
          in if name = [] then Some (45, flags)
             else if length name = 1 then Some (name ! 0, flags)
             else (case map_of character_table name of
                     None \<Rightarrow> None
                   | Some c \<Rightarrow> Some (c, flags OR ucast NSFunctionKeyMask)))"

subsection \<open>Description\<close>

definition described_modifiers :: "32 word \<Rightarrow> (64 word \<times> string) list" where
  "described_modifiers modifiers =
     filter (\<lambda>(m, name). modifiers AND ucast m \<noteq> 0)
       [(NSCommandKeyMask, ''Command-''), (NSControlKeyMask, ''Control-''),
        (NSAlternateKeyMask, ''Alternate-''), (NSShiftKeyMask, ''Shift-''),
        (NSNumericPadKeyMask, ''NumericPad-'')]"

definition describeKeyStroke :: "unichar \<Rightarrow> 32 word \<Rightarrow> unichar list" where
  "describeKeyStroke c modifiers =
     concat (map (\<lambda>(m, name). unichars name) (described_modifiers modifiers)) @
     (case find (\<lambda>(name, d). c = d) character_table of
        Some (name, d) \<Rightarrow> name
      | None \<Rightarrow> [c])"

subsection \<open>Round trip\<close>

lemma unichars_simps [simp]:
  "unichars [] = []" "unichars (c # cs) = of_char c # unichars cs" "unichars (cs @ ds) = unichars cs @ unichars ds"
  by (simp_all add: unichars_def)

lemma unichars_eq_iff: "unichars xs = unichars ys \<longleftrightarrow> xs = ys"
  unfolding unichars_def by (rule inj_map_eq_map[OF inj_of_char])

lemma components_not_empty [simp]: "components cs \<noteq> []"
  by (cases cs) auto

lemma components_plain: "45 \<notin> set cs \<Longrightarrow> components cs = [cs]"
  by (induction cs) auto

lemma components_hyphen: "45 \<notin> set m \<Longrightarrow> components (m @ 45 # cs) = m # components cs"
  by (induction m) auto

text \<open>A key written as a list of modifier names, each with its hyphen, and the name of a character.\<close>

lemma components_written:
  "list_all (\<lambda>m. 45 \<notin> set m) ms \<Longrightarrow>
     components (concat (map (\<lambda>m. m @ [45]) ms) @ name) = ms @ components name"
  by (induction ms) (simp_all add: components_hyphen)

lemma parse_written:
  assumes "list_all (\<lambda>m. 45 \<notin> set m) ms"
  shows "parseKey (concat (map (\<lambda>m. m @ [45]) ms) @ name) =
     (case parse_modifiers (ms @ butlast (components name)) 0 of
        None \<Rightarrow> None
      | Some flags \<Rightarrow>
          let x = last (components name)
          in if x = [] then Some (45, flags)
             else if length x = 1 then Some (x ! 0, flags)
             else (case map_of character_table x of
                     None \<Rightarrow> None
                   | Some c \<Rightarrow> Some (c, flags OR ucast NSFunctionKeyMask)))"
  unfolding parseKey_def components_written[OF assms] by (simp add: butlast_append last_append split: option.split)

lemma parse_modifiers_append:
  "parse_modifiers (xs @ ys) flags = Option.bind (parse_modifiers xs flags) (parse_modifiers ys)"
  by (induction xs flags rule: parse_modifiers.induct) (auto split: option.splits)

lemma names_long: "list_all (\<lambda>(name, e). 2 \<le> length name \<and> CHR ''-'' \<notin> set name) character_names"
  by (simp add: character_names_def)

lemma table_names:
  assumes "(name, c) \<in> set character_table"
  shows "2 \<le> length name" and "45 \<notin> set name"
proof -
  obtain n e where n: "(n, e) \<in> set character_names" "name = unichars n"
    using assms by (auto simp: character_table_def)
  then show "2 \<le> length name" using names_long by (auto simp: list_all_iff unichars_def)
  have "(45 :: unichar) = of_char (CHR ''-'')" by simp
  moreover have "CHR ''-'' \<notin> set n" using n names_long by (auto simp: list_all_iff)
  ultimately show "45 \<notin> set name"
    unfolding n(2) unichars_def by (metis image_iff image_set injD[OF inj_of_char])
qed

lemma distinct_table_names: "distinct (map fst character_table)"
proof -
  have "map fst character_table = map unichars (map fst character_names)"
    by (simp add: character_table_def case_prod_unfold)
  moreover have "inj_on unichars A" for A by (rule inj_onI) (simp add: unichars_eq_iff)
  ultimately show ?thesis using distinct_key_names by (simp only: distinct_map simp_thms)
qed

lemma table_entry:
  assumes "(n, e) \<in> set character_names"
  shows "map_of character_table (unichars n) = Some (character_of e)"
proof -
  have "(unichars n, character_of e) \<in> set character_table" using assms by (force simp: character_table_def)
  then show ?thesis using distinct_table_names by (simp add: map_of_eq_Some_iff)
qed

lemma tab_named: "map_of character_table (unichars ''Tab'') = Some 9"
proof -
  have "(''Tab'', Name ''NSTabCharacter'') \<in> set character_names" by (simp add: character_names_def)
  moreover have "character_of (Name ''NSTabCharacter'') = 9"
    unfolding character_of_def key_enumerators_eq by code_simp
  ultimately show ?thesis using table_entry by metis
qed

text \<open>The flags a description keeps.\<close>

definition named_flags :: "32 word \<Rightarrow> 32 word" where
  "named_flags modifiers = modifiers AND
     (ucast NSControlKeyMask OR ucast NSAlternateKeyMask OR ucast NSShiftKeyMask OR ucast NSNumericPadKeyMask)"

lemma and_power: "(w :: 32 word) AND 2 ^ k = (if bit w k then 2 ^ k else 0)"
  by (rule bit_word_eqI) (auto simp: bit_simps)

lemma and_masks:
  "(w :: 32 word) AND 0x100000 = (if bit w 20 then 0x100000 else 0)"
  "w AND 0x40000 = (if bit w 18 then 0x40000 else 0)"
  "w AND 0x80000 = (if bit w 19 then 0x80000 else 0)"
  "w AND 0x20000 = (if bit w 17 then 0x20000 else 0)"
  "w AND 0x200000 = (if bit w 21 then 0x200000 else 0)"
  using and_power[of w 20] and_power[of w 18] and_power[of w 19] and_power[of w 17] and_power[of w 21]
  by simp_all

definition modifier_names :: "32 word \<Rightarrow> unichar list list" where
  "modifier_names modifiers =
     map (\<lambda>(m, name). unichars name) (filter (\<lambda>(m, name). modifiers AND ucast m \<noteq> 0)
       [(NSCommandKeyMask, ''Command''), (NSControlKeyMask, ''Control''),
        (NSAlternateKeyMask, ''Alternate''), (NSShiftKeyMask, ''Shift''),
        (NSNumericPadKeyMask, ''NumericPad'')])"

lemma described_written:
  "concat (map (\<lambda>(m, name). unichars name) (described_modifiers modifiers)) =
     concat (map (\<lambda>m. m @ [45]) (modifier_names modifiers))"
  by (simp add: described_modifiers_def modifier_names_def)

lemma modifier_names_plain: "list_all (\<lambda>m. 45 \<notin> set m) (modifier_names modifiers)"
  by (simp add: modifier_names_def)

lemma modifier_flags:
  "modifier_flag (unichars ''Command'') = None"
  "modifier_flag (unichars ''Control'') = Some 0x40000"
  "modifier_flag (unichars ''Alternate'') = Some 0x80000"
  "modifier_flag (unichars ''Shift'') = Some 0x20000"
  "modifier_flag (unichars ''NumericPad'') = Some 0x200000"
  "modifier_flag [] = None"
  unfolding modifier_flag_def by simp_all

lemma named_flags_or:
  "named_flags w = (w AND 0x40000) OR (w AND 0x80000) OR (w AND 0x20000) OR (w AND 0x200000)"
  unfolding named_flags_def bit.conj_disj_distrib by simp

lemma parse_modifier_names:
  "parse_modifiers (modifier_names modifiers) 0 =
     (if modifiers AND ucast NSCommandKeyMask \<noteq> 0 then None else Some (named_flags modifiers))"
  unfolding modifier_names_def named_flags_or
  by (simp add: and_masks modifier_flags del: unichars_simps)

lemma find_pair:
  "case find (\<lambda>(n, d). c = d) xs of
     Some (n, d) \<Rightarrow> d = c \<and> (n, c) \<in> set xs
   | None \<Rightarrow> c \<notin> snd ` set xs"
  by (induction xs) (auto split: option.splits)

lemma name_of_character:
  assumes "(case find (\<lambda>(name, d). c = d) character_table of Some (name, d) \<Rightarrow> name | None \<Rightarrow> [c]) = name"
  shows "if c \<in> set (map snd character_table)
    then map_of character_table name = Some c \<and> (name, c) \<in> set character_table
    else name = [c]"
proof (cases "find (\<lambda>(n, d). c = d) character_table")
  case None
  then show ?thesis using find_pair[of c character_table] assms by simp
next
  case (Some p)
  then obtain n where p: "p = (n, c)" "(n, c) \<in> set character_table"
    using find_pair[of c character_table] by auto
  then have "c \<in> set (map snd character_table)" by force
  then show ?thesis using assms Some p distinct_table_names by (simp add: map_of_eq_Some_iff)
qed

text \<open>C33: Parsing the description of a keystroke gives its character and its modifiers back, with the
  function key flag exactly for the characters that have a name, unless the character is the hyphen
  or the command key is held: those descriptions are not parsed at all.\<close>

theorem keystroke_roundtrip:
  "parseKey (describeKeyStroke c modifiers) =
     (if c \<noteq> 45 \<and> modifiers AND ucast NSCommandKeyMask = 0
      then Some (c, named_flags modifiers OR
             (if c \<in> set (map snd character_table) then ucast NSFunctionKeyMask else 0))
      else None)"
proof -
  obtain name where name:
    "(case find (\<lambda>(name, d). c = d) character_table of Some (name, d) \<Rightarrow> name | None \<Rightarrow> [c]) = name"
    by blast
  note parsed = parse_written[OF modifier_names_plain, of modifiers name,
      unfolded parse_modifiers_append parse_modifier_names]
  show ?thesis
  proof (cases "c = 45")
    case True
    then have "components name = [[], []]"
      using name_of_character[OF name] no_hyphen by simp
    then show ?thesis
      unfolding describeKeyStroke_def name described_written parsed
      using True by (simp add: modifier_flags)
  next
    case False
    then have "components name = [name]"
      using name_of_character[OF name] by (auto intro!: components_plain dest: table_names split: if_splits)
    then show ?thesis
      unfolding describeKeyStroke_def name described_written parsed
      using False name_of_character[OF name] by (auto dest: table_names split: if_splits)
  qed
qed

end
