(* ===== verification/KeyBindings.thy ===== *)
theory KeyBindings
  imports Keystrokes "HOL-Library.Sublist"
begin

text \<open>
  The tables of key bindings (\<open>Source/GSKeyBindingTable.m\<close>, \<open>Source/GSKeyBindingAction.m\<close>). A binding
  of a keystroke has an action or a table for the next keystroke. Bindings come from property lists:
  a key is a string or an array of strings, an action a string, an array of strings or a dictionary
  of further bindings. The result of \<open>NSSelectorFromString\<close> is a parameter.
\<close>

subsection \<open>Tables\<close>

datatype 's key_action = ActionSelector 's | ActionSelectorArray "'s list" | ActionQuoteNextKeyStroke

datatype ('s, 't) binding =
  Binding (character: unichar) (modifiers: "32 word") (action: "'s key_action option") (subtable: "'t option")

datatype 's binding_table = Table (bindings: "('s, 's binding_table) binding list")

text \<open>Objects of a property list. A dictionary is listed in the order of its key enumerator.\<close>

datatype 's plist =
    PString "unichar list"
  | PArray "'s plist list"
  | PDict "('s plist \<times> 's plist) list"
  | PAction "'s key_action"
  | POther

definition bound_at :: "unichar \<Rightarrow> 32 word \<Rightarrow> ('s, 't) binding \<Rightarrow> bool" where
  "bound_at c m b \<longleftrightarrow> character b = c \<and> modifiers b = m"

definition find_binding :: "unichar \<Rightarrow> 32 word \<Rightarrow> ('s, 't) binding list \<Rightarrow> ('s, 't) binding option" where
  "find_binding c m bs = find (bound_at c m) bs"

text \<open>The binding replaces the first one of its keystroke, or is appended.\<close>

fun put_binding :: "('s, 't) binding \<Rightarrow> ('s, 't) binding list \<Rightarrow> ('s, 't) binding list" where
  "put_binding b [] = [b]"
| "put_binding b (x # xs) =
     (if bound_at (character b) (modifiers b) x then b # xs else x # put_binding b xs)"

definition lookupKeyStroke ::
  "unichar \<Rightarrow> 32 word \<Rightarrow> 's binding_table \<Rightarrow> ('s key_action option \<times> 's binding_table option) option" where
  "lookupKeyStroke c flags t =
     (case find_binding c flags (bindings t) of
        None \<Rightarrow> None
      | Some b \<Rightarrow> if action b = None \<and> subtable b = None then None else Some (action b, subtable b))"

subsection \<open>Binding keys\<close>

text \<open>
  A key of several strokes stands for its first stroke and an action that is a dictionary of one
  binding, of the rest of the key. Other keys stand for themselves, an empty array for nothing.
\<close>

definition nest :: "'s plist list \<Rightarrow> 's plist \<Rightarrow> 's plist" where
  "nest ks act = foldr (\<lambda>k a. PDict [(k, a)]) ks act"

definition first_stroke :: "'s plist \<Rightarrow> 's plist \<Rightarrow> ('s plist \<times> 's plist) option" where
  "first_stroke key act =
     (case key of
        PArray [] \<Rightarrow> None
      | PArray (k # ks) \<Rightarrow> Some (k, nest ks act)
      | _ \<Rightarrow> Some (key, act))"

text \<open>The modifiers a binding is stored with: shift only matters for function keys.\<close>

definition stored_modifiers :: "32 word \<Rightarrow> 32 word" where
  "stored_modifiers m =
     (if m AND ucast NSFunctionKeyMask \<noteq> 0
      then m AND (ucast NSShiftKeyMask OR ucast NSAlternateKeyMask OR ucast NSControlKeyMask OR
        ucast NSNumericPadKeyMask)
      else m AND (ucast NSAlternateKeyMask OR ucast NSControlKeyMask OR ucast NSNumericPadKeyMask))"

definition action_of :: "('s plist \<Rightarrow> 's option) \<Rightarrow> 's plist \<Rightarrow> 's key_action option" where
  "action_of sel act =
     (case act of
        PString w \<Rightarrow> if w = [] then None else map_option ActionSelector (sel act)
      | PArray names \<Rightarrow> map_option ActionSelectorArray (those (map sel names))
      | PAction a \<Rightarrow> Some a
      | _ \<Rightarrow> None)"

fun weight :: "'s plist \<Rightarrow> nat" where
  "weight (PArray ks) = 1 + sum_list (map (\<lambda>k. 1 + weight k) ks)"
| "weight (PDict d) = 1 + sum_list (map (\<lambda>(k, a). weight k + weight a) d)"
| "weight _ = 1"

lemma weight_pos: "0 < weight p"
  by (cases p) auto

lemma weight_nest: "weight (nest ks act) = sum_list (map (\<lambda>k. 1 + weight k) ks) + weight act"
  by (induction ks) (simp_all add: nest_def)

lemma weight_first_stroke:
  "first_stroke key act = Some (k, a) \<Longrightarrow> weight k + weight a \<le> weight key + weight act"
  by (auto simp: first_stroke_def weight_nest split: plist.splits list.splits)

lemma weight_entry: "(k, v) \<in> set d \<Longrightarrow> weight k + weight v < weight (PDict d)"
  by (induction d) auto

function bindKey :: "('s plist \<Rightarrow> 's option) \<Rightarrow> 's plist \<Rightarrow> 's plist \<Rightarrow> 's binding_table \<Rightarrow> 's binding_table" where
  "bindKey sel key act t =
     (case first_stroke key act of
        Some (PString w, a) \<Rightarrow>
          (case parseKey w of
             None \<Rightarrow> t
           | Some (c, parsed) \<Rightarrow>
               let m = stored_modifiers parsed;
                   old = Option.bind (find_binding c m (bindings t)) subtable;
                   table = (case a of
                              PDict d \<Rightarrow> Some (fold (\<lambda>(k, v) t'. bindKey sel k v t') d
                                                (case old of None \<Rightarrow> Table [] | Some t' \<Rightarrow> t'))
                            | _ \<Rightarrow> None)
               in Table (put_binding (Binding c m (action_of sel a) table) (bindings t)))
      | _ \<Rightarrow> t)"
  by pat_completeness auto

termination
  by (relation "measure (\<lambda>(sel, key, act, t). weight key + weight act)")
    (auto dest!: weight_first_stroke weight_entry simp del: weight.simps)

text \<open>The entries of a dictionary one after the other.\<close>

definition loadBindings ::
  "('s plist \<Rightarrow> 's option) \<Rightarrow> ('s plist \<times> 's plist) list \<Rightarrow> 's binding_table \<Rightarrow> 's binding_table" where
  "loadBindings sel d t = fold (\<lambda>(k, v). bindKey sel k v) d t"

subsection \<open>What a table means\<close>

lemma find_put:
  "find_binding c m (put_binding b bs) =
     (if bound_at c m b then Some b else find_binding c m bs)"
  unfolding find_binding_def bound_at_def [abs_def]
  by (induction b bs rule: put_binding.induct) (auto simp: bound_at_def)

text \<open>The action bound to a sequence of keystrokes.\<close>

type_synonym stroke = "unichar \<times> 32 word"

fun meaning :: "'s binding_table \<Rightarrow> stroke list \<Rightarrow> 's key_action option" where
  "meaning t [] = None"
| "meaning t (k # ks) =
     (case lookupKeyStroke (fst k) (snd k) t of
        Some (Some a, _) \<Rightarrow> if ks = [] then Some a else None
      | Some (None, Some t') \<Rightarrow> meaning t' ks
      | _ \<Rightarrow> None)"

text \<open>Binding a sequence drops the bindings of its beginnings and of its continuations.\<close>

definition rebind :: "stroke list \<Rightarrow> 's key_action option \<Rightarrow> (stroke list \<Rightarrow> 's key_action option) \<Rightarrow>
    stroke list \<Rightarrow> 's key_action option" where
  "rebind ks a M qs = (if qs = ks then a else if strict_prefix qs ks \<or> strict_prefix ks qs then None else M qs)"

definition stroke_of :: "unichar list \<Rightarrow> stroke option" where
  "stroke_of w = map_option (\<lambda>(c, m). (c, stored_modifiers m)) (parseKey w)"

subsection \<open>Well formed tables\<close>

text \<open>No binding has both an action and a table.\<close>

lemma size_subtable: "b \<in> set bs \<Longrightarrow> subtable b = Some t \<Longrightarrow> size t < size (Table bs)"
proof -
  assume b: "b \<in> set bs" "subtable b = Some t"
  have "size t < size_binding (\<lambda>_. 0) size b" using b(2) by (cases b) auto
  also have "\<dots> \<le> size_list (size_binding (\<lambda>_. 0) size) bs"
    using b(1) by (intro size_list_estimation'[OF _ order_refl])
  finally show ?thesis by simp
qed

function wf_table :: "'s binding_table \<Rightarrow> bool" where
  "wf_table (Table bs) =
     (\<forall>b \<in> set bs. (action b = None \<or> subtable b = None) \<and>
        (case subtable b of None \<Rightarrow> True | Some t \<Rightarrow> wf_table t))"
  by pat_completeness auto

termination by (relation "measure size") (auto dest: size_subtable)

declare wf_table.simps [simp del]

lemma wf_put:
  "wf_table (Table bs) \<Longrightarrow> action b = None \<or> subtable b = None \<Longrightarrow>
    (case subtable b of None \<Rightarrow> True | Some t \<Rightarrow> wf_table t) \<Longrightarrow> wf_table (Table (put_binding b bs))"
  by (induction b bs rule: put_binding.induct) (auto simp: wf_table.simps)

lemma wf_found:
  "wf_table t \<Longrightarrow> find_binding c m (bindings t) = Some b \<Longrightarrow>
     (action b = None \<or> subtable b = None) \<and> (case subtable b of None \<Rightarrow> True | Some t \<Rightarrow> wf_table t)"
  by (cases t) (auto simp: find_binding_def find_Some_iff wf_table.simps)

text \<open>The table the bindings of a dictionary are added to.\<close>

definition table_for :: "stroke \<Rightarrow> 's binding_table \<Rightarrow> 's binding_table" where
  "table_for k t =
     (case Option.bind (find_binding (fst k) (snd k) (bindings t)) subtable of None \<Rightarrow> Table [] | Some t' \<Rightarrow> t')"

lemma wf_table_for: "wf_table t \<Longrightarrow> wf_table (table_for k t)"
  using wf_found[of t "fst k" "snd k"]
  by (auto simp: table_for_def wf_table.simps[of "[]"] split: option.splits bind_splits)

declare bindKey.simps [simp del]

lemma bindKey_stroke:
  assumes "stroke_of w = Some k"
  shows "bindKey sel (PString w) act t = Table (put_binding (Binding (fst k) (snd k) (action_of sel act)
     (case act of PDict d \<Rightarrow> Some (loadBindings sel d (table_for k t)) | _ \<Rightarrow> None)) (bindings t))"
  using assms
  by (auto simp: bindKey.simps first_stroke_def stroke_of_def table_for_def loadBindings_def Let_def
      split: plist.split)

lemma loadBindings_simps [simp]:
  "loadBindings sel [] t = t" "loadBindings sel ((k, a) # d) t = loadBindings sel d (bindKey sel k a t)"
  by (simp_all add: loadBindings_def)

lemma bindKey_unparsed: "parseKey w = None \<Longrightarrow> bindKey sel (PString w) act t = t"
  by (simp add: bindKey.simps first_stroke_def)

lemma bindKey_wf: "wf_table t \<Longrightarrow> wf_table (bindKey sel key act t)"
proof (induction sel key act t rule: bindKey.induct)
  case (1 sel key act t)
  show ?case
  proof (cases "\<exists>w a k. first_stroke key act = Some (PString w, a) \<and> stroke_of w = Some k")
    case True
    then obtain w a k where k: "first_stroke key act = Some (PString w, a)" "stroke_of w = Some k" by blast
    then have "bindKey sel key act t = bindKey sel (PString w) a t"
      by (simp add: bindKey.simps first_stroke_def)
    moreover have "wf_table (loadBindings sel d (table_for k t))" if "a = PDict d" for d
      unfolding loadBindings_def
      using 1(1)[OF k(1) refl refl] wf_table_for[OF 1(2), of k] k(2) that
      by (intro fold_invariant[of d "\<lambda>x. x \<in> set d" wf_table]) (auto simp: stroke_of_def)
    moreover have "wf_table (Table (bindings t))" using 1(2) by simp
    ultimately show ?thesis
      unfolding bindKey_stroke[OF k(2)]
      by (simp add: wf_put action_of_def split: plist.split)
  next
    case False
    then have "bindKey sel key act t = t"
      by (auto simp: bindKey.simps stroke_of_def split: option.splits plist.splits)
    then show ?thesis using 1(2) by simp
  qed
qed

lemma loadBindings_wf: "wf_table t \<Longrightarrow> wf_table (loadBindings sel d t)"
  by (induction d arbitrary: t) (auto simp: bindKey_wf)

subsection \<open>Binding sequences\<close>

lemma meaning_put:
  "meaning (Table (put_binding (Binding c m a tab) bs)) (k # ks) =
     (if k = (c, m) then
        (case a of
           Some a \<Rightarrow> if ks = [] then Some a else None
         | None \<Rightarrow> (case tab of None \<Rightarrow> None | Some t' \<Rightarrow> meaning t' ks))
      else meaning (Table bs) (k # ks))"
  by (auto simp: lookupKeyStroke_def find_put bound_at_def split: option.splits)

text \<open>Below the first stroke a well formed table means what the table of the stroke means.\<close>

lemma meaning_table_for:
  assumes "wf_table t" and "ks \<noteq> []"
  shows "meaning (table_for k t) ks = meaning t (k # ks)"
proof -
  have empty: "meaning (Table []) ks = None"
    by (cases ks) (simp_all add: lookupKeyStroke_def find_binding_def)
  show ?thesis
    using wf_found[OF assms(1), of "fst k" "snd k"] assms(2)
    by (auto simp: table_for_def empty lookupKeyStroke_def[of "fst k"] split: option.split bind_split)
qed

lemma bind_single:
  assumes "stroke_of w = Some k" and "\<forall>d. act \<noteq> PDict d"
  shows "meaning (bindKey sel (PString w) act t) = rebind [k] (action_of sel act) (meaning t)"
proof
  fix qs
  have none: "(case act of PDict d \<Rightarrow> Some (loadBindings sel d (table_for k t)) | _ \<Rightarrow> None) = None"
    using assms(2) by (simp split: plist.split)
  show "meaning (bindKey sel (PString w) act t) qs = rebind [k] (action_of sel act) (meaning t) qs"
    by (cases qs) (auto simp: bindKey_stroke[OF assms(1)] none meaning_put rebind_def strict_prefix_def
        simp del: meaning.simps(2) split: option.split)
qed

lemma bindKey_string: "bindKey sel (PArray [PString w]) act t = bindKey sel (PString w) act t"
  by (simp add: bindKey.simps first_stroke_def nest_def)

lemma bindKey_array:
  "bindKey sel (PArray (PString w # PString w2 # ks)) act t =
     bindKey sel (PString w) (PDict [(PString w2, nest ks act)]) t"
  by (simp add: bindKey.simps first_stroke_def nest_def)

lemma bindKey_nested:
  "bindKey sel (PString w) (nest ks act) t = bindKey sel (PArray (PString w # ks)) act t"
  by (simp add: bindKey.simps first_stroke_def)

lemma bind_sequence:
  assumes "those (map stroke_of ws) = Some ks" and "ws \<noteq> []" and "\<forall>d. act \<noteq> PDict d" and "wf_table t"
  shows "meaning (bindKey sel (PArray (map PString ws)) act t) = rebind ks (action_of sel act) (meaning t)"
  using assms(1,2,4)
proof (induction ws arbitrary: ks t)
  case (Cons w ws)
  obtain k where k: "stroke_of w = Some k" using Cons.prems(1) by (auto split: option.splits)
  then obtain ks' where ks': "those (map stroke_of ws) = Some ks'" "ks = k # ks'"
    using Cons.prems(1) by auto
  show ?case
  proof (cases ws)
    case Nil
    then show ?thesis using bind_single[OF k assms(3)] ks' by (simp add: bindKey_string)
  next
    case (Cons w2 ws2)
    have "ks' \<noteq> []" using ks'(1) Cons by (auto split: option.splits)
    have inner: "meaning (loadBindings sel [(PString w2, nest (map PString ws2) act)] (table_for k t)) =
        rebind ks' (action_of sel act) (meaning (table_for k t))"
      using Cons.IH[OF ks'(1) _ wf_table_for[OF Cons.prems(3)]] Cons by (simp add: bindKey_nested)
    show ?thesis
    proof
      fix qs
      show "meaning (bindKey sel (PArray (map PString (w # ws))) act t) qs =
          rebind ks (action_of sel act) (meaning t) qs"
        using inner meaning_table_for[OF Cons.prems(3), of "tl qs"] \<open>ks' \<noteq> []\<close>
        by (cases qs; cases "tl qs")
          (auto simp: Cons bindKey_array bindKey_stroke[OF k] meaning_put action_of_def rebind_def ks'(2)
            strict_prefix_def simp del: meaning.simps(2))
    qed
  qed
qed simp

text \<open>The strokes of a key, when all of them can be parsed, and the binding of a dictionary entry.\<close>

definition strokes_of :: "'s plist \<Rightarrow> stroke list option" where
  "strokes_of key =
     (case key of
        PString w \<Rightarrow> map_option (\<lambda>k. [k]) (stroke_of w)
      | PArray ks \<Rightarrow>
          if ks = [] then None
          else those (map (\<lambda>p. case p of PString w \<Rightarrow> stroke_of w | _ \<Rightarrow> None) ks)
      | _ \<Rightarrow> None)"

definition entry :: "('s plist \<Rightarrow> 's option) \<Rightarrow> 's plist \<times> 's plist \<Rightarrow> (stroke list \<times> 's key_action option) option" where
  "entry sel b =
     (case snd b of
        PDict d \<Rightarrow> None
      | act \<Rightarrow> map_option (\<lambda>ks. (ks, action_of sel act)) (strokes_of (fst b)))"

lemma those_strings:
  "those (map (\<lambda>p. case p of PString w \<Rightarrow> stroke_of w | _ \<Rightarrow> None) ps) = Some ks \<Longrightarrow>
     \<exists>ws. ps = map PString ws \<and> those (map stroke_of ws) = Some ks"
proof (induction ps arbitrary: ks)
  case (Cons p ps)
  then obtain w k ks' where w: "p = PString w" "stroke_of w = Some k" "ks = k # ks'"
    "those (map (\<lambda>p. case p of PString w \<Rightarrow> stroke_of w | _ \<Rightarrow> None) ps) = Some ks'"
    by (auto split: option.splits plist.splits)
  with Cons.IH[OF this(4)] obtain ws where "ps = map PString ws" "those (map stroke_of ws) = Some ks'" by blast
  then show ?case using w by (intro exI[of _ "w # ws"]) simp
qed simp

lemma bind_entry:
  assumes "entry sel (key, act) = Some (ks, a)" and "wf_table t"
  shows "meaning (bindKey sel key act t) = rebind ks a (meaning t)"
proof -
  have act: "\<forall>d. act \<noteq> PDict d" and a: "a = action_of sel act" and ks: "strokes_of key = Some ks"
    using assms(1) by (auto simp: entry_def split: plist.splits)
  from ks consider w k where "key = PString w" "stroke_of w = Some k" "ks = [k]"
    | ps where "key = PArray ps" "ps \<noteq> []"
      "those (map (\<lambda>p. case p of PString w \<Rightarrow> stroke_of w | _ \<Rightarrow> None) ps) = Some ks"
    by (auto simp: strokes_of_def split: plist.splits if_splits)
  then show ?thesis
  proof cases
    case 1
    then show ?thesis using bind_single[OF _ act] a by simp
  next
    case 2
    then obtain ws where "ps = map PString ws" "those (map stroke_of ws) = Some ks" "ws \<noteq> []"
      using those_strings by blast
    then show ?thesis using bind_sequence[OF _ _ act assms(2)] 2(1) a by simp
  qed
qed

lemma meaning_loaded:
  "those (map (entry sel) d) = Some es \<Longrightarrow> wf_table t \<Longrightarrow>
     meaning (loadBindings sel d t) = fold (\<lambda>(ks, a). rebind ks a) es (meaning t)"
proof (induction d arbitrary: es t)
  case (Cons b d)
  obtain key act where b: "b = (key, act)" by fastforce
  obtain ks a es' where e: "entry sel (key, act) = Some (ks, a)" "those (map (entry sel) d) = Some es'"
    "es = (ks, a) # es'"
    using Cons.prems(1) b by (auto split: option.splits)
  show ?case
    using Cons.IH[OF e(2) bindKey_wf[OF Cons.prems(2)]] bind_entry[OF e(1) Cons.prems(2)] e(3) b
    by simp
qed simp

text \<open>C18: Loading a dictionary whose keys can be parsed and whose actions are selectors, arrays of selectors or
  disabled, so not dictionaries themselves, refines a map from sequences of keystrokes to actions: entry by entry, in the order of the enumerator, the sequence gets its action, or none when
  it is disabled, and the sequences that begin with it or that it begins with lose theirs.\<close>

theorem bindings_refine:
  assumes "those (map (entry sel) d) = Some es" and "wf_table t"
  shows "meaning (loadBindings sel d t) = fold (\<lambda>(ks, a). rebind ks a) es (meaning t) \<and>
    wf_table (loadBindings sel d t)"
  using meaning_loaded[OF assms] loadBindings_wf[OF assms(2)] by simp

abbreviation save_key :: "'s plist" where
  "save_key \<equiv> PArray [PString (unichars ''Control-x''), PString (unichars ''C-s'')]"

lemma parsed_examples:
  "parseKey (unichars ''Control-x'') = Some (120, 0x40000)" "parseKey (unichars ''C-s'') = Some (115, 0x40000)"
  by (simp_all add: parseKey_def modifier_flag_def)

lemma save_entry:
  "those (map (entry (\<lambda>_. Some x)) [(save_key, PString (unichars ''save:''))]) =
     Some [([(120, 0x40000), (115, 0x40000)], Some (ActionSelector x))]"
proof -
  have "stroke_of (unichars ''Control-x'') = Some (120, 0x40000)"
    "stroke_of (unichars ''C-s'') = Some (115, 0x40000)"
    unfolding stroke_of_def parsed_examples stored_modifiers_def by simp_all
  then show ?thesis by (simp add: entry_def strokes_of_def action_of_def del: unichars_simps) simp
qed

theorem bindings_refine_witness:
  "meaning (loadBindings (\<lambda>_. Some (7 :: nat)) [(save_key, PString (unichars ''save:''))] (Table []))
     [(120, 0x40000), (115, 0x40000)] = Some (ActionSelector 7)"
proof -
  have "wf_table (Table [])" by (simp add: wf_table.simps)
  from bindings_refine[OF save_entry[of "7 :: nat"] this] show ?thesis
    by (simp add: rebind_def del: meaning.simps loadBindings_simps unichars_simps)
qed

text \<open>
  A sequence is bound from its first stroke on, before its other strokes are parsed: when the second
  cannot be parsed nothing is bound, but the action of the first stroke is lost.
\<close>

lemma half_bound:
  assumes "stroke_of w = Some k" and "parseKey w2 = None"
  shows "meaning (bindKey sel (PArray [PString w, PString w2]) act t) [k] = None"
proof -
  have "bindKey sel (PArray [PString w, PString w2]) act t =
      Table (put_binding (Binding (fst k) (snd k) None (Some (table_for k t))) (bindings t))"
    by (simp add: bindKey_array bindKey_stroke[OF assms(1)] nest_def action_of_def
        bindKey_unparsed[OF assms(2)])
  then show ?thesis by (simp add: meaning_put del: meaning.simps(2))
qed

end
