(* ===== verification/InputManager.thy ===== *)
theory InputManager
  imports KeyBindings
begin

text \<open>
  The input manager (\<open>Source/NSInputManager.m\<close>) turns keyboard events into commands and text for its
  client. It follows bound sequences of keystrokes through the tables, keeps the events of a sequence
  it has begun, and interprets them literally when the sequence turns out not to be bound. What the
  client is sent is recorded; the client is taken not to call the manager back. The contents of string
  objects are a parameter, \<open>nil\<close> having none; selectors are their names.
\<close>

subsection \<open>State\<close>

datatype effect = DoCommand string | InsertText "64 word" | Beep | ContextHelp

record ('p, 't, 'c) manager =
  rootBindingTable :: "string binding_table"
  currentBindingTable :: "string binding_table option"
  pendingKeyEvents :: "('p, 't) event list"
  interpretNextKeyStrokeLiterally :: bool
  abortCharacter :: unichar
  abortFlags :: "32 word"
  insertControlKeystrokes :: bool
  currentClient :: "'c option"
  sent :: "effect list"

definition resetInternalState :: "('p, 't, 'c) manager \<Rightarrow> ('p, 't, 'c) manager" where
  "resetInternalState s = s\<lparr>currentBindingTable := Some (rootBindingTable s),
     pendingKeyEvents := [], interpretNextKeyStrokeLiterally := False\<rparr>"

definition quoteNextKeyStroke :: "('p, 't, 'c) manager \<Rightarrow> ('p, 't, 'c) manager" where
  "quoteNextKeyStroke s = s\<lparr>interpretNextKeyStrokeLiterally := True\<rparr>"

definition emit :: "effect list \<Rightarrow> ('p, 't, 'c) manager \<Rightarrow> ('p, 't, 'c) manager" where
  "emit os s = s\<lparr>sent := sent s @ os\<rparr>"

fun performAction :: "string key_action \<Rightarrow> ('p, 't, 'c) manager \<Rightarrow> ('p, 't, 'c) manager" where
  "performAction (ActionSelector x) s = emit [DoCommand x] s"
| "performAction (ActionSelectorArray xs) s = emit (map DoCommand xs) s"
| "performAction ActionQuoteNextKeyStroke s = quoteNextKeyStroke s"

subsection \<open>Literal interpretation\<close>

definition default_effect :: "64 word \<Rightarrow> unichar \<Rightarrow> 64 word \<Rightarrow> effect" where
  "default_effect inserted c flags =
     (let key = (\<lambda>x. character_of (Name x))
      in if c = key ''NSDeleteCharacter'' \<or> c = key ''NSBackspaceCharacter'' then DoCommand ''deleteBackward:''
         else if c = 0x1b then DoCommand ''cancelOperation:''
         else if c = key ''NSBackTabCharacter'' then DoCommand ''insertBacktab:''
         else if c = key ''NSTabCharacter''
         then DoCommand (if flags AND NSShiftKeyMask \<noteq> 0 then ''insertBacktab:'' else ''insertTab:'')
         else if c = key ''NSEnterCharacter'' \<or> c = key ''NSFormFeedCharacter'' \<or>
           c = key ''NSCarriageReturnCharacter''
         then DoCommand (if flags AND NSAlternateKeyMask \<noteq> 0 then ''insertNewlineIgnoringFieldEditor:''
                         else ''insertNewline:'')
         else if c = key ''NSHelpFunctionKey'' then ContextHelp
         else InsertText inserted)"

text \<open>Whether the loop over the events stops, and the state.\<close>

definition interpretLiterally ::
  "64 word \<Rightarrow> unichar \<Rightarrow> 64 word \<Rightarrow> bool \<Rightarrow> ('p, 't, 'c) manager \<Rightarrow> bool \<times> ('p, 't, 'c) manager" where
  "interpretLiterally inserted c flags isFunctionKey s =
     (let s = s\<lparr>interpretNextKeyStrokeLiterally := False\<rparr>
      in if isFunctionKey then (True, emit [Beep] s)
         else if \<not> insertControlKeystrokes s \<and> flags AND NSControlKeyMask \<noteq> 0 then (True, emit [Beep] s)
         else (False, emit [default_effect inserted c flags] s))"

subsection \<open>Keyboard events\<close>

definition first_character :: "unichar list \<Rightarrow> unichar" where
  "first_character cs = (if 0 < length cs then cs ! 0 else 0)"

definition key_flags :: "('p, 't) event \<Rightarrow> 64 word" where
  "key_flags e = modifier_flags e AND
     (NSShiftKeyMask OR NSAlternateKeyMask OR NSControlKeyMask OR NSNumericPadKeyMask)"

definition is_function_key :: "('p, 't) event \<Rightarrow> bool" where
  "is_function_key e \<longleftrightarrow> modifier_flags e AND NSFunctionKeyMask = NSFunctionKeyMask"

definition adapted_flags :: "('p, 't) event \<Rightarrow> 32 word" where
  "adapted_flags e = ucast (if is_function_key e then key_flags e else key_flags e AND NOT NSShiftKeyMask)"

text \<open>What a keystroke is in the current table.\<close>

datatype recognised = Abort | Perform "string key_action" | Continue "string binding_table" | Unbound

definition recognise :: "unichar \<Rightarrow> 32 word \<Rightarrow> ('p, 't, 'c) manager \<Rightarrow> recognised" where
  "recognise c flags s =
     (if c = abortCharacter s \<and> flags = abortFlags s then Abort
      else case Option.bind (currentBindingTable s) (lookupKeyStroke c flags) of
        Some (Some a, _) \<Rightarrow> Perform a
      | Some (None, Some t) \<Rightarrow> Continue t
      | _ \<Rightarrow> Unbound)"

text \<open>The loop over the events; \<open>again\<close> is the method itself, called for the same client.\<close>

fun event_loop ::
  "(64 word \<Rightarrow> unichar list) \<Rightarrow>
   (('p, 't) event list \<Rightarrow> ('p, 't, 'c) manager \<Rightarrow> ('p, 't, 'c) manager pstep) \<Rightarrow>
   ('p, 't) event list \<Rightarrow> ('p, 't, 'c) manager \<Rightarrow> ('p, 't, 'c) manager pstep" where
  "event_loop contents again [] s = Some (Inr s)"
| "event_loop contents again (e # es) s =
     attempt s (Some (characters e)) (\<lambda>inserted.
     attempt s (Some (charactersIgnoringModifiers e)) (\<lambda>unmodified.
       let c = first_character (contents unmodified);
           literally = (case interpretLiterally inserted c (key_flags e) (is_function_key e) s of
             (stop, s') \<Rightarrow> if stop then Some (Inr s') else event_loop contents again es s')
       in if interpretNextKeyStrokeLiterally s then literally
          else (case recognise c (adapted_flags e) s of
                  Abort \<Rightarrow> Some (Inr (resetInternalState s))
                | Perform a \<Rightarrow> Some (Inr (performAction a (resetInternalState s)))
                | Continue t \<Rightarrow>
                    Some (Inr (s\<lparr>currentBindingTable := Some t,
                                 pendingKeyEvents := pendingKeyEvents s @ [e]\<rparr>))
                | Unbound \<Rightarrow>
                    (if pendingKeyEvents s \<noteq> []
                     then pbind
                       (again [pendingKeyEvents s ! 0] (quoteNextKeyStroke (resetInternalState s)))
                       (again (tl (pendingKeyEvents s) @ [e]))
                     else literally))))"

definition enter :: "'c option \<Rightarrow> ('p, 't, 'c) manager \<Rightarrow> ('p, 't, 'c) manager" where
  "enter client s =
     (if client \<noteq> currentClient s then resetInternalState s else s)\<lparr>currentClient := client\<rparr>"

lemma event_loop_mono [partial_function_mono]:
  assumes "\<And>es s. mono_option (\<lambda>f. A f es s)"
  shows "mono_option (\<lambda>f. event_loop contents (A f) es s)"
proof (induction es arbitrary: s)
  case Nil
  show ?case by (simp add: option.const_mono)
next
  case (Cons e es)
  have literally: "mono_option (\<lambda>f. case interpretLiterally inserted c flags fn s of
      (stop, s') \<Rightarrow> if stop then Some (Inr s') else event_loop contents (A f) es s')" for inserted c flags fn
    by (cases "interpretLiterally inserted c flags fn s") (auto intro!: if_mono option.const_mono Cons.IH)
  show ?case
    unfolding event_loop.simps Let_def
  proof (intro attempt_mono if_mono literally, goal_cases)
    case (1 inserted unmodified)
    show ?case
      by (cases "recognise (first_character (contents unmodified)) (adapted_flags e) s")
        (simp_all add: option.const_mono if_mono literally pbind_mono assms)
  qed
qed

partial_function (option) handleKeyboardEvents ::
  "(64 word \<Rightarrow> unichar list) \<Rightarrow> 'c option \<Rightarrow> ('p, 't) event list \<Rightarrow>
   ('p, 't, 'c) manager \<Rightarrow> ('p, 't, 'c) manager pstep" where
  "handleKeyboardEvents contents client events s =
     event_loop contents (handleKeyboardEvents contents client) events (enter client s)"

subsection \<open>The start\<close>

text \<open>
  The defaults are parameters: the abort and quote keys, whether control keystrokes are inserted, the
  dictionaries of the key binding files in the order they are loaded, and the bindings given directly.
\<close>

definition initWithName ::
  "(string plist \<Rightarrow> string option) \<Rightarrow> unichar list option \<Rightarrow> bool \<Rightarrow> unichar list option \<Rightarrow>
   (string plist \<times> string plist) list list \<Rightarrow> (string plist \<times> string plist) list option \<Rightarrow>
   ('p, 't, 'c) manager" where
  "initWithName sel abortKey insertControl quoteKey files given =
     (let abort = (case Option.bind abortKey parseKey of
                     None \<Rightarrow> (of_char (CHR ''g''), ucast NSControlKeyMask)
                   | Some k \<Rightarrow> k);
          quote = (case quoteKey of None \<Rightarrow> unichars ''Control-q'' | Some w \<Rightarrow> w);
          table = bindKey sel (PString quote) (PAction ActionQuoteNextKeyStroke) (Table []);
          table = fold (loadBindings sel) files table;
          table = (case given of None \<Rightarrow> table | Some d \<Rightarrow> loadBindings sel d table)
      in \<lparr>rootBindingTable = table, currentBindingTable = None, pendingKeyEvents = [],
          interpretNextKeyStrokeLiterally = False, abortCharacter = fst abort, abortFlags = snd abort,
          insertControlKeystrokes = insertControl, currentClient = None, sent = []\<rparr>)"

text \<open>The state without its output and its flag for the next keystroke.\<close>

lemma interpretLiterally_state:
  assumes "interpretLiterally inserted c flags fn s = (stop, s')"
  shows "pendingKeyEvents s' = pendingKeyEvents s" and "currentBindingTable s' = currentBindingTable s"
    and "rootBindingTable s' = rootBindingTable s" and "currentClient s' = currentClient s"
    and "abortCharacter s' = abortCharacter s" and "abortFlags s' = abortFlags s"
    and "\<not> interpretNextKeyStrokeLiterally s'"
  using assms by (auto simp: interpretLiterally_def emit_def Let_def split: if_splits)

lemma performAction_state:
  "pendingKeyEvents (performAction a s) = pendingKeyEvents s"
  "currentBindingTable (performAction a s) = currentBindingTable s"
  "rootBindingTable (performAction a s) = rootBindingTable s"
  "currentClient (performAction a s) = currentClient s"
  by (cases a; simp add: emit_def quoteNextKeyStroke_def)+

subsection \<open>Every call returns\<close>

text \<open>Key events have characters; any other event raises, in both accessors.\<close>

definition key_event_of :: "('p, 't) event \<Rightarrow> 64 word \<Rightarrow> 64 word \<Rightarrow> bool" where
  "key_event_of e inserted unmodified \<longleftrightarrow>
     characters e = Inr inserted \<and> charactersIgnoringModifiers e = Inr unmodified"

lemma event_loop_raises:
  "characters e = Inl x \<Longrightarrow> event_loop contents again (e # es) s = Some (Inl (x, s))"
  by simp

lemma key_eventE:
  assumes "\<And>x. characters e = Inl x \<Longrightarrow> P" and "\<And>i u. key_event_of e i u \<Longrightarrow> P"
  shows P
  using assms unfolding key_event_of_def characters_def charactersIgnoringModifiers_def
  by (metis)

text \<open>Without pending events the method does not call itself.\<close>

lemma event_loop_fresh:
  assumes "pendingKeyEvents s = []"
  shows "event_loop contents again es s = event_loop contents (\<lambda>_ _. None) es s"
    and "event_loop contents again es s \<noteq> None"
proof -
  have "event_loop contents again es s = event_loop contents (\<lambda>_ _. None) es s \<and>
      event_loop contents again es s \<noteq> None"
    using assms
  proof (induction es arbitrary: s)
    case (Cons e es)
    show ?case
    proof (rule key_eventE[of e])
      fix i u assume e: "key_event_of e i u"
      obtain stop s' where lit:
        "interpretLiterally i (first_character (contents u)) (key_flags e) (is_function_key e) s = (stop, s')"
        by fastforce
      have "pendingKeyEvents s' = []" using interpretLiterally_state(1)[OF lit] Cons.prems by simp
      from Cons.IH[OF this] obtain r where "event_loop contents (\<lambda>_ _. None) es s' = Some r"
        "event_loop contents again es s' = Some r" by fastforce
      then show ?thesis
        using e lit Cons.prems by (auto simp: key_event_of_def Let_def split: recognised.split)
    qed (simp add: event_loop_raises)
  qed simp
  then show "event_loop contents again es s = event_loop contents (\<lambda>_ _. None) es s"
    and "event_loop contents again es s \<noteq> None" by blast+
qed

lemma event_loop_literal:
  assumes "pendingKeyEvents s = []" and "interpretNextKeyStrokeLiterally s"
    and "event_loop contents again [e] s = Some (Inr s')"
  shows "pendingKeyEvents s' = []" and "\<not> interpretNextKeyStrokeLiterally s'"
    and "currentBindingTable s' = currentBindingTable s" and "rootBindingTable s' = rootBindingTable s"
    and "currentClient s' = currentClient s"
    and "abortCharacter s' = abortCharacter s" and "abortFlags s' = abortFlags s"
proof -
  obtain i u where e: "key_event_of e i u"
    using assms(3) event_loop_raises[of e] by (metis key_eventE option.inject sum.distinct(1))
  obtain stop t where lit:
    "interpretLiterally i (first_character (contents u)) (key_flags e) (is_function_key e) s = (stop, t)"
    by fastforce
  then have "s' = t" using assms(2,3) e by (simp add: key_event_of_def split: if_splits)
  then show "pendingKeyEvents s' = []" and "\<not> interpretNextKeyStrokeLiterally s'"
    and "currentBindingTable s' = currentBindingTable s" and "rootBindingTable s' = rootBindingTable s"
    and "currentClient s' = currentClient s"
    and "abortCharacter s' = abortCharacter s" and "abortFlags s' = abortFlags s"
    using interpretLiterally_state[OF lit] assms(1) by simp_all
qed

lemma quoted_reset [simp]:
  "pendingKeyEvents (quoteNextKeyStroke (resetInternalState s)) = []"
  "interpretNextKeyStrokeLiterally (quoteNextKeyStroke (resetInternalState s))"
  "currentClient (quoteNextKeyStroke (resetInternalState s)) = currentClient s"
  "rootBindingTable (quoteNextKeyStroke (resetInternalState s)) = rootBindingTable s"
  "currentBindingTable (quoteNextKeyStroke (resetInternalState s)) = Some (rootBindingTable s)"
  "abortCharacter (quoteNextKeyStroke (resetInternalState s)) = abortCharacter s"
  "abortFlags (quoteNextKeyStroke (resetInternalState s)) = abortFlags s"
  by (simp_all add: quoteNextKeyStroke_def resetInternalState_def)

lemma enter_same [simp]: "enter (currentClient s) s = s"
  by (simp add: enter_def)

lemma handle_fresh:
  assumes "pendingKeyEvents s = []"
  shows "handleKeyboardEvents contents client es s = event_loop contents (\<lambda>_ _. None) es (enter client s)"
proof -
  have "pendingKeyEvents (enter client s) = []" using assms by (simp add: enter_def resetInternalState_def)
  then show ?thesis
    by (subst handleKeyboardEvents.simps) (rule event_loop_fresh(1))
qed

text \<open>An unbound keystroke with events pending: the first of them literally, the others anew.\<close>

lemma refeed:
  assumes "currentClient s = client"
  shows "\<exists>r. handleKeyboardEvents contents client [p] (quoteNextKeyStroke (resetInternalState s)) = Some r \<and>
    (\<forall>s'. r = Inr s' \<longrightarrow> pendingKeyEvents s' = [] \<and> \<not> interpretNextKeyStrokeLiterally s' \<and>
       currentBindingTable s' = Some (rootBindingTable s) \<and> rootBindingTable s' = rootBindingTable s \<and>
       currentClient s' = client \<and> abortCharacter s' = abortCharacter s \<and> abortFlags s' = abortFlags s)"
proof -
  let ?q = "quoteNextKeyStroke (resetInternalState s)"
  have "enter client ?q = ?q" using enter_same[of ?q] assms by (simp only: quoted_reset(3))
  then have eq: "handleKeyboardEvents contents client [p] ?q = event_loop contents (\<lambda>_ _. None) [p] ?q"
    by (subst handle_fresh) simp_all
  obtain r where r: "event_loop contents (\<lambda>_ _. None) [p] ?q = Some r"
    using event_loop_fresh(2)[of ?q contents "\<lambda>_ _. None" "[p]"] by auto
  moreover have "pendingKeyEvents s' = [] \<and> \<not> interpretNextKeyStrokeLiterally s' \<and>
      currentBindingTable s' = Some (rootBindingTable s) \<and> rootBindingTable s' = rootBindingTable s \<and>
      currentClient s' = client \<and> abortCharacter s' = abortCharacter s \<and> abortFlags s' = abortFlags s"
    if "r = Inr s'" for s'
    using event_loop_literal[OF quoted_reset(1,2) r[unfolded that]] assms
    by (simp only: quoted_reset simp_thms)
  ultimately show ?thesis unfolding eq by blast
qed

lemma handle_fresh_total: "pendingKeyEvents s = [] \<Longrightarrow> handleKeyboardEvents contents client es s \<noteq> None"
  unfolding handle_fresh by (rule event_loop_fresh(2)) (simp add: enter_def resetInternalState_def)

lemma event_loop_total:
  "currentClient s = client \<Longrightarrow> event_loop contents (handleKeyboardEvents contents client) es s \<noteq> None"
proof (induction es arbitrary: s)
  case (Cons e es)
  show ?case
  proof (rule key_eventE[of e])
    fix i u assume e: "key_event_of e i u"
    obtain stop s' where lit:
      "interpretLiterally i (first_character (contents u)) (key_flags e) (is_function_key e) s = (stop, s')"
      by fastforce
    have rest: "event_loop contents (handleKeyboardEvents contents client) es s' \<noteq> None"
      using Cons.IH interpretLiterally_state(4)[OF lit] Cons.prems by simp
    obtain r where r: "handleKeyboardEvents contents client [pendingKeyEvents s ! 0]
        (quoteNextKeyStroke (resetInternalState s)) = Some r"
      "\<And>s'. r = Inr s' \<Longrightarrow> pendingKeyEvents s' = []"
      using refeed[OF Cons.prems] by blast
    have again: "pbind (Some r) (handleKeyboardEvents contents client (tl (pendingKeyEvents s) @ [e])) \<noteq> None"
      using r(2) handle_fresh_total by (cases r) auto
    show ?thesis
      using e lit rest r(1) again by (auto simp: key_event_of_def Let_def split: recognised.split)
  qed (simp add: event_loop_raises)
qed simp

text \<open>C20: A call to handle keyboard events returns, whatever the bindings, the pending events and the
  events are: the method calls itself at most twice, and these calls do not call it again.\<close>

theorem input_returns: "\<exists>r. handleKeyboardEvents contents client es s = Some r"
proof -
  have "currentClient (enter client s) = client" by (simp add: enter_def)
  from event_loop_total[OF this] show ?thesis by (subst handleKeyboardEvents.simps) auto
qed

subsection \<open>The table follows the pending events\<close>

definition event_stroke :: "(64 word \<Rightarrow> unichar list) \<Rightarrow> ('p, 't) event \<Rightarrow> stroke" where
  "event_stroke contents e =
     (case charactersIgnoringModifiers e of
        Inl x \<Rightarrow> (0, adapted_flags e)
      | Inr u \<Rightarrow> (first_character (contents u), adapted_flags e))"

fun follow :: "'s binding_table \<Rightarrow> stroke list \<Rightarrow> 's binding_table option" where
  "follow t [] = Some t"
| "follow t (k # ks) =
     (case lookupKeyStroke (fst k) (snd k) t of
        Some (None, Some t') \<Rightarrow> follow t' ks
      | _ \<Rightarrow> None)"

lemma follow_append: "follow t (ks @ qs) = Option.bind (follow t ks) (\<lambda>t'. follow t' qs)"
  by (induction t ks rule: follow.induct) (auto split: option.splits)

definition tracks :: "(64 word \<Rightarrow> unichar list) \<Rightarrow> ('p, 't, 'c) manager \<Rightarrow> bool" where
  "tracks contents s \<longleftrightarrow>
     (interpretNextKeyStrokeLiterally s \<longrightarrow> pendingKeyEvents s = []) \<and>
     (case currentBindingTable s of
        None \<Rightarrow> pendingKeyEvents s = []
      | Some t \<Rightarrow> follow (rootBindingTable s) (map (event_stroke contents) (pendingKeyEvents s)) = Some t)"

lemma tracks_reset: "tracks contents (resetInternalState s)"
  by (simp add: tracks_def resetInternalState_def)

lemma tracks_client: "tracks contents (s\<lparr>currentClient := c\<rparr>) = tracks contents s"
  by (simp add: tracks_def split: option.split)

lemma tracks_quote: "tracks contents (quoteNextKeyStroke (resetInternalState s))"
  by (simp add: tracks_def)

lemma tracks_perform: "tracks contents (performAction a (resetInternalState s))"
  using tracks_reset[of contents s]
  by (cases a) (auto simp: tracks_def emit_def quoteNextKeyStroke_def resetInternalState_def)

lemma tracks_literal:
  "tracks contents s \<Longrightarrow> interpretLiterally i c flags fn s = (stop, s') \<Longrightarrow> tracks contents s'"
  by (auto simp: tracks_def interpretLiterally_state split: option.split)

lemma recognise_continue:
  assumes "recognise c flags s = Continue t"
  obtains t0 where "currentBindingTable s = Some t0" and "lookupKeyStroke c flags t0 = Some (None, Some t)"
  using assms by (auto simp: recognise_def split: if_splits option.splits bind_splits)

lemma tracks_continue:
  assumes "tracks contents s" and "recognise (first_character (contents u)) (adapted_flags e) s = Continue t"
    and "key_event_of e i u" and "\<not> interpretNextKeyStrokeLiterally s"
  shows "tracks contents (s\<lparr>currentBindingTable := Some t, pendingKeyEvents := pendingKeyEvents s @ [e]\<rparr>)"
  using recognise_continue[OF assms(2)] assms(1,3,4)
  by (force simp: tracks_def follow_append event_stroke_def key_event_of_def)

abbreviation good where
  "good contents s s' \<equiv> tracks contents s' \<and> rootBindingTable s' = rootBindingTable s"

lemma event_loop_tracks:
  assumes again: "\<And>es s r. tracks contents s \<Longrightarrow> again es s = Some r \<Longrightarrow> good contents s (final r)"
  shows "tracks contents s \<Longrightarrow> event_loop contents again es s = Some r \<Longrightarrow> good contents s (final r)"
proof (induction es arbitrary: s)
  case (Cons e es)
  show ?case
  proof (rule key_eventE[of e])
    fix i u assume e: "key_event_of e i u"
    obtain stop s' where lit:
      "interpretLiterally i (first_character (contents u)) (key_flags e) (is_function_key e) s = (stop, s')"
      by fastforce
    have literally: "good contents s (final r)"
      if "(if stop then Some (Inr s') else event_loop contents again es s') = Some r"
      using Cons.IH[of s'] tracks_literal[OF Cons.prems(1) lit] interpretLiterally_state(3)[OF lit] that
      by (cases stop) auto
    have refed: "good contents s (final r)" if bound: "pbind (again [p] (quoteNextKeyStroke (resetInternalState s)))
        (again ps) = Some r" for p ps
    proof -
      obtain q where q: "again [p] (quoteNextKeyStroke (resetInternalState s)) = Some q"
        using bound by (cases "again [p] (quoteNextKeyStroke (resetInternalState s))") auto
      from again[OF tracks_quote q] show ?thesis
        using bound again[of "final q" ps r] unfolding q by (cases q) auto
    qed
    show ?thesis
      using Cons.prems e lit literally refed
        tracks_reset[of contents s] tracks_perform[of contents _ s] tracks_continue[OF Cons.prems(1) _ e]
      by (auto simp: key_event_of_def Let_def performAction_state resetInternalState_def
          split: if_splits recognised.splits)
  qed (use Cons.prems in \<open>auto simp: event_loop_raises\<close>)
qed auto

lemma handle_tracks:
  assumes "handleKeyboardEvents contents client es s = Some r" and "tracks contents s"
  shows "good contents s (final r)"
  using assms
proof (induction rule: handleKeyboardEvents.raw_induct[rotated, consumes 1])
  case (1 handle contents client es s r)
  have "tracks contents (enter client s)"
    using 1(3) tracks_reset[of contents s] by (simp add: enter_def tracks_client)
  then show ?case
    using event_loop_tracks[of contents "handle contents client"] 1(1,2)
    by (auto simp: enter_def resetInternalState_def)
qed

text \<open>The states calls lead to, whether they raise or not.\<close>

inductive reaches ::
  "(64 word \<Rightarrow> unichar list) \<Rightarrow> ('p, 't, 'c) manager \<Rightarrow> ('p, 't, 'c) manager \<Rightarrow> bool"
  for contents s where
  reaches_start: "reaches contents s s"
| reaches_call: "reaches contents s t \<Longrightarrow> handleKeyboardEvents contents client es t = Some r \<Longrightarrow>
    reaches contents s (final r)"

text \<open>C19: In every state that calls lead to from the start, the current table is the one the strokes of
  the pending events lead to from the table of all bindings, no events are pending while the next
  keystroke is to be taken literally, and the table of all bindings is the one made at the start.\<close>

theorem input_tracks:
  assumes "reaches contents (initWithName sel abortKey insertControl quoteKey files given) s"
  shows "tracks contents s \<and> rootBindingTable s =
    rootBindingTable (initWithName sel abortKey insertControl quoteKey files given :: ('p, 't, 'c) manager)"
  using assms
proof (induction rule: reaches.induct)
  case reaches_start
  show ?case by (simp add: tracks_def initWithName_def Let_def)
next
  case (reaches_call t client es r)
  then show ?case using handle_tracks by metis
qed

definition typed_key :: "64 word \<Rightarrow> 64 word \<Rightarrow> (nat, nat) event" where
  "typed_key flags k = \<lparr>event_type = NSKeyDown, location_point = 0, modifier_flags = flags, event_time = 0,
     window_num = 0, event_context = 0,
     event_data = \<lparr>word0 = 0, word1 = k, word2 = k, word3 = 0, word4 = 0, word5 = 0, word6 = 0\<rparr>\<rparr>"

lemma typed_key_event: "key_event_of (typed_key flags k) k k"
  by (simp add: key_event_of_def typed_key_def characters_def charactersIgnoringModifiers_def)

theorem input_tracks_witness:
  "\<exists>r. handleKeyboardEvents (\<lambda>k. [ucast k]) (Some (1 :: nat)) [typed_key 0 97, typed_key 0 98]
     (initWithName (\<lambda>_. None) None False None [] None) = Some r \<and> tracks (\<lambda>k. [ucast k]) (final r)"
proof -
  let ?s = "initWithName (\<lambda>_. None) None False None [] None :: (nat, nat, nat) manager"
  obtain r where r: "handleKeyboardEvents (\<lambda>k. [ucast k]) (Some 1) [typed_key 0 97, typed_key 0 98] ?s = Some r"
    using input_returns by blast
  have "reaches (\<lambda>k. [ucast k]) ?s (final r)" by (rule reaches_call[OF reaches_start r])
  from input_tracks[OF this] show ?thesis using r by blast
qed

subsection \<open>Bound sequences\<close>

text \<open>Keystrokes typed one after the other, each its own call.\<close>

fun type_keys ::
  "(64 word \<Rightarrow> unichar list) \<Rightarrow> 'c option \<Rightarrow> ('p, 't) event list \<Rightarrow>
   ('p, 't, 'c) manager \<Rightarrow> ('p, 't, 'c) manager pstep" where
  "type_keys contents client [] s = Some (Inr s)"
| "type_keys contents client (e # es) s =
     pbind (handleKeyboardEvents contents client [e] s) (type_keys contents client es)"

definition is_key_event :: "('p, 't) event \<Rightarrow> bool" where
  "is_key_event e \<longleftrightarrow> event_type e = NSKeyUp \<or> event_type e = NSKeyDown"

lemma handle_key:
  assumes "is_key_event e" and "currentClient s = client" and "\<not> interpretNextKeyStrokeLiterally s"
    and "recognise (fst (event_stroke contents e)) (snd (event_stroke contents e)) s = k" and "k \<noteq> Unbound"
  shows "handleKeyboardEvents contents client (e # es) s = Some (Inr
    (case k of
       Abort \<Rightarrow> resetInternalState s
     | Perform a \<Rightarrow> performAction a (resetInternalState s)
     | Continue t \<Rightarrow> s\<lparr>currentBindingTable := Some t, pendingKeyEvents := pendingKeyEvents s @ [e]\<rparr>
     | Unbound \<Rightarrow> s))"
proof -
  have "enter client s = s" using assms(2) by (simp add: enter_def)
  then show ?thesis
    using assms
    by (subst handleKeyboardEvents.simps)
      (auto simp: is_key_event_def event_stroke_def characters_def charactersIgnoringModifiers_def
        split: recognised.splits)
qed

lemma typed_sequence:
  assumes "list_all is_key_event es" and "currentClient s = client" and "\<not> interpretNextKeyStrokeLiterally s"
    and "currentBindingTable s = Some t" and "meaning t (map (event_stroke contents) es) = Some a"
    and "(abortCharacter s, abortFlags s) \<notin> set (map (event_stroke contents) es)"
  shows "type_keys contents client es s = Some (Inr (performAction a (resetInternalState s)))"
  using assms
proof (induction es arbitrary: s t)
  case (Cons e es)
  let ?k = "event_stroke contents e"
  have key: "is_key_event e" and no_abort: "\<not> (fst ?k = abortCharacter s \<and> snd ?k = abortFlags s)"
    using Cons.prems(1,6) by (auto simp: prod_eq_iff)
  consider "lookupKeyStroke (fst ?k) (snd ?k) t = Some (Some a, snd (the (lookupKeyStroke (fst ?k) (snd ?k) t)))" "es = []"
    | t' where "lookupKeyStroke (fst ?k) (snd ?k) t = Some (None, Some t')"
        "meaning t' (map (event_stroke contents) es) = Some a"
    using Cons.prems(5) by (auto split: option.splits if_splits)
  then show ?case
  proof cases
    case 1
    have "recognise (fst ?k) (snd ?k) s = Perform a"
      using no_abort Cons.prems(4) 1(1) by (auto simp: recognise_def split: option.splits)
    then show ?thesis
      using handle_key[OF key Cons.prems(2,3), of contents "Perform a" "[]"] 1(2) by simp
  next
    case 2
    have "recognise (fst ?k) (snd ?k) s = Continue t'"
      using no_abort Cons.prems(4) 2(1) by (auto simp: recognise_def)
    then show ?thesis
      using handle_key[OF key Cons.prems(2,3), of contents "Continue t'" "[]"] Cons.prems 2(2)
        Cons.IH[of "s\<lparr>currentBindingTable := Some t', pendingKeyEvents := pendingKeyEvents s @ [e]\<rparr>" t']
      by (simp add: resetInternalState_def)
  qed
qed simp

text \<open>C17: Typing a sequence of keystrokes that the loaded bindings bind to an action performs exactly
  this action, once, at its last keystroke: nothing else is sent to the client, and the manager is
  ready for the next sequence. The abort key must not be in the sequence.\<close>

theorem typed_binding:
  assumes "those (map (entry sel) d) = Some bs"
    and "fold (\<lambda>(ks, a). rebind ks a) bs (\<lambda>_. None) (map (event_stroke contents) es) = Some a"
    and "list_all is_key_event es"
    and "(abortCharacter s, abortFlags s) \<notin> set (map (event_stroke contents) es)"
    and "rootBindingTable s = loadBindings sel d (Table [])"
    and "currentBindingTable s = Some (rootBindingTable s)"
    and "currentClient s = client" and "\<not> interpretNextKeyStrokeLiterally s"
  shows "type_keys contents client es s = Some (Inr (performAction a (resetInternalState s)))"
proof -
  have "meaning (Table []) = (\<lambda>_ :: stroke list. None :: string key_action option)"
  proof
    show "meaning (Table []) ks = None" for ks :: "stroke list"
      by (cases ks) (simp_all add: lookupKeyStroke_def find_binding_def)
  qed
  moreover have "wf_table (Table [] :: string binding_table)" by (simp add: wf_table.simps)
  ultimately have "meaning (rootBindingTable s) (map (event_stroke contents) es) = Some a"
    using meaning_loaded[OF assms(1), of "Table []"] assms(2,5) by simp
  then show ?thesis
    using typed_sequence[OF assms(3,7,8,6) _ assms(4)] by blast
qed

lemma typed_strokes:
  "event_stroke (\<lambda>k. [ucast k]) (typed_key 0x40000 k) = (ucast k, 0x40000)"
  "event_stroke (\<lambda>k. [ucast k]) (typed_key 0 k) = (ucast k, 0)"
  "is_key_event (typed_key flags k)"
  by (simp_all add: event_stroke_def typed_key_def charactersIgnoringModifiers_def adapted_flags_def
      is_function_key_def key_flags_def first_character_def is_key_event_def)

definition manager_with :: "string binding_table \<Rightarrow> (nat, nat, nat) manager" where
  "manager_with t = \<lparr>rootBindingTable = t, currentBindingTable = Some t, pendingKeyEvents = [],
     interpretNextKeyStrokeLiterally = False, abortCharacter = 103, abortFlags = 0x40000,
     insertControlKeystrokes = False, currentClient = Some 1, sent = []\<rparr>"

theorem typed_binding_witness:
  "map_option (map_sum snd sent) (type_keys (\<lambda>k. [ucast k]) (Some 1)
       [typed_key 0x40000 120, typed_key 0x40000 115]
       (manager_with (loadBindings (\<lambda>_. Some ''save:'') [(save_key, PString (unichars ''save:''))] (Table [])))) =
     Some (Inr [DoCommand ''save:''])"
proof -
  let ?s = "manager_with (loadBindings (\<lambda>_. Some ''save:'') [(save_key, PString (unichars ''save:''))] (Table []))"
  have "type_keys (\<lambda>k. [ucast k]) (Some 1) [typed_key 0x40000 120, typed_key 0x40000 115] ?s =
      Some (Inr (performAction (ActionSelector ''save:'') (resetInternalState ?s)))"
    by (rule typed_binding[OF save_entry])
      (simp_all add: typed_strokes manager_with_def rebind_def)
  then show ?thesis by (simp add: emit_def resetInternalState_def manager_with_def)
qed

subsection \<open>Lost keystrokes\<close>

text \<open>When at least two events are pending and a keystroke comes that is not bound, and the second
  pending keystroke means something at the start of a sequence, the keystrokes after it are lost, the
  new one included: any two such keystrokes leave the manager in the same state.\<close>

lemma keystrokes_lost:
  assumes "pendingKeyEvents s = p # q # ps" and "is_key_event q"
    and "recognise (fst (event_stroke contents q)) (snd (event_stroke contents q)) (resetInternalState s) \<noteq> Unbound"
    and "currentClient s = client" and "\<not> interpretNextKeyStrokeLiterally s"
  shows "\<exists>r. \<forall>e. is_key_event e \<and>
      recognise (fst (event_stroke contents e)) (snd (event_stroke contents e)) s = Unbound \<longrightarrow>
      handleKeyboardEvents contents client [e] s = Some r"
proof -
  let ?handle = "handleKeyboardEvents contents client"
  obtain r where first: "?handle [p] (quoteNextKeyStroke (resetInternalState s)) = Some r"
    and inr: "\<And>t. r = Inr t \<Longrightarrow> pendingKeyEvents t = [] \<and> \<not> interpretNextKeyStrokeLiterally t \<and>
      currentBindingTable t = Some (rootBindingTable s) \<and> rootBindingTable t = rootBindingTable s \<and>
      currentClient t = client \<and> abortCharacter t = abortCharacter s \<and> abortFlags t = abortFlags s"
    using refeed[OF assms(4)] by blast
  have step: "?handle [e] s = pbind (Some r) (?handle (q # ps @ [e]))"
    if "is_key_event e" "recognise (fst (event_stroke contents e)) (snd (event_stroke contents e)) s = Unbound" for e
  proof -
    have "enter client s = s" using assms(4) by (simp add: enter_def)
    then show ?thesis
      using that assms(1,5) first
      by (subst handleKeyboardEvents.simps)
        (auto simp: is_key_event_def event_stroke_def characters_def charactersIgnoringModifiers_def)
  qed
  show ?thesis
  proof (cases r)
    case (Inl x)
    then show ?thesis using step by (intro exI[of _ "Inl x"]) auto
  next
    case (Inr t)
    let ?k = "recognise (fst (event_stroke contents q)) (snd (event_stroke contents q)) t"
    note t = inr[OF Inr]
    have "?k = recognise (fst (event_stroke contents q)) (snd (event_stroke contents q)) (resetInternalState s)"
      using t by (simp add: recognise_def resetInternalState_def)
    then have "?k \<noteq> Unbound" using assms(3) by simp
    note handled = handle_key[OF assms(2) _ _ refl this, of client]
    show ?thesis
      using step t handled unfolding Inr by (intro exI) auto
  qed
qed

definition astray :: "(nat, nat, nat) manager" where
  "astray = (manager_with (Table [Binding 115 0x40000 (Some (ActionSelector ''search:'')) None]))
     \<lparr>currentBindingTable := Some (Table []),
      pendingKeyEvents := [typed_key 0x40000 120, typed_key 0x40000 115, typed_key 0 99]\<rparr>"

lemma keystrokes_lost_example:
  "handleKeyboardEvents (\<lambda>k. [ucast k]) (Some 1) [typed_key 0 97] astray =
   handleKeyboardEvents (\<lambda>k. [ucast k]) (Some 1) [typed_key 0 98] astray"
proof -
  let ?c = "\<lambda>k :: 64 word. [ucast k :: unichar]"
  have "recognise (fst (event_stroke ?c (typed_key 0x40000 115))) (snd (event_stroke ?c (typed_key 0x40000 115)))
      (resetInternalState astray) \<noteq> Unbound"
    by (simp add: typed_strokes recognise_def astray_def manager_with_def resetInternalState_def
        lookupKeyStroke_def find_binding_def bound_at_def)
  moreover have "pendingKeyEvents astray = typed_key 0x40000 120 # typed_key 0x40000 115 # [typed_key 0 99]"
    and "currentClient astray = Some 1" and "\<not> interpretNextKeyStrokeLiterally astray"
    by (simp_all add: astray_def manager_with_def)
  moreover have "recognise (fst (event_stroke ?c (typed_key 0 k))) (snd (event_stroke ?c (typed_key 0 k))) astray = Unbound" for k
    by (simp add: typed_strokes recognise_def astray_def manager_with_def lookupKeyStroke_def find_binding_def)
  ultimately show ?thesis
    using keystrokes_lost[of astray _ "typed_key 0x40000 115" _ ?c "Some 1"] typed_strokes(3) by fastforce
qed

text \<open>
  The names of special characters such as \<open>Tab\<close> count as function keys when a binding is stored, so
  \<open>Shift-Tab\<close> is stored with the shift modifier. The keystroke of an event that is not a function key
  never has it.
\<close>

lemma shift_not_matched:
  assumes "\<not> is_function_key e"
  shows "stroke_of (unichars ''Shift-Tab'') \<noteq> Some (event_stroke contents e)"
proof -
  have "parseKey (unichars ''Shift-Tab'') = Some (9, 0x820000)"
    using tab_named by (simp add: parseKey_def modifier_flag_def)
  then have "stroke_of (unichars ''Shift-Tab'') = Some (9, 0x20000)"
    by (simp only: stroke_of_def stored_modifiers_def) simp
  moreover have "\<not> bit (snd (event_stroke contents e)) 17"
    using assms by (auto simp: event_stroke_def adapted_flags_def bit_simps split: sum.split)
  moreover have "bit (0x20000 :: 32 word) 17" by simp
  ultimately show ?thesis by (metis option.inject snd_conv)
qed

text \<open>
  The flags of an abort key with a name contain the function key flag, which the flags of an event are
  never compared with: such an abort key does not abort.
\<close>

lemma named_abort_ignored:
  assumes "abortFlags s AND ucast NSFunctionKeyMask \<noteq> 0"
  shows "recognise c (adapted_flags e) s \<noteq> Abort"
proof -
  have "\<not> bit (adapted_flags e) 23" by (auto simp: adapted_flags_def key_flags_def bit_simps)
  then have "adapted_flags e AND ucast NSFunctionKeyMask = 0"
    using and_power[of "adapted_flags e" 23] by simp
  then show ?thesis using assms by (auto simp: recognise_def split: option.split bind_split)
qed

end
