(* ===== verification/Spec2Isabelle.thy ===== *)
theory Spec2Isabelle
  imports SolverProps MatrixOps HiddenViews DataSource AttributedText StorageText GraphicsCurrent CodingFlags EventQueue Cells InputManager
begin

text \<open>
  GNUstep GUI (libs-gui): a model of parts of the AppKit classes under \<open>Source\<close> and \<open>Headers\<close>.

  The library is a set of Objective-C classes over the GNUstep base library and a display backend.
  This development models the parts whose behaviour is decided by the sources alone: data structures
  and the operations that keep them consistent, state machines that consume events, formats of
  archives, and dispatch tables. Each theory below holds the state of one part as a \<^theory_text>\<open>record\<close>, one
  definition per method, the invariant of the part with its preservation, and the properties, in that
  order. An exception is a value that carries the state the statements before it left, a loop that
  need not return is a \<^theory_text>\<open>partial_function\<close> with \<open>None\<close> for not returning, machine integers wrap
  where the code lets them. No fuel is used.

  \<^bold>\<open>Shared.\<close> \<open>Prelude\<close> has exceptions, the two shapes of results and their sequencing; \<open>Foundation\<close>
  has the arrays, ranges and index paths of the base library the sources use, with what they do out of
  range. \<open>CEnum\<close> evaluates the enumerations of the headers, \<open>BitFields\<close> lays out bit fields.

  \<^bold>\<open>Diffable data sources\<close> (\<open>Source/NSDiffableDataSource.m\<close>). \<open>Snapshot\<close>: the ordered sections with
  their items and every mutating method; sequences of calls keep the section array and the item
  dictionary in step, insertions, deletions and moves are described on the flattened contents.
  \<open>DataSource\<close>: the lookup table rebuilt from a snapshot and the queries of the collection view and
  the table view source; both are clients of the locale \<open>section_source\<close>, interpreted on the snapshot.

  \<^bold>\<open>Text\<close> (\<open>Source/NSTextStorage.m\<close>, \<open>Source/GSTextStorage.m\<close>, \<open>Source/NSAttributedString.m\<close>).
  \<open>TextEditing\<close>: the edit counter, the merged range and change of length, and the notifications sent
  at the outermost end of editing. \<open>TextRuns\<close>: the sorted array of runs and its binary search.
  \<open>TextStorage\<close>: attribute dictionaries counted in a shared table, \<open>setAttributes:range:\<close> and
  \<open>replaceCharactersInRange:withString:\<close> on the runs, each shown to implement the obvious operation on
  an abstract text (one attribute dictionary per character). \<open>AttributedText\<close>: the contract of the
  storage and of whole edit sessions. \<open>WordScan\<close>: words, line breaks and double clicks. \<open>AttrEdit\<close>: the
  methods added to attributed strings. \<open>AttrText\<close>: the contract between these methods and a storage,
  as the locales \<open>attributed_text\<close> and \<open>partitioned_text\<close>. \<open>StorageText\<close>: the storage interprets them.

  \<^bold>\<open>Graphics contexts\<close> (\<open>Headers/Additions/GNUstepGUI/GSMethodTable.h\<close>, \<open>Headers/AppKit/DPSOperators.h\<close>,
  \<open>PSOperators.h\<close>, \<open>Source/NSGraphicsContext.m\<close>). \<open>GraphicsTable\<close>: the method table, how it is filled,
  and the signatures of operators. \<open>GraphicsOps\<close>: the operators as functions. \<open>GraphicsDispatch\<close>: every
  operator calls the method of its name with its arguments, through a member of the right type.
  \<open>GraphicsCurrent\<close>: operators without a context act on the current one of the thread, all but
  \<open>PSPrintf\<close> and three that are empty; saving and restoring contexts.

  \<^bold>\<open>Flag words\<close> (\<open>Source/GSCodingFlags.h\<close>, \<open>GSNibLoading.h\<close>). \<open>CodingFlags\<close>: the bit fields of the
  keyed archives and that their two layouts agree on the word they share.

  \<^bold>\<open>Events\<close> (\<open>Headers/AppKit/NSEvent.h\<close>, \<open>Source/NSEvent.m\<close>, \<open>Source/GSDisplayServer.m\<close>,
  \<open>Source/NSWindow.m\<close>). \<open>Events\<close>: types, masks, the event object, its constructors, accessors and
  archive. \<open>EventQueue\<close>: which event a call with a mask gets, when it returns, what is discarded.

  \<^bold>\<open>Keyboard input\<close> (\<open>Source/NSInputManager.m\<close>, \<open>GSKeyBindingTable.m\<close>, \<open>GSKeyBindingAction.m\<close>).
  \<open>Keystrokes\<close>: names of keystrokes, parsing and description. \<open>KeyBindings\<close>: nested tables of bindings
  refine a map from sequences of keystrokes to actions. \<open>InputManager\<close>: the state machine that follows
  pending keystrokes through the tables, the literal mode and the refeeding of abandoned sequences.

  \<^bold>\<open>Views\<close> (\<open>Source/NSView.m\<close>, \<open>NSWindow.m\<close>, \<open>NSResponder.m\<close>). \<open>ViewTree\<close>: superviews, subviews,
  windows and next responders, and what a walk over a subtree does. \<open>ViewOps\<close>: adding, replacing,
  setting and removing subviews on well formed hierarchies, shared ancestors, sequences of calls.
  \<open>KeyViews\<close>: the links of the key view chain in both directions. \<open>HiddenViews\<close>: visibility and its
  notifications, the search for a key view.

  \<^bold>\<open>Cells\<close> (\<open>Headers/AppKit/NSCell.h\<close>, \<open>Source/NSCell.m\<close>). \<open>Cells\<close>: the flags of a cell, the setters that
  keep them consistent, and their words in a keyed archive.

  \<^bold>\<open>Matrices\<close> (\<open>Headers/AppKit/NSMatrix.h\<close>, \<open>Source/NSMatrix.m\<close>). \<open>MatrixGrid\<close>: the arrays of cells
  and selection flags and the operations on them. \<open>MatrixSelect\<close>: the selection that follows the mouse
  visits only the cells that change and ends like the plain one. \<open>MatrixOps\<close>: the calls that select
  keep the selection consistent; what inserting and removing rows does to it.

  \<^bold>\<open>Constraint solver\<close> of auto layout (\<open>Source/GSCassowarySolver.m\<close>, \<open>GSCSTableau.m\<close>,
  \<open>GSCSLinearExpression.m\<close>, \<open>GSCSConstraint.m\<close>). \<open>LinearExpr\<close>: variables, expressions and their values.
  \<open>Tableau\<close>: rows, columns and pivots; \<open>TableauRows\<close> and \<open>TableauPivot\<close>: substitution and pivots keep rows
  and columns in step and, where nothing is rounded or dropped, the solutions. \<open>Constraints\<close>: the
  constructors. \<open>Solver\<close>: all methods of the solver. \<open>SolverInv\<close>: any calls keep the tableau well formed.
  \<open>SolverOptimize\<close>: the ratio test keeps a tableau feasible, a loop that ends has found a minimum.
  \<open>SolverAdd\<close>: a required constraint is added to the solutions; what the constructors mean. \<open>SolverEdit\<close>:
  what a suggested value does. \<open>SolverProps\<close>: the properties. Numbers are rationals, the rounding of every
  result to \<open>double\<close> or \<open>float\<close> is a parameter, as is the order in which sets are enumerated; results that
  would be infinite or not a number are \<open>None\<close>, like loops that do not return.

  \<^bold>\<open>Parameters.\<close> Code outside the sources is an argument of the definitions that use it: the methods of
  a backend's graphics context, the clock and the run loop of the event queue, the answers of
  responders, \<open>NSSelectorFromString\<close>, the character properties of strings, the blocks of clients. What
  the proofs need of them are hypotheses of the lemmas or \<^theory_text>\<open>assumes\<close> of the locales. Clients do not call
  the input manager or a view back from inside a notification. Words are laid out for little endian
  machines with 64 bit pointers; \<open>CodingFlags\<close> also covers the big endian layout.

  \<^bold>\<open>Not modelled.\<close> Drawing, coordinates and the window server: their state lives in the backend. Fonts,
  glyphs and layout: they depend on metrics of fonts. Themes and images: drawing code and wrappers of
  image libraries. Loading of interface files: glue between the archivers of the base library and the
  classes. Memory management appears only where it is the point, as the counts of the attribute table
  and the links a deallocated view leaves.
\<close>

end
